(* ===== verification/Prelude.thy ===== *)
theory Prelude
  imports Main "HOL-Library.Word" "HOL-Library.AList" "HOL-Library.Sublist"
begin

text \<open>
  Shared vocabulary of the development: machine integers and the checked and saturating
  arithmetic of the Rust standard library, byte strings with the string routines the code calls
  (trimming, decimal parsing and printing, prefixes), big-endian encodings, results as sums,
  and the generic list lemmas the components share.

  A Rust string is modelled by its UTF-8 bytes, a \<open>char list\<close>: \<open>length\<close> is Rust's \<open>len()\<close>.
\<close>

section \<open>Collections of facts\<close>

named_theorems rust_defs \<open>definitions of the standard-library routines\<close>
named_theorems result_iff \<open>when a chain of fallible steps succeeds or fails\<close>

section \<open>Machine integers\<close>

type_synonym u8 = "8 word"
type_synonym u32 = "32 word"
type_synonym u64 = "64 word"
type_synonym bytes = "u8 list"

text \<open>\<open>a.saturating_sub(b)\<close>, \<open>a.checked_add(b)\<close> and \<open>a.checked_sub(b)\<close> on \<open>u64\<close>.\<close>

definition sat_sub :: "u64 \<Rightarrow> u64 \<Rightarrow> u64" where
  "sat_sub a b = (if a < b then 0 else a - b)"

definition sat_add :: "u64 \<Rightarrow> u64 \<Rightarrow> u64" where
  "sat_add a b = (if unat a + unat b < 2 ^ 64 then a + b else - 1)"

definition checked_add :: "u64 \<Rightarrow> u64 \<Rightarrow> u64 option" where
  "checked_add a b = (if unat a + unat b < 2 ^ 64 then Some (a + b) else None)"

definition checked_sub :: "u64 \<Rightarrow> u64 \<Rightarrow> u64 option" where
  "checked_sub a b = (if a < b then None else Some (a - b))"

lemma unat_u64_lt [simp]: "unat (a :: u64) < 18446744073709551616"
  using unsigned_less [of a] by simp

lemma of_nat_u64_inject:
  assumes "a < 2 ^ 64" "b < 2 ^ 64" shows "(of_nat a :: u64) = of_nat b \<longleftrightarrow> a = b"
proof
  assume "(of_nat a :: u64) = of_nat b"
  then have "unat (of_nat a :: u64) = unat (of_nat b :: u64)" by simp
  with assms show "a = b" by (simp add: unat_of_nat take_bit_eq_mod)
qed simp

lemma unat_sat_sub: "unat (sat_sub a b) = unat a - unat b"
  by (simp add: sat_sub_def unat_sub word_less_nat_alt word_le_nat_alt linorder_not_less)

lemma checked_add_SomeD: "checked_add a b = Some c \<Longrightarrow> unat c = unat a + unat b"
  by (auto simp: checked_add_def unat_word_ariths split: if_splits)

lemma checked_add_Some_iff: "checked_add a b = Some c \<longleftrightarrow> unat c = unat a + unat b"
proof
  assume "unat c = unat a + unat b"
  moreover from this have "unat a + unat b < 18446744073709551616"
    by (metis unat_u64_lt)
  ultimately show "checked_add a b = Some c"
    by (simp add: checked_add_def word_unat_eq_iff unat_word_ariths)
qed (rule checked_add_SomeD)

lemma checked_sub_Some_iff: "checked_sub a b = Some c \<longleftrightarrow> unat a = unat b + unat c"
proof -
  have "b \<le> a \<Longrightarrow> unat (a - b) = unat a - unat b"
    by (simp add: unat_sub)
  then show ?thesis
    by (auto simp: checked_sub_def word_less_nat_alt word_le_nat_alt word_unat_eq_iff linorder_not_less)
qed

lemma u64_add_one_neq: "(a :: u64) \<noteq> a + 1"
  by simp

section \<open>Results\<close>

text \<open>A fallible operation returns \<open>'e + 'a\<close>: \<open>Inl\<close> the error, \<open>Inr\<close> the value.\<close>

definition bind_result :: "'e + 'a \<Rightarrow> ('a \<Rightarrow> 'e + 'b) \<Rightarrow> 'e + 'b" where
  "bind_result m f = (case m of Inl e \<Rightarrow> Inl e | Inr x \<Rightarrow> f x)"

lemma bind_result_simps [simp]:
  "bind_result (Inl e) f = Inl e"
  "bind_result (Inr x) f = f x"
  by (simp_all add: bind_result_def)

lemma bind_result_Inr_iff [result_iff]:
  "bind_result m f = Inr y \<longleftrightarrow> (\<exists>x. m = Inr x \<and> f x = Inr y)"
  by (cases m) auto

lemma bind_result_Inl_iff [result_iff]:
  "bind_result m f = Inl e \<longleftrightarrow> m = Inl e \<or> (\<exists>x. m = Inr x \<and> f x = Inl e)"
  by (cases m) auto

definition ok_or :: "'e \<Rightarrow> 'a option \<Rightarrow> 'e + 'a" where
  "ok_or e x = (case x of None \<Rightarrow> Inl e | Some v \<Rightarrow> Inr v)"

lemma ok_or_simps [simp]: "ok_or e None = Inl e" "ok_or e (Some v) = Inr v"
  by (simp_all add: ok_or_def)

lemma ok_or_Inr_iff [result_iff]: "ok_or e x = Inr v \<longleftrightarrow> x = Some v"
  by (cases x) auto

definition is_ok :: "'e + 'a \<Rightarrow> bool" where
  "is_ok r = (case r of Inl _ \<Rightarrow> False | Inr _ \<Rightarrow> True)"

lemma is_ok_simps [simp]: "\<not> is_ok (Inl e)" "is_ok (Inr x)"
  by (simp_all add: is_ok_def)

lemma is_ok_iff: "is_ok r \<longleftrightarrow> (\<exists>x. r = Inr x)"
  by (cases r) auto

section \<open>Strings\<close>

definition starts_with :: "'a list \<Rightarrow> 'a list \<Rightarrow> bool" where
  "starts_with p s \<longleftrightarrow> take (length p) s = p"

lemma starts_with_iff: "starts_with p s \<longleftrightarrow> (\<exists>r. s = p @ r)"
  unfolding starts_with_def by (metis append_eq_conv_conj append_take_drop_id)

lemma starts_with_append [simp]: "starts_with p (p @ r)"
  by (simp add: starts_with_def)

definition ends_with :: "'a list \<Rightarrow> 'a list \<Rightarrow> bool" where
  "ends_with p s \<longleftrightarrow> starts_with (rev p) (rev s)"

definition strip_prefix :: "'a list \<Rightarrow> 'a list \<Rightarrow> 'a list option" where
  "strip_prefix p s = (if starts_with p s then Some (drop (length p) s) else None)"

lemma strip_prefix_Some_iff: "strip_prefix p s = Some r \<longleftrightarrow> s = p @ r"
  by (auto simp: strip_prefix_def starts_with_iff)

text \<open>\<open>s.contains(t)\<close>.\<close>

fun str_contains :: "'a list \<Rightarrow> 'a list \<Rightarrow> bool" where
  "str_contains t [] = (t = [])"
| "str_contains t (c # s) = (starts_with t (c # s) \<or> str_contains t s)"

lemma str_contains_iff: "str_contains t s \<longleftrightarrow> (\<exists>a b. s = a @ t @ b)"
proof (induction s)
  case (Cons c s)
  show ?case
  proof
    assume "str_contains t (c # s)"
    then consider r where "c # s = t @ r" | a b where "s = a @ t @ b"
      using Cons by (auto simp: starts_with_iff)
    then show "\<exists>a b. c # s = a @ t @ b"
      by cases (metis append_Nil, metis append_Cons)
  next
    assume "\<exists>a b. c # s = a @ t @ b"
    then obtain a b where "c # s = a @ t @ b" by blast
    then have "starts_with t (c # s) \<or> (\<exists>a b. s = a @ t @ b)"
      by (cases a) (auto simp: starts_with_iff)
    then show "str_contains t (c # s)" using Cons by auto
  qed
qed simp

text \<open>
  The UTF-8 encodings of the characters with the Unicode property \<open>White_Space\<close>, which
  \<open>str::trim\<close> removes at both ends.
\<close>

definition unicode_ws :: "string list" where
  "unicode_ws = map (map (char_of :: nat \<Rightarrow> char))
     [[9], [10], [11], [12], [13], [32], [194, 133], [194, 160], [225, 154, 128],
      [226, 128, 128], [226, 128, 129], [226, 128, 130], [226, 128, 131], [226, 128, 132],
      [226, 128, 133], [226, 128, 134], [226, 128, 135], [226, 128, 136], [226, 128, 137],
      [226, 128, 138], [226, 128, 168], [226, 128, 169], [226, 128, 175], [226, 129, 159],
      [227, 128, 128]]"

function strip_any :: "'a list list \<Rightarrow> 'a list \<Rightarrow> 'a list" where
  "strip_any ws s =
     (case find (\<lambda>w. w \<noteq> [] \<and> starts_with w s) ws of
        None \<Rightarrow> s
      | Some w \<Rightarrow> strip_any ws (drop (length w) s))"
  by pat_completeness auto
termination
proof (relation "measure (\<lambda>(ws, s). length s)")
  fix ws :: "'a list list" and s w
  assume "find (\<lambda>w. w \<noteq> [] \<and> starts_with w s) ws = Some w"
  then have "w \<noteq> []" "starts_with w s" by (auto simp: find_Some_iff)
  then show "((ws, drop (length w) s), ws, s) \<in> measure (\<lambda>(ws, s). length s)"
    by (auto simp: starts_with_iff)
qed simp

declare strip_any.simps [simp del]

definition trim :: "string \<Rightarrow> string" where
  "trim s = rev (strip_any (map rev unicode_ws) (rev (strip_any unicode_ws s)))"

lemma strip_any_id: "(\<And>w. w \<in> set ws \<Longrightarrow> w \<noteq> [] \<Longrightarrow> \<not> starts_with w s) \<Longrightarrow> strip_any ws s = s"
  by (subst strip_any.simps) (auto split: option.split simp: find_Some_iff)

text \<open>Printable ASCII without the blank is never trimmed.\<close>

definition is_graphic :: "char \<Rightarrow> bool" where
  "is_graphic c \<longleftrightarrow> 33 \<le> (of_char c :: nat) \<and> (of_char c :: nat) \<le> 126"

lemma starts_with_Cons [simp]:
  "starts_with [] s" "starts_with (x # xs) (c # s) \<longleftrightarrow> x = c \<and> starts_with xs s"
  by (auto simp: starts_with_def)

lemma unicode_ws_heads:
  assumes "w \<in> set unicode_ws" shows "w \<noteq> [] \<and> \<not> is_graphic (hd w) \<and> \<not> is_graphic (last w)"
proof -
  have "list_all (\<lambda>w. w \<noteq> [] \<and> \<not> is_graphic (hd w) \<and> \<not> is_graphic (last w)) unicode_ws"
    by (simp add: unicode_ws_def is_graphic_def)
  with assms show ?thesis by (simp add: list_all_iff)
qed

lemma trim_graphic:
  assumes "s \<noteq> []" "is_graphic (hd s)" "is_graphic (last s)"
  shows "trim s = s"
proof -
  have "strip_any unicode_ws s = s"
    by (rule strip_any_id) (use assms unicode_ws_heads in \<open>auto simp: starts_with_iff\<close>)
  moreover have "strip_any (map rev unicode_ws) (rev s) = rev s"
  proof (rule strip_any_id)
    fix w :: string
    assume "w \<in> set (map rev unicode_ws)"
    then obtain v where v: "w = rev v" "v \<in> set unicode_ws" by auto
    show "\<not> starts_with w (rev s)"
    proof
      assume "starts_with w (rev s)"
      then obtain r where "s = rev r @ v" using v by (auto simp: starts_with_iff rev_eq_append_conv)
      then have "last s = last v" using unicode_ws_heads [OF v(2)] by simp
      then show False using assms(3) unicode_ws_heads [OF v(2)] by simp
    qed
  qed
  ultimately show ?thesis by (simp add: trim_def)
qed

definition is_hex_digit :: "char \<Rightarrow> bool" where
  "is_hex_digit c \<longleftrightarrow>
     (let n = of_char c :: nat in 48 \<le> n \<and> n \<le> 57 \<or> 65 \<le> n \<and> n \<le> 70 \<or> 97 \<le> n \<and> n \<le> 102)"

text \<open>
  \<open>char::is_control\<close> on UTF-8 bytes: the C0 controls, DEL, and the C1 controls, which are the
  byte 0xC2 followed by one of 0x80 to 0x9F.
\<close>

fun has_control :: "string \<Rightarrow> bool" where
  "has_control [] = False"
| "has_control (c # s) =
     ((of_char c :: nat) < 32 \<or> (of_char c :: nat) = 127 \<or>
      (of_char c :: nat) = 194 \<and> s \<noteq> [] \<and> 128 \<le> (of_char (hd s) :: nat) \<and> (of_char (hd s) :: nat) \<le> 159 \<or>
      has_control s)"

lemma no_control_append:
  "list_all (\<lambda>c. 32 \<le> (of_char c :: nat) \<and> (of_char c :: nat) < 127) s \<Longrightarrow> has_control (s @ t) = has_control t"
  by (induction s) auto

subsection \<open>Decimal numbers\<close>

definition is_digit :: "char \<Rightarrow> bool" where
  "is_digit c \<longleftrightarrow> 48 \<le> (of_char c :: nat) \<and> (of_char c :: nat) \<le> 57"

definition parse_dec :: "string \<Rightarrow> nat option" where
  "parse_dec s =
     (if s \<noteq> [] \<and> list_all is_digit s
      then Some (foldl (\<lambda>a c. a * 10 + (of_char c - 48)) 0 s) else None)"

text \<open>\<open>s.parse::<u64>()\<close>: one optional \<open>+\<close>, at least one digit, an error on overflow.\<close>

definition parse_u64 :: "string \<Rightarrow> u64 option" where
  "parse_u64 s =
     (case parse_dec (case s of [] \<Rightarrow> [] | c # r \<Rightarrow> if c = CHR ''+'' then r else s) of
        None \<Rightarrow> None
      | Some n \<Rightarrow> if n < 2 ^ 64 then Some (of_nat n) else None)"

text \<open>The decimal digits \<open>format!("{n}")\<close> prints.\<close>

fun dec :: "nat \<Rightarrow> string" where
  "dec n = (if n < 10 then [char_of (48 + n)] else dec (n div 10) @ [char_of (48 + n mod 10)])"

declare dec.simps [simp del]

lemma is_digit_char_of [simp]: "(n :: nat) < 10 \<Longrightarrow> is_digit (char_of (48 + n))"
  by (simp add: is_digit_def)

lemma dec_nonempty [simp]: "dec n \<noteq> []"
  by (subst dec.simps) simp

lemma dec_digits: "list_all is_digit (dec n)"
proof (induction n rule: dec.induct)
  case (1 n)
  then show ?case by (subst dec.simps) simp
qed

lemma dec_value: "foldl (\<lambda>a c. a * 10 + (of_char c - 48)) 0 (dec n) = (n :: nat)"
proof (induction n rule: dec.induct)
  case (1 n)
  then show ?case by (subst dec.simps) simp
qed

lemma parse_dec_dec [simp]: "parse_dec (dec n) = Some n"
  by (simp add: parse_dec_def dec_digits dec_value)

lemma dec_inject [simp]: "dec m = dec n \<longleftrightarrow> m = n"
  by (metis parse_dec_dec option.inject)

lemma hd_dec_digit: "is_digit (hd (dec n))"
  using dec_digits [of n] dec_nonempty [of n] by (metis list.pred_set list.set_sel(1))

lemma last_dec_digit: "is_digit (last (dec n))"
  using dec_digits [of n] dec_nonempty [of n] by (metis list.pred_set last_in_set)

lemma parse_u64_dec [simp]: "parse_u64 (dec (unat w)) = Some w"
proof -
  have "hd (dec (unat w)) \<noteq> CHR ''+''"
    using hd_dec_digit [of "unat w"] by (auto simp: is_digit_def)
  then have "(case dec (unat w) of [] \<Rightarrow> [] | c # r \<Rightarrow> if c = CHR ''+'' then r else dec (unat w)) = dec (unat w)"
    by (cases "dec (unat w)") auto
  then show ?thesis by (simp add: parse_u64_def)
qed

section \<open>Big-endian encodings\<close>

fun be_bytes :: "nat \<Rightarrow> nat \<Rightarrow> bytes" where
  "be_bytes 0 n = []"
| "be_bytes (Suc k) n = be_bytes k (n div 256) @ [of_nat (n mod 256)]"

definition be_value :: "bytes \<Rightarrow> nat" where
  "be_value bs = foldl (\<lambda>a b. a * 256 + unat b) 0 bs"

definition u64_be :: "u64 \<Rightarrow> bytes" where "u64_be w = be_bytes 8 (unat w)"
definition u32_be :: "u32 \<Rightarrow> bytes" where "u32_be w = be_bytes 4 (unat w)"

lemma length_be_bytes [simp]: "length (be_bytes k n) = k"
  by (induction k arbitrary: n) auto

lemma be_value_be_bytes: "be_value (be_bytes k n) = n mod 256 ^ k"
proof (induction k arbitrary: n)
  case (Suc k)
  have "unat (of_nat (n mod 256) :: u8) = n mod 256"
    by (simp add: unat_of_nat)
  moreover have "n div 256 mod 256 ^ k * 256 + n mod 256 = n mod 256 ^ Suc k"
    by (metis mod_mult2_eq power_Suc mult.commute add.commute)
  ultimately show ?case
    using Suc [of "n div 256"] by (simp add: be_value_def)
qed (simp add: be_value_def)

lemma length_u64_be [simp]: "length (u64_be w) = 8" by (simp add: u64_be_def)
lemma length_u32_be [simp]: "length (u32_be w) = 4" by (simp add: u32_be_def)

lemma u64_be_inject [simp]: "u64_be a = u64_be b \<longleftrightarrow> a = b"
proof
  assume "u64_be a = u64_be b"
  then have "unat a mod 256 ^ 8 = unat b mod 256 ^ 8"
    unfolding u64_be_def by (metis be_value_be_bytes)
  then show "a = b" by (simp add: word_unat_eq_iff)
qed simp

lemma u32_be_inject [simp]: "u32_be a = u32_be b \<longleftrightarrow> a = b"
proof
  assume "u32_be a = u32_be b"
  then have "unat a mod 256 ^ 4 = unat b mod 256 ^ 4"
    unfolding u32_be_def by (metis be_value_be_bytes)
  moreover have "unat a < 4294967296" "unat b < 4294967296"
    using unsigned_less [of a] unsigned_less [of b] by simp_all
  ultimately show "a = b" by (simp add: word_unat_eq_iff)
qed simp

section \<open>Lists\<close>

lemma prefix_fold_snoc:
  assumes "\<And>s x. prefix (f s) (f (g x s))"
  shows "prefix (f s) (f (fold g xs s))"
  by (induction xs arbitrary: s) (auto intro: assms prefix_order.trans)

lemma map_of_filter_distinct:
  "distinct (map fst al) \<Longrightarrow>
   map_of (filter P al) k = (case map_of al k of None \<Rightarrow> None | Some v \<Rightarrow> if P (k, v) then Some v else None)"
  by (induction al) (auto split: option.split simp: map_of_eq_None_iff rev_image_eqI)

lemma distinct_map_fst_filter: "distinct (map fst al) \<Longrightarrow> distinct (map fst (filter P al))"
  by (induction al) (auto)

lemma length_update_le: "length (AList.update k v al) \<le> Suc (length al)"
  by (induction al) auto

lemma length_update_mem: "k \<in> fst ` set al \<Longrightarrow> length (AList.update k v al) = length al"
  by (induction al) auto

lemma update_new: "map_of al k = None \<Longrightarrow> AList.update k v al = al @ [(k, v)]"
  by (induction al) (auto split: if_splits)

text \<open>A table searched for the first match, as in \<open>for r in TABLE { if hit { return Err(..) } }\<close>.\<close>

lemma find_distinct: "x \<in> set xs \<Longrightarrow> distinct (map f xs) \<Longrightarrow> find (\<lambda>y. f y = f x) xs = Some x"
  by (induction xs) (auto simp: image_iff)

lemma find_case_Inr [result_iff]:
  "(case find P xs of Some x \<Rightarrow> Inl (f x) | None \<Rightarrow> rest) = Inr y \<longleftrightarrow> (\<forall>x \<in> set xs. \<not> P x) \<and> rest = Inr y"
  by (induction xs) auto

end
