(* ===== verification/PathGuard.thy ===== *)
theory PathGuard
  imports Prelude
begin

text \<open>
  The default-deny path check (\<open>agent-guard/src/lib.rs\<close>) on a Unix file system. A path is its list
  of components, which is how the code and the standard library compare and walk paths; the file
  system is a record of what \<open>symlink_metadata\<close> and \<open>read_link\<close> return at the time of the check,
  and the Unicode normalisation of the external crate is the parameter \<open>norm\<close>. A denial is its
  category; the reason texts are left out.
\<close>

section \<open>Paths\<close>

datatype comp = RootDir | CurDir | ParentDir | Normal string

type_synonym path = "comp list"

fun split_on :: "'a \<Rightarrow> 'a list \<Rightarrow> 'a list list" where
  "split_on d [] = [[]]"
| "split_on d (c # s) =
     (if c = d then [] # split_on d s
      else case split_on d s of [] \<Rightarrow> [[c]] | w # ws \<Rightarrow> (c # w) # ws)"

definition comp_of :: "string \<Rightarrow> comp" where
  "comp_of s = (if s = ''.'' then CurDir else if s = ''..'' then ParentDir else Normal s)"

text \<open>\<open>Path::components\<close>: repeated separators and inner dots vanish, a leading dot stays.\<close>

definition components :: "string \<Rightarrow> path" where
  "components s =
     (let cs = map comp_of (filter (\<lambda>p. p \<noteq> []) (split_on CHR ''/'' s))
      in if starts_with ''/'' s then RootDir # filter (\<lambda>c. c \<noteq> CurDir) cs
         else case cs of [] \<Rightarrow> [] | c # r \<Rightarrow> c # filter (\<lambda>c. c \<noteq> CurDir) r)"

definition has_root :: "path \<Rightarrow> bool" where
  "has_root p \<longleftrightarrow> (case p of RootDir # _ \<Rightarrow> True | _ \<Rightarrow> False)"

definition join :: "path \<Rightarrow> path \<Rightarrow> path" where
  "join p q =
     (if has_root q then q else if p = [] then q
      else p @ (case q of CurDir # r \<Rightarrow> r | _ \<Rightarrow> q))"

definition pop :: "path \<Rightarrow> path" where
  "pop p = (if p = [] \<or> last p = RootDir then p else butlast p)"

definition push :: "path \<Rightarrow> comp \<Rightarrow> path" where
  "push p c = (if c = RootDir then [RootDir] else p @ [c])"

definition file_name :: "path \<Rightarrow> string option" where
  "file_name p = (if p = [] then None else case last p of Normal s \<Rightarrow> Some s | _ \<Rightarrow> None)"

section \<open>The deny list\<close>

datatype deny_category =
    Credentials | Keychain | BrowserProfile | WalletStorage | CitrateAppData | ShellHistory
  | DotEnv | SystemPath | Malformed | Unresolvable

datatype anchor = RootAnchor | Anywhere

record rule =
  category :: deny_category
  rule_anchor :: anchor
  rule_run :: "string list"

definition any :: "deny_category \<Rightarrow> string list \<Rightarrow> rule" where
  "any c r = \<lparr>category = c, rule_anchor = Anywhere, rule_run = r\<rparr>"

definition root_rule :: "string list \<Rightarrow> rule" where
  "root_rule r = \<lparr>category = SystemPath, rule_anchor = RootAnchor, rule_run = r\<rparr>"

definition RULES :: "rule list" where
  "RULES =
     [any Credentials [''.ssh''], any Credentials [''.gnupg''], any Credentials [''.aws''],
      any Credentials [''.azure''], any Credentials [''.kube''],
      any Credentials [''.config'', ''gcloud''], any Credentials [''.docker'', ''config.json''],
      any Credentials [''.netrc''], any Credentials [''_netrc''], any Credentials [''.npmrc''],
      any Credentials [''.pypirc''], any Credentials [''.git-credentials''],
      any Credentials [''.config'', ''gh''], any Credentials [''.config'', ''hub''],
      any Credentials [''.cargo'', ''credentials''], any Credentials [''.cargo'', ''credentials.toml''],
      any Credentials [''.terraform.d'', ''credentials.tfrc.json''],
      any Credentials [''.password-store''], any Keychain [''library'', ''keychains''],
      any Keychain [''.local'', ''share'', ''keyrings''], any Keychain [''.gnome2'', ''keyrings''],
      any Keychain [''.local'', ''share'', ''kwalletd''],
      any Keychain [''.kde'', ''share'', ''apps'', ''kwallet''],
      any Keychain [''.kde4'', ''share'', ''apps'', ''kwallet''],
      any Keychain [''appdata'', ''roaming'', ''microsoft'', ''credentials''],
      any Keychain [''appdata'', ''local'', ''microsoft'', ''credentials''],
      any Keychain [''appdata'', ''roaming'', ''microsoft'', ''protect''],
      any Keychain [''appdata'', ''roaming'', ''microsoft'', ''vault''],
      any Keychain [''appdata'', ''local'', ''microsoft'', ''vault''],
      any BrowserProfile [''library'', ''application support'', ''google'', ''chrome''],
      any BrowserProfile [''library'', ''application support'', ''google'', ''chrome beta''],
      any BrowserProfile [''library'', ''application support'', ''google'', ''chrome canary''],
      any BrowserProfile [''library'', ''application support'', ''chromium''],
      any BrowserProfile [''library'', ''application support'', ''bravesoftware''],
      any BrowserProfile [''library'', ''application support'', ''microsoft edge''],
      any BrowserProfile [''library'', ''application support'', ''firefox''],
      any BrowserProfile [''library'', ''application support'', ''arc''],
      any BrowserProfile [''library'', ''application support'', ''vivaldi''],
      any BrowserProfile [''library'', ''application support'', ''com.operasoftware.opera''],
      any BrowserProfile [''library'', ''safari''],
      any BrowserProfile [''library'', ''containers'', ''com.apple.safari''],
      any BrowserProfile [''library'', ''cookies''], any BrowserProfile [''.config'', ''google-chrome''],
      any BrowserProfile [''.config'', ''google-chrome-beta''],
      any BrowserProfile [''.config'', ''chromium''], any BrowserProfile [''.config'', ''bravesoftware''],
      any BrowserProfile [''.config'', ''microsoft-edge''], any BrowserProfile [''.config'', ''vivaldi''],
      any BrowserProfile [''.config'', ''opera''], any BrowserProfile [''.mozilla''],
      any BrowserProfile [''snap'', ''chromium''], any BrowserProfile [''snap'', ''firefox''],
      any BrowserProfile [''.var'', ''app'', ''org.mozilla.firefox''],
      any BrowserProfile [''.var'', ''app'', ''com.google.chrome''],
      any BrowserProfile [''.var'', ''app'', ''com.brave.browser''],
      any BrowserProfile [''appdata'', ''local'', ''google'', ''chrome''],
      any BrowserProfile [''appdata'', ''local'', ''chromium''],
      any BrowserProfile [''appdata'', ''local'', ''bravesoftware''],
      any BrowserProfile [''appdata'', ''local'', ''microsoft'', ''edge''],
      any BrowserProfile [''appdata'', ''local'', ''vivaldi''],
      any BrowserProfile [''appdata'', ''roaming'', ''opera software''],
      any BrowserProfile [''appdata'', ''roaming'', ''mozilla''],
      any BrowserProfile [''appdata'', ''local'', ''mozilla''],
      any WalletStorage [''local extension settings''], any WalletStorage [''sync extension settings''],
      any WalletStorage [''managed extension settings''], any WalletStorage [''.ethereum'', ''keystore''],
      any WalletStorage [''library'', ''ethereum'', ''keystore''],
      any WalletStorage [''.foundry'', ''keystores''], any WalletStorage [''.citrate-wallet''],
      any WalletStorage [''.electrum''],
      any WalletStorage [''library'', ''application support'', ''exodus''],
      any WalletStorage [''.bitcoin'', ''wallets''],
      any WalletStorage [''library'', ''application support'', ''bitcoin'', ''wallets''],
      any CitrateAppData [''.citrate'', ''noise''], any CitrateAppData [''.citrate'', ''proposer''],
      any CitrateAppData [''.citrate'', ''keystore''], any CitrateAppData [''.citrate'', ''node''],
      any ShellHistory [''.zsh_history''], any ShellHistory [''.bash_history''],
      any ShellHistory [''.sh_history''], any ShellHistory [''.ksh_history''],
      any ShellHistory [''.history''], any ShellHistory [''fish_history''],
      any ShellHistory [''.zsh_sessions''], any ShellHistory [''.bash_sessions''],
      any ShellHistory [''.python_history''], any ShellHistory [''.node_repl_history''],
      any ShellHistory [''.psql_history''], any ShellHistory [''.mysql_history''],
      any ShellHistory [''.sqlite_history''], any ShellHistory [''.rediscli_history''],
      any ShellHistory [''.irb_history''], any ShellHistory [''.lesshst''],
      any ShellHistory [''consolehost_history.txt''], root_rule [''etc'', ''shadow''],
      root_rule [''etc'', ''shadow-''], root_rule [''etc'', ''gshadow''],
      root_rule [''etc'', ''gshadow-''], root_rule [''etc'', ''master.passwd''],
      root_rule [''etc'', ''sudoers''], root_rule [''etc'', ''sudoers.d''], root_rule [''etc'', ''ssh''],
      root_rule [''etc'', ''ssl'', ''private''], root_rule [''etc'', ''krb5.keytab''],
      root_rule [''etc'', ''security'', ''opasswd''], root_rule [''private'', ''etc'', ''master.passwd''],
      root_rule [''private'', ''etc'', ''sudoers''], root_rule [''private'', ''etc'', ''sudoers.d''],
      root_rule [''private'', ''etc'', ''ssh''], root_rule [''private'', ''etc'', ''krb5.keytab''],
      root_rule [''private'', ''var'', ''db''], root_rule [''var'', ''db''], root_rule [''root''],
      root_rule [''proc''], root_rule [''dev'', ''mem''], root_rule [''dev'', ''kmem''],
      root_rule [''dev'', ''port''], any SystemPath [''windows'', ''system32'', ''config'']]"

definition PREFIX_RULES :: "(deny_category \<times> string) list" where
  "PREFIX_RULES =
     [(WalletStorage, ''chrome-extension_''), (WalletStorage, ''moz-extension+++''),
      (CitrateAppData, ''ai.citrate.core'')]"

definition DOTENV_TEMPLATES :: "string list" where
  "DOTENV_TEMPLATES =
     [''.env.example'', ''.env.sample'', ''.env.template'', ''.env.dist'', ''.env.defaults'']"

definition DATA_VOLUME_ALIAS :: "string list" where
  "DATA_VOLUME_ALIAS = [''system'', ''volumes'', ''data'']"

definition MAX_SYMLINKS :: nat where "MAX_SYMLINKS = 40"

section \<open>Matching\<close>

text \<open>\<open>norm\<close> is the Unicode part of the fold: NFKD, lower case, NFKC, of the lossily decoded name.\<close>

definition fold_comp :: "(string \<Rightarrow> string) \<Rightarrow> string \<Rightarrow> string" where
  "fold_comp norm c =
     (let key = norm c;
          upto = takeWhile (\<lambda>x. x \<noteq> CHR '':'') key;
          key = (if upto \<noteq> [] then upto else key);
          trimmed = rev (dropWhile (\<lambda>x. x = CHR ''.'' \<or> x = CHR '' '') (rev key))
      in if trimmed \<noteq> [] then trimmed else key)"

definition folded_components :: "(string \<Rightarrow> string) \<Rightarrow> path \<Rightarrow> string list" where
  "folded_components norm p =
     concat (map (\<lambda>c. case c of Normal s \<Rightarrow> [fold_comp norm s] | _ \<Rightarrow> []) p)"

definition run_matches :: "string list \<Rightarrow> string list \<Rightarrow> bool" where
  "run_matches keys run \<longleftrightarrow>
     length run \<le> length keys \<and> list_all (\<lambda>(k, r). k = r) (zip keys run)"

definition rule_hits :: "string list \<Rightarrow> rule \<Rightarrow> bool" where
  "rule_hits keys r =
     (case rule_anchor r of
        RootAnchor \<Rightarrow>
          run_matches keys (rule_run r) \<or>
          run_matches keys DATA_VOLUME_ALIAS \<and>
            run_matches (drop (length DATA_VOLUME_ALIAS) keys) (rule_run r)
      | Anywhere \<Rightarrow> list_ex (\<lambda>i. run_matches (drop i keys) (rule_run r)) [0..<length keys])"

definition match_rules :: "(string \<Rightarrow> string) \<Rightarrow> path \<Rightarrow> deny_category + unit" where
  "match_rules norm p =
     (let keys = folded_components norm p
      in case find (rule_hits keys) RULES of
           Some r \<Rightarrow> Inl (category r)
         | None \<Rightarrow>
             (case find (\<lambda>(_, pre). list_ex (starts_with pre) keys) PREFIX_RULES of
                Some (c, _) \<Rightarrow> Inl c
              | None \<Rightarrow> Inr ()))"

definition is_dotenv :: "string \<Rightarrow> bool" where
  "is_dotenv key \<longleftrightarrow>
     (key = ''.env'' \<or> key = ''.envrc'' \<or> starts_with ''.env.'' key) \<and> key \<notin> set DOTENV_TEMPLATES"

definition match_dotenv :: "(string \<Rightarrow> string) \<Rightarrow> path \<Rightarrow> path list \<Rightarrow> deny_category + unit" where
  "match_dotenv norm p roots =
     (case file_name p of
        None \<Rightarrow> Inr ()
      | Some name \<Rightarrow>
          if \<not> is_dotenv (fold_comp norm name) then Inr ()
          else let keys = folded_components norm p
               in if list_ex (\<lambda>r. let rk = folded_components norm r
                                  in length rk < length keys \<and> take (length rk) keys = rk) roots
                  then Inr () else Inl DotEnv)"

section \<open>Reading and resolving a request\<close>

record guard_context =
  home :: path
  cwd :: path
  project_roots :: "path list"

definition new_context :: "path \<Rightarrow> path \<Rightarrow> guard_context" where
  "new_context h c = \<lparr>home = h, cwd = c, project_roots = []\<rparr>"

definition with_project_root :: "guard_context \<Rightarrow> path \<Rightarrow> guard_context" where
  "with_project_root ctx r = ctx\<lparr>project_roots := project_roots ctx @ [r]\<rparr>"

datatype lstat_result = Symlink | Present | Absent | StatError

record filesystem =
  lstat :: "path \<Rightarrow> lstat_result"
  read_link :: "path \<Rightarrow> path option"

definition interpret_path :: "string \<Rightarrow> guard_context \<Rightarrow> deny_category + path" where
  "interpret_path input ctx =
     (if input = [] then Inl Malformed
      else if list_ex (\<lambda>c. (of_char c :: nat) = 0) input then Inl Malformed
      else
        let unified = map (\<lambda>c. if c = CHR 0x5C then CHR ''/'' else c) input;
            absolute = (\<lambda>p. if has_root p then p else join (cwd ctx) p)
        in if unified = ''~'' then Inr (absolute (home ctx))
           else case strip_prefix ''~/'' unified of
             Some rest \<Rightarrow>
               Inr (absolute (join (home ctx) (components (dropWhile (\<lambda>c. c = CHR ''/'') rest))))
           | None \<Rightarrow>
               if starts_with ''~'' unified then Inl Malformed
               else Inr (absolute (components unified)))"

text \<open>One component: where it leads, or the link to follow, or the failure.\<close>

datatype arrival = Fail deny_category | At path | Follow path

definition arrive ::
  "filesystem \<Rightarrow> (path \<Rightarrow> deny_category + unit) \<Rightarrow> path \<Rightarrow> comp \<Rightarrow> nat \<Rightarrow> arrival" where
  "arrive fs check cur c links =
     (case c of
        RootDir \<Rightarrow> At (push cur RootDir)
      | CurDir \<Rightarrow> At cur
      | ParentDir \<Rightarrow> At (pop cur)
      | Normal name \<Rightarrow>
          let next = push cur (Normal name)
          in case check next of
               Inl e \<Rightarrow> Fail e
             | Inr _ \<Rightarrow>
                 (case lstat fs next of
                    Symlink \<Rightarrow>
                      if links = 0 then Fail Unresolvable
                      else (case read_link fs next of
                              None \<Rightarrow> Fail Unresolvable
                            | Some target \<Rightarrow> Follow (if has_root target then target else join cur target))
                  | Present \<Rightarrow> At next
                  | Absent \<Rightarrow> At next
                  | StatError \<Rightarrow> Fail Unresolvable))"

lemma arrive_Follow_links: "arrive fs check cur c links = Follow joined \<Longrightarrow> 0 < links"
  by (auto simp: arrive_def Let_def split: comp.splits sum.splits lstat_result.splits if_splits option.splits)

function walk_from ::
  "filesystem \<Rightarrow> (path \<Rightarrow> deny_category + unit) \<Rightarrow> path \<Rightarrow> path \<Rightarrow> nat \<Rightarrow> (deny_category + path) \<times> nat" where
  "walk_from fs check cur [] links = (Inr cur, links)"
| "walk_from fs check cur (c # cs) links =
     (case arrive fs check cur c links of
        Fail e \<Rightarrow> (Inl e, links)
      | At cur' \<Rightarrow>
          (case check cur' of
             Inl e \<Rightarrow> (Inl e, links)
           | Inr _ \<Rightarrow> walk_from fs check cur' cs links)
      | Follow joined \<Rightarrow>
          (case walk_from fs check [] joined (links - 1) of
             (Inl e, l) \<Rightarrow> (Inl e, l)
           | (Inr cur', l) \<Rightarrow>
               (case check cur' of
                  Inl e \<Rightarrow> (Inl e, l)
                | Inr _ \<Rightarrow> walk_from fs check cur' cs l)))"
  by pat_completeness auto

termination
proof (relation "measures [\<lambda>(fs, check, cur, cs, links). links, \<lambda>(fs, check, cur, cs, links). length cs]")
  have budget: "walk_from_dom (fs, check, cur, cs, links) \<Longrightarrow> snd (walk_from fs check cur cs links) \<le> links"
    for fs check cur cs links
  proof (induction fs check cur cs links rule: walk_from.pinduct)
    case (2 fs check cur c cs links)
    show ?case
    proof (cases "arrive fs check cur c links")
      case (At cur')
      then show ?thesis using 2 by (auto simp: walk_from.psimps split: sum.split)
    next
      case (Follow joined)
      note IH = "2.IH"(2,3) [OF Follow]
      obtain r l where rl: "walk_from fs check [] joined (links - 1) = (r, l)" by fastforce
      have l: "l \<le> links - 1" using "2.IH"(2) [OF Follow] rl by simp
      show ?thesis
      proof (cases r)
        case (Inr cur')
        show ?thesis
        proof (cases "check cur'")
          case (Inr u)
          have "snd (walk_from fs check cur' cs l) \<le> l"
            by (rule "2.IH"(3) [OF Follow rl [symmetric] \<open>r = Inr cur'\<close> Inr])
          then show ?thesis using 2(1) Follow rl \<open>r = Inr cur'\<close> Inr l by (simp add: walk_from.psimps)
        qed (use 2(1) Follow rl Inr l in \<open>simp add: walk_from.psimps\<close>)
      qed (use 2(1) Follow rl l in \<open>simp add: walk_from.psimps\<close>)
    qed (simp add: walk_from.psimps 2)
  qed (simp add: walk_from.psimps)
  fix fs check cur c cs links joined r l cur' and u :: unit
  assume "arrive fs check cur c links = Follow joined"
  then have pos: "0 < links" by (rule arrive_Follow_links)
  then show "((fs, check, [], joined, links - 1), fs, check, cur, c # cs, links) \<in>
      measures [\<lambda>(fs, check, cur, cs, links). links, \<lambda>(fs, check, cur, cs, links). length cs]" by simp
  assume "(r, l) = walk_from fs check [] joined (links - 1)"
    and "walk_from_dom (fs, check, [], joined, links - 1)"
  then have "l \<le> links - 1" using budget by (metis snd_conv)
  with pos have "l < links" by linarith
  then show "((fs, check, cur', cs, l), fs, check, cur, c # cs, links) \<in>
      measures [\<lambda>(fs, check, cur, cs, links). links, \<lambda>(fs, check, cur, cs, links). length cs]" by simp
qed simp_all

declare walk_from.simps(2) [simp del]

lemma walk_from_within: "snd (walk_from fs check cur cs links) \<le> links"
proof (induction fs check cur cs links rule: walk_from.induct)
  case (2 fs check cur c cs links)
  show ?case
  proof (cases "arrive fs check cur c links")
    case (At cur')
    then show ?thesis using 2 by (auto simp: walk_from.simps(2) split: sum.split)
  next
    case (Follow joined)
    obtain r l where rl: "walk_from fs check [] joined (links - 1) = (r, l)" by fastforce
    have l: "l \<le> links" using "2.IH"(2) [OF Follow] rl by simp
    have "snd (walk_from fs check cur' cs l) \<le> l" if "r = Inr cur'" "check cur' = Inr ()" for cur'
      by (rule "2.IH"(3) [OF Follow rl [symmetric] that])
    then show ?thesis using Follow rl l
      by (cases r) (auto simp: walk_from.simps(2) split: sum.split intro: le_trans)
  qed (simp add: walk_from.simps(2))
qed simp

definition walk ::
  "filesystem \<Rightarrow> path \<Rightarrow> nat \<Rightarrow> (path \<Rightarrow> deny_category + unit) \<Rightarrow> (deny_category + path) \<times> nat" where
  "walk fs p links check = walk_from fs check [] p links"

definition lexical :: "path \<Rightarrow> path" where
  "lexical p =
     foldl (\<lambda>out c. case c of ParentDir \<Rightarrow> pop out | CurDir \<Rightarrow> out | _ \<Rightarrow> push out c) [] p"

definition resolved_roots :: "filesystem \<Rightarrow> guard_context \<Rightarrow> path list" where
  "resolved_roots fs ctx =
     concat (map (\<lambda>r. case fst (walk fs (if has_root r then r else join (cwd ctx) r) MAX_SYMLINKS (\<lambda>_. Inr ())) of
                        Inr p \<Rightarrow> [p] | Inl _ \<Rightarrow> []) (project_roots ctx))"

definition location_check :: "(string \<Rightarrow> string) \<Rightarrow> path list \<Rightarrow> path \<Rightarrow> deny_category + unit" where
  "location_check norm roots p = bind_result (match_rules norm p) (\<lambda>_. match_dotenv norm p roots)"

text \<open>\<open>None\<close> stands for an input that is not valid UTF-8.\<close>

definition check_path ::
  "(string \<Rightarrow> string) \<Rightarrow> filesystem \<Rightarrow> guard_context \<Rightarrow> string option \<Rightarrow> deny_category + path" where
  "check_path norm fs ctx input =
     (case input of
        None \<Rightarrow> Inl Malformed
      | Some s \<Rightarrow>
          bind_result (interpret_path s ctx) (\<lambda>abs.
            let check = location_check norm (resolved_roots fs ctx)
            in bind_result (check (lexical abs)) (\<lambda>_.
               bind_result (fst (walk fs abs MAX_SYMLINKS check)) (\<lambda>resolved.
               bind_result (check resolved) (\<lambda>_. Inr resolved)))))"

end
