(* ===== verification/PathGuardProperties.thy ===== *)
theory PathGuardProperties
  imports PathGuard
begin

text \<open>
  What an allowed path is: a resolved location that agrees with the kernel's own resolution, none
  of whose ancestors is a symlink or on the deny list, and which no context can exempt.
\<close>

section \<open>Resolved locations\<close>

definition plain :: "path \<Rightarrow> bool" where
  "plain p \<longleftrightarrow> (\<exists>ns. p = RootDir # map Normal ns)"

definition clean :: "filesystem \<Rightarrow> (path \<Rightarrow> deny_category + unit) \<Rightarrow> path \<Rightarrow> bool" where
  "clean fs check p \<longleftrightarrow>
     (\<forall>q. prefix q p \<and> q \<noteq> [] \<longrightarrow>
        check q = Inr () \<and> (q \<noteq> [RootDir] \<longrightarrow> lstat fs q = Present \<or> lstat fs q = Absent))"

lemma clean_Nil [simp]: "clean fs check []"
  by (simp add: clean_def)

lemma clean_root: "check [RootDir] = Inr () \<Longrightarrow> clean fs check [RootDir]"
  by (auto simp: clean_def prefix_Cons)

lemma clean_prefix: "clean fs check p \<Longrightarrow> prefix q p \<Longrightarrow> clean fs check q"
  unfolding clean_def using prefix_order.trans by blast

lemma clean_snoc:
  "clean fs check p \<Longrightarrow> check (p @ [c]) = Inr () \<Longrightarrow>
     lstat fs (p @ [c]) = Present \<or> lstat fs (p @ [c]) = Absent \<Longrightarrow> clean fs check (p @ [c])"
  by (auto simp: clean_def)

lemma plain_snoc: "plain p \<Longrightarrow> plain (p @ [Normal s])"
  unfolding plain_def by (metis append_Cons list.map(1) list.simps(9) map_append)

lemma plain_pop: "plain p \<Longrightarrow> plain (pop p)"
proof -
  assume "plain p"
  then obtain ns where "p = RootDir # map Normal ns" by (auto simp: plain_def)
  then show ?thesis
    by (cases ns rule: rev_cases) (auto simp: plain_def pop_def butlast_append)
qed

lemma prefix_pop: "prefix (pop p) p"
  by (auto simp: pop_def prefixeq_butlast)

lemma has_root_plain: "plain p \<Longrightarrow> has_root p"
  by (auto simp: plain_def has_root_def)

lemma has_root_append: "has_root p \<Longrightarrow> has_root (p @ q)"
  by (auto simp: has_root_def split: list.splits comp.splits)

lemma has_root_join: "has_root p \<Longrightarrow> has_root (join p q)"
  by (auto simp: join_def has_root_append split: list.split comp.split) (auto simp: has_root_def)

lemma has_root_Cons: "has_root (c # cs) \<longleftrightarrow> c = RootDir"
  by (cases c) (simp_all add: has_root_def)

lemma arrive_At_clean:
  assumes "arrive fs check cur c links = At cur'" "clean fs check cur" "check cur' = Inr ()"
    and "cur \<noteq> [] \<and> plain cur \<or> c = RootDir"
  shows "clean fs check cur' \<and> plain cur'"
proof (cases c)
  case RootDir
  with assms show ?thesis by (auto simp: arrive_def push_def clean_root plain_def)
next
  case (Normal s)
  with assms show ?thesis
    by (auto simp: arrive_def push_def Let_def clean_snoc plain_snoc
          split: sum.splits lstat_result.splits if_splits option.splits)
qed (use assms in \<open>auto simp: arrive_def plain_pop clean_prefix [OF _ prefix_pop]\<close>)

lemma arrive_Follow_root:
  assumes "arrive fs check cur c links = Follow joined" "cur \<noteq> [] \<and> plain cur \<or> c = RootDir"
  shows "has_root joined"
  using assms has_root_plain [of cur]
  by (auto simp: arrive_def Let_def has_root_join
        split: comp.splits sum.splits lstat_result.splits if_splits option.splits)

text \<open>Every location the walk reaches is plain, and clean all the way up.\<close>

lemma walk_from_clean:
  assumes "walk_from fs check cur cs links = (Inr p, l)" "clean fs check cur"
    and "cur \<noteq> [] \<and> plain cur \<or> has_root cs"
  shows "clean fs check p \<and> plain p"
  using assms
proof (induction fs check cur cs links arbitrary: p l rule: walk_from.induct)
  case (1 fs check cur links)
  then show ?case by (auto simp: has_root_def)
next
  case (2 fs check cur c cs links)
  have start: "cur \<noteq> [] \<and> plain cur \<or> c = RootDir" using "2.prems"(3) by (simp add: has_root_Cons)
  show ?case
  proof (cases "arrive fs check cur c links")
    case (Fail e)
    then show ?thesis using "2.prems"(1) by (simp add: walk_from.simps)
  next
    case (At cur')
    then obtain u where u: "check cur' = Inr u" and rest: "walk_from fs check cur' cs links = (Inr p, l)"
      using "2.prems"(1) by (auto simp: walk_from.simps split: sum.splits)
    have cur': "clean fs check cur' \<and> plain cur'"
      using arrive_At_clean [OF At "2.prems"(2) _ start] u by simp
    then have "cur' \<noteq> []" by (auto simp: plain_def)
    then show ?thesis using "2.IH"(1) [OF At u rest] cur' by simp
  next
    case (Follow joined)
    then obtain cur' k u where inner: "walk_from fs check [] joined (links - 1) = (Inr cur', k)"
      and u: "check cur' = Inr u" and rest: "walk_from fs check cur' cs k = (Inr p, l)"
      using "2.prems"(1) by (auto simp: walk_from.simps split: sum.splits prod.splits)
    have cur': "clean fs check cur' \<and> plain cur'"
      using "2.IH"(2) [OF Follow inner] arrive_Follow_root [OF Follow start] by simp
    then have "cur' \<noteq> []" by (auto simp: plain_def)
    then show ?thesis using "2.IH"(3) [OF Follow inner [symmetric] refl u rest] cur' by simp
  qed
qed

section \<open>The kernel's resolution\<close>

text \<open>
  The reference: how a path resolves component by component, following every symlink at the point
  it is met; the number counts the links followed.
\<close>

inductive resolves :: "filesystem \<Rightarrow> path \<Rightarrow> path \<Rightarrow> nat \<Rightarrow> path \<Rightarrow> bool" for fs where
  finished: "resolves fs cur [] 0 cur"
| root: "resolves fs [RootDir] cs n p \<Longrightarrow> resolves fs cur (RootDir # cs) n p"
| here: "resolves fs cur cs n p \<Longrightarrow> resolves fs cur (CurDir # cs) n p"
| up: "resolves fs (pop cur) cs n p \<Longrightarrow> resolves fs cur (ParentDir # cs) n p"
| down: "lstat fs (cur @ [Normal s]) = Present \<or> lstat fs (cur @ [Normal s]) = Absent \<Longrightarrow>
    resolves fs (cur @ [Normal s]) cs n p \<Longrightarrow> resolves fs cur (Normal s # cs) n p"
| link: "lstat fs (cur @ [Normal s]) = Symlink \<Longrightarrow> read_link fs (cur @ [Normal s]) = Some target \<Longrightarrow>
    resolves fs [] (join cur target) n cur' \<Longrightarrow> resolves fs cur' cs n' p \<Longrightarrow>
    resolves fs cur (Normal s # cs) (Suc (n + n')) p"

inductive_cases resolves_NilE: "resolves fs cur [] n p"
inductive_cases resolves_RootE: "resolves fs cur (RootDir # cs) n p"
inductive_cases resolves_CurE: "resolves fs cur (CurDir # cs) n p"
inductive_cases resolves_ParentE: "resolves fs cur (ParentDir # cs) n p"
inductive_cases resolves_NormalE: "resolves fs cur (Normal s # cs) n p"

abbreviation no_check :: "path \<Rightarrow> deny_category + unit" where
  "no_check \<equiv> \<lambda>_. Inr ()"

lemma join_root: "(if has_root t then t else join cur t) = join cur t"
  by (simp add: join_def)

lemma arrive_no_check:
  "arrive fs no_check cur c links =
     (case c of
        RootDir \<Rightarrow> At [RootDir]
      | CurDir \<Rightarrow> At cur
      | ParentDir \<Rightarrow> At (pop cur)
      | Normal s \<Rightarrow>
          (case lstat fs (cur @ [Normal s]) of
             Symlink \<Rightarrow>
               if links = 0 then Fail Unresolvable
               else (case read_link fs (cur @ [Normal s]) of
                       None \<Rightarrow> Fail Unresolvable | Some t \<Rightarrow> Follow (join cur t))
           | StatError \<Rightarrow> Fail Unresolvable
           | _ \<Rightarrow> At (cur @ [Normal s])))"
  by (auto simp: arrive_def push_def Let_def join_root split: comp.split lstat_result.split option.split)

lemma walk_from_resolves:
  assumes "walk_from fs no_check cur cs links = (Inr p, l)"
  shows "\<exists>n. resolves fs cur cs n p \<and> n \<le> links \<and> l = links - n"
  using assms
proof (induction fs "no_check" cur cs links arbitrary: p l rule: walk_from.induct)
  case (1 fs cur links)
  then show ?case by (auto intro: resolves.finished)
next
  case (2 fs cur c cs links)
  show ?case
  proof (cases "arrive fs no_check cur c links")
    case (Fail e)
    then show ?thesis using "2.prems" by (simp add: walk_from.simps)
  next
    case (At cur')
    then have "walk_from fs no_check cur' cs links = (Inr p, l)"
      using "2.prems" by (simp add: walk_from.simps)
    from "2.hyps"(1) [OF At refl this] obtain n where "resolves fs cur' cs n p" "n \<le> links" "l = links - n"
      by blast
    moreover have "resolves fs cur (c # cs) n p" if "resolves fs cur' cs n p"
      using At that
      by (auto simp: arrive_no_check intro: resolves.intros
            split: comp.splits lstat_result.splits if_splits option.splits)
    ultimately show ?thesis by blast
  next
    case (Follow joined)
    then obtain cur' k where inner: "walk_from fs no_check [] joined (links - 1) = (Inr cur', k)"
      and rest: "walk_from fs no_check cur' cs k = (Inr p, l)"
      using "2.prems" by (auto simp: walk_from.simps split: sum.splits prod.splits)
    from "2.hyps"(2) [OF Follow inner] obtain n where n: "resolves fs [] joined n cur'" "n \<le> links - 1"
      "k = links - 1 - n" by blast
    from "2.hyps"(3) [OF Follow inner [symmetric] refl refl rest] obtain n' where
      n': "resolves fs cur' cs n' p" "n' \<le> k" "l = k - n'" by blast
    have "resolves fs cur (c # cs) (Suc (n + n')) p"
      using Follow n(1) n'(1)
      by (auto simp: arrive_no_check intro: resolves.link
            split: comp.splits lstat_result.splits if_splits option.splits)
    moreover have "0 < links" by (rule arrive_Follow_links [OF Follow])
    ultimately show ?thesis using n(2,3) n'(2,3) by (intro exI [of _ "Suc (n + n')"]) auto
  qed
qed

lemma resolves_walk_from:
  assumes "resolves fs cur cs n p" "n \<le> links"
  shows "walk_from fs no_check cur cs links = (Inr p, links - n)"
  using assms
proof (induction arbitrary: links rule: resolves.induct)
  case (link cur s target n cur' cs n' p)
  have "arrive fs no_check cur (Normal s) links = Follow (join cur target)"
    using link.hyps link.prems by (simp add: arrive_no_check)
  moreover have "walk_from fs no_check [] (join cur target) (links - 1) = (Inr cur', links - 1 - n)"
    using link.prems by (intro link.IH(1)) simp
  moreover have "walk_from fs no_check cur' cs (links - 1 - n) = (Inr p, links - 1 - n - n')"
    using link.prems by (intro link.IH(2)) simp
  ultimately show ?case by (simp add: walk_from.simps)
qed (auto simp: walk_from.simps arrive_no_check)

text \<open>The checks only stop a walk; they never steer it.\<close>

lemma arrive_check_At:
  "arrive fs check cur c links = At p \<Longrightarrow> arrive fs no_check cur c links = At p"
  "arrive fs check cur c links = Follow p \<Longrightarrow> arrive fs no_check cur c links = Follow p"
  by (auto simp: arrive_def Let_def split: comp.splits sum.splits lstat_result.splits if_splits option.splits)

lemma walk_from_no_check:
  assumes "walk_from fs check cur cs links = (Inr p, l)"
  shows "walk_from fs no_check cur cs links = (Inr p, l)"
  using assms
proof (induction fs check cur cs links arbitrary: p l rule: walk_from.induct)
  case (2 fs check cur c cs links)
  show ?case
  proof (cases "arrive fs check cur c links")
    case (Fail e)
    then show ?thesis using "2.prems" by (simp add: walk_from.simps)
  next
    case (At cur')
    then obtain u where "check cur' = Inr u" "walk_from fs check cur' cs links = (Inr p, l)"
      using "2.prems" by (auto simp: walk_from.simps split: sum.splits)
    then show ?thesis using "2.IH"(1) [OF At] arrive_check_At(1) [OF At] by (simp add: walk_from.simps)
  next
    case (Follow joined)
    then obtain cur' k u where inner: "walk_from fs check [] joined (links - 1) = (Inr cur', k)"
      and u: "check cur' = Inr u" and rest: "walk_from fs check cur' cs k = (Inr p, l)"
      using "2.prems" by (auto simp: walk_from.simps split: sum.splits prod.splits)
    show ?thesis
      using "2.IH"(2) [OF Follow inner] "2.IH"(3) [OF Follow inner [symmetric] refl u rest]
        arrive_check_At(2) [OF Follow] by (simp add: walk_from.simps)
  qed
qed simp

text \<open>So a resolution and its number of links are unique.\<close>

lemma resolves_unique:
  assumes "resolves fs cur cs n p" "resolves fs cur cs m p'"
  shows "m = n \<and> p' = p"
proof -
  have "walk_from fs no_check cur cs (max n m) = (Inr p, max n m - n)"
    "walk_from fs no_check cur cs (max n m) = (Inr p', max n m - m)"
    by (rule resolves_walk_from [OF assms(1)] resolves_walk_from [OF assms(2)], simp)+
  then show ?thesis by auto
qed

section \<open>What the rules mean\<close>

lemma run_matches_prefix: "run_matches keys run \<longleftrightarrow> prefix run keys"
proof -
  have "list_all (\<lambda>(k, r). k = r) (zip keys run) \<longleftrightarrow> prefix run keys" if "length run \<le> length keys"
    using that
  proof (induction run arbitrary: keys)
    case (Cons r run)
    then show ?case by (cases keys) auto
  qed simp
  then show ?thesis unfolding run_matches_def using prefix_length_le by blast
qed

lemma anywhere_hits_sublist:
  assumes "run \<noteq> []"
  shows "list_ex (\<lambda>i. run_matches (drop i keys) run) [0..<length keys] \<longleftrightarrow> sublist run keys"
proof -
  have "sublist run keys \<longleftrightarrow> (\<exists>i. prefix run (drop i keys))"
  proof
    assume "sublist run keys"
    then obtain a b where "keys = a @ run @ b" by (auto simp: sublist_def)
    then have "prefix run (drop (length a) keys)" by simp
    then show "\<exists>i. prefix run (drop i keys)" by blast
  next
    assume "\<exists>i. prefix run (drop i keys)"
    then obtain i b where "drop i keys = run @ b" by (auto simp: prefix_def)
    then have "keys = take i keys @ run @ b" by (metis append_take_drop_id)
    then show "sublist run keys" unfolding sublist_def by blast
  qed
  moreover have "i < length keys" if "prefix run (drop i keys)" for i
    using that assms by (cases "i < length keys") auto
  ultimately show ?thesis by (auto simp: list_ex_iff run_matches_prefix)
qed

lemma rules_have_runs: "r \<in> set RULES \<Longrightarrow> rule_run r \<noteq> []"
proof -
  have "list_all (\<lambda>r. rule_run r \<noteq> []) RULES" by (simp add: RULES_def any_def root_rule_def)
  then show "r \<in> set RULES \<Longrightarrow> rule_run r \<noteq> []" by (simp add: list_all_iff)
qed

lemma match_rules_Inr_iff:
  "match_rules norm p = Inr () \<longleftrightarrow>
     (\<forall>r \<in> set RULES. \<not> rule_hits (folded_components norm p) r) \<and>
     (\<forall>(c, pre) \<in> set PREFIX_RULES. \<forall>k \<in> set (folded_components norm p). \<not> starts_with pre k)"
proof -
  have c: "(case x of (c, _) \<Rightarrow> Inl c) = Inl (fst x)" for x :: "deny_category \<times> string"
    by (simp add: split_beta)
  show ?thesis
    unfolding match_rules_def Let_def c find_case_Inr by (auto simp: list_ex_iff)
qed

lemma rule_hits_iff:
  assumes "r \<in> set RULES"
  shows "rule_hits keys r \<longleftrightarrow>
    (case rule_anchor r of
       Anywhere \<Rightarrow> sublist (rule_run r) keys
     | RootAnchor \<Rightarrow> prefix (rule_run r) keys \<or> prefix (DATA_VOLUME_ALIAS @ rule_run r) keys)"
proof -
  have "prefix (a @ b) c \<longleftrightarrow> prefix a c \<and> prefix b (drop (length a) c)" for a b c :: "string list"
    by (auto simp: prefix_def)
  then show ?thesis
    using anywhere_hits_sublist [OF rules_have_runs [OF assms]]
    by (simp add: rule_hits_def run_matches_prefix split: anchor.split)
qed

lemma location_check_Inr_iff:
  "location_check norm roots p = Inr () \<longleftrightarrow> match_rules norm p = Inr () \<and> match_dotenv norm p roots = Inr ()"
  by (simp add: location_check_def result_iff)

lemma check_path_Inr_iff:
  "check_path norm fs ctx input = Inr p \<longleftrightarrow>
     (\<exists>s req l. input = Some s \<and> interpret_path s ctx = Inr req \<and>
        location_check norm (resolved_roots fs ctx) (lexical req) = Inr () \<and>
        walk_from fs (location_check norm (resolved_roots fs ctx)) [] req MAX_SYMLINKS = (Inr p, l) \<and>
        location_check norm (resolved_roots fs ctx) p = Inr ())"
  by (cases input)
    (auto simp: check_path_def Let_def result_iff walk_def fst_def split: prod.splits, metis prod.collapse)

lemma interpret_has_root:
  "interpret_path s ctx = Inr req \<Longrightarrow> has_root (cwd ctx) \<Longrightarrow> has_root req"
  by (auto simp: interpret_path_def Let_def has_root_join split: if_splits option.splits)

section \<open>A concrete file system\<close>

text \<open>\<open>/l\<close> is a symlink to \<open>w\<close>; everything else exists.\<close>

definition demo_fs :: filesystem where
  "demo_fs = \<lparr>lstat = (\<lambda>p. if p = [RootDir, Normal ''l''] then Symlink else Present),
     read_link = (\<lambda>_. Some [Normal ''w''])\<rparr>"

definition demo_ctx :: guard_context where
  "demo_ctx = new_context [RootDir, Normal ''h''] [RootDir]"

lemma no_rule_hits:
  assumes "list_all (\<lambda>r. rule_run r \<noteq> [] \<and> rule_run r \<noteq> [k]) RULES" "length keys \<le> 1" "set keys \<subseteq> {k}" "r \<in> set RULES"
  shows "\<not> rule_hits keys r"
proof -
  have r: "rule_run r \<noteq> []" "rule_run r \<noteq> [k]" using assms(1,4) by (auto simp: list_all_iff)
  have "keys = [] \<or> keys = [k]" using assms(2,3) by (cases keys) auto
  then show ?thesis
    using r by (cases "rule_run r")
      (auto simp: rule_hits_def run_matches_def DATA_VOLUME_ALIAS_def split: anchor.split)
qed

lemma demo_rules:
  "list_all (\<lambda>r. rule_run r \<noteq> [] \<and> rule_run r \<noteq> [''l'']) RULES"
  "list_all (\<lambda>r. rule_run r \<noteq> [] \<and> rule_run r \<noteq> [''w'']) RULES"
  by (simp_all add: RULES_def any_def root_rule_def)

lemma demo_match:
  "location_check id roots [RootDir] = Inr ()"
  "location_check id roots [RootDir, Normal ''l''] = Inr ()"
  "location_check id roots [RootDir, Normal ''w''] = Inr ()"
  using no_rule_hits [OF demo_rules(1)] no_rule_hits [OF demo_rules(2)]
  unfolding location_check_Inr_iff match_rules_Inr_iff
  by (simp_all add: PREFIX_RULES_def folded_components_def
      fold_comp_def match_dotenv_def file_name_def is_dotenv_def)

lemma demo_interpret:
  "interpret_path ''/l'' ctx = Inr [RootDir, Normal ''l'']"
  "interpret_path ''/w'' ctx = Inr [RootDir, Normal ''w'']"
  by (simp_all add: interpret_path_def components_def comp_of_def has_root_def strip_prefix_def starts_with_def)

lemma demo_walk:
  assumes "check [RootDir] = Inr ()" "check [RootDir, Normal ''l''] = Inr ()" "check [RootDir, Normal ''w''] = Inr ()"
  shows "walk_from demo_fs check [] [RootDir, Normal ''l''] MAX_SYMLINKS = (Inr [RootDir, Normal ''w''], 39)"
  using assms
  by (simp add: walk_from.simps arrive_def push_def demo_fs_def MAX_SYMLINKS_def Let_def join_def has_root_def)

lemma demo_walk_plain:
  assumes "check [RootDir] = Inr ()" "check [RootDir, Normal ''w''] = Inr ()"
  shows "walk_from demo_fs check [] [RootDir, Normal ''w''] MAX_SYMLINKS = (Inr [RootDir, Normal ''w''], 40)"
  using assms
  by (simp add: walk_from.simps arrive_def push_def demo_fs_def MAX_SYMLINKS_def Let_def join_def has_root_def)

lemma demo_allowed: "check_path id demo_fs ctx (Some ''/l'') = Inr [RootDir, Normal ''w'']"
proof -
  have "lexical [RootDir, Normal ''l''] = [RootDir, Normal ''l'']"
    by (simp add: lexical_def push_def)
  then show ?thesis
    unfolding check_path_Inr_iff using demo_interpret demo_walk [OF demo_match] demo_match
    by (intro exI [of _ "''/l''"] exI [of _ "[RootDir, Normal ''l'']"] exI [of _ 39] conjI)
      (simp_all only: refl)
qed

lemma demo_allowed_plain: "check_path id demo_fs ctx (Some ''/w'') = Inr [RootDir, Normal ''w'']"
proof -
  have "lexical [RootDir, Normal ''w''] = [RootDir, Normal ''w'']"
    by (simp add: lexical_def push_def)
  then show ?thesis
    unfolding check_path_Inr_iff using demo_interpret demo_walk_plain [OF demo_match(1,3)] demo_match
    by (intro exI [of _ "''/w''"] exI [of _ "[RootDir, Normal ''w'']"] exI [of _ 40] conjI)
      (simp_all only: refl)
qed

lemma walk_from_only_unresolvable:
  "walk_from fs no_check cur cs links = (Inl e, l) \<Longrightarrow> e = Unresolvable"
proof (induction fs "no_check" cur cs links arbitrary: e l rule: walk_from.induct)
  case (2 fs cur c cs links)
  show ?case
  proof (cases "arrive fs no_check cur c links")
    case (Fail e')
    then have "e' = Unresolvable"
      by (auto simp: arrive_no_check split: comp.splits lstat_result.splits if_splits option.splits)
    then show ?thesis using "2.prems" Fail by (simp add: walk_from.simps)
  next
    case (At cur')
    then show ?thesis using "2.hyps"(1) [OF At] "2.prems" by (simp add: walk_from.simps)
  next
    case (Follow joined)
    obtain r k where inner: "walk_from fs no_check [] joined (links - 1) = (r, k)" by fastforce
    show ?thesis
    proof (cases r)
      case (Inl e')
      then have "walk_from fs no_check [] joined (links - 1) = (Inl e', k)" using inner by simp
      moreover from this have "e' = e" using "2.prems" Follow by (simp add: walk_from.simps)
      ultimately show ?thesis using "2.hyps"(2) [OF Follow] by blast
    next
      case (Inr cur')
      then have i: "walk_from fs no_check [] joined (links - 1) = (Inr cur', k)" using inner by simp
      then have "walk_from fs no_check cur' cs k = (Inl e, l)"
        using "2.prems" Follow by (simp add: walk_from.simps)
      from "2.hyps"(3) [OF Follow i [symmetric] refl refl this] show ?thesis .
    qed
  qed
qed (simp add: walk_from.simps)

section \<open>The properties of the path check\<close>

text \<open>
  A path the guard allows is safe to use as it stands: it is absolute with nothing but names
  after the root, and every one of its ancestors and itself passed the deny list, and is not a
  symlink (nor unreadable) on the file system that was checked.
\<close>

lemma allowed_path_is_clean:
  assumes "check_path norm fs ctx input = Inr p" "has_root (cwd ctx)"
  shows "(\<exists>ns. p = RootDir # map Normal ns) \<and>
    (\<forall>q. prefix q p \<longrightarrow> q \<noteq> [] \<longrightarrow>
       match_rules norm q = Inr () \<and> match_dotenv norm q (resolved_roots fs ctx) = Inr () \<and>
       (q \<noteq> [RootDir] \<longrightarrow> lstat fs q = Present \<or> lstat fs q = Absent))"
proof -
  obtain s req l where "interpret_path s ctx = Inr req"
    and walk: "walk_from fs (location_check norm (resolved_roots fs ctx)) [] req MAX_SYMLINKS = (Inr p, l)"
    using assms(1) unfolding check_path_Inr_iff by blast
  then have "has_root req" using interpret_has_root assms(2) by blast
  then have "clean fs (location_check norm (resolved_roots fs ctx)) p \<and> plain p"
    using walk_from_clean [OF walk] by simp
  then show ?thesis by (simp add: clean_def plain_def location_check_Inr_iff)
qed

text \<open>
  C9. No grant, project root or spelling opens a denied place: whatever the context, neither the
  request as written nor its resolution contains, in folded form, a denied run of components at any
  depth, a system run at the root (also below the data volume's second mount), or a component with
  a denied prefix; and a file named like an environment file is allowed only strictly inside a
  resolved project root.
\<close>

theorem denied_places_stay_denied:
  assumes "check_path norm fs ctx (Some s) = Inr p" "interpret_path s ctx = Inr req" "q = p \<or> q = lexical req"
  shows "(\<forall>r \<in> set RULES. case rule_anchor r of
       Anywhere \<Rightarrow> \<not> sublist (rule_run r) (folded_components norm q)
     | RootAnchor \<Rightarrow> \<not> prefix (rule_run r) (folded_components norm q) \<and>
                     \<not> prefix (DATA_VOLUME_ALIAS @ rule_run r) (folded_components norm q)) \<and>
    (\<forall>(c, pre) \<in> set PREFIX_RULES. \<forall>k \<in> set (folded_components norm q). \<not> starts_with pre k) \<and>
    (\<forall>name. file_name q = Some name \<longrightarrow> is_dotenv (fold_comp norm name) \<longrightarrow>
       (\<exists>r \<in> set (resolved_roots fs ctx).
          strict_prefix (folded_components norm r) (folded_components norm q)))"
proof -
  have "location_check norm (resolved_roots fs ctx) q = Inr ()"
    using assms unfolding check_path_Inr_iff by auto
  then have rules: "match_rules norm q = Inr ()" and env: "match_dotenv norm q (resolved_roots fs ctx) = Inr ()"
    by (simp_all add: location_check_Inr_iff)
  have "strict_prefix rk keys" if "length rk < length keys" "take (length rk) keys = rk" for rk keys :: "string list"
    using that by (metis less_irrefl strict_prefixI take_is_prefix)
  then have "\<exists>r \<in> set (resolved_roots fs ctx). strict_prefix (folded_components norm r) (folded_components norm q)"
    if "file_name q = Some name" "is_dotenv (fold_comp norm name)" for name
    using env that by (auto simp: match_dotenv_def Let_def list_ex_iff split: if_splits)
  moreover have "case rule_anchor r of
       Anywhere \<Rightarrow> \<not> sublist (rule_run r) (folded_components norm q)
     | RootAnchor \<Rightarrow> \<not> prefix (rule_run r) (folded_components norm q) \<and>
                     \<not> prefix (DATA_VOLUME_ALIAS @ rule_run r) (folded_components norm q)"
    if "r \<in> set RULES" for r
    using rules that rule_hits_iff [OF that] by (auto simp: match_rules_Inr_iff split: anchor.splits)
  ultimately show ?thesis using rules by (simp add: match_rules_Inr_iff)
qed

theorem denied_places_stay_denied_witness:
  "\<not> list_ex (\<lambda>r. rule_anchor r = Anywhere \<and> sublist (rule_run r) [''w'']) RULES"
proof -
  have "folded_components id [RootDir, Normal ''w''] = [''w'']"
    by (simp add: folded_components_def fold_comp_def)
  then show ?thesis
    using denied_places_stay_denied [OF demo_allowed [of demo_ctx] demo_interpret(1) disjI1 [OF refl]]
    by (fastforce simp: list_ex_iff)
qed

text \<open>
  C10. The guard resolves as the kernel does: an allowed path is the one and only resolution of the
  request under the reference semantics, reached by following at most 40 symlinks; so a request
  that has no such resolution (a loop, an unreadable link) is refused.
\<close>

theorem guard_agrees_with_kernel:
  assumes "check_path norm fs ctx (Some s) = Inr p" "interpret_path s ctx = Inr req"
  shows "\<exists>n \<le> 40. resolves fs [] req n p \<and> (\<forall>m p'. resolves fs [] req m p' \<longrightarrow> m = n \<and> p' = p)"
proof -
  obtain l where "walk_from fs (location_check norm (resolved_roots fs ctx)) [] req MAX_SYMLINKS = (Inr p, l)"
    using assms unfolding check_path_Inr_iff by auto
  from walk_from_resolves [OF walk_from_no_check [OF this]] obtain n where
    "resolves fs [] req n p" "n \<le> MAX_SYMLINKS" by blast
  then show ?thesis using resolves_unique unfolding MAX_SYMLINKS_def by blast
qed

theorem guard_agrees_with_kernel_witness:
  "\<exists>n \<le> 40. resolves demo_fs [] [RootDir, Normal ''l''] n [RootDir, Normal ''w'']"
  using guard_agrees_with_kernel [OF demo_allowed [of demo_ctx] demo_interpret(1)] by blast

text \<open>
  C11. Resolution always ends, and its budget is exact: with nothing denied, a walk given some number
  of links returns a place precisely when the reference semantics reaches that place by following at
  most so many symlinks, and then it hands back exactly those it did not follow; in every other case
  (more links than the budget, a link that leads back to itself, an unreadable place) it ends with the
  error \<open>Unresolvable\<close> and no other.
\<close>

theorem walk_terminates_within_budget:
  "(walk fs req links (\<lambda>_. Inr ()) = (Inr p, l) \<longleftrightarrow> (\<exists>n. resolves fs [] req n p \<and> n + l = links)) \<and>
   (fst (walk fs req links (\<lambda>_. Inr ())) = Inl e \<longleftrightarrow>
      e = Unresolvable \<and> \<not> (\<exists>n p'. resolves fs [] req n p' \<and> n \<le> links))"
proof
  show "walk fs req links no_check = (Inr p, l) \<longleftrightarrow> (\<exists>n. resolves fs [] req n p \<and> n + l = links)"
    unfolding walk_def
  proof
    assume "walk_from fs no_check [] req links = (Inr p, l)"
    from walk_from_resolves [OF this] obtain n where "resolves fs [] req n p" "n \<le> links" "l = links - n" by blast
    then show "\<exists>n. resolves fs [] req n p \<and> n + l = links" by (intro exI [of _ n]) simp
  next
    assume "\<exists>n. resolves fs [] req n p \<and> n + l = links"
    then obtain n where n: "resolves fs [] req n p" "n + l = links" by blast
    from resolves_walk_from [OF n(1), of links] n(2) show "walk_from fs no_check [] req links = (Inr p, l)" by force
  qed
  show "fst (walk fs req links no_check) = Inl e \<longleftrightarrow>
      e = Unresolvable \<and> \<not> (\<exists>n p'. resolves fs [] req n p' \<and> n \<le> links)"
  proof (cases "walk_from fs no_check [] req links")
    case (Pair r l')
    show ?thesis
    proof (cases r)
      case (Inl e')
      then have w: "walk_from fs no_check [] req links = (Inl e', l')" using Pair by simp
      have "e' = Unresolvable" by (rule walk_from_only_unresolvable [OF w])
      moreover have "\<not> (\<exists>n p'. resolves fs [] req n p' \<and> n \<le> links)"
      proof (intro notI, elim exE conjE)
        fix n p' assume "resolves fs [] req n p'" "n \<le> links"
        from resolves_walk_from [OF this] w show False by simp
      qed
      ultimately show ?thesis using w by (simp add: walk_def) blast
    next
      case (Inr q)
      then have w: "walk_from fs no_check [] req links = (Inr q, l')" using Pair by simp
      from walk_from_resolves [OF w] have "\<exists>n p'. resolves fs [] req n p' \<and> n \<le> links" by blast
      then show ?thesis using w by (simp add: walk_def)
    qed
  qed
qed

end
