(* ===== verification/FolderGrants.thy ===== *)
theory FolderGrants
  imports PathGuardProperties
begin

text \<open>
  Folder grants (\<open>agent-grants/src/lib.rs\<close>): what a member lets the agent read and write, checked
  on every file operation after the path guard. The disk is the guard's file system together with
  what \<open>std::fs::canonicalize\<close> and \<open>is_dir\<close> answer. Error payloads that are texts are left out; the
  JSON form of the state (serde) is too.
\<close>

section \<open>Data\<close>

definition FULL_ACCESS_MAX_TTL_SECS :: u64 where "FULL_ACCESS_MAX_TTL_SECS = 24 * 60 * 60"

definition STATE_VERSION :: u32 where "STATE_VERSION = 1"

datatype access = Read | Write

datatype op = OpRead | OpWrite

definition op_access :: "op \<Rightarrow> access" where
  "op_access o' = (case o' of OpRead \<Rightarrow> Read | OpWrite \<Rightarrow> Write)"

datatype grant_scope = Subtree | Shallow

datatype grant_kind = Folder | FullAccess

record grant =
  grant_id :: string
  kind :: grant_kind
  root :: path
  access_of :: access
  scope :: grant_scope
  granted_at :: u64
  expires_at :: "u64 option"
  granted_by :: string
  reason :: string
  revoked_at :: "u64 option"

definition parent :: "path \<Rightarrow> path option" where
  "parent p = (if p = [] \<or> last p = RootDir then None else Some (butlast p))"

definition is_active :: "grant \<Rightarrow> u64 \<Rightarrow> bool" where
  "is_active g now \<longleftrightarrow>
     revoked_at g = None \<and> granted_at g \<le> now \<and>
     (case expires_at g of None \<Rightarrow> True | Some t \<Rightarrow> now < t)"

definition covers :: "grant \<Rightarrow> path \<Rightarrow> bool" where
  "covers g p \<longleftrightarrow>
     (case scope g of
        Subtree \<Rightarrow> prefix (root g) p
      | Shallow \<Rightarrow> p = root g \<or> (case parent p of None \<Rightarrow> False | Some q \<Rightarrow> q = root g))"

record grant_state =
  version :: u32
  next_id :: u64
  grants :: "grant list"

definition default_state :: grant_state where
  "default_state = \<lparr>version = STATE_VERSION, next_id = 1, grants = []\<rparr>"

record grant_request =
  req_kind :: grant_kind
  req_root :: "string option"
  req_access :: access
  req_scope :: grant_scope
  ttl_secs :: "u64 option"
  req_granted_by :: string
  req_reason :: string

definition folder_request :: "string option \<Rightarrow> access \<Rightarrow> string \<Rightarrow> string \<Rightarrow> grant_request" where
  "folder_request r a by why =
     \<lparr>req_kind = Folder, req_root = r, req_access = a, req_scope = Subtree, ttl_secs = None,
      req_granted_by = by, req_reason = why\<rparr>"

definition full_access_request :: "string option \<Rightarrow> u64 \<Rightarrow> string \<Rightarrow> string \<Rightarrow> grant_request" where
  "full_access_request r ttl by why =
     \<lparr>req_kind = FullAccess, req_root = r, req_access = Read, req_scope = Subtree, ttl_secs = Some ttl,
      req_granted_by = by, req_reason = why\<rparr>"

definition with_scope :: "grant_scope \<Rightarrow> grant_request \<Rightarrow> grant_request" where
  "with_scope s req = req\<lparr>req_scope := s\<rparr>"

definition with_ttl_secs :: "u64 \<Rightarrow> grant_request \<Rightarrow> grant_request" where
  "with_ttl_secs t req = req\<lparr>ttl_secs := Some t\<rparr>"

definition without_ttl :: "grant_request \<Rightarrow> grant_request" where
  "without_ttl req = req\<lparr>ttl_secs := None\<rparr>"

definition with_access :: "access \<Rightarrow> grant_request \<Rightarrow> grant_request" where
  "with_access a req = req\<lparr>req_access := a\<rparr>"

datatype grant_error =
    RootDenied deny_category | RootNotADirectory path | RootUnresolvable | WriteOnFilesystemRoot
  | FullAccessIsReadOnly | BadTtl | MissingGrantedBy | MissingReason
  | UnknownGrant string | AlreadyRevoked string | InvalidState

datatype denial_reason = DenyList deny_category | NoGrant op path | Unresolvable_path

datatype decision = Allowed path string | Denied denial_reason

datatype grant_status = NotYetActive | Active | Expired | Revoked

record grant_view =
  view_grant :: grant
  status :: grant_status
  remaining_secs :: "u64 option"

record folder_grants =
  state :: grant_state
  fg_home :: path
  fg_cwd :: path

record disk =
  files :: filesystem
  canonicalize :: "path \<Rightarrow> path option"
  is_dir :: "path \<Rightarrow> bool"

section \<open>Resolution\<close>

text \<open>The text of an absolute path, which \<open>to_str\<close> hands back to the guard.\<close>

fun render_names :: "comp list \<Rightarrow> string" where
  "render_names [] = []"
| "render_names (c # cs) =
     (case c of RootDir \<Rightarrow> ''/'' | CurDir \<Rightarrow> ''.'' | ParentDir \<Rightarrow> ''..'' | Normal s \<Rightarrow> s) @
     (if cs = [] then [] else (if c = RootDir then [] else ''/'') @ render_names cs)"

function spelling_from :: "disk \<Rightarrow> path \<Rightarrow> path \<Rightarrow> string list \<Rightarrow> unit + path" where
  "spelling_from d p existing tail =
     (case lstat (files d) existing of
        Absent \<Rightarrow>
          (case file_name existing of
             None \<Rightarrow> Inr p
           | Some name \<Rightarrow>
               if parent existing = None then Inr p
               else spelling_from d p (pop existing) (tail @ [name]))
      | StatError \<Rightarrow> Inl ()
      | _ \<Rightarrow>
          (case canonicalize d existing of
             None \<Rightarrow> Inl ()
           | Some out \<Rightarrow> Inr (foldl (\<lambda>o' n. push o' (Normal n)) out (rev tail))))"
  by pat_completeness auto
termination
  by (relation "measure (\<lambda>(d, p, existing, tail). length existing)")
    (auto simp: pop_def parent_def split: if_splits)

declare spelling_from.simps [simp del]

definition on_disk_spelling :: "disk \<Rightarrow> path \<Rightarrow> unit + path" where
  "on_disk_spelling d p = spelling_from d p p []"

definition resolve_checked ::
  "(string \<Rightarrow> string) \<Rightarrow> disk \<Rightarrow> string option \<Rightarrow> guard_context \<Rightarrow> denial_reason + path" where
  "resolve_checked norm d input ctx =
     (case check_path norm (files d) ctx input of
        Inl e \<Rightarrow> Inl (DenyList e)
      | Inr resolved \<Rightarrow>
          (case on_disk_spelling d resolved of
             Inl _ \<Rightarrow> Inl Unresolvable_path
           | Inr spelled \<Rightarrow>
               (case check_path norm (files d) ctx (Some (render_names spelled)) of
                  Inl e \<Rightarrow> Inl (DenyList e)
                | Inr canonical \<Rightarrow>
                    if canonical \<noteq> spelled then Inl Unresolvable_path else Inr canonical)))"

text \<open>The covering grant with the deepest root; the last one of equals, as \<open>max_by_key\<close> picks.\<close>

fun max_by_key :: "('a \<Rightarrow> nat) \<Rightarrow> 'a list \<Rightarrow> 'a option" where
  "max_by_key f [] = None"
| "max_by_key f (x # xs) =
     (case max_by_key f xs of None \<Rightarrow> Some x | Some y \<Rightarrow> if f y < f x then Some x else Some y)"

definition most_specific :: "grant list \<Rightarrow> path \<Rightarrow> grant option" where
  "most_specific gs p = max_by_key (\<lambda>g. length (root g)) (filter (\<lambda>g. covers g p) gs)"

section \<open>The grant set\<close>

definition new_grants :: "path \<Rightarrow> path \<Rightarrow> folder_grants" where
  "new_grants h c = \<lparr>state = default_state, fg_home = h, fg_cwd = c\<rparr>"

definition guard_ctx :: "folder_grants \<Rightarrow> guard_context" where
  "guard_ctx fg = new_context (fg_home fg) (fg_cwd fg)"

definition canonical_root ::
  "(string \<Rightarrow> string) \<Rightarrow> disk \<Rightarrow> folder_grants \<Rightarrow> string option \<Rightarrow> grant_error + path" where
  "canonical_root norm d fg r =
     (case resolve_checked norm d r (guard_ctx fg) of
        Inl (DenyList e) \<Rightarrow> Inl (RootDenied e)
      | Inl _ \<Rightarrow> Inl RootUnresolvable
      | Inr spelled \<Rightarrow> if \<not> is_dir d spelled then Inl (RootNotADirectory spelled) else Inr spelled)"

definition expiry :: "grant_kind \<Rightarrow> u64 option \<Rightarrow> u64 \<Rightarrow> grant_error + u64 option" where
  "expiry k ttl now =
     (case ttl of
        Some t \<Rightarrow>
          if t = 0 then Inl BadTtl
          else if k = FullAccess \<and> FULL_ACCESS_MAX_TTL_SECS < t then Inl BadTtl
          else (case checked_add now t of None \<Rightarrow> Inl BadTtl | Some e \<Rightarrow> Inr (Some e))
      | None \<Rightarrow> if k = FullAccess then Inl BadTtl else Inr None)"

definition grant_op ::
  "(string \<Rightarrow> string) \<Rightarrow> disk \<Rightarrow> folder_grants \<Rightarrow> grant_request \<Rightarrow> u64 \<Rightarrow>
   grant_error + folder_grants \<times> string" where
  "grant_op norm d fg req now =
     (if trim (req_granted_by req) = [] then Inl MissingGrantedBy
      else if trim (req_reason req) = [] then Inl MissingReason
      else if req_kind req = FullAccess \<and> req_access req \<noteq> Read then Inl FullAccessIsReadOnly
      else bind_result (expiry (req_kind req) (ttl_secs req) now) (\<lambda>e.
        bind_result (canonical_root norm d fg (req_root req)) (\<lambda>r.
          if req_access req = Write \<and> parent r = None then Inl WriteOnFilesystemRoot
          else
            let st = state fg; gid = ''g-'' @ dec (unat (next_id st))
            in case checked_add (next_id st) 1 of
                 None \<Rightarrow> Inl InvalidState
               | Some n \<Rightarrow>
                   Inr (fg\<lparr>state := st\<lparr>grants := grants st @
                          [\<lparr>grant_id = gid, kind = req_kind req, root = r, access_of = req_access req,
                            scope = req_scope req, granted_at = now, expires_at = e,
                            granted_by = req_granted_by req, reason = req_reason req,
                            revoked_at = None\<rparr>],
                          next_id := n\<rparr>\<rparr>, gid))))"

fun update_first :: "('a \<Rightarrow> bool) \<Rightarrow> ('a \<Rightarrow> 'a) \<Rightarrow> 'a list \<Rightarrow> 'a list" where
  "update_first P f [] = []"
| "update_first P f (x # xs) = (if P x then f x # xs else x # update_first P f xs)"

definition revoke_op :: "folder_grants \<Rightarrow> string \<Rightarrow> u64 \<Rightarrow> grant_error + folder_grants" where
  "revoke_op fg gid now =
     (case find (\<lambda>g. grant_id g = gid) (grants (state fg)) of
        None \<Rightarrow> Inl (UnknownGrant gid)
      | Some g \<Rightarrow>
          if revoked_at g \<noteq> None then Inl (AlreadyRevoked gid)
          else Inr (fg\<lparr>state := (state fg)\<lparr>grants :=
                 update_first (\<lambda>g. grant_id g = gid) (\<lambda>g. g\<lparr>revoked_at := Some now\<rparr>)
                   (grants (state fg))\<rparr>\<rparr>))"

definition grant_status_at :: "grant \<Rightarrow> u64 \<Rightarrow> grant_status" where
  "grant_status_at g now =
     (if revoked_at g \<noteq> None then Revoked
      else if now < granted_at g then NotYetActive
      else if is_active g now then Active else Expired)"

definition list_op :: "folder_grants \<Rightarrow> u64 \<Rightarrow> grant_view list" where
  "list_op fg now =
     map (\<lambda>g. \<lparr>view_grant = g, status = grant_status_at g now,
               remaining_secs = map_option (\<lambda>t. sat_sub t now) (expires_at g)\<rparr>)
       (grants (state fg))"

definition live :: "folder_grants \<Rightarrow> access \<Rightarrow> u64 \<Rightarrow> grant_kind \<Rightarrow> grant list" where
  "live fg want now k =
     filter (\<lambda>g. kind g = k \<and> access_of g = want \<and> is_active g now) (grants (state fg))"

definition check_inner ::
  "(string \<Rightarrow> string) \<Rightarrow> disk \<Rightarrow> folder_grants \<Rightarrow> string option \<Rightarrow> op \<Rightarrow> u64 \<Rightarrow>
   denial_reason + path \<times> string" where
  "check_inner norm d fg p o' now =
     (let want = op_access o';
          folders = live fg want now Folder;
          ctx = foldl (\<lambda>c g. with_project_root c (root g)) (guard_ctx fg) folders
      in bind_result (resolve_checked norm d p ctx) (\<lambda>canonical.
           case most_specific folders canonical of
             Some g \<Rightarrow> Inr (canonical, grant_id g)
           | None \<Rightarrow>
               (let full = live fg want now FullAccess
                in if full = [] then Inl (NoGrant o' canonical)
                   else bind_result (resolve_checked norm d p (guard_ctx fg)) (\<lambda>canonical.
                     case most_specific full canonical of
                       Some g \<Rightarrow> Inr (canonical, grant_id g)
                     | None \<Rightarrow> Inl (NoGrant o' canonical)))))"

definition check_op ::
  "(string \<Rightarrow> string) \<Rightarrow> disk \<Rightarrow> folder_grants \<Rightarrow> string option \<Rightarrow> op \<Rightarrow> u64 \<Rightarrow> decision" where
  "check_op norm d fg p o' now =
     (case check_inner norm d fg p o' now of
        Inr (canonical, gid) \<Rightarrow> Allowed canonical gid
      | Inl e \<Rightarrow> Denied e)"

section \<open>Loading a stored state\<close>

definition parse_id :: "string \<Rightarrow> u64 option" where
  "parse_id s = (case strip_prefix ''g-'' s of None \<Rightarrow> None | Some n \<Rightarrow> parse_u64 n)"

definition validate_grant ::
  "(string \<Rightarrow> string) \<Rightarrow> filesystem \<Rightarrow> guard_context \<Rightarrow> u64 \<Rightarrow> u64 list \<Rightarrow> grant \<Rightarrow> grant_error + u64" where
  "validate_grant norm fs ctx next seen g =
     (case parse_id (grant_id g) of
        None \<Rightarrow> Inl InvalidState
      | Some n \<Rightarrow>
          if next \<le> n then Inl InvalidState
          else if n \<in> set seen then Inl InvalidState
          else if \<not> has_root (root g) \<or>
                  \<not> list_all (\<lambda>c. case c of RootDir \<Rightarrow> True | Normal _ \<Rightarrow> True | _ \<Rightarrow> False) (root g)
            then Inl InvalidState
          else if \<not> is_ok (check_path norm fs ctx (Some (render_names (root g)))) then Inl InvalidState
          else if access_of g = Write \<and> parent (root g) = None then Inl InvalidState
          else if trim (granted_by g) = [] then Inl InvalidState
          else if trim (reason g) = [] then Inl InvalidState
          else if (case expires_at g of Some t \<Rightarrow> t \<le> granted_at g | None \<Rightarrow> False) then Inl InvalidState
          else if kind g = FullAccess \<and>
                  (access_of g \<noteq> Read \<or>
                   \<not> (case expires_at g of
                        Some t \<Rightarrow> t - granted_at g \<le> FULL_ACCESS_MAX_TTL_SECS | None \<Rightarrow> False))
            then Inl InvalidState
          else Inr n)"

fun validate_grants ::
  "(string \<Rightarrow> string) \<Rightarrow> filesystem \<Rightarrow> guard_context \<Rightarrow> u64 \<Rightarrow> u64 list \<Rightarrow> grant list \<Rightarrow> grant_error + unit" where
  "validate_grants norm fs ctx next seen [] = Inr ()"
| "validate_grants norm fs ctx next seen (g # gs) =
     bind_result (validate_grant norm fs ctx next seen g) (\<lambda>n.
       validate_grants norm fs ctx next (n # seen) gs)"

definition validate_state :: "(string \<Rightarrow> string) \<Rightarrow> filesystem \<Rightarrow> folder_grants \<Rightarrow> grant_error + unit" where
  "validate_state norm fs fg =
     (if version (state fg) \<noteq> STATE_VERSION then Inl InvalidState
      else validate_grants norm fs (guard_ctx fg) (next_id (state fg)) [] (grants (state fg)))"

definition from_state ::
  "(string \<Rightarrow> string) \<Rightarrow> filesystem \<Rightarrow> grant_state \<Rightarrow> path \<Rightarrow> path \<Rightarrow> grant_error + folder_grants" where
  "from_state norm fs st h c =
     (let me = \<lparr>state = st, fg_home = h, fg_cwd = c\<rparr>
      in bind_result (validate_state norm fs me) (\<lambda>_. Inr me))"

end
