(* ===== verification/FolderGrantProperties.thy ===== *)
theory FolderGrantProperties
  imports FolderGrants
begin

text \<open>
  What the folder grants guarantee: nothing is allowed without a live covering grant, a state the
  loader accepts stays one through every grant and revocation, revocation is final, and full access
  is read-only and lasts at most a day.
\<close>

section \<open>Selection and resolution\<close>

lemma max_by_key_Some:
  "max_by_key f xs = Some x \<Longrightarrow> x \<in> set xs \<and> (\<forall>y \<in> set xs. f y \<le> f x)"
proof (induction xs arbitrary: x)
  case (Cons a xs)
  have "max_by_key f xs = None \<Longrightarrow> xs = []" by (cases xs) (auto split: option.splits if_splits)
  then show ?case using Cons by (auto split: option.splits if_splits; force)
qed simp

lemma most_specific_Some:
  "most_specific gs p = Some g \<Longrightarrow>
     g \<in> set gs \<and> covers g p \<and> (\<forall>h \<in> set gs. covers h p \<longrightarrow> length (root h) \<le> length (root g))"
  using max_by_key_Some [of "\<lambda>g. length (root g)" "filter (\<lambda>g. covers g p) gs"]
  by (auto simp: most_specific_def)

lemma resolve_checked_Inr:
  "resolve_checked norm d i ctx = Inr c \<Longrightarrow> check_path norm (files d) ctx (Some (render_names c)) = Inr c"
  by (auto simp: resolve_checked_def split: sum.splits if_splits)

lemma resolve_checked_safe:
  assumes "resolve_checked norm d i ctx = Inr c"
  shows "match_rules norm c = Inr ()" "match_dotenv norm c (resolved_roots (files d) ctx) = Inr ()"
  using resolve_checked_Inr [OF assms] by (auto simp: check_path_Inr_iff location_check_Inr_iff)

lemma check_path_plain:
  assumes "check_path norm fs ctx i = Inr p" "has_root (cwd ctx)"
  shows "plain p"
proof -
  obtain s req l where "interpret_path s ctx = Inr req"
    and walk: "walk_from fs (location_check norm (resolved_roots fs ctx)) [] req MAX_SYMLINKS = (Inr p, l)"
    using assms(1) unfolding check_path_Inr_iff by blast
  then have "has_root req" using interpret_has_root assms(2) by blast
  then show ?thesis using walk_from_clean [OF walk] by simp
qed

lemma guard_ctx_simps [simp]:
  "home (guard_ctx fg) = fg_home fg" "cwd (guard_ctx fg) = fg_cwd fg" "project_roots (guard_ctx fg) = []"
  by (simp_all add: guard_ctx_def new_context_def)

lemma no_roots_no_dotenv:
  "match_dotenv norm c (resolved_roots fs (guard_ctx fg)) = Inr () \<Longrightarrow> file_name c = Some name \<Longrightarrow>
     \<not> is_dotenv (fold_comp norm name)"
  by (auto simp: match_dotenv_def resolved_roots_def Let_def split: if_splits)

lemma set_live:
  "g \<in> set (live fg want now k) \<longleftrightarrow>
     g \<in> set (grants (state fg)) \<and> kind g = k \<and> access_of g = want \<and> is_active g now"
  by (auto simp: live_def)

lemma covers_prefix: "covers g p \<Longrightarrow> prefix (root g) p"
  by (auto simp: covers_def parent_def split: grant_scope.splits option.splits if_splits)
    (metis append_butlast_last_id prefixI)

lemma covers_shallow: "covers g p \<Longrightarrow> scope g = Shallow \<Longrightarrow> length p \<le> Suc (length (root g))"
  by (auto simp: covers_def parent_def dest!: sym [of "butlast p"] split: option.splits if_splits)

text \<open>Where an allowed answer comes from: the folder grants first, then full access.\<close>

lemma check_op_Allowed:
  assumes "check_op norm d fg p o' now = Allowed c gid"
  obtains g where "most_specific (live fg (op_access o') now (kind g)) c = Some g" "grant_id g = gid"
    "match_rules norm c = Inr ()" "kind g = FullAccess \<longrightarrow> match_dotenv norm c (resolved_roots (files d) (guard_ctx fg)) = Inr ()"
proof -
  let ?ctx = "foldl (\<lambda>c g. with_project_root c (root g)) (guard_ctx fg) (live fg (op_access o') now Folder)"
  have kinds: "kind g = k" if "most_specific (live fg w now k) c = Some g" for g k w
    using most_specific_Some [OF that] by (simp add: set_live)
  have "check_inner norm d fg p o' now = Inr (c, gid)"
    using assms by (auto simp: check_op_def split: sum.splits)
  then obtain c1 where c1: "resolve_checked norm d p ?ctx = Inr c1"
    and rest: "(case most_specific (live fg (op_access o') now Folder) c1 of
             Some g \<Rightarrow> Inr (c1, grant_id g)
           | None \<Rightarrow>
               (let full = live fg (op_access o') now FullAccess
                in if full = [] then Inl (NoGrant o' c1)
                   else bind_result (resolve_checked norm d p (guard_ctx fg)) (\<lambda>canonical.
                     case most_specific full canonical of
                       Some g \<Rightarrow> Inr (canonical, grant_id g)
                     | None \<Rightarrow> Inl (NoGrant o' canonical)))) = Inr (c, gid)"
    by (auto simp only: check_inner_def Let_def bind_result_Inr_iff)
  have "(\<exists>g. resolve_checked norm d p ?ctx = Inr c \<and>
           most_specific (live fg (op_access o') now Folder) c = Some g \<and> grant_id g = gid) \<or>
        (\<exists>g. resolve_checked norm d p (guard_ctx fg) = Inr c \<and>
           most_specific (live fg (op_access o') now FullAccess) c = Some g \<and> grant_id g = gid)"
  proof (cases "most_specific (live fg (op_access o') now Folder) c1")
    case None
    then show ?thesis using rest by (auto simp: Let_def result_iff split: option.splits if_splits)
  next
    case (Some g)
    then show ?thesis using rest c1 by auto
  qed
  then consider
      (folder) g where "resolve_checked norm d p ?ctx = Inr c"
        "most_specific (live fg (op_access o') now Folder) c = Some g" "grant_id g = gid"
    | (full) g where "resolve_checked norm d p (guard_ctx fg) = Inr c"
        "most_specific (live fg (op_access o') now FullAccess) c = Some g" "grant_id g = gid"
    by blast
  then show thesis
  proof cases
    case folder
    then show thesis using kinds [OF folder(2)] resolve_checked_safe(1) [OF folder(1)]
      by (intro that [of g]) simp_all
  next
    case full
    then show thesis using kinds [OF full(2)] resolve_checked_safe [OF full(1)]
      by (intro that [of g]) simp_all
  qed
qed

section \<open>The rules of a stored grant\<close>

text \<open>What the loader demands of one grant, apart from its id.\<close>

definition sound_grant :: "(string \<Rightarrow> string) \<Rightarrow> filesystem \<Rightarrow> guard_context \<Rightarrow> grant \<Rightarrow> bool" where
  "sound_grant norm fs ctx g \<longleftrightarrow>
     has_root (root g) \<and>
     list_all (\<lambda>c. case c of RootDir \<Rightarrow> True | Normal _ \<Rightarrow> True | _ \<Rightarrow> False) (root g) \<and>
     is_ok (check_path norm fs ctx (Some (render_names (root g)))) \<and>
     (access_of g = Write \<longrightarrow> parent (root g) \<noteq> None) \<and>
     trim (granted_by g) \<noteq> [] \<and> trim (reason g) \<noteq> [] \<and>
     (\<forall>t. expires_at g = Some t \<longrightarrow> granted_at g < t) \<and>
     (kind g = FullAccess \<longrightarrow> access_of g = Read \<and>
        (\<exists>t. expires_at g = Some t \<and> t - granted_at g \<le> FULL_ACCESS_MAX_TTL_SECS))"

definition num_of :: "grant \<Rightarrow> u64" where
  "num_of g = the (parse_id (grant_id g))"

lemma validate_grant_Inr_iff:
  "validate_grant norm fs ctx next seen g = Inr n \<longleftrightarrow>
     parse_id (grant_id g) = Some n \<and> n < next \<and> n \<notin> set seen \<and> sound_grant norm fs ctx g"
  by (auto simp: validate_grant_def sound_grant_def not_le split: option.splits)

lemma validate_grants_Inr_iff:
  "validate_grants norm fs ctx next seen gs = Inr () \<longleftrightarrow>
     (\<forall>g \<in> set gs. parse_id (grant_id g) \<noteq> None \<and> num_of g < next \<and> num_of g \<notin> set seen \<and>
        sound_grant norm fs ctx g) \<and> distinct (map num_of gs)"
  by (induction gs arbitrary: seen) (auto simp: result_iff validate_grant_Inr_iff num_of_def)

lemma validate_state_Inr_iff:
  "validate_state norm fs fg = Inr () \<longleftrightarrow>
     version (state fg) = STATE_VERSION \<and>
     (\<forall>g \<in> set (grants (state fg)). parse_id (grant_id g) \<noteq> None \<and> num_of g < next_id (state fg) \<and>
        sound_grant norm fs (guard_ctx fg) g) \<and>
     distinct (map num_of (grants (state fg)))"
  by (auto simp: validate_state_def validate_grants_Inr_iff)

text \<open>An id names one grant, so the grant found by the id of an allowed answer is the one that allowed it.\<close>

lemma same_id_same_grant:
  assumes "validate_state norm fs fg = Inr ()" "find (\<lambda>g. grant_id g = i) (grants (state fg)) = Some g"
    "g' \<in> set (grants (state fg))" "grant_id g' = i"
  shows "g' = g"
proof -
  have d: "distinct (map num_of (grants (state fg)))" using assms(1) by (simp add: validate_state_Inr_iff)
  have g: "g \<in> set (grants (state fg))" "grant_id g = i" using assms(2) by (auto simp: find_Some_iff)
  then have "num_of g = num_of g'" using assms(4) by (simp add: num_of_def)
  then show ?thesis using d g(1) assms(3) by (auto simp: distinct_map dest: inj_onD)
qed

lemma allowed_grant:
  assumes "validate_state norm fs fg = Inr ()" "check_op norm d fg p o' now = Allowed c gid"
    "find (\<lambda>g. grant_id g = gid) (grants (state fg)) = Some g"
  shows "g \<in> set (grants (state fg)) \<and> access_of g = op_access o' \<and> is_active g now \<and> covers g c"
  using assms(2)
proof (rule check_op_Allowed)
  fix g0
  assume g0: "most_specific (live fg (op_access o') now (kind g0)) c = Some g0" "grant_id g0 = gid"
  have m: "g0 \<in> set (grants (state fg))" "access_of g0 = op_access o'" "is_active g0 now" "covers g0 c"
    using most_specific_Some [OF g0(1)] by (simp_all add: set_live)
  have "g0 = g" by (rule same_id_same_grant [OF assms(1,3) m(1) g0(2)])
  then show ?thesis using m by simp
qed

lemma parse_id_fresh: "parse_id (''g-'' @ dec (unat n)) = Some n"
  by (simp add: parse_id_def strip_prefix_def)

lemma plain_components:
  "plain p \<Longrightarrow> has_root p \<and> list_all (\<lambda>c. case c of RootDir \<Rightarrow> True | Normal _ \<Rightarrow> True | _ \<Rightarrow> False) p"
  by (auto simp: plain_def has_root_def list_all_iff)

lemma expiry_Inr:
  assumes "expiry k ttl now = Inr e"
  shows "\<And>t. e = Some t \<Longrightarrow> now < t"
    "k = FullAccess \<Longrightarrow> \<exists>t. e = Some t \<and> t - now \<le> FULL_ACCESS_MAX_TTL_SECS"
proof -
  have *: "now < t \<and> t - now = l" if "checked_add now l = Some t" "l \<noteq> 0" for t l
  proof -
    have t: "unat t = unat now + unat l" using that(1) by (simp add: checked_add_Some_iff)
    moreover have "0 < unat l" using that(2) by (simp add: unat_gt_0)
    ultimately have lt: "now < t" by (simp add: word_less_nat_alt)
    then have "unat (t - now) = unat l" using t by (simp add: unat_sub less_imp_le)
    then have "t - now = l" by (rule unsigned_word_eqI)
    then show ?thesis using lt by simp
  qed
  show "\<And>t. e = Some t \<Longrightarrow> now < t"
    using assms * by (auto simp: expiry_def split: option.splits if_splits)
  show "k = FullAccess \<Longrightarrow> \<exists>t. e = Some t \<and> t - now \<le> FULL_ACCESS_MAX_TTL_SECS"
  proof -
    assume "k = FullAccess"
    then obtain l where l: "ttl = Some l" "l \<noteq> 0" "l \<le> FULL_ACCESS_MAX_TTL_SECS" "e = checked_add now l" "e \<noteq> None"
      using assms by (auto simp: expiry_def not_less split: option.splits if_splits)
    then show ?thesis using * [of l] by auto
  qed
qed

section \<open>The operations on a valid state\<close>

lemma canonical_root_Inr_iff:
  "canonical_root norm d fg r = Inr p \<longleftrightarrow> resolve_checked norm d r (guard_ctx fg) = Inr p \<and> is_dir d p"
  by (auto simp: canonical_root_def split: sum.splits denial_reason.splits if_splits)

lemma grant_op_Inr:
  assumes "grant_op norm d fg req now = Inr (fg', gid)"
  obtains g where "fg' = fg\<lparr>state := (state fg)\<lparr>grants := grants (state fg) @ [g], next_id := next_id (state fg) + 1\<rparr>\<rparr>"
    "unat (next_id (state fg) + 1) = Suc (unat (next_id (state fg)))"
    "gid = ''g-'' @ dec (unat (next_id (state fg)))" "grant_id g = gid" "revoked_at g = None" "granted_at g = now"
    "expiry (kind g) (ttl_secs req) now = Inr (expires_at g)"
    "canonical_root norm d fg (req_root req) = Inr (root g)"
    "kind g = FullAccess \<longrightarrow> access_of g = Read" "access_of g = Write \<longrightarrow> parent (root g) \<noteq> None"
    "trim (granted_by g) \<noteq> []" "trim (reason g) \<noteq> []"
proof -
  have add: "n = a + 1 \<and> unat n = Suc (unat a)" if "checked_add a 1 = Some n" for a n :: u64
    using that checked_add_SomeD [OF that] by (auto simp: checked_add_def split: if_splits)
  show thesis
    using assms by (auto simp: grant_op_def Let_def result_iff split: if_splits option.splits dest!: add intro!: that)
qed

lemma granted_is_sound:
  assumes "grant_op norm d fg req now = Inr (fg', gid)" "has_root (fg_cwd fg)"
  shows "\<exists>g. grants (state fg') = grants (state fg) @ [g] \<and> sound_grant norm (files d) (guard_ctx fg) g \<and>
    parse_id (grant_id g) = Some (next_id (state fg)) \<and> next_id (state fg') = next_id (state fg) + 1 \<and>
    next_id (state fg) < next_id (state fg') \<and> guard_ctx fg' = guard_ctx fg \<and> version (state fg') = version (state fg)"
proof -
  obtain g where g: "fg' = fg\<lparr>state := (state fg)\<lparr>grants := grants (state fg) @ [g], next_id := next_id (state fg) + 1\<rparr>\<rparr>"
    "unat (next_id (state fg) + 1) = Suc (unat (next_id (state fg)))"
    "gid = ''g-'' @ dec (unat (next_id (state fg)))" "grant_id g = gid" "revoked_at g = None" "granted_at g = now"
    "expiry (kind g) (ttl_secs req) now = Inr (expires_at g)"
    "canonical_root norm d fg (req_root req) = Inr (root g)"
    "kind g = FullAccess \<longrightarrow> access_of g = Read" "access_of g = Write \<longrightarrow> parent (root g) \<noteq> None"
    "trim (granted_by g) \<noteq> []" "trim (reason g) \<noteq> []"
    by (rule grant_op_Inr [OF assms(1)])
  have ok: "check_path norm (files d) (guard_ctx fg) (Some (render_names (root g))) = Inr (root g)"
    using g(8) by (auto simp: canonical_root_Inr_iff dest: resolve_checked_Inr)
  then have "plain (root g)" using check_path_plain assms(2) by fastforce
  then have "sound_grant norm (files d) (guard_ctx fg) g"
    using plain_components ok expiry_Inr [OF g(7)] g(6,9-12) by (simp add: sound_grant_def)
  then show ?thesis using g(1-4) parse_id_fresh by (simp add: word_less_nat_alt guard_ctx_def)
qed

lemma revoke_op_Inr:
  assumes "revoke_op fg gid now = Inr fg'"
  obtains a g b where "grants (state fg) = a @ g # b" "grant_id g = gid" "revoked_at g = None"
    "fg' = fg\<lparr>state := (state fg)\<lparr>grants := a @ g\<lparr>revoked_at := Some now\<rparr> # b\<rparr>\<rparr>" "\<forall>h \<in> set a. grant_id h \<noteq> gid"
proof -
  let ?P = "\<lambda>g. grant_id g = gid" and ?f = "\<lambda>g. g\<lparr>revoked_at := Some now\<rparr>" and ?gs = "grants (state fg)"
  obtain h where h: "find ?P ?gs = Some h" "revoked_at h = None"
    and fg': "fg' = fg\<lparr>state := (state fg)\<lparr>grants := update_first ?P ?f ?gs\<rparr>\<rparr>"
    using assms by (auto simp: revoke_op_def split: option.splits if_splits)
  have "\<exists>x \<in> set ?gs. ?P x" using h(1) by (auto simp: find_Some_iff)
  then obtain a x b where gs: "?gs = a @ x # b" "?P x" "\<forall>y \<in> set a. \<not> ?P y"
    using split_list_first_prop [of ?gs ?P] by blast
  have "update_first ?P ?f (a @ x # b) = a @ ?f x # b" "find ?P (a @ x # b) = Some x"
    using gs(2,3) by (induction a) auto
  then show thesis using that [OF gs(1,2)] gs h fg' by simp
qed

section \<open>A run of operations\<close>

datatype fg_cmd = CGrant disk grant_request u64 | CRevoke string u64

text \<open>A refused operation leaves the grants as they were.\<close>

definition fg_step :: "(string \<Rightarrow> string) \<Rightarrow> folder_grants \<Rightarrow> fg_cmd \<Rightarrow> folder_grants" where
  "fg_step norm fg c =
     (case c of
        CGrant d req now \<Rightarrow> (case grant_op norm d fg req now of Inr (fg', _) \<Rightarrow> fg' | Inl _ \<Rightarrow> fg)
      | CRevoke gid now \<Rightarrow> (case revoke_op fg gid now of Inr fg' \<Rightarrow> fg' | Inl _ \<Rightarrow> fg))"

definition dead :: "string \<Rightarrow> folder_grants \<Rightarrow> bool" where
  "dead gid fg \<longleftrightarrow>
     (\<exists>n. parse_id gid = Some n \<and> n < next_id (state fg)) \<and>
     (\<forall>g \<in> set (grants (state fg)). grant_id g = gid \<longrightarrow> revoked_at g \<noteq> None)"

lemma dead_grant_op:
  assumes "grant_op norm d fg req now = Inr (fg', i)" "dead gid fg"
  shows "dead gid fg'"
proof -
  obtain g where g: "fg' = fg\<lparr>state := (state fg)\<lparr>grants := grants (state fg) @ [g], next_id := next_id (state fg) + 1\<rparr>\<rparr>"
    "unat (next_id (state fg) + 1) = Suc (unat (next_id (state fg)))"
    "i = ''g-'' @ dec (unat (next_id (state fg)))" "grant_id g = i"
    by (rule grant_op_Inr [OF assms(1)])
  obtain n where n: "parse_id gid = Some n" "n < next_id (state fg)" using assms(2) by (auto simp: dead_def)
  have "gid \<noteq> i" using n g(3) parse_id_fresh by auto
  moreover have "n < next_id (state fg) + 1" using n(2) g(2) by (simp add: word_less_nat_alt)
  ultimately show ?thesis using assms(2) n(1) g(1,4) by (auto simp: dead_def)
qed

lemma dead_revoke_op:
  assumes "revoke_op fg i now = Inr fg'" "dead gid fg"
  shows "dead gid fg'"
proof -
  obtain a g b where "grants (state fg) = a @ g # b"
    "fg' = fg\<lparr>state := (state fg)\<lparr>grants := a @ g\<lparr>revoked_at := Some now\<rparr> # b\<rparr>\<rparr>"
    by (rule revoke_op_Inr [OF assms(1)])
  then show ?thesis using assms(2) by (auto simp: dead_def)
qed

lemma dead_run: "dead gid fg \<Longrightarrow> dead gid (foldl (fg_step norm) fg cs)"
proof (induction cs arbitrary: fg)
  case (Cons c cs)
  have "dead gid (fg_step norm fg c)"
    using Cons.prems by (auto simp: fg_step_def split: fg_cmd.split sum.split intro: dead_grant_op dead_revoke_op)
  then show ?case using Cons.IH by simp
qed simp

lemma revoked_is_dead:
  assumes "revoke_op fg gid now = Inr fg'" "validate_state norm fs fg = Inr ()"
  shows "dead gid fg'"
proof -
  obtain a g b where r: "grants (state fg) = a @ g # b" "grant_id g = gid"
    "fg' = fg\<lparr>state := (state fg)\<lparr>grants := a @ g\<lparr>revoked_at := Some now\<rparr> # b\<rparr>\<rparr>" "\<forall>h \<in> set a. grant_id h \<noteq> gid"
    by (rule revoke_op_Inr [OF assms(1)])
  have v: "parse_id gid \<noteq> None" "num_of g < next_id (state fg)" "num_of g \<notin> num_of ` set b"
    using assms(2) r(1,2) by (auto simp: validate_state_Inr_iff)
  have "num_of h = num_of g" if "grant_id h = gid" for h using that r(2) by (simp add: num_of_def)
  then have "grant_id h \<noteq> gid" if "h \<in> set b" for h using that v(3) by (metis imageI)
  then show ?thesis using v r by (auto simp: dead_def num_of_def)
qed

lemma dead_not_allowed: "dead gid fg \<Longrightarrow> check_op norm d fg p o' now \<noteq> Allowed c gid"
proof
  assume "dead gid fg" "check_op norm d fg p o' now = Allowed c gid"
  then show False
    by (elim check_op_Allowed) (auto simp: dead_def set_live is_active_def dest!: most_specific_Some)
qed

section \<open>A concrete grant\<close>

definition demo_disk :: disk where
  "demo_disk = \<lparr>files = demo_fs, canonicalize = Some, is_dir = (\<lambda>_. True)\<rparr>"

definition demo_request :: grant_request where
  "demo_request = full_access_request (Some ''/l'') 10 ''m'' ''r''"

definition demo_grant :: grant where
  "demo_grant = \<lparr>grant_id = ''g-1'', kind = FullAccess, root = [RootDir, Normal ''w''], access_of = Read,
     scope = Subtree, granted_at = 5, expires_at = Some 15, granted_by = ''m'', reason = ''r'', revoked_at = None\<rparr>"

definition demo_grants :: folder_grants where
  "demo_grants = \<lparr>state = \<lparr>version = 1, next_id = 2, grants = [demo_grant]\<rparr>, fg_home = [RootDir], fg_cwd = [RootDir]\<rparr>"

lemma demo_resolve: "resolve_checked id demo_disk (Some ''/l'') ctx = Inr [RootDir, Normal ''w'']"
proof -
  have "on_disk_spelling demo_disk [RootDir, Normal ''w''] = Inr [RootDir, Normal ''w'']"
    by (simp add: on_disk_spelling_def spelling_from.simps demo_disk_def demo_fs_def)
  then show ?thesis using demo_allowed [of ctx] demo_allowed_plain [of ctx]
    by (simp add: resolve_checked_def demo_disk_def)
qed

lemma trim_letters [simp]: "trim ''m'' = ''m''" "trim ''r'' = ''r''"
  by (simp_all add: trim_graphic is_graphic_def)

lemma demo_grant_op: "grant_op id demo_disk (new_grants [RootDir] [RootDir]) demo_request 5 = Inr (demo_grants, ''g-1'')"
proof -
  have "canonical_root id demo_disk (new_grants [RootDir] [RootDir]) (Some ''/l'') = Inr [RootDir, Normal ''w'']"
    by (simp add: canonical_root_Inr_iff demo_resolve) (simp add: demo_disk_def)
  moreover have "dec 1 = ''1''" by code_simp
  ultimately show ?thesis
    by (simp add: Let_def grant_op_def demo_request_def full_access_request_def expiry_def FULL_ACCESS_MAX_TTL_SECS_def
        checked_add_def new_grants_def default_state_def demo_grants_def demo_grant_def STATE_VERSION_def)
qed

lemma demo_check: "check_op id demo_disk demo_grants (Some ''/l'') OpRead 7 = Allowed [RootDir, Normal ''w''] ''g-1''"
  by (simp add: check_op_def check_inner_def live_def demo_grants_def demo_grant_def is_active_def op_access_def
      most_specific_def covers_def demo_resolve)

lemma demo_valid: "validate_state id demo_fs demo_grants = Inr ()"
proof -
  have "parse_id ''g-1'' = Some 1"
    by (simp add: parse_id_def strip_prefix_def parse_u64_def parse_dec_def is_digit_def)
  moreover have "is_ok (check_path id demo_fs (guard_ctx demo_grants) (Some ''/w''))"
    using demo_allowed_plain by simp
  ultimately show ?thesis
    by (simp add: validate_state_Inr_iff sound_grant_def num_of_def demo_grants_def demo_grant_def STATE_VERSION_def
        has_root_def FULL_ACCESS_MAX_TTL_SECS_def)
qed

section \<open>The properties of folder grants\<close>

text \<open>
  C12. Nothing is allowed without a live grant: the grant an answer names is in the state, neither
  revoked nor outside its time window, has the access of the operation, and the resolved path is its
  root or below (one level for a shallow grant), outside the deny list; an environment file needs
  a folder grant, never full access.
\<close>

theorem allowed_only_by_a_live_grant:
  assumes "check_op norm d fg p o' now = Allowed c gid"
  shows "\<exists>g \<in> set (grants (state fg)).
    grant_id g = gid \<and> revoked_at g = None \<and> granted_at g \<le> now \<and>
    (\<forall>t. expires_at g = Some t \<longrightarrow> now < t) \<and> access_of g = op_access o' \<and>
    prefix (root g) c \<and> (scope g = Shallow \<longrightarrow> length c \<le> Suc (length (root g))) \<and>
    match_rules norm c = Inr () \<and>
    (\<forall>name. file_name c = Some name \<longrightarrow> is_dotenv (fold_comp norm name) \<longrightarrow> kind g = Folder)"
  using assms
proof (rule check_op_Allowed)
  fix g
  assume g: "most_specific (live fg (op_access o') now (kind g)) c = Some g" "grant_id g = gid"
    "match_rules norm c = Inr ()"
    and full: "kind g = FullAccess \<longrightarrow> match_dotenv norm c (resolved_roots (files d) (guard_ctx fg)) = Inr ()"
  have "g \<in> set (grants (state fg))" "access_of g = op_access o'" "is_active g now" "covers g c"
    using most_specific_Some [OF g(1)] by (simp_all add: set_live)
  moreover have "kind g = Folder" if "file_name c = Some name" "is_dotenv (fold_comp norm name)" for name
    using full that no_roots_no_dotenv by (cases "kind g") blast+
  ultimately show ?thesis using g(2,3) covers_prefix covers_shallow
    by (intro bexI [of _ g]) (auto simp: is_active_def split: option.splits)
qed

theorem allowed_only_by_a_live_grant_witness: "prefix (root demo_grant) [RootDir, Normal ''w'']"
  using allowed_only_by_a_live_grant [OF demo_check] by (simp add: demo_grants_def)

text \<open>
  C13. A state the loader accepts stays one the loader accepts: every grant that is created satisfies
  all the rules a stored grant must satisfy (its root resolves to itself, ids stay fresh and below
  the counter, full access is read-only and expires within a day), and a revocation breaks none.
\<close>

theorem operations_keep_the_state_loadable:
  assumes "validate_state norm (files d) fg = Inr ()" "has_root (fg_cwd fg)"
  shows "(grant_op norm d fg req now = Inr (fg', gid) \<longrightarrow> validate_state norm (files d) fg' = Inr ()) \<and>
    (revoke_op fg gid now = Inr fg'' \<longrightarrow> validate_state norm (files d) fg'' = Inr ())"
proof (intro conjI impI)
  assume "grant_op norm d fg req now = Inr (fg', gid)"
  from granted_is_sound [OF this assms(2)]
  obtain g where g: "grants (state fg') = grants (state fg) @ [g]" "sound_grant norm (files d) (guard_ctx fg) g"
      "parse_id (grant_id g) = Some (next_id (state fg))" "next_id (state fg) < next_id (state fg')"
      "guard_ctx fg' = guard_ctx fg" "version (state fg') = version (state fg)" by blast
  have old: "num_of h < next_id (state fg)" if "h \<in> set (grants (state fg))" for h
    using assms(1) that by (simp add: validate_state_Inr_iff)
  then have "num_of g \<notin> num_of ` set (grants (state fg))" using g(3) by (fastforce simp: num_of_def)
  moreover have "num_of h < next_id (state fg')" if "h \<in> set (grants (state fg))" for h
    using old [OF that] g(4) by simp
  ultimately show "validate_state norm (files d) fg' = Inr ()"
    using assms(1) g by (simp add: validate_state_Inr_iff num_of_def)
next
  assume "revoke_op fg gid now = Inr fg''"
  then obtain a g b where r: "grants (state fg) = a @ g # b"
    "fg'' = fg\<lparr>state := (state fg)\<lparr>grants := a @ g\<lparr>revoked_at := Some now\<rparr> # b\<rparr>\<rparr>"
    by (rule revoke_op_Inr)
  have "sound_grant norm (files d) ctx (g\<lparr>revoked_at := Some now\<rparr>) = sound_grant norm (files d) ctx g" for ctx
    by (simp add: sound_grant_def)
  then show "validate_state norm (files d) fg'' = Inr ()"
    using assms(1) r by (auto simp: validate_state_Inr_iff num_of_def guard_ctx_def)
qed

theorem operations_keep_the_state_loadable_witness: "validate_state id demo_fs demo_grants = Inr ()"
proof -
  have "validate_state id (files demo_disk) (new_grants [RootDir] [RootDir]) = Inr ()"
    "has_root (fg_cwd (new_grants [RootDir] [RootDir]))"
    by (simp_all add: validate_state_Inr_iff new_grants_def default_state_def has_root_def)
  from operations_keep_the_state_loadable [OF this, THEN conjunct1] demo_grant_op
  show ?thesis by (auto simp: demo_disk_def)
qed

text \<open>
  C14. Revocation is immediate and final: after a grant is revoked, no check names it again, for any
  path, operation and clock, whatever is granted and revoked afterwards, on whatever disk.
\<close>

theorem revocation_is_final:
  assumes "validate_state norm fs fg = Inr ()" "revoke_op fg gid now = Inr fg'"
  shows "check_op norm d (foldl (fg_step norm) fg' cs) p o' t \<noteq> Allowed c gid"
  by (rule dead_not_allowed [OF dead_run [OF revoked_is_dead [OF assms(2,1)]]])

theorem revocation_is_final_witness:
  "check_op id demo_disk (case revoke_op demo_grants ''g-1'' 6 of Inr fg \<Rightarrow> fg) (Some ''/l'') OpRead 7
     \<noteq> Allowed [RootDir, Normal ''w''] ''g-1''"
proof -
  obtain fg where fg: "revoke_op demo_grants ''g-1'' 6 = Inr fg"
    by (simp add: revoke_op_def demo_grants_def demo_grant_def)
  show ?thesis using revocation_is_final [OF demo_valid fg, where cs = "[]"] fg by simp
qed

text \<open>
  Full access is read-only and lasts at most a day: on a state the loader accepts, an answer
  that full access gives is to a read, and less than 86,400 seconds after it was granted.
\<close>

lemma full_access_reads_for_a_day:
  assumes "validate_state norm fs fg = Inr ()" "check_op norm d fg p o' now = Allowed c gid"
  shows "\<exists>g \<in> set (grants (state fg)). grant_id g = gid \<and>
    (kind g = FullAccess \<longrightarrow> o' = OpRead \<and> unat (granted_at g) \<le> unat now \<and> unat now < unat (granted_at g) + 86400)"
  using assms(2)
proof (rule check_op_Allowed)
  fix g
  assume g: "most_specific (live fg (op_access o') now (kind g)) c = Some g" "grant_id g = gid"
  have live: "g \<in> set (grants (state fg))" "access_of g = op_access o'" "is_active g now"
    using most_specific_Some [OF g(1)] by (simp_all add: set_live)
  have "o' = OpRead \<and> unat (granted_at g) \<le> unat now \<and> unat now < unat (granted_at g) + 86400" if full: "kind g = FullAccess"
  proof -
    have "sound_grant norm fs (guard_ctx fg) g" using assms(1) live(1) by (simp add: validate_state_Inr_iff)
    then obtain t where t: "access_of g = Read" "expires_at g = Some t" "granted_at g < t"
      "t - granted_at g \<le> FULL_ACCESS_MAX_TTL_SECS"
      using full unfolding sound_grant_def by blast
    have "unat t - unat (granted_at g) \<le> 86400"
      using t(4) unat_sub [OF less_imp_le [OF t(3)]] by (simp add: word_le_nat_alt FULL_ACCESS_MAX_TTL_SECS_def)
    moreover have "granted_at g \<le> now" "now < t" using live(3) t(2) by (simp_all add: is_active_def)
    ultimately show ?thesis using t(1) live(2)
      by (cases o') (auto simp: op_access_def word_le_nat_alt word_less_nat_alt)
  qed
  then show ?thesis using live(1) g(2) by blast
qed

text \<open>
  When a grant is refused: it is created exactly when it names a member and a reason, full
  access is a read with a limit of at most a day, a limit is at least a second and does not overflow
  the clock, the root resolves to an existing folder, is not the file system root for a write, and
  an id is left.
\<close>

lemma grant_created_iff:
  "is_ok (grant_op norm d fg req now) \<longleftrightarrow>
     trim (req_granted_by req) \<noteq> [] \<and> trim (req_reason req) \<noteq> [] \<and>
     (req_kind req = FullAccess \<longrightarrow> req_access req = Read \<and> (\<exists>t. ttl_secs req = Some t \<and> unat t \<le> 86400)) \<and>
     (\<forall>t. ttl_secs req = Some t \<longrightarrow> t \<noteq> 0 \<and> unat now + unat t < 2 ^ 64) \<and>
     (\<exists>r. resolve_checked norm d (req_root req) (guard_ctx fg) = Inr r \<and> is_dir d r \<and>
        (req_access req = Write \<longrightarrow> parent r \<noteq> None)) \<and>
     unat (next_id (state fg)) + 1 < 2 ^ 64"
proof -
  have e: "(\<exists>e. expiry (req_kind req) (ttl_secs req) now = Inr e) \<longleftrightarrow>
      (req_kind req = FullAccess \<longrightarrow> (\<exists>t. ttl_secs req = Some t \<and> unat t \<le> 86400)) \<and>
      (\<forall>t. ttl_secs req = Some t \<longrightarrow> t \<noteq> 0 \<and> unat now + unat t < 2 ^ 64)"
    by (auto simp: expiry_def checked_add_def FULL_ACCESS_MAX_TTL_SECS_def word_less_nat_alt split: option.split)
  have c: "(\<exists>r. canonical_root norm d fg (req_root req) = Inr r \<and> Q r) \<longleftrightarrow>
      (\<exists>r. resolve_checked norm d (req_root req) (guard_ctx fg) = Inr r \<and> is_dir d r \<and> Q r)" for Q
    by (auto simp: canonical_root_Inr_iff)
  have "is_ok (grant_op norm d fg req now) \<longleftrightarrow>
     trim (req_granted_by req) \<noteq> [] \<and> trim (req_reason req) \<noteq> [] \<and>
     (req_kind req = FullAccess \<longrightarrow> req_access req = Read) \<and>
     (\<exists>e. expiry (req_kind req) (ttl_secs req) now = Inr e) \<and>
     (\<exists>r. canonical_root norm d fg (req_root req) = Inr r \<and> (req_access req = Write \<longrightarrow> parent r \<noteq> None)) \<and>
     checked_add (next_id (state fg)) 1 \<noteq> None"
    by (cases "expiry (req_kind req) (ttl_secs req) now"; cases "canonical_root norm d fg (req_root req)")
      (simp_all add: grant_op_def Let_def split: option.split)
  then show ?thesis unfolding e c by (auto simp: checked_add_def)
qed

end
