(* ===== verification/Merkle.thy ===== *)
theory Merkle
  imports Prelude
begin

text \<open>
  The Merkle trees over record hashes: the recursive RFC 6962 tree with its audit paths and the
  RFC 9162 verification (\<open>agent-records/src/merkle.rs\<close>), and the tree that keeps every level
  (\<open>agent-anchor/src/tree.rs\<close>). SHA-256 is the parameter \<open>sha\<close>; sizes and indices are natural
  numbers, as no arithmetic on them can wrap.
\<close>

section \<open>The code\<close>

type_synonym hash = bytes

definition leaf_hash :: "(bytes \<Rightarrow> hash) \<Rightarrow> hash \<Rightarrow> hash" where
  "leaf_hash sha d = sha (0 # d)"

definition node_hash :: "(bytes \<Rightarrow> hash) \<Rightarrow> hash \<Rightarrow> hash \<Rightarrow> hash" where
  "node_hash sha l r = sha (1 # l @ r)"

function split_from :: "nat \<Rightarrow> nat \<Rightarrow> nat" where
  "split_from n k = (if 0 < k \<and> k * 2 < n then split_from n (k * 2) else k)"
  by pat_completeness auto
termination by (relation "measure (\<lambda>(n, k). n - k)") auto

declare split_from.simps [simp del]

definition split :: "nat \<Rightarrow> nat" where
  "split n = split_from n 1"

lemma split_from_bounds: "0 < k \<Longrightarrow> k < n \<Longrightarrow> 0 < split_from n k \<and> split_from n k < n"
  by (induction n k rule: split_from.induct) (subst (1 2) split_from.simps, auto)

lemma split_bounds: "2 \<le> n \<Longrightarrow> 0 < split n \<and> split n < n"
  by (simp add: split_def split_from_bounds)

function mth :: "(bytes \<Rightarrow> hash) \<Rightarrow> hash list \<Rightarrow> hash" where
  "mth sha [] = replicate 32 0"
| "mth sha [d] = leaf_hash sha d"
| "mth sha (d # e # ds) =
     (let xs = d # e # ds; k = split (length xs)
      in node_hash sha (mth sha (take k xs)) (mth sha (drop k xs)))"
  by pat_completeness auto
termination
  by (relation "measure (\<lambda>(sha, xs). length xs)") (use split_bounds in \<open>auto simp: Let_def\<close>)

definition merkle_root :: "(bytes \<Rightarrow> hash) \<Rightarrow> hash list \<Rightarrow> hash option" where
  "merkle_root sha leaves = (if leaves = [] then None else Some (mth sha leaves))"

function audit_path :: "(bytes \<Rightarrow> hash) \<Rightarrow> hash list \<Rightarrow> nat \<Rightarrow> hash list" where
  "audit_path sha leaves index =
     (if length leaves \<le> index \<or> length leaves < 2 then []
      else
        let k = split (length leaves)
        in if index < k then audit_path sha (take k leaves) index @ [mth sha (drop k leaves)]
           else audit_path sha (drop k leaves) (index - k) @ [mth sha (take k leaves)])"
  by pat_completeness auto
termination
  by (relation "measure (\<lambda>(sha, xs, i). length xs)") (use split_bounds in \<open>auto simp: not_less intro!: diff_less\<close>)

declare audit_path.simps [simp del]

text \<open>The inner loop skips the levels at which the node is promoted.\<close>

fun skip_promoted :: "nat \<Rightarrow> nat \<Rightarrow> nat \<times> nat" where
  "skip_promoted f s = (if even f \<and> f \<noteq> 0 then skip_promoted (f div 2) (s div 2) else (f, s))"

declare skip_promoted.simps [simp del]

fun verify_from :: "(bytes \<Rightarrow> hash) \<Rightarrow> nat \<Rightarrow> nat \<Rightarrow> hash \<Rightarrow> hash list \<Rightarrow> hash \<Rightarrow> bool" where
  "verify_from sha f s r [] root \<longleftrightarrow> s = 0 \<and> r = root"
| "verify_from sha f s r (p # ps) root \<longleftrightarrow>
     s \<noteq> 0 \<and>
     (if odd f \<or> f = s
      then let (f', s') = skip_promoted f s
           in verify_from sha (f' div 2) (s' div 2) (node_hash sha p r) ps root
      else verify_from sha (f div 2) (s div 2) (node_hash sha r p) ps root)"

definition verify_path :: "(bytes \<Rightarrow> hash) \<Rightarrow> hash \<Rightarrow> nat \<Rightarrow> nat \<Rightarrow> hash list \<Rightarrow> hash \<Rightarrow> bool" where
  "verify_path sha leaf index n path root \<longleftrightarrow>
     index < n \<and> verify_from sha index (n - 1) (leaf_hash sha leaf) path root"

section \<open>The tree that keeps its levels\<close>

fun next_level :: "(bytes \<Rightarrow> hash) \<Rightarrow> hash list \<Rightarrow> hash list" where
  "next_level sha (l # r # rest) = node_hash sha l r # next_level sha rest"
| "next_level sha [x] = [x]"
| "next_level sha [] = []"

lemma length_next_level [simp]: "length (next_level sha xs) = (length xs + 1) div 2"
  by (induction sha xs rule: next_level.induct) auto

function levels_from :: "(bytes \<Rightarrow> hash) \<Rightarrow> hash list \<Rightarrow> hash list list" where
  "levels_from sha lv = (if length lv \<le> 1 then [lv] else lv # levels_from sha (next_level sha lv))"
  by pat_completeness auto
termination by (relation "measure (\<lambda>(sha, lv). length lv)") auto

declare levels_from.simps [simp del]

definition build_tree :: "(bytes \<Rightarrow> hash) \<Rightarrow> hash list \<Rightarrow> hash list list option" where
  "build_tree sha leaf_data =
     (if leaf_data = [] then None else Some (levels_from sha (map (leaf_hash sha) leaf_data)))"

definition tree_size :: "hash list list \<Rightarrow> nat" where
  "tree_size levels = (case levels of [] \<Rightarrow> 0 | l # _ \<Rightarrow> length l)"

definition tree_root :: "hash list list \<Rightarrow> hash" where
  "tree_root levels =
     (if levels = [] then replicate 32 0
      else case last levels of [] \<Rightarrow> replicate 32 0 | x # _ \<Rightarrow> x)"

fun path_from :: "hash list list \<Rightarrow> nat \<Rightarrow> hash list" where
  "path_from [] i = []"
| "path_from (level # rest) i =
     (let sib = (if even i then i + 1 else i - 1)
      in (if sib < length level then [level ! sib] else []) @ path_from rest (i div 2))"

definition tree_path :: "hash list list \<Rightarrow> nat \<Rightarrow> hash list option" where
  "tree_path levels index =
     (case levels of
        [] \<Rightarrow> None
      | l # _ \<Rightarrow> if length l \<le> index then None else Some (path_from (butlast levels) index))"

section \<open>The level-by-level tree is the recursive one\<close>

definition level_root :: "(bytes \<Rightarrow> hash) \<Rightarrow> hash list \<Rightarrow> hash" where
  "level_root sha xs = hd (last (levels_from sha xs))"

definition level_path :: "(bytes \<Rightarrow> hash) \<Rightarrow> hash list \<Rightarrow> nat \<Rightarrow> hash list" where
  "level_path sha xs i = path_from (butlast (levels_from sha xs)) i"

definition sibling :: "hash list \<Rightarrow> nat \<Rightarrow> hash list" where
  "sibling xs i =
     (let sib = (if even i then i + 1 else i - 1) in if sib < length xs then [xs ! sib] else [])"

lemma levels_from_nonempty [simp]: "levels_from sha xs \<noteq> []"
  by (subst levels_from.simps) simp

lemma level_root_single [simp]: "level_root sha [x] = x"
  by (simp add: level_root_def levels_from.simps)

lemma level_path_single [simp]: "level_path sha [x] i = []"
  by (simp add: level_path_def levels_from.simps)

lemma next_level_short: "length xs \<le> 1 \<Longrightarrow> next_level sha xs = xs"
  by (induction sha xs rule: next_level.induct) auto

lemma level_root_next: "level_root sha (next_level sha xs) = level_root sha xs"
proof (cases "length xs \<le> 1")
  case False
  then show ?thesis by (simp add: level_root_def levels_from.simps [of sha xs])
qed (simp add: next_level_short)

lemma level_path_next:
  assumes "i < length xs"
  shows "level_path sha xs i = sibling xs i @ level_path sha (next_level sha xs) (i div 2)"
proof (cases "length xs \<le> 1")
  case True
  then obtain x where "xs = [x]" using assms by (cases xs) auto
  then show ?thesis using assms by (simp add: sibling_def)
next
  case False
  then show ?thesis by (simp add: level_path_def levels_from.simps [of sha xs] sibling_def Let_def)
qed

lemma next_level_append: "even (length xs) \<Longrightarrow> next_level sha (xs @ ys) = next_level sha xs @ next_level sha ys"
  by (induction sha xs rule: next_level.induct) auto

lemma next_level_take_drop:
  assumes "even k" "k \<le> length xs"
  shows "next_level sha (take k xs) = take (k div 2) (next_level sha xs)"
    "next_level sha (drop k xs) = drop (k div 2) (next_level sha xs)"
proof -
  have "next_level sha xs = next_level sha (take k xs) @ next_level sha (drop k xs)"
    using next_level_append [of "take k xs" sha "drop k xs"] assms by simp
  moreover have "length (next_level sha (take k xs)) = k div 2" using assms by (auto elim: evenE)
  ultimately show "next_level sha (take k xs) = take (k div 2) (next_level sha xs)"
    "next_level sha (drop k xs) = drop (k div 2) (next_level sha xs)" by simp_all
qed

lemma sibling_take_drop:
  assumes "even k" "k < length xs"
  shows "i < k \<Longrightarrow> sibling (take k xs) i = sibling xs i"
    "k \<le> i \<Longrightarrow> sibling (drop k xs) (i - k) = sibling xs i"
proof -
  have *: "i + 1 < k" if "even i" "i < k" using that assms(1) by (metis Suc_eq_plus1 Suc_lessI even_Suc)
  show "i < k \<Longrightarrow> sibling (take k xs) i = sibling xs i"
    using * assms(2) by (auto simp: sibling_def Let_def)
  have "k < i" if "odd i" "k \<le> i" using that assms(1) by (metis le_neq_implies_less)
  then show "k \<le> i \<Longrightarrow> sibling (drop k xs) (i - k) = sibling xs i"
    using assms by (auto simp: sibling_def Let_def less_diff_conv2)
qed

lemma half_bounds: "2 * p < n \<Longrightarrow> n \<le> 4 * p \<Longrightarrow> p < (n + 1) div 2 \<and> (n + 1) div 2 \<le> 2 * p" for n p :: nat
  by (cases "even n") (auto elim!: evenE oddE)

lemma level_split_all:
  assumes "2 ^ m < length xs" "length xs \<le> 2 * 2 ^ m" "i < length xs"
  shows "level_root sha xs = node_hash sha (level_root sha (take (2 ^ m) xs)) (level_root sha (drop (2 ^ m) xs)) \<and>
    level_path sha xs i =
      (if i < 2 ^ m then level_path sha (take (2 ^ m) xs) i @ [level_root sha (drop (2 ^ m) xs)]
       else level_path sha (drop (2 ^ m) xs) (i - 2 ^ m) @ [level_root sha (take (2 ^ m) xs)])"
  using assms
proof (induction m arbitrary: xs i)
  case (0 xs i)
  then obtain x y where xs: "xs = [x, y]" by (cases xs; cases "tl xs") auto
  have "level_root sha [x, y] = node_hash sha x y"
    by (simp add: level_root_next [symmetric, of sha "[x, y]"])
  moreover have "level_path sha [x, y] i = [if i = 0 then y else x]"
    using 0 xs level_path_next [of i "[x, y]" sha] by (cases i) (auto simp: sibling_def)
  ultimately show ?case using 0 xs by simp
next
  case (Suc m xs i)
  let ?k = "2 ^ Suc m :: nat" and ?ys = "next_level sha xs"
  have len: "2 ^ m < length ?ys" "length ?ys \<le> 2 * 2 ^ m" "i div 2 < length ?ys" and le: "?k \<le> length xs"
    using half_bounds [of "2 ^ m" "length xs"] Suc.prems by auto
  note IH = Suc.IH [OF len]
  note take_drop = next_level_take_drop [of ?k xs sha, simplified, OF le [simplified]]
  have "level_root sha xs = node_hash sha (level_root sha (take ?k xs)) (level_root sha (drop ?k xs))"
    using IH take_drop level_root_next [of sha xs] level_root_next [of sha "take ?k xs"]
      level_root_next [of sha "drop ?k xs"] by simp
  moreover have "level_path sha xs i = level_path sha (take ?k xs) i @ [level_root sha (drop ?k xs)]" if "i < ?k"
  proof -
    have "i div 2 < 2 ^ m" using that by auto
    then show ?thesis
      using IH take_drop Suc.prems that level_root_next [of sha "drop ?k xs"] sibling_take_drop(1) [of ?k xs i]
        level_path_next [of i xs sha] level_path_next [of i "take ?k xs" sha] by simp
  qed
  moreover have "level_path sha xs i = level_path sha (drop ?k xs) (i - ?k) @ [level_root sha (take ?k xs)]" if "\<not> i < ?k"
  proof -
    have "\<not> i div 2 < 2 ^ m" "(i - ?k) div 2 = i div 2 - 2 ^ m" using that by auto
    then show ?thesis
      using IH take_drop Suc.prems that level_root_next [of sha "take ?k xs"] sibling_take_drop(2) [of ?k xs i]
        level_path_next [of i xs sha] level_path_next [of "i - ?k" "drop ?k xs" sha] by simp
  qed
  ultimately show ?case by simp
qed

lemma level_split:
  assumes "2 ^ m < length xs" "length xs \<le> 2 * 2 ^ m"
  shows "level_root sha xs = node_hash sha (level_root sha (take (2 ^ m) xs)) (level_root sha (drop (2 ^ m) xs))"
    "i < 2 ^ m \<Longrightarrow> level_path sha xs i = level_path sha (take (2 ^ m) xs) i @ [level_root sha (drop (2 ^ m) xs)]"
    "2 ^ m \<le> i \<Longrightarrow> i < length xs \<Longrightarrow>
       level_path sha xs i = level_path sha (drop (2 ^ m) xs) (i - 2 ^ m) @ [level_root sha (take (2 ^ m) xs)]"
proof -
  have "xs \<noteq> []" using assms(1) by auto
  then show "level_root sha xs = node_hash sha (level_root sha (take (2 ^ m) xs)) (level_root sha (drop (2 ^ m) xs))"
    using level_split_all [OF assms, of 0 sha] by simp
qed (use level_split_all [OF assms, of i sha] assms(1) in auto)

lemma split_from_power:
  "k = 2 ^ j \<Longrightarrow> k < n \<Longrightarrow> \<exists>m. split_from n k = 2 ^ m \<and> 2 ^ m < n \<and> n \<le> 2 * 2 ^ m"
proof (induction n k arbitrary: j rule: split_from.induct)
  case (1 n k)
  show ?case
  proof (cases "k * 2 < n")
    case True
    then show ?thesis using 1(1) [of "Suc j"] 1(2,3) by (subst (1) split_from.simps) auto
  next
    case False
    then show ?thesis using 1(2,3) by (subst split_from.simps) (auto intro!: exI [of _ j])
  qed
qed

lemma split_power: "2 \<le> n \<Longrightarrow> \<exists>m. split n = 2 ^ m \<and> 2 ^ m < n \<and> n \<le> 2 * 2 ^ m"
  using split_from_power [of 1 0 n] by (simp add: split_def)

lemma mth_levels: "xs \<noteq> [] \<Longrightarrow> mth sha xs = level_root sha (map (leaf_hash sha) xs)"
proof (induction sha xs rule: mth.induct)
  case (3 sha d e ds)
  let ?xs = "d # e # ds"
  obtain m where m: "split (length ?xs) = 2 ^ m" "2 ^ m < length ?xs" "length ?xs \<le> 2 * 2 ^ m"
    using split_power [of "length ?xs"] by auto
  have "mth sha ?xs = node_hash sha (mth sha (take (2 ^ m) ?xs)) (mth sha (drop (2 ^ m) ?xs))"
    using m(1) by (simp only: mth.simps Let_def)
  also have "\<dots> = level_root sha (map (leaf_hash sha) ?xs)"
    using 3(1,2) [OF refl m(1) [symmetric]] m(2,3) level_split(1) [of m "map (leaf_hash sha) ?xs" sha]
    by (simp add: take_map drop_map del: list.map)
  finally show ?case .
qed simp_all

lemma audit_path_levels:
  "i < length xs \<Longrightarrow> audit_path sha xs i = level_path sha (map (leaf_hash sha) xs) i"
proof (induction sha xs i rule: audit_path.induct)
  case (1 sha xs i)
  show ?case
  proof (cases "length xs < 2")
    case True
    then obtain x where "xs = [x]" using 1(3) by (cases xs) auto
    then show ?thesis by (simp add: audit_path.simps)
  next
    case False
    then obtain m where m: "split (length xs) = 2 ^ m" "2 ^ m < length xs" "length xs \<le> 2 * 2 ^ m"
      using split_power [of "length xs"] by auto
    note ih = "1.IH" [OF _ m(1) [symmetric]]
    have xs: "xs \<noteq> []" using 1(3) by auto
    show ?thesis
      using xs 1(3) False m ih level_split(2,3) [of m "map (leaf_hash sha) xs" i sha]
      by (simp add: audit_path.simps [of sha xs i] Let_def mth_levels take_map drop_map)
  qed
qed

section \<open>Verification\<close>

lemma verify_skip:
  assumes "even i" "i \<noteq> 0"
  shows "verify_from sha i i r ps root = verify_from sha (i div 2) (i div 2) r ps root"
proof -
  have "i div 2 \<noteq> 0" using assms by auto
  moreover have "skip_promoted i i = skip_promoted (i div 2) (i div 2)"
    using assms by (subst skip_promoted.simps) simp
  ultimately show ?thesis using assms by (cases ps) simp_all
qed

lemma skip_promoted_odd [simp]: "odd i \<Longrightarrow> skip_promoted i s = (i, s)"
  by (subst skip_promoted.simps) simp

text \<open>What one level of the tree contributes to the verification of its \<open>i\<close>-th node.\<close>

lemma next_level_nth:
  "i < length xs \<Longrightarrow>
   next_level sha xs ! (i div 2) =
     (if odd i then node_hash sha (xs ! (i - 1)) (xs ! i)
      else if i + 1 < length xs then node_hash sha (xs ! i) (xs ! (i + 1)) else xs ! i)"
proof (induction sha xs arbitrary: i rule: next_level.induct)
  case (1 sha l r rest)
  show ?case
  proof (cases "i < 2")
    case True
    then consider "i = 0" | "i = 1" by linarith
    then show ?thesis by cases simp_all
  next
    case False
    then obtain j where "i = Suc (Suc j)" by (metis add_2_eq_Suc le_Suc_ex not_less)
    then show ?thesis using "1.IH" [of j] "1.prems" by (cases "j = 0") (simp_all add: nth_Cons')
  qed
qed auto

lemma verify_level:
  assumes "i < length xs" "2 \<le> length xs"
  shows "verify_from sha i (length xs - 1) r (sibling xs i @ ps) root =
     verify_from sha (i div 2) (length (next_level sha xs) - 1)
       (if odd i then node_hash sha (xs ! (i - 1)) r
        else if i + 1 < length xs then node_hash sha r (xs ! (i + 1)) else r) ps root"
proof -
  have s: "length (next_level sha xs) - 1 = (length xs - 1) div 2" using assms(2) by auto
  consider "odd i" | "even i" "i + 1 < length xs" | "even i" "i = length xs - 1" using assms by linarith
  then show ?thesis
  proof cases
    case 3
    then have "i \<noteq> 0" "length xs = Suc i" using assms by auto
    then show ?thesis using 3(1) verify_skip [of i sha r ps root] by (simp add: sibling_def)
  qed (use assms s in \<open>auto simp: sibling_def Let_def\<close>)
qed

lemma verify_level_path:
  "i < length xs \<Longrightarrow> verify_from sha i (length xs - 1) (xs ! i) (level_path sha xs i) (level_root sha xs)"
proof (induction "length xs" arbitrary: xs i rule: less_induct)
  case less
  show ?case
  proof (cases "length xs < 2")
    case True
    then obtain x where "xs = [x]" using less.prems by (cases xs) auto
    then show ?thesis using less.prems by simp
  next
    case False
    let ?ys = "next_level sha xs"
    have "i div 2 < length ?ys" "length ?ys < length xs" using less.prems False by auto
    then have "verify_from sha (i div 2) (length ?ys - 1) (?ys ! (i div 2)) (level_path sha ?ys (i div 2)) (level_root sha ?ys)"
      by (rule less.hyps [rotated])
    then show ?thesis
      using less.prems False verify_level [of i xs sha "xs ! i"]
      by (simp only: level_path_next [OF less.prems] level_root_next next_level_nth [OF less.prems] not_less
          split: if_splits)
  qed
qed

section \<open>Binding\<close>

text \<open>Everything that is hashed when a tree is built, and when a path is verified.\<close>

fun pair_inputs :: "hash list \<Rightarrow> bytes set" where
  "pair_inputs (l # r # rest) = insert (1 # l @ r) (pair_inputs rest)"
| "pair_inputs _ = {}"

definition node_inputs :: "(bytes \<Rightarrow> hash) \<Rightarrow> hash list \<Rightarrow> bytes set" where
  "node_inputs sha xs = (\<Union>l \<in> set (levels_from sha xs). pair_inputs l)"

definition tree_inputs :: "(bytes \<Rightarrow> hash) \<Rightarrow> hash list \<Rightarrow> bytes set" where
  "tree_inputs sha leaves = (#) 0 ` set leaves \<union> node_inputs sha (map (leaf_hash sha) leaves)"

fun path_inputs :: "(bytes \<Rightarrow> hash) \<Rightarrow> nat \<Rightarrow> nat \<Rightarrow> hash \<Rightarrow> hash list \<Rightarrow> bytes set" where
  "path_inputs sha f s r [] = {}"
| "path_inputs sha f s r (p # ps) =
     (if odd f \<or> f = s
      then let (f', s') = skip_promoted f s
           in insert (1 # p @ r) (path_inputs sha (f' div 2) (s' div 2) (node_hash sha p r) ps)
      else insert (1 # r @ p) (path_inputs sha (f div 2) (s div 2) (node_hash sha r p) ps))"

definition proof_inputs :: "(bytes \<Rightarrow> hash) \<Rightarrow> hash \<Rightarrow> nat \<Rightarrow> nat \<Rightarrow> hash list \<Rightarrow> bytes set" where
  "proof_inputs sha leaf index n path =
     insert (0 # leaf) (path_inputs sha index (n - 1) (leaf_hash sha leaf) path)"

lemma node_inputs_next:
  "2 \<le> length xs \<Longrightarrow> node_inputs sha xs = pair_inputs xs \<union> node_inputs sha (next_level sha xs)"
  by (simp add: node_inputs_def levels_from.simps [of sha xs])

lemma pair_inputs_nth:
  "i < length xs \<Longrightarrow> (if odd i then 1 # (xs ! (i - 1)) @ xs ! i \<in> pair_inputs xs
     else i + 1 < length xs \<longrightarrow> 1 # xs ! i @ xs ! (i + 1) \<in> pair_inputs xs)"
proof (induction xs arbitrary: i rule: pair_inputs.induct)
  case (1 l r rest)
  show ?case
  proof (cases "i < 2")
    case True
    then consider "i = 0" | "i = 1" by linarith
    then show ?thesis by cases simp_all
  next
    case False
    then obtain j where "i = Suc (Suc j)" by (metis add_2_eq_Suc le_Suc_ex not_less)
    then show ?thesis using "1.IH" [of j] "1.prems" by (cases "j = 0") (auto simp: nth_Cons')
  qed
qed auto

lemma path_inputs_skip:
  "even i \<Longrightarrow> i \<noteq> 0 \<Longrightarrow> path_inputs sha i i r ps = path_inputs sha (i div 2) (i div 2) r ps"
proof -
  assume i: "even i" "i \<noteq> 0"
  then have "skip_promoted i i = skip_promoted (i div 2) (i div 2)"
    by (subst skip_promoted.simps) simp
  then show ?thesis using i by (cases ps) simp_all
qed

lemma same_node:
  assumes "node_hash sha a b = node_hash sha c d" "inj_on sha X" "1 # a @ b \<in> X" "1 # c @ d \<in> X" "length a = length c"
  shows "a = c \<and> b = d"
  using inj_onD [OF assms(2) _ assms(3,4)] assms(1,5) by (simp add: node_hash_def)

lemma binding_level:
  assumes "inj_on sha (node_inputs sha xs \<union> path_inputs sha i (length xs - 1) r ps)"
    "verify_from sha i (length xs - 1) r ps (level_root sha xs)"
    "i < length xs" "length r = 32" "list_all (\<lambda>p. length p = 32) (xs @ ps)" "\<forall>b. length (sha b) = 32"
  shows "r = xs ! i \<and> ps = level_path sha xs i"
  using assms(1-5)
proof (induction "length xs" arbitrary: xs i r ps rule: less_induct)
  case less
  show ?case
  proof (cases "length xs < 2")
    case True
    then obtain x where "xs = [x]" using less.prems(3) by (cases xs) auto
    then show ?thesis using less.prems by (cases ps) auto
  next
    case False
    let ?ys = "next_level sha xs"
    let ?X = "node_inputs sha xs \<union> path_inputs sha i (length xs - 1) r ps"
    have len: "i div 2 < length ?ys" "length ?ys < length xs" "length ?ys - 1 = (length xs - 1) div 2"
      using less.prems(3) False by auto
    have xs32: "length (xs ! j) = 32" if "j < length xs" for j
      using less.prems(5) that by (simp add: list_all_iff)
    have ys32: "list_all (\<lambda>p. length p = 32) ?ys"
      using less.prems(5) assms(6) by (induction sha xs rule: next_level.induct) (auto simp: node_hash_def)
    have root: "level_root sha xs = level_root sha ?ys" by (simp add: level_root_next)
    have step: "r' = ?ys ! (i div 2) \<and> qs = level_path sha ?ys (i div 2)"
      if "node_inputs sha ?ys \<union> path_inputs sha (i div 2) (length ?ys - 1) r' qs \<subseteq> ?X"
        "verify_from sha (i div 2) (length ?ys - 1) r' qs (level_root sha xs)" "length r' = 32"
        "list_all (\<lambda>p. length p = 32) qs" for r' qs
      using less.hyps [OF len(2) inj_on_subset [OF less.prems(1) that(1)]] that(2,3,4) len(1) ys32 root by simp
    have sub: "node_inputs sha ?ys \<subseteq> ?X" "pair_inputs xs \<subseteq> ?X"
      using False by (auto simp: node_inputs_next [of xs])
    show ?thesis
    proof (cases "even i \<and> i = length xs - 1")
      case True
      then have i: "even i" "i \<noteq> 0" "length xs = Suc i" using False by auto
      have "r = ?ys ! (i div 2) \<and> ps = level_path sha ?ys (i div 2)"
        by (rule step) (use less.prems(1,2,4,5) sub(1) i(3) verify_skip [OF i(1,2)] path_inputs_skip [OF i(1,2)] in simp_all)
      then show ?thesis using i level_path_next [OF less.prems(3), of sha] next_level_nth [OF less.prems(3), of sha]
        by (simp add: sibling_def)
    next
      case even: False
      then have ne: "ps \<noteq> []" using less.prems(2) False by (cases ps) auto
      then obtain p qs where ps: "ps = p # qs" by (cases ps) auto
      have p32: "length p = 32" "list_all (\<lambda>p. length p = 32) qs" using less.prems(5) ps by auto
      show ?thesis
      proof (cases "odd i")
        case True
        have "node_hash sha p r = ?ys ! (i div 2) \<and> qs = level_path sha ?ys (i div 2)"
          by (rule step) (use less.prems(2) sub ps p32 len(3) True assms(6) in \<open>auto simp: node_hash_def\<close>)
        moreover have "1 # (xs ! (i - 1)) @ xs ! i \<in> ?X" "1 # p @ r \<in> ?X"
          using pair_inputs_nth [OF less.prems(3)] sub(2) True ps by auto
        moreover have "length (xs ! (i - 1)) = 32" using xs32 [of "i - 1"] less.prems(3) by simp
        ultimately have "p = xs ! (i - 1) \<and> r = xs ! i"
          using same_node [OF _ less.prems(1)] next_level_nth [OF less.prems(3)] True p32 by metis
        moreover have "qs = level_path sha ?ys (i div 2)" using \<open>_ \<and> qs = _\<close> by simp
        ultimately show ?thesis using True ps level_path_next [OF less.prems(3), of sha] less.prems(3) by (simp add: sibling_def Let_def)
      next
        case i: False
        then have lt: "i + 1 < length xs" "i \<noteq> length xs - 1" using even less.prems(3) by auto
        have "node_hash sha r p = ?ys ! (i div 2) \<and> qs = level_path sha ?ys (i div 2)"
          by (rule step) (use less.prems(2) sub ps p32 len(3) i lt assms(6) in \<open>auto simp: node_hash_def\<close>)
        moreover have "1 # xs ! i @ xs ! (i + 1) \<in> ?X" "1 # r @ p \<in> ?X"
          using pair_inputs_nth [OF less.prems(3)] sub(2) i lt ps by auto
        moreover have "length (xs ! i) = 32" using xs32 [of i] less.prems(3) by simp
        ultimately have "r = xs ! i \<and> p = xs ! (i + 1)"
          using same_node [OF _ less.prems(1)] next_level_nth [OF less.prems(3)] i lt less.prems(4) by metis
        moreover have "qs = level_path sha ?ys (i div 2)" using \<open>_ \<and> qs = _\<close> by simp
        ultimately show ?thesis using i lt ps level_path_next [OF less.prems(3), of sha] by (simp add: sibling_def)
      qed
    qed
  qed
qed

section \<open>The interface of a Merkle scheme\<close>

text \<open>What a user of a tree relies on: the path handed out for a leaf verifies against the root.\<close>

locale merkle_scheme =
  fixes sha :: "bytes \<Rightarrow> hash"
    and root_of :: "hash list \<Rightarrow> hash"
    and path_of :: "hash list \<Rightarrow> nat \<Rightarrow> hash list"
  assumes verifies: "i < length xs \<Longrightarrow> verify_path sha (xs ! i) i (length xs) (path_of xs i) (root_of xs)"
begin

lemma verifies_as: "i < length xs \<Longrightarrow> r = root_of xs \<Longrightarrow> x = xs ! i \<Longrightarrow> n = length xs \<Longrightarrow>
  verify_path sha x i n (path_of xs i) r"
  using verifies by simp

lemma all_verify:
  "list_all (\<lambda>i. verify_path sha (xs ! i) i (length xs) (path_of xs i) (root_of xs)) [0..<length xs]"
  by (simp add: list_all_length verifies)

end

lemma verify_level_leaves:
  "i < length xs \<Longrightarrow> verify_path sha (xs ! i) i (length xs)
     (level_path sha (map (leaf_hash sha) xs) i) (level_root sha (map (leaf_hash sha) xs))"
  using verify_level_path [of i "map (leaf_hash sha) xs" sha] by (simp add: verify_path_def)

interpretation rfc: merkle_scheme sha "mth sha" "audit_path sha" for sha
  by unfold_locales (metis audit_path_levels length_greater_0_conv less_nat_zero_code mth_levels verify_level_leaves
    gr_zeroI)

lemma tree_root_build: "build_tree sha xs = Some t \<Longrightarrow> tree_root t = level_root sha (map (leaf_hash sha) xs)"
proof -
  assume "build_tree sha xs = Some t"
  then have t: "t = levels_from sha (map (leaf_hash sha) xs)" "xs \<noteq> []"
    by (auto simp: build_tree_def split: if_splits)
  have "ys \<noteq> [] \<Longrightarrow> last (levels_from sha ys) \<noteq> []" for ys
  proof (induction sha ys rule: levels_from.induct)
    case (1 sha lv)
    have "next_level sha lv \<noteq> []" using 1(2) by (cases lv rule: remdups_adj.cases) auto
    then show ?case using 1 by (subst levels_from.simps) simp
  qed
  then show ?thesis using t by (simp add: tree_root_def level_root_def split: list.split)
qed

lemma tree_path_build:
  assumes "build_tree sha xs = Some t"
  shows "tree_path t i = (if i < length xs then Some (level_path sha (map (leaf_hash sha) xs) i) else None)"
proof -
  have t: "t = levels_from sha (map (leaf_hash sha) xs)"
    using assms by (auto simp: build_tree_def split: if_splits)
  have "\<exists>ls. levels_from sha ys = ys # ls" for ys by (subst levels_from.simps) simp
  then obtain ls where "t = map (leaf_hash sha) xs # ls" unfolding t by blast
  then show ?thesis using t by (simp add: tree_path_def level_path_def)
qed

interpretation lv: merkle_scheme sha "\<lambda>xs. tree_root (the (build_tree sha xs))"
  "\<lambda>xs i. the (tree_path (the (build_tree sha xs)) i)" for sha
proof unfold_locales
  fix i :: nat and xs :: "hash list"
  assume i: "i < length xs"
  then obtain t where "build_tree sha xs = Some t" by (cases xs) (auto simp: build_tree_def)
  then show "verify_path sha (xs ! i) i (length xs) (the (tree_path (the (build_tree sha xs)) i))
      (tree_root (the (build_tree sha xs)))"
    using i tree_root_build tree_path_build verify_level_leaves by simp
qed

lemma path_binds:
  assumes "verify_path sha leaf index (length leaves) path (mth sha leaves)"
    "inj_on sha (tree_inputs sha leaves \<union> proof_inputs sha leaf index (length leaves) path)"
    "list_all (\<lambda>h. length h = 32) path" "\<forall>b. length (sha b) = 32"
  shows "leaf = leaves ! index \<and> path = audit_path sha leaves index"
proof -
  let ?ls = "map (leaf_hash sha) leaves"
  have i: "index < length leaves"
    and v: "verify_from sha index (length ?ls - 1) (leaf_hash sha leaf) path (level_root sha ?ls)"
  proof -
    show "index < length leaves" using assms(1) by (simp add: verify_path_def)
    then have "leaves \<noteq> []" by auto
    then show "verify_from sha index (length ?ls - 1) (leaf_hash sha leaf) path (level_root sha ?ls)"
      using assms(1) by (simp add: verify_path_def mth_levels)
  qed
  have "leaf_hash sha leaf = ?ls ! index \<and> path = level_path sha ?ls index"
  proof (rule binding_level [OF _ v])
    show "inj_on sha (node_inputs sha ?ls \<union> path_inputs sha index (length ?ls - 1) (leaf_hash sha leaf) path)"
      by (rule inj_on_subset [OF assms(2)]) (auto simp: tree_inputs_def proof_inputs_def)
  qed (use i assms(3,4) in \<open>auto simp: leaf_hash_def list_all_iff\<close>)
  moreover have "0 # leaves ! index \<in> tree_inputs sha leaves" using i by (simp add: tree_inputs_def)
  ultimately show ?thesis
    using i inj_onD [OF assms(2), of "0 # leaf" "0 # leaves ! index"]
    by (simp add: leaf_hash_def audit_path_levels proof_inputs_def)
qed

section \<open>Properties\<close>

text \<open>A toy hash without collisions on the strings of the example.\<close>

definition demo_sha :: "bytes \<Rightarrow> hash" where
  "demo_sha b = (if b = [0, 1] then replicate 32 1 else if b = [0, 2] then replicate 32 2 else replicate 32 0)"

text \<open>
  C15. The tree that keeps every level is the RFC 6962 tree: for any non-empty list of record hashes,
  building it succeeds, its root is the recursively defined root, its size the number of records, and
  it hands out exactly the recursively defined audit paths, none out of range.
\<close>

theorem kept_levels_are_rfc6962:
  assumes "leaves \<noteq> []"
  shows "\<exists>t. build_tree sha leaves = Some t \<and> Some (tree_root t) = merkle_root sha leaves \<and>
    tree_size t = length leaves \<and>
    (\<forall>i. tree_path t i = (if i < length leaves then Some (audit_path sha leaves i) else None))"
proof -
  obtain t where t: "build_tree sha leaves = Some t" using assms by (simp add: build_tree_def)
  have "tree_size t = length leaves"
    using t assms by (auto simp: build_tree_def tree_size_def levels_from.simps)
  then show ?thesis
    using t assms by (auto simp: tree_root_build tree_path_build merkle_root_def mth_levels audit_path_levels)
qed

theorem kept_levels_are_rfc6962_witness:
  "\<exists>t. build_tree demo_sha [[1], [2], [3]] = Some t \<and> tree_path t 2 = Some (audit_path demo_sha [[1], [2], [3]] 2)"
  using kept_levels_are_rfc6962 [of "[[1], [2], [3]]" demo_sha] by auto

text \<open>
  C16. A Merkle proof binds: if the verification accepts a path for a 32-byte leaf at some index of a
  tree of the right size, and SHA-256 has no collision among the strings that were actually hashed, then
  the leaf is the record hash at that index and the path is the one the tree hands out.
\<close>

theorem accepted_path_binds_the_leaf:
  assumes "verify_path sha leaf index (length leaves) path (mth sha leaves)"
    "inj_on sha (tree_inputs sha leaves \<union> proof_inputs sha leaf index (length leaves) path)"
    "list_all (\<lambda>h. length h = 32) path" "\<forall>b. length (sha b) = 32"
  shows "leaf = leaves ! index \<and> path = audit_path sha leaves index"
  by (rule path_binds [OF assms])

theorem accepted_path_binds_the_leaf_witness:
  "verify_path demo_sha [1] 0 2 [replicate 32 2] (mth demo_sha [[1], [2]]) \<and>
   [replicate 32 2] = audit_path demo_sha [[1], [2]] 0"
proof
  have hashes: "leaf_hash demo_sha [1] = replicate 32 1" "leaf_hash demo_sha [2] = replicate 32 2"
    by (simp_all add: leaf_hash_def demo_sha_def)
  have two: "split (Suc (Suc 0)) = 1" by (simp add: split_def split_from.simps)
  have lv: "levels_from demo_sha [a, b] = [[a, b], [node_hash demo_sha a b]]" for a b
    by (simp add: levels_from.simps)
  show v: "verify_path demo_sha [1] 0 2 [replicate 32 2] (mth demo_sha [[1], [2]])"
    using hashes two by (simp add: verify_path_def Let_def)
  have "tree_inputs demo_sha [[1], [2]] \<union> proof_inputs demo_sha [1] 0 2 [replicate 32 2] =
      {[0, 1], [0, 2], 1 # replicate 32 1 @ replicate 32 2}"
    using hashes by (auto simp: tree_inputs_def proof_inputs_def node_inputs_def lv)
  then have inj: "inj_on demo_sha (tree_inputs demo_sha [[1], [2]] \<union> proof_inputs demo_sha [1] 0 2 [replicate 32 2])"
    by (simp add: demo_sha_def)
  have "length (demo_sha b) = 32" for b by (simp add: demo_sha_def)
  then show "[replicate 32 2] = audit_path demo_sha [[1], [2]] 0"
    using accepted_path_binds_the_leaf [of demo_sha "[1]" 0 "[[1], [2]]" "[replicate 32 2]"] v inj
    by (simp add: numeral_2_eq_2)
qed

end
