(* ===== verification/Anchor.thy ===== *)
theory Anchor
  imports Merkle
begin

text \<open>
  The nightly anchor (\<open>agent-anchor/src/\<close>): a day's batch and its proofs (\<open>batch.rs\<close>), the
  registry calldata (\<open>calldata.rs\<close>, \<open>confirm.rs\<close>), the local ledger (\<open>ledger.rs\<close>) and the nightly
  decisions (\<open>nightly.rs\<close>). The ledger file is the list of its entries; the records directory is
  what \<open>retained_leaves\<close> returns. Errors that carry a text are one constructor; input and output
  errors are left out.
\<close>

section \<open>Batches\<close>

definition DAY_MS :: u64 where "DAY_MS = 86400000"

definition utc_day :: "u64 \<Rightarrow> u64" where
  "utc_day ts = ts div DAY_MS"

record retained_leaf =
  leaf_seq :: u64
  leaf_ts_ms :: u64
  leaf_data_hash :: hash

record retained_leaves =
  all_leaves :: "retained_leaf list"
  pruned_through_ms :: "u64 option"

datatype anchor_error =
    DayNotClosed u64 u64 | SeqGap u64 u64 u64 | Conflict u64 | Overlap u64 u64
  | NotBatched u64 | PrunedDay u64 | BadCalldata | Registry | Corrupt

definition COMMITMENT_DOMAIN :: bytes where
  "COMMITMENT_DOMAIN = map (\<lambda>c. of_char c) ''citrate.agent-anchor.nightly.v1'' @ [10]"

definition BATCH_VERSION :: u32 where "BATCH_VERSION = 1"

record batch_header =
  hd_v :: u32
  hd_day :: u64
  hd_first_seq :: u64
  hd_last_seq :: u64
  hd_count :: u64
  hd_tree_root :: hash

definition commitment_bytes :: "batch_header \<Rightarrow> bytes" where
  "commitment_bytes h =
     COMMITMENT_DOMAIN @ u32_be (hd_v h) @ u64_be (hd_day h) @ u64_be (hd_first_seq h) @
     u64_be (hd_last_seq h) @ u64_be (hd_count h) @ hd_tree_root h"

definition commitment :: "(bytes \<Rightarrow> hash) \<Rightarrow> batch_header \<Rightarrow> hash" where
  "commitment sha h = sha (commitment_bytes h)"

definition well_formed :: "batch_header \<Rightarrow> bool" where
  "well_formed h \<longleftrightarrow>
     hd_v h = BATCH_VERSION \<and> 0 < hd_count h \<and> hd_first_seq h \<le> hd_last_seq h \<and>
     hd_last_seq h - hd_first_seq h = hd_count h - 1"

record anchor_proof =
  pf_header :: batch_header
  pf_seq :: u64
  pf_leaf_index :: u64
  pf_record_hash :: hash
  pf_path :: "hash list"

record day_batch =
  db_header :: batch_header
  db_leaf_data :: "hash list"
  db_tree :: "hash list list"

text \<open>The loop over the rest of the day's leaves: the last number seen and the hashes.\<close>

fun collect_day :: "u64 \<Rightarrow> u64 \<Rightarrow> retained_leaf list \<Rightarrow> anchor_error + u64 \<times> hash list" where
  "collect_day day expected [] = Inr (expected, [])"
| "collect_day day expected (l # ls) =
     (case checked_add expected 1 of
        None \<Rightarrow> Inl (SeqGap day expected (leaf_seq l))
      | Some e \<Rightarrow>
          if leaf_seq l \<noteq> e then Inl (SeqGap day e (leaf_seq l))
          else bind_result (collect_day day e ls) (\<lambda>(e', hs). Inr (e', leaf_data_hash l # hs)))"

definition build_day_batch ::
  "(bytes \<Rightarrow> hash) \<Rightarrow> u64 \<Rightarrow> retained_leaf list \<Rightarrow> anchor_error + day_batch option" where
  "build_day_batch sha day leaves =
     (case filter (\<lambda>l. utc_day (leaf_ts_ms l) = day) leaves of
        [] \<Rightarrow> Inr None
      | first # rest \<Rightarrow>
          bind_result (collect_day day (leaf_seq first) rest) (\<lambda>(expected, hs).
            let leaf_data = leaf_data_hash first # hs
            in case build_tree sha leaf_data of
                 None \<Rightarrow> Inr None
               | Some tree \<Rightarrow>
                   Inr (Some \<lparr>db_header = \<lparr>hd_v = BATCH_VERSION, hd_day = day,
                          hd_first_seq = leaf_seq first, hd_last_seq = expected,
                          hd_count = of_nat (length leaf_data), hd_tree_root = tree_root tree\<rparr>,
                        db_leaf_data = leaf_data, db_tree = tree\<rparr>)))"

definition batch_proof :: "day_batch \<Rightarrow> u64 \<Rightarrow> anchor_proof option" where
  "batch_proof b s =
     (case checked_sub s (hd_first_seq (db_header b)) of
        None \<Rightarrow> None
      | Some index \<Rightarrow>
          if length (db_leaf_data b) \<le> unat index then None
          else case tree_path (db_tree b) (unat index) of
                 None \<Rightarrow> None
               | Some path \<Rightarrow>
                   Some \<lparr>pf_header = db_header b, pf_seq = s, pf_leaf_index = index,
                     pf_record_hash = db_leaf_data b ! unat index, pf_path = path\<rparr>)"

definition batch_proofs :: "day_batch \<Rightarrow> anchor_proof list" where
  "batch_proofs b =
     List.map_filter (batch_proof b)
       (map of_nat [unat (hd_first_seq (db_header b))..<Suc (unat (hd_last_seq (db_header b)))])"

definition verify_proof :: "(bytes \<Rightarrow> hash) \<Rightarrow> anchor_proof \<Rightarrow> hash \<Rightarrow> bool" where
  "verify_proof sha p anchored \<longleftrightarrow>
     (let h = pf_header p
      in well_formed h \<and> commitment sha h = anchored \<and> pf_leaf_index p < hd_count h \<and>
         checked_add (hd_first_seq h) (pf_leaf_index p) = Some (pf_seq p) \<and>
         verify_path sha (pf_record_hash p) (unat (pf_leaf_index p)) (unat (hd_count h))
           (pf_path p) (hd_tree_root h))"

section \<open>Calldata\<close>

definition ANCHOR_SELECTOR :: bytes where "ANCHOR_SELECTOR = [0x9e, 0x62, 0x1f, 0x4c]"
definition IS_ANCHORED_SELECTOR :: bytes where "IS_ANCHORED_SELECTOR = [0x4f, 0x0b, 0x58, 0x01]"
definition IS_ANCHORED_BY_SELECTOR :: bytes where "IS_ANCHORED_BY_SELECTOR = [0x09, 0x86, 0x64, 0x55]"
definition GET_ANCHOR_SELECTOR :: bytes where "GET_ANCHOR_SELECTOR = [0x7f, 0xeb, 0x51, 0xd9]"
definition CITRATE_CHAIN_ID :: u64 where "CITRATE_CHAIN_ID = 40204"

datatype anchor_kind = PerCapsule | PerApproval | NightlyMerkle

definition kind_byte :: "anchor_kind \<Rightarrow> u8" where
  "kind_byte k = (case k of PerCapsule \<Rightarrow> 0 | PerApproval \<Rightarrow> 1 | NightlyMerkle \<Rightarrow> 2)"

definition kind_from_u8 :: "u8 \<Rightarrow> anchor_kind option" where
  "kind_from_u8 v =
     (if v = 0 then Some PerCapsule else if v = 1 then Some PerApproval
      else if v = 2 then Some NightlyMerkle else None)"

definition anchor_calldata :: "anchor_kind \<Rightarrow> hash \<Rightarrow> bytes" where
  "anchor_calldata k r = ANCHOR_SELECTOR @ (replicate 32 0)[31 := kind_byte k] @ r"

definition is_anchored_calldata :: "hash \<Rightarrow> bytes" where
  "is_anchored_calldata r = IS_ANCHORED_SELECTOR @ r"

definition is_anchored_by_calldata :: "bytes \<Rightarrow> hash \<Rightarrow> bytes" where
  "is_anchored_by_calldata c r = IS_ANCHORED_BY_SELECTOR @ replicate 12 0 @ c @ r"

definition get_anchor_calldata :: "hash \<Rightarrow> bytes" where
  "get_anchor_calldata r = GET_ANCHOR_SELECTOR @ r"

definition decode_anchor_calldata :: "bytes \<Rightarrow> anchor_error + anchor_kind \<times> hash" where
  "decode_anchor_calldata data =
     (if length data \<noteq> 68 then Inl BadCalldata
      else if take 4 data \<noteq> ANCHOR_SELECTOR then Inl BadCalldata
      else
        let w = take 32 (drop 4 data)
        in if list_ex (\<lambda>b. b \<noteq> 0) (take 31 w) then Inl BadCalldata
           else case kind_from_u8 (w ! 31) of
                  None \<Rightarrow> Inl BadCalldata
                | Some k \<Rightarrow> Inr (k, drop 36 data))"

record unsigned_call =
  chain_id :: u64
  call_to :: "string option"
  call_value :: u64
  call_kind :: anchor_kind
  call_root :: hash
  call_data :: bytes

definition nightly_call :: "hash \<Rightarrow> string option \<Rightarrow> unsigned_call" where
  "nightly_call r to =
     \<lparr>chain_id = CITRATE_CHAIN_ID, call_to = to, call_value = 0, call_kind = NightlyMerkle,
      call_root = r, call_data = anchor_calldata NightlyMerkle r\<rparr>"

definition check_address :: "string \<Rightarrow> anchor_error + unit" where
  "check_address s =
     (case strip_prefix ''0x'' s of
        Some h \<Rightarrow> if length h = 40 \<and> list_all is_hex_digit h then Inr () else Inl BadCalldata
      | None \<Rightarrow> Inl BadCalldata)"

definition validate_call :: "unsigned_call \<Rightarrow> anchor_error + unit" where
  "validate_call c =
     (if chain_id c \<noteq> CITRATE_CHAIN_ID then Inl BadCalldata
      else if call_value c \<noteq> 0 then Inl BadCalldata
      else bind_result (decode_anchor_calldata (call_data c)) (\<lambda>(k, r).
        if k \<noteq> call_kind c \<or> r \<noteq> call_root c then Inl BadCalldata
        else case call_to c of None \<Rightarrow> Inr () | Some to \<Rightarrow> check_address to))"

section \<open>Did this committer anchor the value\<close>

definition decode_bool :: "bytes \<Rightarrow> anchor_error + bool" where
  "decode_bool ret =
     (if length ret \<noteq> 32 \<or> list_ex (\<lambda>b. b \<noteq> 0) (take 31 ret) \<or> 1 < ret ! 31 then Inl Registry
      else Inr (ret ! 31 = 1))"

definition decode_anchor_committer :: "bytes \<Rightarrow> hash \<Rightarrow> anchor_error + bytes" where
  "decode_anchor_committer ret r =
     (if length ret \<noteq> 5 * 32 then Inl Registry
      else if list_ex (\<lambda>b. b \<noteq> 0) (take 31 ret) \<or> 2 < ret ! 31 then Inl Registry
      else if take 32 (drop 32 ret) \<noteq> r then Inl Registry
      else if list_ex (\<lambda>b. b \<noteq> 0) (take 12 (drop 64 ret)) then Inl Registry
      else Inr (take 20 (drop 76 ret)))"

datatype registry_answer = Returned bytes | Reverted

datatype check_step = Call bytes | Done bool

datatype stage = AnyCommitter | ByCommitter | FirstRecord | Finished

record own_anchor_check =
  oc_committer :: bytes
  oc_root :: hash
  oc_stage :: stage

definition new_check :: "bytes \<Rightarrow> hash \<Rightarrow> own_anchor_check \<times> check_step" where
  "new_check c r =
     (\<lparr>oc_committer = c, oc_root = r, oc_stage = AnyCommitter\<rparr>, Call (is_anchored_calldata r))"

definition answer_step ::
  "own_anchor_check \<Rightarrow> registry_answer \<Rightarrow> anchor_error + own_anchor_check \<times> check_step" where
  "answer_step oc a =
     bind_result
       (case (oc_stage oc, a) of
          (AnyCommitter, Returned r) \<Rightarrow>
            bind_result (decode_bool r) (\<lambda>b.
              if b then Inr (oc\<lparr>oc_stage := ByCommitter\<rparr>,
                             Call (is_anchored_by_calldata (oc_committer oc) (oc_root oc)))
              else Inr (oc, Done False))
        | (AnyCommitter, Reverted) \<Rightarrow> Inl Registry
        | (ByCommitter, Returned r) \<Rightarrow> bind_result (decode_bool r) (\<lambda>b. Inr (oc, Done b))
        | (ByCommitter, Reverted) \<Rightarrow>
            Inr (oc\<lparr>oc_stage := FirstRecord\<rparr>, Call (get_anchor_calldata (oc_root oc)))
        | (FirstRecord, Returned r) \<Rightarrow>
            bind_result (decode_anchor_committer r (oc_root oc)) (\<lambda>c.
              Inr (oc, Done (c = oc_committer oc)))
        | (FirstRecord, Reverted) \<Rightarrow> Inl Registry
        | (Finished, _) \<Rightarrow> Inl Registry)
       (\<lambda>(oc', step).
          Inr (case step of Done _ \<Rightarrow> (oc'\<lparr>oc_stage := Finished\<rparr>, step) | Call _ \<Rightarrow> (oc', step)))"

section \<open>The ledger\<close>

datatype entry_status = Batched | Incomplete

record confirmation =
  tx_hash :: string
  block_number :: u64
  confirmed_at_ms :: u64

record ledger_entry =
  le_day :: u64
  le_status :: entry_status
  le_first_seq :: u64
  le_last_seq :: u64
  le_count :: u64
  le_tree_root :: "hash option"
  le_commitment :: "hash option"
  recorded_at_ms :: u64
  confirmed :: "confirmation option"

definition entry_header :: "ledger_entry \<Rightarrow> batch_header option" where
  "entry_header e =
     (case (le_status e, le_tree_root e) of
        (Batched, Some r) \<Rightarrow>
          Some \<lparr>hd_v = BATCH_VERSION, hd_day = le_day e, hd_first_seq = le_first_seq e,
            hd_last_seq = le_last_seq e, hd_count = le_count e, hd_tree_root = r\<rparr>
      | _ \<Rightarrow> None)"

definition overlaps :: "ledger_entry \<Rightarrow> u64 \<Rightarrow> u64 \<Rightarrow> bool" where
  "overlaps e first' last' \<longleftrightarrow> le_first_seq e \<le> last' \<and> first' \<le> le_last_seq e"

definition check_entry :: "(bytes \<Rightarrow> hash) \<Rightarrow> ledger_entry \<Rightarrow> anchor_error + unit" where
  "check_entry sha e =
     (if le_last_seq e < le_first_seq e \<or> le_last_seq e - le_first_seq e \<noteq> le_count e - 1
      then Inl Corrupt
      else case le_status e of
        Batched \<Rightarrow>
          (case entry_header e of
             Some h \<Rightarrow>
               if well_formed h \<and> le_commitment e = Some (commitment sha h) then Inr () else Inl Corrupt
           | None \<Rightarrow> Inl Corrupt)
      | Incomplete \<Rightarrow>
          if le_tree_root e = None \<and> le_commitment e = None
          then (if confirmed e \<noteq> None then Inl Corrupt else Inr ())
          else Inl Corrupt)"

fun days_increase :: "ledger_entry list \<Rightarrow> bool" where
  "days_increase (a # b # r) \<longleftrightarrow> le_day a < le_day b \<and> days_increase (b # r)"
| "days_increase _ \<longleftrightarrow> True"

fun check_entries :: "(bytes \<Rightarrow> hash) \<Rightarrow> ledger_entry list \<Rightarrow> anchor_error + unit" where
  "check_entries sha [] = Inr ()"
| "check_entries sha (e # es) =
     bind_result (check_entry sha e) (\<lambda>_.
       case find (\<lambda>o'. overlaps o' (le_first_seq e) (le_last_seq e)) es of
         Some _ \<Rightarrow> Inl Corrupt
       | None \<Rightarrow> check_entries sha es)"

text \<open>Loading the file, whose version is the current one.\<close>

definition load :: "(bytes \<Rightarrow> hash) \<Rightarrow> ledger_entry list \<Rightarrow> anchor_error + ledger_entry list" where
  "load sha file =
     (if \<not> days_increase file then Inl Corrupt
      else bind_result (check_entries sha file) (\<lambda>_. Inr file))"

datatype record_outcome = New | Unchanged

definition insert_entry ::
  "(bytes \<Rightarrow> hash) \<Rightarrow> ledger_entry list \<Rightarrow> ledger_entry \<Rightarrow> (ledger_entry \<Rightarrow> bool) \<Rightarrow>
   anchor_error + record_outcome \<times> ledger_entry list" where
  "insert_entry sha file entry same =
     bind_result (load sha file) (\<lambda>es.
       case find (\<lambda>e. le_day e = le_day entry) es of
         Some e \<Rightarrow> if same e then Inr (Unchanged, file) else Inl (Conflict (le_day entry))
       | None \<Rightarrow>
           (case find (\<lambda>e. overlaps e (le_first_seq entry) (le_last_seq entry)) es of
              Some o' \<Rightarrow> Inl (Overlap (le_day entry) (le_day o'))
            | None \<Rightarrow> Inr (New, sort_key le_day (es @ [entry]))))"

definition batched_entry :: "(bytes \<Rightarrow> hash) \<Rightarrow> batch_header \<Rightarrow> u64 \<Rightarrow> ledger_entry" where
  "batched_entry sha h now =
     \<lparr>le_day = hd_day h, le_status = Batched, le_first_seq = hd_first_seq h,
      le_last_seq = hd_last_seq h, le_count = hd_count h, le_tree_root = Some (hd_tree_root h),
      le_commitment = Some (commitment sha h), recorded_at_ms = now, confirmed = None\<rparr>"

definition record_batched ::
  "(bytes \<Rightarrow> hash) \<Rightarrow> ledger_entry list \<Rightarrow> batch_header \<Rightarrow> u64 \<Rightarrow>
   anchor_error + record_outcome \<times> ledger_entry list" where
  "record_batched sha file h now =
     (if \<not> well_formed h then Inl Corrupt
      else insert_entry sha file (batched_entry sha h now)
        (\<lambda>e. le_status e = Batched \<and> le_commitment e = Some (commitment sha h)))"

definition record_incomplete ::
  "(bytes \<Rightarrow> hash) \<Rightarrow> ledger_entry list \<Rightarrow> u64 \<Rightarrow> u64 \<Rightarrow> u64 \<Rightarrow> u64 \<Rightarrow>
   anchor_error + record_outcome \<times> ledger_entry list" where
  "record_incomplete sha file day first' last' now =
     (if last' < first' then Inl Corrupt
      else insert_entry sha file
        \<lparr>le_day = day, le_status = Incomplete, le_first_seq = first', le_last_seq = last',
         le_count = last' - first' + 1, le_tree_root = None, le_commitment = None,
         recorded_at_ms = now, confirmed = None\<rparr>
        (\<lambda>e. le_status e = Incomplete))"

fun set_confirmed :: "u64 \<Rightarrow> confirmation \<Rightarrow> ledger_entry list \<Rightarrow> ledger_entry list" where
  "set_confirmed day c [] = []"
| "set_confirmed day c (e # es) =
     (if le_day e = day \<and> le_status e = Batched then e\<lparr>confirmed := Some c\<rparr> # es
      else e # set_confirmed day c es)"

definition mark_confirmed ::
  "(bytes \<Rightarrow> hash) \<Rightarrow> ledger_entry list \<Rightarrow> u64 \<Rightarrow> string \<Rightarrow> u64 \<Rightarrow> u64 \<Rightarrow>
   anchor_error + record_outcome \<times> ledger_entry list" where
  "mark_confirmed sha file day tx block now =
     bind_result (load sha file) (\<lambda>es.
       case find (\<lambda>e. le_day e = day \<and> le_status e = Batched) es of
         None \<Rightarrow> Inl (NotBatched day)
       | Some e \<Rightarrow>
           (case confirmed e of
              Some c \<Rightarrow>
                if tx_hash c = tx \<and> block_number c = block then Inr (Unchanged, file)
                else Inl (Conflict day)
            | None \<Rightarrow>
                Inr (New, set_confirmed day
                       \<lparr>tx_hash = tx, block_number = block, confirmed_at_ms = now\<rparr> es)))"

definition unconfirmed :: "(bytes \<Rightarrow> hash) \<Rightarrow> ledger_entry list \<Rightarrow> anchor_error + u64 list" where
  "unconfirmed sha file =
     bind_result (load sha file) (\<lambda>es.
       Inr (map le_day (filter (\<lambda>e. le_status e = Batched \<and> confirmed e = None) es)))"

definition get_entry :: "(bytes \<Rightarrow> hash) \<Rightarrow> ledger_entry list \<Rightarrow> u64 \<Rightarrow> anchor_error + ledger_entry option" where
  "get_entry sha file day = bind_result (load sha file) (\<lambda>es. Inr (find (\<lambda>e. le_day e = day) es))"

section \<open>The nightly decisions\<close>

datatype nightly_plan =
    Empty u64
  | Pruned u64
  | IncompleteDay u64 u64
  | Ready batch_header hash unsigned_call bool
  | AlreadyAnchored ledger_entry

definition ready :: "(bytes \<Rightarrow> hash) \<Rightarrow> batch_header \<Rightarrow> string option \<Rightarrow> bool \<Rightarrow> nightly_plan" where
  "ready sha h registry newly =
     Ready h (commitment sha h) (nightly_call (commitment sha h) registry) newly"

definition partial_day :: "retained_leaves \<Rightarrow> u64 \<Rightarrow> bool" where
  "partial_day ret day \<longleftrightarrow> (case pruned_through_ms ret of None \<Rightarrow> False | Some t \<Rightarrow> day \<le> utc_day t)"

text \<open>The day has no batch in the ledger yet.\<close>

definition fresh_plan ::
  "(bytes \<Rightarrow> hash) \<Rightarrow> retained_leaves \<Rightarrow> ledger_entry list \<Rightarrow> u64 \<Rightarrow> u64 \<Rightarrow> string option \<Rightarrow>
   day_batch option \<Rightarrow> anchor_error + nightly_plan \<times> ledger_entry list" where
  "fresh_plan sha ret file day now registry batch =
     (case batch of
        None \<Rightarrow> Inr (if partial_day ret day then Pruned day else Empty day, file)
      | Some b \<Rightarrow>
          (let h = db_header b
           in if partial_day ret day
              then bind_result (record_incomplete sha file day (hd_first_seq h) (hd_last_seq h) now)
                     (\<lambda>(_, file'). Inr (IncompleteDay day (hd_count h), file'))
              else bind_result (record_batched sha file h now)
                     (\<lambda>(_, file'). Inr (ready sha h registry True, file'))))"

text \<open>The day is in the ledger: a batch is rechecked against the records when they are all there.\<close>

definition replan ::
  "(bytes \<Rightarrow> hash) \<Rightarrow> retained_leaves \<Rightarrow> ledger_entry list \<Rightarrow> u64 \<Rightarrow> u64 \<Rightarrow> string option \<Rightarrow>
   ledger_entry \<Rightarrow> anchor_error + nightly_plan \<times> ledger_entry list" where
  "replan sha ret file day now registry e =
     (if confirmed e \<noteq> None then Inr (AlreadyAnchored e, file)
      else if le_status e = Incomplete then Inr (IncompleteDay day (le_count e), file)
      else bind_result (build_day_batch sha day (all_leaves ret)) (\<lambda>batch.
        case entry_header e of
          None \<Rightarrow> fresh_plan sha ret file day now registry batch
        | Some h \<Rightarrow>
            if (case batch of
                  Some b \<Rightarrow> \<not> partial_day ret day \<and> commitment sha (db_header b) \<noteq> commitment sha h
                | None \<Rightarrow> False)
            then Inl (Conflict day) else Inr (ready sha h registry False, file)))"

definition plan_day ::
  "(bytes \<Rightarrow> hash) \<Rightarrow> retained_leaves \<Rightarrow> ledger_entry list \<Rightarrow> u64 \<Rightarrow> u64 \<Rightarrow> string option \<Rightarrow>
   anchor_error + nightly_plan \<times> ledger_entry list" where
  "plan_day sha ret file day now registry =
     (let today = utc_day now
      in if today \<le> day then Inl (DayNotClosed day today)
      else bind_result (case registry of Some to \<Rightarrow> check_address to | None \<Rightarrow> Inr ()) (\<lambda>_.
        bind_result (get_entry sha file day) (\<lambda>existing.
          case existing of
            Some e \<Rightarrow> replan sha ret file day now registry e
          | None \<Rightarrow>
              bind_result (build_day_batch sha day (all_leaves ret)) (\<lambda>batch.
                fresh_plan sha ret file day now registry batch))))"

definition pending_days ::
  "(bytes \<Rightarrow> hash) \<Rightarrow> retained_leaves \<Rightarrow> ledger_entry list \<Rightarrow> u64 \<Rightarrow> anchor_error + u64 list" where
  "pending_days sha ret file now =
     bind_result (load sha file) (\<lambda>es.
       Inr (remdups_adj (sort (filter (\<lambda>d. d < utc_day now \<and> d \<notin> set (map le_day es))
              (map (\<lambda>l. utc_day (leaf_ts_ms l)) (all_leaves ret))))))"

definition prove_record ::
  "(bytes \<Rightarrow> hash) \<Rightarrow> retained_leaves \<Rightarrow> ledger_entry list \<Rightarrow> u64 \<Rightarrow> anchor_error + anchor_proof option" where
  "prove_record sha ret file s =
     (case find (\<lambda>l. leaf_seq l = s) (all_leaves ret) of
        None \<Rightarrow> Inr None
      | Some leaf \<Rightarrow>
          (let day = utc_day (leaf_ts_ms leaf)
           in bind_result (get_entry sha file day) (\<lambda>existing.
                case Option.bind existing entry_header of
                  None \<Rightarrow> Inl (NotBatched day)
                | Some h \<Rightarrow>
                    if partial_day ret day then Inl (PrunedDay day)
                    else bind_result (build_day_batch sha day (all_leaves ret)) (\<lambda>batch.
                      case batch of
                        None \<Rightarrow> Inl (NotBatched day)
                      | Some b \<Rightarrow> if db_header b \<noteq> h then Inl (Conflict day) else Inr (batch_proof b s)))))"

end
