(* ===== verification/AnchorProperties.thy ===== *)
theory AnchorProperties
  imports Anchor
begin

text \<open>
  What the nightly anchor guarantees: every record of a batched day has a proof that verifies
  against the anchored value, an accepted proof binds its record, the ledger never forgets or
  rebinds a day, and the check of one's own anchor answers what the registry holds.
\<close>

section \<open>A day's batch\<close>

lemma collect_day_Inr:
  "collect_day day e ls = Inr (e', hs) \<Longrightarrow>
     hs = map leaf_data_hash ls \<and> unat e' = unat e + length ls \<and>
     (\<forall>i < length ls. unat (leaf_seq (ls ! i)) = unat e + Suc i)"
proof (induction ls arbitrary: e e' hs)
  case (Cons l ls)
  then obtain f hs' where f: "checked_add e 1 = Some f" "leaf_seq l = f"
      "collect_day day f ls = Inr (e', hs')" "hs = leaf_data_hash l # hs'"
    by (auto simp: result_iff split: option.splits if_splits prod.splits)
  have uf: "unat f = Suc (unat e)" using checked_add_SomeD [OF f(1)] by simp
  have "unat (leaf_seq ((l # ls) ! i)) = unat e + Suc i" if "i < length (l # ls)" for i
    using Cons.IH [OF f(3)] uf f(2) that by (cases i) auto
  then show ?case using Cons.IH [OF f(3)] uf f(4) by simp
qed simp

definition day_leaves :: "u64 \<Rightarrow> retained_leaf list \<Rightarrow> retained_leaf list" where
  "day_leaves day leaves = filter (\<lambda>l. utc_day (leaf_ts_ms l) = day) leaves"

lemma build_day_batch_Some:
  assumes "build_day_batch sha day leaves = Inr (Some b)"
  shows "db_leaf_data b = map leaf_data_hash (day_leaves day leaves)"
    "build_tree sha (db_leaf_data b) = Some (db_tree b)" "day_leaves day leaves \<noteq> []"
    "hd_v (db_header b) = BATCH_VERSION" "hd_day (db_header b) = day"
    "hd_count (db_header b) = of_nat (length (day_leaves day leaves))"
    "hd_tree_root (db_header b) = tree_root (db_tree b)"
    "Suc (unat (hd_last_seq (db_header b))) = unat (hd_first_seq (db_header b)) + length (day_leaves day leaves)"
    "\<And>i. i < length (day_leaves day leaves) \<Longrightarrow>
       unat (leaf_seq (day_leaves day leaves ! i)) = unat (hd_first_seq (db_header b)) + i"
proof -
  obtain f rest where d: "day_leaves day leaves = f # rest"
    using assms by (auto simp: build_day_batch_def day_leaves_def split: list.splits)
  then obtain e hs t where c: "collect_day day (leaf_seq f) rest = Inr (e, hs)"
      "build_tree sha (leaf_data_hash f # hs) = Some t"
      "b = \<lparr>db_header = \<lparr>hd_v = BATCH_VERSION, hd_day = day, hd_first_seq = leaf_seq f, hd_last_seq = e,
             hd_count = of_nat (Suc (length hs)), hd_tree_root = tree_root t\<rparr>,
           db_leaf_data = leaf_data_hash f # hs, db_tree = t\<rparr>"
    using assms by (auto simp: build_day_batch_def day_leaves_def Let_def result_iff split: prod.splits option.splits)
  note cd = collect_day_Inr [OF c(1)]
  show "db_leaf_data b = map leaf_data_hash (day_leaves day leaves)"
    "build_tree sha (db_leaf_data b) = Some (db_tree b)" "day_leaves day leaves \<noteq> []"
    "hd_v (db_header b) = BATCH_VERSION" "hd_day (db_header b) = day"
    "hd_count (db_header b) = of_nat (length (day_leaves day leaves))"
    "hd_tree_root (db_header b) = tree_root (db_tree b)"
    "Suc (unat (hd_last_seq (db_header b))) = unat (hd_first_seq (db_header b)) + length (day_leaves day leaves)"
    using cd c(2,3) d by simp_all
  show "unat (leaf_seq (day_leaves day leaves ! i)) = unat (hd_first_seq (db_header b)) + i"
    if "i < length (day_leaves day leaves)" for i
    using cd c(3) d that by (cases i) auto
qed

lemma build_day_batch_None: "build_day_batch sha day leaves = Inr None \<Longrightarrow> day_leaves day leaves = []"
  by (cases "day_leaves day leaves")
    (auto simp: build_day_batch_def day_leaves_def Let_def build_tree_def result_iff)

lemma unat_of_nat_small: "n < 2 ^ 64 \<Longrightarrow> unat (of_nat n :: u64) = n"
  by (simp add: unat_of_nat take_bit_eq_mod)

text \<open>The facts of a batch that fits the counter.\<close>

lemma batch_header_facts:
  assumes "build_day_batch sha day leaves = Inr (Some b)" "length leaves < 2 ^ 64"
  shows "well_formed (db_header b)" "unat (hd_count (db_header b)) = length (day_leaves day leaves)"
    "length (db_leaf_data b) = length (day_leaves day leaves)"
proof -
  let ?n = "length (day_leaves day leaves)" and ?h = "db_header b"
  note f = build_day_batch_Some [OF assms(1)]
  have n: "?n < 2 ^ 64" "0 < ?n"
    using le_less_trans [OF length_filter_le assms(2)] f(3) by (simp_all add: day_leaves_def)
  show cnt: "unat (hd_count ?h) = ?n" using f(6) unat_of_nat_small [OF n(1)] by simp
  have lt: "hd_first_seq ?h \<le> hd_last_seq ?h" unfolding word_le_nat_alt using f(8) n(2) by linarith
  have pos: "0 < hd_count ?h" using cnt n(2) by (simp add: word_less_nat_alt)
  have "unat (hd_last_seq ?h - hd_first_seq ?h) = ?n - 1" using unat_sub [OF lt] f(8) by simp
  moreover have "unat (hd_count ?h - 1) = ?n - 1"
    using unat_minus_one [of "hd_count ?h"] pos cnt by simp
  ultimately have "hd_last_seq ?h - hd_first_seq ?h = hd_count ?h - 1" by (metis unsigned_word_eqI)
  then show "well_formed ?h" using f(4) lt pos by (simp add: well_formed_def)
  show "length (db_leaf_data b) = ?n" using f(1) by simp
qed

lemma batch_proof_Some:
  assumes "build_day_batch sha day leaves = Inr (Some b)" "length leaves < 2 ^ 64" "i < length (day_leaves day leaves)"
  shows "\<exists>p. batch_proof b (leaf_seq (day_leaves day leaves ! i)) = Some p \<and>
    pf_record_hash p = leaf_data_hash (day_leaves day leaves ! i) \<and> pf_header p = db_header b \<and>
    pf_seq p = leaf_seq (day_leaves day leaves ! i) \<and> verify_proof sha p (commitment sha (db_header b))"
proof -
  let ?s = "leaf_seq (day_leaves day leaves ! i)" and ?h = "db_header b" and ?xs = "db_leaf_data b"
  note f = build_day_batch_Some [OF assms(1)] and h = batch_header_facts [OF assms(1,2)]
  have i: "i < length ?xs" "i < 2 ^ 64" using assms(2,3) h(2) f(1) unat_u64_lt [of "hd_count ?h"] by simp_all
  have s: "unat ?s = unat (hd_first_seq ?h) + i" by (rule f(9) [OF assms(3)])
  have idx: "checked_sub ?s (hd_first_seq ?h) = Some (of_nat i)" "unat (of_nat i :: u64) = i"
    using s unat_of_nat_small [OF i(2)] by (simp_all add: checked_sub_Some_iff)
  have add: "checked_add (hd_first_seq ?h) (of_nat i) = Some ?s"
    using s idx(2) by (simp add: checked_add_Some_iff)
  have path: "tree_path (db_tree b) i = Some (the (tree_path (the (build_tree sha ?xs)) i))"
    using tree_path_build [OF f(2)] i(1) f(2) by simp
  have "verify_path sha (?xs ! i) i (unat (hd_count ?h)) (the (tree_path (the (build_tree sha ?xs)) i)) (hd_tree_root ?h)"
    by (rule lv.verifies_as) (use i(1) f(2,7) h(2,3) in simp_all)
  moreover have "of_nat i < hd_count ?h" using idx(2) h(2) assms(3) by (simp add: word_less_nat_alt)
  ultimately show ?thesis
    using idx add path i(1) h(1) f(1) assms(3) by (simp add: batch_proof_def verify_proof_def)
qed

lemma commitment_bytes_inject: "commitment_bytes h = commitment_bytes h' \<longleftrightarrow> h = h'"
  by (cases h; cases h') (simp add: commitment_bytes_def)

text \<open>All that is hashed to build a batch and its commitment, and to check a proof.\<close>

definition batch_inputs :: "(bytes \<Rightarrow> hash) \<Rightarrow> day_batch \<Rightarrow> bytes set" where
  "batch_inputs sha b = insert (commitment_bytes (db_header b)) (tree_inputs sha (db_leaf_data b))"

definition checked_inputs :: "(bytes \<Rightarrow> hash) \<Rightarrow> anchor_proof \<Rightarrow> bytes set" where
  "checked_inputs sha p = insert (commitment_bytes (pf_header p))
     (proof_inputs sha (pf_record_hash p) (unat (pf_leaf_index p)) (unat (hd_count (pf_header p))) (pf_path p))"

section \<open>The ledger\<close>

lemma days_increase_iff: "days_increase es \<longleftrightarrow> sorted_wrt (\<lambda>a b. le_day a < le_day b) es"
proof (induction es rule: days_increase.induct)
  case (1 a b r)
  then show ?case by (auto intro: less_trans)
qed simp_all

lemma check_entries_Inr_iff:
  "check_entries sha es = Inr () \<longleftrightarrow>
     (\<forall>e \<in> set es. check_entry sha e = Inr ()) \<and>
     sorted_wrt (\<lambda>e o'. \<not> overlaps o' (le_first_seq e) (le_last_seq e)) es"
  by (induction es) (auto simp: result_iff find_None_iff option.case_eq_if split: if_splits)

lemma sorted_wrt_days:
  fixes P :: "ledger_entry \<Rightarrow> ledger_entry \<Rightarrow> bool"
  assumes "sorted_wrt (\<lambda>a b. le_day a < le_day b) es" "\<And>a b. P a b \<Longrightarrow> P b a"
  shows "sorted_wrt P es \<longleftrightarrow> (\<forall>a \<in> set es. \<forall>b \<in> set es. le_day a \<noteq> le_day b \<longrightarrow> P a b)"
  using assms(1)
proof (induction es)
  case (Cons e es)
  then have "le_day e \<noteq> le_day x \<and> (P e x \<longleftrightarrow> P x e)" if "x \<in> set es" for x using that assms(2) by fastforce
  with Cons show ?case by auto
qed simp

lemma overlaps_sym: "overlaps o' (le_first_seq e) (le_last_seq e) = overlaps e (le_first_seq o') (le_last_seq o')"
  by (auto simp: overlaps_def)

text \<open>What loading accepts, by days and by pairs of entries.\<close>

lemma load_Inr_iff:
  "load sha file = Inr es \<longleftrightarrow> es = file \<and>
     sorted (map le_day file) \<and> distinct (map le_day file) \<and>
     (\<forall>e \<in> set file. check_entry sha e = Inr ()) \<and>
     (\<forall>a \<in> set file. \<forall>b \<in> set file. le_day a \<noteq> le_day b \<longrightarrow> \<not> overlaps b (le_first_seq a) (le_last_seq a))"
proof -
  have "sorted_wrt (\<lambda>a b. le_day a < le_day b) file \<longleftrightarrow> sorted (map le_day file) \<and> distinct (map le_day file)"
    by (metis sorted_wrt_map strict_sorted_iff)
  then show ?thesis
    using sorted_wrt_days [where es = "file" and P = "\<lambda>e o'. \<not> overlaps o' (le_first_seq e) (le_last_seq e)"] overlaps_sym
    by (auto simp: load_def result_iff days_increase_iff check_entries_Inr_iff)
qed

datatype ledger_cmd =
    RecordBatched batch_header u64
  | RecordIncomplete u64 u64 u64 u64
  | MarkConfirmed u64 string u64 u64

definition run_cmd ::
  "(bytes \<Rightarrow> hash) \<Rightarrow> ledger_entry list \<Rightarrow> ledger_cmd \<Rightarrow> anchor_error + record_outcome \<times> ledger_entry list" where
  "run_cmd sha file c =
     (case c of
        RecordBatched h now \<Rightarrow> record_batched sha file h now
      | RecordIncomplete day f l now \<Rightarrow> record_incomplete sha file day f l now
      | MarkConfirmed day tx block now \<Rightarrow> mark_confirmed sha file day tx block now)"

text \<open>An entry is kept, or a batched one gets its confirmation.\<close>

definition kept :: "ledger_entry \<Rightarrow> ledger_entry \<Rightarrow> bool" where
  "kept e e' \<longleftrightarrow> e' = e \<or> le_status e = Batched \<and> confirmed e = None \<and> (\<exists>c. e' = e\<lparr>confirmed := Some c\<rparr>)"

lemma insert_entry_Inr:
  assumes "insert_entry sha file entry same = Inr (out, file')" "check_entry sha entry = Inr ()"
  shows "load sha file' = Inr file' \<and> set file \<subseteq> set file' \<and>
    (out = Unchanged \<and> file' = file \<and> (\<exists>e \<in> set file. le_day e = le_day entry \<and> same e) \<or>
     out = New \<and> entry \<in> set file' \<and> set file' = insert entry (set file))"
proof -
  have ld: "load sha file = Inr file" using assms(1) by (auto simp: insert_entry_def result_iff load_Inr_iff)
  show ?thesis
  proof (cases "find (\<lambda>e. le_day e = le_day entry) file")
    case (Some e)
    then have "e \<in> set file \<and> le_day e = le_day entry" by (auto simp: find_Some_iff)
    then show ?thesis using assms(1) ld Some by (auto simp: insert_entry_def split: if_splits)
  next
    case None
    then have new: "le_day entry \<notin> le_day ` set file" by (auto simp: find_None_iff)
    have none: "find (\<lambda>e. overlaps e (le_first_seq entry) (le_last_seq entry)) file = None"
      and file': "out = New" "file' = sort_key le_day (file @ [entry])"
      using assms(1) ld None by (auto simp: insert_entry_def split: option.splits)
    then have apart: "\<forall>e \<in> set file. \<not> overlaps e (le_first_seq entry) (le_last_seq entry)"
      by (auto simp: find_None_iff)
    from apart have apart': "\<forall>e \<in> set file. \<not> overlaps entry (le_first_seq e) (le_last_seq e)"
      by (auto simp: overlaps_def)
    have s: "set file' = insert entry (set file)" "sorted (map le_day file')"
      using file'(2) by simp_all
    have "distinct (map le_day (file @ [entry]))" using ld new by (simp add: load_Inr_iff)
    then have "distinct (map le_day file')"
      unfolding file'(2) by (metis distinct_map distinct_sort set_sort)
    then have "load sha file' = Inr file'"
      using ld assms(2) apart apart' s by (simp add: load_Inr_iff)
    then show ?thesis using file' s by auto
  qed
qed

text \<open>Loading looks at the day, the range and the per-entry check only.\<close>

lemma load_same_shape:
  assumes "load sha xs = Inr xs" "list_all2 (\<lambda>a b. le_day b = le_day a \<and> le_first_seq b = le_first_seq a \<and>
    le_last_seq b = le_last_seq a \<and> check_entry sha b = check_entry sha a) xs ys"
  shows "load sha ys = Inr ys"
proof -
  have m: "map le_day ys = map le_day xs" using assms(2) by (induction rule: list_all2_induct) auto
  have sim: "\<exists>x \<in> set xs. le_day y = le_day x \<and> le_first_seq y = le_first_seq x \<and>
      le_last_seq y = le_last_seq x \<and> check_entry sha y = check_entry sha x" if "y \<in> set ys" for y
    using assms(2) that by (induction rule: list_all2_induct) auto
  have "\<not> overlaps b (le_first_seq a) (le_last_seq a)" if ab: "a \<in> set ys" "b \<in> set ys" "le_day a \<noteq> le_day b" for a b
  proof -
    obtain a' b' where "a' \<in> set xs" "b' \<in> set xs" "le_day a' \<noteq> le_day b'" "le_first_seq a = le_first_seq a'"
      "le_last_seq a = le_last_seq a'" "le_first_seq b = le_first_seq b'" "le_last_seq b = le_last_seq b'"
      using sim [OF ab(1)] sim [OF ab(2)] ab(3) by force
    then show ?thesis using assms(1) by (simp add: load_Inr_iff overlaps_def)
  qed
  moreover have "check_entry sha y = Inr ()" if "y \<in> set ys" for y
    using sim [OF that] assms(1) by (auto simp: load_Inr_iff)
  ultimately show ?thesis using assms(1) m by (simp add: load_Inr_iff)
qed

lemma set_confirmed_split:
  "find (\<lambda>e. le_day e = day \<and> le_status e = Batched) es = Some e \<Longrightarrow>
     \<exists>a b. es = a @ e # b \<and> le_day e = day \<and> le_status e = Batched \<and> set_confirmed day c es = a @ e\<lparr>confirmed := Some c\<rparr> # b"
proof (induction es)
  case (Cons x es)
  show ?case
  proof (cases "le_day x = day \<and> le_status x = Batched")
    case True
    then show ?thesis using Cons.prems by (intro exI [of _ "[]"] exI [of _ es]) simp
  next
    case False
    then obtain a b where "es = a @ e # b" "le_day e = day" "le_status e = Batched"
      "set_confirmed day c es = a @ e\<lparr>confirmed := Some c\<rparr> # b" using Cons by auto
    then show ?thesis using False by (intro exI [of _ "x # a"] exI [of _ b]) auto
  qed
qed simp

lemma check_entry_confirmed:
  "le_status e = Batched \<Longrightarrow> check_entry sha (e\<lparr>confirmed := c\<rparr>) = check_entry sha e"
proof -
  have "entry_header (e\<lparr>confirmed := c\<rparr>) = entry_header e"
    by (cases "le_tree_root e"; cases "le_status e") (simp_all add: entry_header_def)
  then show "le_status e = Batched \<Longrightarrow> check_entry sha (e\<lparr>confirmed := c\<rparr>) = check_entry sha e"
    by (cases "entry_header e") (simp_all add: check_entry_def)
qed

lemma mark_confirmed_Inr:
  assumes "mark_confirmed sha file day tx block now = Inr (out, file')"
  shows "load sha file' = Inr file' \<and> list_all2 kept file file'"
proof -
  have ld: "load sha file = Inr file" using assms by (auto simp: mark_confirmed_def result_iff load_Inr_iff)
  obtain e where e: "find (\<lambda>e. le_day e = day \<and> le_status e = Batched) file = Some e"
    using assms ld by (auto simp: mark_confirmed_def split: option.splits)
  have refl: "list_all2 kept xs xs" for xs by (auto simp: list_all2_conv_all_nth kept_def)
  show ?thesis
  proof (cases "confirmed e")
    case (Some c)
    then show ?thesis using assms ld e refl by (auto simp: mark_confirmed_def split: if_splits)
  next
    case None
    let ?c = "\<lparr>tx_hash = tx, block_number = block, confirmed_at_ms = now\<rparr>"
    obtain a b where ab: "file = a @ e # b" "le_status e = Batched" "file' = a @ e\<lparr>confirmed := Some ?c\<rparr> # b"
      using set_confirmed_split [OF e, of ?c] assms ld e None by (auto simp: mark_confirmed_def)
    have "check_entry sha (e\<lparr>confirmed := Some ?c\<rparr>) = check_entry sha e"
      using ab(2) by (rule check_entry_confirmed)
    then have "list_all2 (\<lambda>a b. le_day b = le_day a \<and> le_first_seq b = le_first_seq a \<and>
        le_last_seq b = le_last_seq a \<and> check_entry sha b = check_entry sha a) file file'"
      unfolding ab(1,3) by (auto intro!: list_all2_appendI list.rel_refl_strong)
    then have "load sha file' = Inr file'" by (rule load_same_shape [OF ld])
    moreover have "list_all2 kept file file'"
      using ab None refl by (auto simp: kept_def intro!: list_all2_appendI)
    ultimately show ?thesis by simp
  qed
qed

lemma check_batched_entry: "well_formed h \<Longrightarrow> check_entry sha (batched_entry sha h now) = Inr ()"
  by (cases h) (auto simp: check_entry_def batched_entry_def entry_header_def well_formed_def)

lemma run_cmd_Inr:
  assumes "run_cmd sha file c = Inr (out, file')"
  shows "load sha file' = Inr file' \<and> (\<forall>e \<in> set file. \<exists>e' \<in> set file'. kept e e')"
proof (cases c)
  case (RecordBatched h now)
  then have "well_formed h" "insert_entry sha file (batched_entry sha h now)
      (\<lambda>e. le_status e = Batched \<and> le_commitment e = Some (commitment sha h)) = Inr (out, file')"
    using assms by (auto simp: run_cmd_def record_batched_def split: if_splits)
  from insert_entry_Inr [OF this(2) check_batched_entry [OF this(1)]] show ?thesis by (auto simp: kept_def)
next
  case (RecordIncomplete day f l now)
  let ?e = "\<lparr>le_day = day, le_status = Incomplete, le_first_seq = f, le_last_seq = l,
         le_count = l - f + 1, le_tree_root = None, le_commitment = None, recorded_at_ms = now, confirmed = None\<rparr>"
  have "\<not> l < f" and i: "insert_entry sha file ?e (\<lambda>e. le_status e = Incomplete) = Inr (out, file')"
    using assms RecordIncomplete by (auto simp: run_cmd_def record_incomplete_def split: if_splits)
  then have "check_entry sha ?e = Inr ()" by (simp add: check_entry_def)
  from insert_entry_Inr [OF i this] show ?thesis by (auto simp: kept_def)
next
  case (MarkConfirmed day tx block now)
  then have "mark_confirmed sha file day tx block now = Inr (out, file')" using assms by (simp add: run_cmd_def)
  from mark_confirmed_Inr [OF this] show ?thesis
    by (auto simp: list_all2_conv_all_nth in_set_conv_nth) (metis nth_mem)
qed

section \<open>The nightly decisions\<close>

lemma get_entry_after:
  assumes "load sha es = Inr es" "e \<in> set es" "le_day e = day"
  shows "get_entry sha es day = Inr (Some e)"
proof -
  have "distinct (map le_day es)" using assms(1) by (simp add: load_Inr_iff)
  then have "find (\<lambda>e. le_day e = day) es = Some e"
    using find_distinct [OF assms(2), of le_day] assms(3) by simp
  then show ?thesis using assms(1) by (simp add: get_entry_def)
qed

lemma entry_header_batched: "well_formed h \<Longrightarrow> entry_header (batched_entry sha h now) = Some h"
  by (simp add: entry_header_def batched_entry_def well_formed_def)

lemma entry_of_header:
  assumes "check_entry sha e = Inr ()" "entry_header e = Some h"
  shows "le_status e = Batched" "le_commitment e = Some (commitment sha h)" "hd_day h = le_day e" "well_formed h"
  using assms by (auto simp: check_entry_def entry_header_def split: if_splits entry_status.splits option.splits)

text \<open>A plan to anchor: the ledger then holds a batched entry with that header.\<close>

lemma record_batched_new:
  assumes "record_batched sha file h now = Inr (out, file')" "get_entry sha file (hd_day h) = Inr None"
  shows "load sha file' = Inr file' \<and> batched_entry sha h now \<in> set file' \<and> well_formed h"
proof -
  have i: "well_formed h" "insert_entry sha file (batched_entry sha h now)
      (\<lambda>e. le_status e = Batched \<and> le_commitment e = Some (commitment sha h)) = Inr (out, file')"
    using assms(1) by (auto simp: record_batched_def split: if_splits)
  have "find (\<lambda>e. le_day e = hd_day h) file = None"
    using assms(2) by (auto simp: get_entry_def result_iff load_Inr_iff)
  then have "\<forall>e \<in> set file. le_day e \<noteq> le_day (batched_entry sha h now)"
    by (auto simp: find_None_iff batched_entry_def)
  then show ?thesis using insert_entry_Inr [OF i(2) check_batched_entry [OF i(1)]] i(1) by auto
qed

lemma fresh_plan_Ready:
  assumes "fresh_plan sha ret file day now registry batch = Inr (Ready h c call newly, file')"
    "build_day_batch sha day (all_leaves ret) = Inr batch" "get_entry sha file day = Inr None"
  shows "c = commitment sha h \<and> call = nightly_call c registry \<and> load sha file' = Inr file' \<and>
    (\<exists>e \<in> set file'. le_day e = day \<and> entry_header e = Some h) \<and> \<not> partial_day ret day \<and>
    (\<exists>b. batch = Some b \<and> db_header b = h)"
proof -
  obtain b where b: "batch = Some b" "\<not> partial_day ret day" "h = db_header b" "c = commitment sha h"
      "call = nightly_call c registry"
    and rb: "\<exists>out. record_batched sha file h now = Inr (out, file')"
    using assms(1) by (auto simp: fresh_plan_def ready_def Let_def result_iff split: option.splits if_splits prod.splits)
  have day: "hd_day h = day" using build_day_batch_Some(5) assms(2) b(1,3) by simp
  obtain out where "record_batched sha file h now = Inr (out, file')" using rb by blast
  from record_batched_new [OF this] have new: "load sha file' = Inr file'"
    "batched_entry sha h now \<in> set file'" "well_formed h" using assms(3) day by simp_all
  have "le_day (batched_entry sha h now) = day" using day by (simp add: batched_entry_def)
  then show ?thesis using b new entry_header_batched by blast
qed

lemma replan_Ready:
  assumes "replan sha ret file day now registry e = Inr (Ready h c call newly, file')"
    "check_entry sha e = Inr ()"
  shows "entry_header e = Some h \<and> file' = file \<and> c = commitment sha h \<and> call = nightly_call c registry \<and>
    (\<exists>batch. build_day_batch sha day (all_leaves ret) = Inr batch \<and>
       (\<forall>b. batch = Some b \<longrightarrow> \<not> partial_day ret day \<longrightarrow> commitment sha (db_header b) = commitment sha h))"
proof -
  obtain batch where b: "build_day_batch sha day (all_leaves ret) = Inr batch"
    using assms(1) by (auto simp: replan_def result_iff split: if_splits)
  have "le_status e = Batched" using assms(1) by (cases "le_status e") (auto simp: replan_def split: if_splits)
  then obtain g where "entry_header e = Some g"
    using assms(2) by (auto simp: check_entry_def split: if_splits option.splits)
  then show ?thesis using assms(1) b by (cases batch) (auto simp: replan_def ready_def split: if_splits)
qed

lemma plan_day_Ready:
  assumes "plan_day sha ret file day now registry = Inr (Ready h c call newly, file')"
  shows "day < utc_day now \<and> c = commitment sha h \<and> call = nightly_call c registry \<and> load sha file' = Inr file' \<and>
    (case registry of Some to \<Rightarrow> check_address to | None \<Rightarrow> Inr ()) = Inr () \<and>
    (\<exists>e \<in> set file'. le_day e = day \<and> entry_header e = Some h) \<and>
    (\<exists>batch. build_day_batch sha day (all_leaves ret) = Inr batch \<and>
       (\<forall>b. batch = Some b \<longrightarrow> \<not> partial_day ret day \<longrightarrow> commitment sha (db_header b) = c))"
proof -
  have "\<not> utc_day now \<le> day"
    using assms by (auto simp: plan_day_def Let_def)
  moreover from this obtain existing u where reg: "(case registry of Some to \<Rightarrow> check_address to | None \<Rightarrow> Inr ()) = Inr u"
      and ex: "get_entry sha file day = Inr existing"
      and rest: "(case existing of
            Some e \<Rightarrow> replan sha ret file day now registry e
          | None \<Rightarrow>
              bind_result (build_day_batch sha day (all_leaves ret)) (\<lambda>batch.
                fresh_plan sha ret file day now registry batch)) = Inr (Ready h c call newly, file')"
    using assms by (auto simp only: plan_day_def Let_def if_False bind_result_Inr_iff)
  ultimately have lt: "day < utc_day now" by simp
  have ld: "load sha file = Inr file" using ex by (auto simp: get_entry_def result_iff load_Inr_iff)
  show ?thesis
  proof (cases existing)
    case None
    then obtain batch where bt: "build_day_batch sha day (all_leaves ret) = Inr batch"
        "fresh_plan sha ret file day now registry batch = Inr (Ready h c call newly, file')"
      using rest by (auto simp: result_iff)
    from fresh_plan_Ready [OF bt(2,1)] show ?thesis using None ex reg lt bt(1) by auto
  next
    case (Some e)
    then have e: "e \<in> set file" "le_day e = day"
      using ex ld by (auto simp: get_entry_def find_Some_iff)
    then have chk: "check_entry sha e = Inr ()" using ld by (simp add: load_Inr_iff)
    have "replan sha ret file day now registry e = Inr (Ready h c call newly, file')" using rest Some by simp
    from replan_Ready [OF this chk] show ?thesis using e ld lt reg by auto
  qed
qed

lemma decode_anchor_calldata_encode:
  "length r = 32 \<Longrightarrow> decode_anchor_calldata (anchor_calldata k r) = Inr (k, r)"
  by (cases k) (simp_all add: decode_anchor_calldata_def anchor_calldata_def ANCHOR_SELECTOR_def
      kind_byte_def kind_from_u8_def eval_nat_numeral Let_def)

lemma validate_nightly_call:
  assumes "length r = 32" "(case registry of Some to \<Rightarrow> check_address to | None \<Rightarrow> Inr ()) = Inr ()"
  shows "validate_call (nightly_call r registry) = Inr ()"
  using assms by (simp add: validate_call_def nightly_call_def decode_anchor_calldata_encode split: option.splits)

section \<open>Driving the check of one's own anchor\<close>

text \<open>A client makes each call and feeds back the registry's answer; three calls are enough.\<close>

fun drive :: "nat \<Rightarrow> (bytes \<Rightarrow> registry_answer) \<Rightarrow> own_anchor_check \<times> check_step \<Rightarrow> (anchor_error + bool) option" where
  "drive n ask (oc, Done b) = Some (Inr b)"
| "drive 0 ask (oc, Call c) = None"
| "drive (Suc n) ask (oc, Call c) =
     (case answer_step oc (ask c) of Inl e \<Rightarrow> Some (Inl e) | Inr s \<Rightarrow> drive n ask s)"

definition abi_bool :: "bool \<Rightarrow> bytes" where
  "abi_bool b = replicate 31 0 @ [if b then 1 else 0]"

lemma decode_abi_bool [simp]: "decode_bool (abi_bool b) = Inr b"
  by (simp add: decode_bool_def abi_bool_def nth_append list_ex_iff)

definition abi_anchor :: "u8 \<Rightarrow> hash \<Rightarrow> bytes \<Rightarrow> bytes \<Rightarrow> bytes" where
  "abi_anchor kd r c rest = replicate 31 0 @ [kd] @ r @ replicate 12 0 @ c @ rest"

lemma decode_abi_anchor:
  "kd \<le> 2 \<Longrightarrow> length r = 32 \<Longrightarrow> length c = 20 \<Longrightarrow> length rest = 64 \<Longrightarrow>
     decode_anchor_committer (abi_anchor kd r c rest) r = Inr c"
  by (simp add: decode_anchor_committer_def abi_anchor_def nth_append not_less list_ex_iff)

section \<open>A concrete day\<close>

definition demo_hash :: "bytes \<Rightarrow> hash" where
  "demo_hash b = replicate 32 (if take 1 b = [0] then 1 else 2)"

definition demo_leaf :: retained_leaf where
  "demo_leaf = \<lparr>leaf_seq = 0, leaf_ts_ms = 5, leaf_data_hash = [7]\<rparr>"

definition demo_ret :: retained_leaves where
  "demo_ret = \<lparr>all_leaves = [demo_leaf], pruned_through_ms = None\<rparr>"

definition demo_header :: batch_header where
  "demo_header = \<lparr>hd_v = 1, hd_day = 0, hd_first_seq = 0, hd_last_seq = 0, hd_count = 1, hd_tree_root = replicate 32 1\<rparr>"

definition demo_batch :: day_batch where
  "demo_batch = \<lparr>db_header = demo_header, db_leaf_data = [[7]], db_tree = [[replicate 32 1]]\<rparr>"

lemma demo_day [simp]: "utc_day (leaf_ts_ms demo_leaf) = 0" "utc_day 172800000 = 2"
  by (simp_all add: utc_day_def demo_leaf_def DAY_MS_def)

lemma demo_leaf_hash: "leaf_hash demo_hash [7] = replicate 32 1"
  by (simp add: leaf_hash_def demo_hash_def)

lemma demo_build: "build_day_batch demo_hash 0 [demo_leaf] = Inr (Some demo_batch)"
proof -
  have "build_tree demo_hash [[7]] = Some [[replicate 32 1]]"
    by (simp add: build_tree_def levels_from.simps demo_leaf_hash)
  moreover have "tree_root [[replicate 32 1]] = replicate 32 1" by (simp add: tree_root_def)
  ultimately show ?thesis
    by (simp add: build_day_batch_def demo_batch_def demo_header_def BATCH_VERSION_def)
      (simp add: demo_leaf_def BATCH_VERSION_def)
qed

lemma demo_well_formed: "well_formed demo_header"
  by (simp add: well_formed_def demo_header_def BATCH_VERSION_def)

lemma demo_commitment: "commitment demo_hash demo_header = replicate 32 2"
  by (simp add: commitment_def commitment_bytes_def COMMITMENT_DOMAIN_def demo_hash_def)

lemma demo_plan:
  "\<exists>file'. plan_day demo_hash demo_ret [] 0 172800000 None =
     Inr (Ready demo_header (replicate 32 2) (nightly_call (replicate 32 2) None) True, file')"
  by (simp add: plan_day_def Let_def get_entry_def load_def demo_ret_def demo_build fresh_plan_def partial_day_def
      record_batched_def insert_entry_def demo_well_formed ready_def)
    (simp add: demo_batch_def demo_well_formed demo_commitment)

definition demo_anchor_proof :: anchor_proof where
  "demo_anchor_proof = \<lparr>pf_header = demo_header, pf_seq = 0, pf_leaf_index = 0, pf_record_hash = [7], pf_path = []\<rparr>"

lemma demo_verify: "verify_proof demo_hash demo_anchor_proof (commitment demo_hash demo_header)"
  by (simp add: verify_proof_def demo_anchor_proof_def demo_well_formed)
    (simp add: demo_header_def checked_add_def verify_path_def demo_leaf_hash)

text \<open>A plan that batches a day for the first time has all its records.\<close>

lemma plan_day_newly:
  assumes "plan_day sha ret file day now registry = Inr (Ready h c call newly, file')" "partial_day ret day"
  shows "\<not> newly"
  using assms by (auto simp: plan_day_def replan_def fresh_plan_def ready_def Let_def bind_result_Inr_iff
      split: if_splits option.splits sum.splits)

text \<open>The case of a day none of whose records was pruned.\<close>

lemma whole_day_is_provable:
  assumes "plan_day sha ret file day now registry = Inr (Ready h c call newly, file')"
    "\<not> partial_day ret day" "l \<in> set (all_leaves ret)" "utc_day (leaf_ts_ms l) = day"
    "distinct (map leaf_seq (all_leaves ret))" "length (all_leaves ret) < 2 ^ 64" "\<forall>b. length (sha b) = 32"
    "\<forall>b. build_day_batch sha day (all_leaves ret) = Inr (Some b) \<longrightarrow>
       inj_on sha {commitment_bytes h, commitment_bytes (db_header b)}"
  shows "day < utc_day now \<and> validate_call call = Inr () \<and> call_root call = c \<and>
    (\<exists>p. prove_record sha ret file' (leaf_seq l) = Inr (Some p) \<and>
       pf_record_hash p = leaf_data_hash l \<and> pf_seq p = leaf_seq l \<and> verify_proof sha p c)"
proof -
  let ?ls = "all_leaves ret"
  note plan = plan_day_Ready [OF assms(1)]
  obtain batch where bt: "build_day_batch sha day ?ls = Inr batch"
    "\<And>b. batch = Some b \<Longrightarrow> commitment sha (db_header b) = c" using plan assms(2) by auto
  have mem: "l \<in> set (day_leaves day ?ls)" using assms(3,4) by (simp add: day_leaves_def)
  then have "day_leaves day ?ls \<noteq> []" by auto
  then obtain b where b: "batch = Some b"
    using bt(1) build_day_batch_None by (cases batch) auto
  have same: "db_header b = h"
  proof -
    have "inj_on sha {commitment_bytes h, commitment_bytes (db_header b)}" using assms(8) bt(1) b by blast
    moreover have "sha (commitment_bytes (db_header b)) = sha (commitment_bytes h)"
      using bt(2) [OF b] plan by (simp add: commitment_def)
    ultimately show ?thesis using commitment_bytes_inject inj_onD by fastforce
  qed
  obtain e where e: "e \<in> set file'" "le_day e = day" "entry_header e = Some h" using plan by auto
  have entry: "get_entry sha file' day = Inr (Some e)" using get_entry_after e plan by blast
  have found: "find (\<lambda>x. leaf_seq x = leaf_seq l) ?ls = Some l"
    using find_distinct [OF assms(3,5)] .
  obtain i where i: "i < length (day_leaves day ?ls)" "day_leaves day ?ls ! i = l"
    using mem by (auto simp: in_set_conv_nth)
  have prove: "prove_record sha ret file' (leaf_seq l) = Inr (batch_proof b (leaf_seq l))"
    using found assms(2,4) entry e(3) bt(1) b same by (simp add: prove_record_def)
  show ?thesis
    using batch_proof_Some [of sha day ?ls b i] bt b i assms(6,7) prove plan same
      validate_nightly_call [of c registry] by (auto simp: commitment_def nightly_call_def)
qed

section \<open>The properties of the nightly anchor\<close>

text \<open>
  C17. What the nightly job anchors can be proven, as long as the day is retained whole. Suppose a
  plan for a day is ready to anchor, the retained records carry distinct numbers (as a verified chain
  does) and are fewer than 2 to the 64, hashes are 32 bytes, and SHA-256 does not collide on the two
  headers compared. Then the plan is for a closed day and its call passes its own validation for the
  registry; and for every retained record of that day \<open>prove\<close> returns a proof that verifies against
  the anchored value when no record of the day was pruned, and reports the pruned day otherwise. (A
  partly pruned day is ready only when it was batched before the pruning; its anchor can still be
  made, its records no longer proven.)
\<close>

theorem anchored_day_is_provable:
  assumes "plan_day sha ret file day now registry = Inr (Ready h c call newly, file')"
    "l \<in> set (all_leaves ret)" "utc_day (leaf_ts_ms l) = day"
    "distinct (map leaf_seq (all_leaves ret))" "length (all_leaves ret) < 2 ^ 64" "\<forall>b. length (sha b) = 32"
    "\<forall>b. build_day_batch sha day (all_leaves ret) = Inr (Some b) \<longrightarrow>
       inj_on sha {commitment_bytes h, commitment_bytes (db_header b)}"
  shows "day < utc_day now \<and> validate_call call = Inr () \<and> call_root call = c \<and>
    (if partial_day ret day then prove_record sha ret file' (leaf_seq l) = Inl (PrunedDay day) \<and> \<not> newly
     else \<exists>p. prove_record sha ret file' (leaf_seq l) = Inr (Some p) \<and>
       pf_record_hash p = leaf_data_hash l \<and> pf_seq p = leaf_seq l \<and> verify_proof sha p c)"
proof -
  note plan = plan_day_Ready [OF assms(1)]
  obtain e where e: "e \<in> set file'" "le_day e = day" "entry_header e = Some h" using plan by auto
  have entry: "get_entry sha file' day = Inr (Some e)" using get_entry_after e plan by blast
  have found: "find (\<lambda>x. leaf_seq x = leaf_seq l) (all_leaves ret) = Some l"
    using find_distinct [OF assms(2,4)] .
  show ?thesis
  proof (cases "partial_day ret day")
    case True
    have "prove_record sha ret file' (leaf_seq l) = Inl (PrunedDay day)"
      using found assms(3) entry e(3) True by (simp add: prove_record_def)
    moreover have "\<not> newly" by (rule plan_day_newly [OF assms(1) True])
    moreover have "length c = 32" using plan assms(6) by (auto simp: commitment_def)
    then have "validate_call call = Inr ()" "call_root call = c"
      using validate_nightly_call [of c registry] plan by (auto simp: nightly_call_def)
    moreover have "day < utc_day now" using plan by blast
    ultimately show ?thesis using True by simp
  next
    case False
    note a = assms(1) False assms(2-7)
    show ?thesis using whole_day_is_provable [OF a] False by simp
  qed
qed

theorem anchored_day_is_provable_witness:
  "\<exists>file' p. prove_record demo_hash demo_ret file' 0 = Inr (Some p) \<and> verify_proof demo_hash p (replicate 32 2)"
proof -
  obtain file' where p: "plan_day demo_hash demo_ret [] 0 172800000 None =
      Inr (Ready demo_header (replicate 32 2) (nightly_call (replicate 32 2) None) True, file')"
    using demo_plan by blast
  have "\<not> partial_day demo_ret 0" "demo_leaf \<in> set (all_leaves demo_ret)" "distinct (map leaf_seq (all_leaves demo_ret))"
    "length (all_leaves demo_ret) < 2 ^ 64" "\<forall>b. length (demo_hash b) = 32"
    by (simp_all add: demo_ret_def partial_day_def demo_hash_def)
  moreover have "\<forall>b. build_day_batch demo_hash 0 (all_leaves demo_ret) = Inr (Some b) \<longrightarrow>
      inj_on demo_hash {commitment_bytes demo_header, commitment_bytes (db_header b)}"
    by (simp add: demo_ret_def demo_build demo_batch_def)
  ultimately have "\<exists>q. prove_record demo_hash demo_ret file' (leaf_seq demo_leaf) = Inr (Some q) \<and>
      pf_record_hash q = leaf_data_hash demo_leaf \<and> pf_seq q = leaf_seq demo_leaf \<and> verify_proof demo_hash q (replicate 32 2)"
    using anchored_day_is_provable [OF p, of demo_leaf] demo_day(1) by (simp only: if_False simp_thms)
  then show ?thesis by (auto simp: demo_leaf_def)
qed

text \<open>
  C18. A proof binds its record: whatever proof verifies against a batch's anchored value, unless
  SHA-256 collides among the strings hashed for the batch and for the check, the record hash it
  carries is that of the record with that number and day in the batch, and its header is the batch's.
\<close>

theorem accepted_proof_binds_the_record:
  assumes "build_day_batch sha day leaves = Inr (Some b)" "length leaves < 2 ^ 64"
    "verify_proof sha p (commitment sha (db_header b))"
    "inj_on sha (batch_inputs sha b \<union> checked_inputs sha p)"
    "list_all (\<lambda>h. length h = 32) (pf_path p)" "\<forall>x. length (sha x) = 32"
  shows "pf_header p = db_header b \<and>
    (\<exists>l \<in> set leaves. leaf_seq l = pf_seq p \<and> leaf_data_hash l = pf_record_hash p \<and> utc_day (leaf_ts_ms l) = day)"
proof -
  let ?D = "day_leaves day leaves" and ?h = "db_header b" and ?i = "unat (pf_leaf_index p)"
  note f = build_day_batch_Some [OF assms(1)] and h = batch_header_facts [OF assms(1,2)]
  have "sha (commitment_bytes (pf_header p)) = sha (commitment_bytes ?h)"
    using assms(3) by (simp add: verify_proof_def Let_def commitment_def)
  then have hd: "pf_header p = ?h"
    using inj_onD [OF assms(4)] commitment_bytes_inject by (auto simp: batch_inputs_def checked_inputs_def)
  have seq: "unat (pf_seq p) = unat (hd_first_seq ?h) + ?i" and ver: "verify_path sha (pf_record_hash p) ?i
      (length (db_leaf_data b)) (pf_path p) (hd_tree_root ?h)" and i: "?i < length ?D"
    using assms(3) hd h(2,3) by (auto simp: verify_proof_def Let_def checked_add_Some_iff word_less_nat_alt)
  have root: "hd_tree_root ?h = mth sha (db_leaf_data b)"
    using f(1-3,7) by (simp add: tree_root_build mth_levels)
  have "inj_on sha (tree_inputs sha (db_leaf_data b) \<union>
      proof_inputs sha (pf_record_hash p) ?i (length (db_leaf_data b)) (pf_path p))"
    by (rule inj_on_subset [OF assms(4)]) (use hd h(2,3) in \<open>auto simp: batch_inputs_def checked_inputs_def\<close>)
  then have "pf_record_hash p = db_leaf_data b ! ?i"
    using path_binds [OF ver [unfolded root] _ assms(5,6)] by simp
  then have "leaf_data_hash (?D ! ?i) = pf_record_hash p" using f(1) i by simp
  moreover have "leaf_seq (?D ! ?i) = pf_seq p" using f(9) [OF i] seq by (metis unsigned_word_eqI)
  moreover have "?D ! ?i \<in> set leaves" "utc_day (leaf_ts_ms (?D ! ?i)) = day"
    using nth_mem [OF i] by (auto simp: day_leaves_def)
  ultimately show ?thesis using hd by blast
qed

theorem accepted_proof_binds_the_record_witness:
  "\<exists>l \<in> set [demo_leaf]. leaf_seq l = pf_seq demo_anchor_proof \<and> leaf_data_hash l = pf_record_hash demo_anchor_proof"
proof -
  have "batch_inputs demo_hash demo_batch \<union> checked_inputs demo_hash demo_anchor_proof = {commitment_bytes demo_header, [0, 7]}"
    by (simp add: batch_inputs_def checked_inputs_def demo_batch_def demo_anchor_proof_def tree_inputs_def node_inputs_def
        levels_from.simps proof_inputs_def insert_commute)
  moreover have "demo_hash (commitment_bytes demo_header) \<noteq> demo_hash [0, 7]"
    using demo_commitment by (simp add: commitment_def) (simp add: demo_hash_def)
  ultimately have "inj_on demo_hash (batch_inputs demo_hash demo_batch \<union> checked_inputs demo_hash demo_anchor_proof)"
    by auto
  moreover have "verify_proof demo_hash demo_anchor_proof (commitment demo_hash (db_header demo_batch))"
    using demo_verify by (simp add: demo_batch_def)
  moreover have "\<forall>x. length (demo_hash x) = 32" by (simp add: demo_hash_def)
  ultimately show ?thesis
    using accepted_proof_binds_the_record [OF demo_build] by (auto simp: demo_anchor_proof_def)
qed

text \<open>
  C19. The ledger never forgets and never rebinds: after any accepted operation the file loads again
  (days strictly increase, ranges of different days do not overlap, every batched commitment is that
  of its header), every earlier entry is still there, and the only change to one is that an
  unconfirmed batched day gets its confirmation.
\<close>

theorem ledger_keeps_its_entries:
  assumes "run_cmd sha file c = Inr (out, file')"
  shows "load sha file' = Inr file' \<and>
    (\<forall>e \<in> set file. \<exists>e' \<in> set file'. e' = e \<or>
       le_status e = Batched \<and> confirmed e = None \<and> (\<exists>c. e' = e\<lparr>confirmed := Some c\<rparr>))"
  using run_cmd_Inr [OF assms] by (simp add: kept_def)

theorem ledger_keeps_its_entries_witness:
  "\<exists>es. load demo_hash es = Inr es \<and> run_cmd demo_hash [] (RecordBatched demo_header 9) = Inr (New, es)"
proof -
  have "\<exists>es. run_cmd demo_hash [] (RecordBatched demo_header 9) = Inr (New, es)"
    by (simp add: run_cmd_def record_batched_def demo_well_formed insert_entry_def load_def)
  then show ?thesis using ledger_keeps_its_entries by blast
qed

text \<open>
  The check of one's own anchor says what the registry holds: on the next registry version its
  answer is whether this committer anchored the value, whoever else did; on the deployed version it is
  whether this committer's record is the first; both within three calls.
\<close>

lemma own_check_is_right:
  assumes "length r = 32" "length c = 20"
    "ask (is_anchored_calldata r) = Returned (abi_bool (anchors \<noteq> []))"
    "ask (is_anchored_by_calldata c r) = Returned (abi_bool (c \<in> set anchors)) \<or>
     ask (is_anchored_by_calldata c r) = Reverted \<and>
       (anchors \<noteq> [] \<longrightarrow> (\<exists>kd rest. kd \<le> 2 \<and> length rest = 64 \<and> length (hd anchors) = 20 \<and>
          ask (get_anchor_calldata r) = Returned (abi_anchor kd r (hd anchors) rest)))"
  shows "drive 3 ask (new_check c r) = Some (Inr
    (if ask (is_anchored_by_calldata c r) = Reverted then anchors \<noteq> [] \<and> hd anchors = c else c \<in> set anchors))"
proof (cases "anchors = []")
  case True
  then show ?thesis using assms(3) by (simp add: numeral_3_eq_3 new_check_def answer_step_def)
next
  case False
  with assms(4) show ?thesis
  proof (elim disjE conjE)
    assume "ask (is_anchored_by_calldata c r) = Returned (abi_bool (c \<in> set anchors))"
    then show ?thesis using assms(3) False by (simp add: numeral_3_eq_3 new_check_def answer_step_def)
  next
    assume rev: "ask (is_anchored_by_calldata c r) = Reverted"
      and "anchors \<noteq> [] \<longrightarrow> (\<exists>kd rest. kd \<le> 2 \<and> length rest = 64 \<and> length (hd anchors) = 20 \<and>
          ask (get_anchor_calldata r) = Returned (abi_anchor kd r (hd anchors) rest))"
    then obtain kd rest where "kd \<le> 2" "length rest = 64" "length (hd anchors) = 20"
      "ask (get_anchor_calldata r) = Returned (abi_anchor kd r (hd anchors) rest)" using False by blast
    then show ?thesis using assms(1,3) False rev
      by (simp add: numeral_3_eq_3 new_check_def answer_step_def decode_abi_anchor)
  qed
qed

text \<open>A registry where a stranger anchored the value first, on the deployed version.\<close>

definition demo_ask :: "bytes \<Rightarrow> registry_answer" where
  "demo_ask call =
     (if take 4 call = IS_ANCHORED_SELECTOR then Returned (abi_bool True)
      else if take 4 call = GET_ANCHOR_SELECTOR
      then Returned (abi_anchor 2 (replicate 32 3) (replicate 20 8) (replicate 64 0)) else Reverted)"

end
