(* ===== verification/Records.thy ===== *)
theory Records
  imports Prelude
begin

text \<open>
  The decision log (\<open>agent-records/src/\<close>): records in a hash chain, kept in segment files with a
  \<open>HEAD\<close> and, after pruning, a \<open>CHECKPOINT\<close>; the walk that verifies a directory (\<open>seg.rs\<close>), the single
  writer with its crash recovery (\<open>store.rs\<close>), the reads (\<open>read.rs\<close>) and the record policy
  (\<open>record.rs\<close>).

  A directory is what the code reads from it: per segment the complete lines (\<open>None\<close> for one that is
  not a valid record) and the length of an incomplete last line. The hash of a record body (SHA-256 over
  its canonical JSON, in hex) is the parameter \<open>H\<close>, the length of a stored line the parameter \<open>L\<close>.
  Clock readings are a function of the number of the record they stamp. Texts of errors are left out.
\<close>

section \<open>Records\<close>

definition SCHEMA_VERSION :: u32 where "SCHEMA_VERSION = 1"
definition GENESIS_PREV :: string where "GENESIS_PREV = replicate 64 CHR ''0''"
definition MAX_ID_LEN :: nat where "MAX_ID_LEN = 256"
definition MAX_KIND_LEN :: nat where "MAX_KIND_LEN = 128"
definition MAX_SUBJECT_LEN :: nat where "MAX_SUBJECT_LEN = 1024"
definition MAX_REASON_LEN :: nat where "MAX_REASON_LEN = 4096"
definition MAX_EVIDENCE :: nat where "MAX_EVIDENCE = 32"
definition MAX_URI_LEN :: nat where "MAX_URI_LEN = 2048"

datatype actor_kind = Member | Agent | Daemon

record actor =
  actor_kind :: actor_kind
  actor_id :: string

datatype hic_tier = Hic1 | Hic2

datatype decision = Approved | Denied | AutoWithinBudget

definition expects_outcome :: "decision \<Rightarrow> bool" where
  "expects_outcome d \<longleftrightarrow> d = Approved \<or> d = AutoWithinBudget"

datatype outcome = Completed | Failed | OutcomeUnknown

record evidence_ref =
  ev_kind :: string
  ev_uri :: string
  ev_digest :: "string option"

record decision_event =
  de_tier :: hic_tier
  de_kind :: string
  de_subject :: string
  de_decision :: decision
  de_reason :: string
  de_evidence :: "evidence_ref list"

record outcome_event =
  oe_decision_seq :: u64
  oe_outcome :: outcome
  oe_detail :: string

datatype entry = Decision decision_event | Outcome outcome_event

record record_body =
  rb_v :: u32
  rb_seq :: u64
  rb_ts_ms :: u64
  rb_prev :: string
  rb_actor :: actor
  rb_entry :: entry

record stored_record =
  sr_hash :: string
  sr_body :: record_body

definition seal :: "(record_body \<Rightarrow> string) \<Rightarrow> record_body \<Rightarrow> stored_record" where
  "seal H b = \<lparr>sr_hash = H b, sr_body = b\<rparr>"

definition hash_matches :: "(record_body \<Rightarrow> string) \<Rightarrow> stored_record \<Rightarrow> bool" where
  "hash_matches H r \<longleftrightarrow> H (sr_body r) = sr_hash r"

datatype integrity_error =
    Malformed u32 | TornTail u32 | UnknownVersion u64 u32 | HashMismatch u64 | PrevMismatch u64
  | SeqGap u64 u64 | TimeReversed u64 | Policy u64 | BadOutcomeRef u64 u64 | HeadMissing
  | Truncated u64 "u64 option" | HeadHashMismatch u64 | HeadBehind u64 u64 | CheckpointMismatch

datatype log_error = Io | Invalid | Integrity integrity_error

section \<open>The record policy\<close>

definition check_len :: "string \<Rightarrow> nat \<Rightarrow> bool \<Rightarrow> log_error + unit" where
  "check_len s maxlen allow_empty =
     (if \<not> allow_empty \<and> trim s = [] then Inl Invalid
      else if maxlen < length s then Inl Invalid else Inr ())"

definition validate_actor :: "actor \<Rightarrow> log_error + unit" where
  "validate_actor a = check_len (actor_id a) MAX_ID_LEN False"

fun validate_evidence :: "evidence_ref list \<Rightarrow> log_error + unit" where
  "validate_evidence [] = Inr ()"
| "validate_evidence (e # es) =
     bind_result (check_len (ev_kind e) MAX_KIND_LEN False) (\<lambda>_.
     bind_result (check_len (ev_uri e) MAX_URI_LEN False) (\<lambda>_.
     bind_result (case ev_digest e of Some dg \<Rightarrow> check_len dg MAX_URI_LEN False | None \<Rightarrow> Inr ()) (\<lambda>_.
       validate_evidence es)))"

definition validate_decision :: "decision_event \<Rightarrow> log_error + unit" where
  "validate_decision d =
     bind_result (check_len (de_kind d) MAX_KIND_LEN False) (\<lambda>_.
     bind_result (check_len (de_subject d) MAX_SUBJECT_LEN False) (\<lambda>_.
     bind_result (check_len (de_reason d) MAX_REASON_LEN True) (\<lambda>_.
       if de_tier d = Hic1 \<and> de_decision d = AutoWithinBudget then Inl Invalid
       else if MAX_EVIDENCE < length (de_evidence d) then Inl Invalid
       else validate_evidence (de_evidence d))))"

definition validate_outcome :: "outcome_event \<Rightarrow> log_error + unit" where
  "validate_outcome o' = check_len (oe_detail o') MAX_REASON_LEN True"

definition validate_entry :: "entry \<Rightarrow> log_error + unit" where
  "validate_entry e = (case e of Decision d \<Rightarrow> validate_decision d | Outcome o' \<Rightarrow> validate_outcome o')"

section \<open>The directory\<close>

record head =
  head_seq :: u64
  head_hash :: string

record checkpoint =
  cp_next_seq :: u64
  cp_prev :: string
  cp_ts_ms :: u64
  cp_open :: "u64 set"

record segment =
  seg_index :: u32
  seg_lines :: "stored_record option list"
  seg_tail :: nat

record dir =
  dir_head :: "head option"
  dir_checkpoint :: "checkpoint option"
  dir_segs :: "segment list"

text \<open>The records of a segment, when every complete line is one.\<close>

definition read_segment :: "segment \<Rightarrow> integrity_error + stored_record list" where
  "read_segment s =
     (if list_all (\<lambda>l. l \<noteq> None) (seg_lines s) then Inr (map the (seg_lines s))
      else Inl (Malformed (seg_index s)))"

datatype mode = Strict | Recover | Live

record walked =
  w_expect :: u64
  w_prev :: string
  w_last_ts :: u64
  w_count :: nat
  w_first_seq :: "u64 option"
  w_tip :: "(u64 \<times> string \<times> u64) option"
  w_open :: "u64 set"
  w_head_hash :: "string option"
  w_torn :: "(u32 \<times> nat) option"
  w_stale :: "u32 list"
  w_seen :: "stored_record list"
  w_head_lag :: bool

definition start :: "dir \<Rightarrow> walked" where
  "start d =
     (case dir_checkpoint d of
        Some cp \<Rightarrow>
          \<lparr>w_expect = cp_next_seq cp, w_prev = cp_prev cp, w_last_ts = cp_ts_ms cp, w_count = 0,
           w_first_seq = None, w_tip = None, w_open = cp_open cp, w_head_hash = None, w_torn = None,
           w_stale = [], w_seen = [], w_head_lag = False\<rparr>
      | None \<Rightarrow>
          \<lparr>w_expect = 0, w_prev = GENESIS_PREV, w_last_ts = 0, w_count = 0, w_first_seq = None,
           w_tip = None, w_open = {}, w_head_hash = None, w_torn = None, w_stale = [], w_seen = [],
           w_head_lag = False\<rparr>)"

text \<open>What an entry does to the open allowing decisions.\<close>

definition open_after :: "u64 \<Rightarrow> entry \<Rightarrow> u64 set \<Rightarrow> integrity_error + u64 set" where
  "open_after s e op =
     (case e of
        Decision d \<Rightarrow> Inr (if expects_outcome (de_decision d) then insert s op else op)
      | Outcome o' \<Rightarrow>
          if oe_decision_seq o' \<notin> op then Inl (BadOutcomeRef s (oe_decision_seq o'))
          else Inr (op - {oe_decision_seq o'}))"

definition visit :: "(record_body \<Rightarrow> string) \<Rightarrow> dir \<Rightarrow> walked \<Rightarrow> stored_record \<Rightarrow> integrity_error + walked" where
  "visit H d w r =
     (let b = sr_body r; floor = w_expect (start d)
      in if rb_v b \<noteq> SCHEMA_VERSION then Inl (UnknownVersion (rb_seq b) (rb_v b))
         else if \<not> hash_matches H r then Inl (HashMismatch (rb_seq b))
         else if rb_seq b \<noteq> w_expect w then Inl (SeqGap (w_expect w) (rb_seq b))
         else if rb_prev b \<noteq> w_prev w
           then Inl (if dir_checkpoint d \<noteq> None \<and> rb_seq b = floor then CheckpointMismatch
                     else PrevMismatch (rb_seq b))
         else if rb_ts_ms b < w_last_ts w then Inl (TimeReversed (rb_seq b))
         else if \<not> is_ok (validate_actor (rb_actor b)) \<or> \<not> is_ok (validate_entry (rb_entry b))
           then Inl (Policy (rb_seq b))
         else bind_result (open_after (rb_seq b) (rb_entry b) (w_open w)) (\<lambda>op.
           Inr (w\<lparr>w_expect := rb_seq b + 1, w_prev := sr_hash r, w_last_ts := rb_ts_ms b,
                  w_count := w_count w + 1,
                  w_first_seq := (case w_first_seq w of None \<Rightarrow> Some (rb_seq b) | Some s \<Rightarrow> Some s),
                  w_tip := Some (rb_seq b, sr_hash r, rb_ts_ms b), w_open := op,
                  w_head_hash := (if (case dir_head d of Some h \<Rightarrow> head_seq h = rb_seq b | None \<Rightarrow> False)
                                  then Some (sr_hash r) else w_head_hash w),
                  w_seen := w_seen w @ [r]\<rparr>)))"

fun visit_all ::
  "(record_body \<Rightarrow> string) \<Rightarrow> dir \<Rightarrow> walked \<Rightarrow> stored_record list \<Rightarrow> integrity_error + walked" where
  "visit_all H d w [] = Inr w"
| "visit_all H d w (r # rs) = bind_result (visit H d w r) (\<lambda>w'. visit_all H d w' rs)"

text \<open>A segment whose records all precede the checkpoint was left behind by a crash while pruning.\<close>

definition stale_segment :: "dir \<Rightarrow> walked \<Rightarrow> segment \<Rightarrow> stored_record list \<Rightarrow> integrity_error + walked" where
  "stale_segment d w s rs =
     (let floor = w_expect (start d)
      in if 0 < w_count w
         then Inl (SeqGap (w_expect w) (case rs of [] \<Rightarrow> 0 | r # _ \<Rightarrow> rb_seq (sr_body r)))
         else case find (\<lambda>r. rb_seq (sr_body r) + 1 = floor) rs of
           Some r \<Rightarrow>
             if (case dir_checkpoint d of Some cp \<Rightarrow> cp_prev cp \<noteq> sr_hash r | None \<Rightarrow> False)
             then Inl CheckpointMismatch else Inr (w\<lparr>w_stale := w_stale w @ [seg_index s]\<rparr>)
         | None \<Rightarrow> Inr (w\<lparr>w_stale := w_stale w @ [seg_index s]\<rparr>))"

definition walk_segment ::
  "(record_body \<Rightarrow> string) \<Rightarrow> mode \<Rightarrow> dir \<Rightarrow> bool \<Rightarrow> walked \<Rightarrow> segment \<Rightarrow> integrity_error + walked" where
  "walk_segment H m d is_last w s =
     bind_result (read_segment s) (\<lambda>rs.
       let floor = w_expect (start d);
           torn = (if seg_tail s = 0 then Inr w
                   else if m = Live \<and> is_last then Inr w
                   else if m = Recover \<and> is_last then Inr (w\<lparr>w_torn := Some (seg_index s, seg_tail s)\<rparr>)
                   else Inl (TornTail (seg_index s)))
       in bind_result torn (\<lambda>w'.
            if rs \<noteq> [] \<and> list_all (\<lambda>r. rb_seq (sr_body r) < floor) rs then stale_segment d w' s rs
            else visit_all H d w' rs))"

fun walk_segments ::
  "(record_body \<Rightarrow> string) \<Rightarrow> mode \<Rightarrow> dir \<Rightarrow> walked \<Rightarrow> segment list \<Rightarrow> integrity_error + walked" where
  "walk_segments H m d w [] = Inr w"
| "walk_segments H m d w (s # ss) =
     bind_result (walk_segment H m d (ss = []) w s) (\<lambda>w'. walk_segments H m d w' ss)"

text \<open>The tip against \<open>HEAD\<close>.\<close>

definition check_head :: "mode \<Rightarrow> dir \<Rightarrow> walked \<Rightarrow> integrity_error + walked" where
  "check_head m d w =
     (let floor = w_expect (start d)
      in case (dir_head d, w_tip w) of
           (None, None) \<Rightarrow> if dir_checkpoint d = None then Inr w else Inl HeadMissing
         | (None, Some _) \<Rightarrow> Inl HeadMissing
         | (Some h, None) \<Rightarrow>
             if (case dir_checkpoint d of
                   Some cp \<Rightarrow> checked_add (head_seq h) 1 = Some (cp_next_seq cp) \<and> head_hash h = cp_prev cp
                 | None \<Rightarrow> False)
             then Inr w else Inl (Truncated (head_seq h) None)
         | (Some h, Some (tip, tip_hash, _)) \<Rightarrow>
             if tip < head_seq h then Inl (Truncated (head_seq h) (Some tip))
             else if head_seq h < floor \<and> m \<noteq> Live then Inl (HeadBehind (head_seq h) tip)
             else if \<not> head_seq h < floor \<and> w_head_hash w \<noteq> Some (head_hash h)
               then Inl (HeadHashMismatch (head_seq h))
             else if head_seq h = tip \<and> tip_hash \<noteq> head_hash h then Inl (HeadHashMismatch (head_seq h))
             else if 1 < tip - head_seq h \<and> m \<noteq> Live then Inl (HeadBehind (head_seq h) tip)
             else Inr (w\<lparr>w_head_lag := 0 < tip - head_seq h\<rparr>))"

definition walk :: "(record_body \<Rightarrow> string) \<Rightarrow> mode \<Rightarrow> dir \<Rightarrow> integrity_error + walked" where
  "walk H m d = bind_result (walk_segments H m d (start d) (dir_segs d)) (check_head m d)"

section \<open>The verifier and the reads\<close>

record verify_report =
  vr_count :: nat
  vr_first_seq :: "u64 option"
  vr_tip :: "(u64 \<times> string) option"
  vr_segments :: nat
  vr_open :: "u64 list"
  vr_head_lag :: bool

definition verify_dir :: "(record_body \<Rightarrow> string) \<Rightarrow> dir \<Rightarrow> integrity_error + verify_report" where
  "verify_dir H d =
     bind_result (walk H Strict d) (\<lambda>w.
       Inr \<lparr>vr_count = w_count w, vr_first_seq = w_first_seq w,
            vr_tip = map_option (\<lambda>(s, h, _). (s, h)) (w_tip w), vr_segments = length (dir_segs d),
            vr_open = sorted_list_of_set (w_open w), vr_head_lag = w_head_lag w\<rparr>)"

fun page_from ::
  "u64 option \<Rightarrow> nat \<Rightarrow> stored_record list \<Rightarrow> segment list \<Rightarrow> integrity_error + stored_record list" where
  "page_from before limit out [] = Inr out"
| "page_from before limit out (s # ss) =
     bind_result (read_segment s) (\<lambda>rs.
       let fit = filter (\<lambda>r. case before of Some b \<Rightarrow> rb_seq (sr_body r) < b | None \<Rightarrow> True) (rev rs);
           out' = out @ take (limit - length out) fit
       in if length out' = limit then Inr out' else page_from before limit out' ss)"

definition page :: "dir \<Rightarrow> u64 option \<Rightarrow> nat \<Rightarrow> integrity_error + stored_record list" where
  "page d before limit =
     (if limit = 0 then Inr [] else page_from before limit [] (rev (dir_segs d)))"

fun get_from :: "u64 \<Rightarrow> segment list \<Rightarrow> integrity_error + stored_record option" where
  "get_from s [] = Inr None"
| "get_from s (g # gs) =
     bind_result (read_segment g) (\<lambda>rs.
       case rs of
         [] \<Rightarrow> get_from s gs
       | first # _ \<Rightarrow>
           if s < rb_seq (sr_body first) then get_from s gs
           else Inr (find (\<lambda>r. rb_seq (sr_body r) = s) rs))"

definition get_record :: "dir \<Rightarrow> u64 \<Rightarrow> integrity_error + stored_record option" where
  "get_record d s = get_from s (rev (dir_segs d))"

record decision_view =
  dv_decision :: stored_record
  dv_outcome :: "stored_record option"

text \<open>The scan for a decision and its outcome: \<open>Inl\<close> what was found so far, \<open>Inr\<close> the final answer.\<close>

fun view_scan :: "u64 \<Rightarrow> stored_record option \<Rightarrow> stored_record list \<Rightarrow> stored_record option + decision_view" where
  "view_scan s found [] = Inl found"
| "view_scan s found (r # rs) =
     (case rb_entry (sr_body r) of
        Decision _ \<Rightarrow> view_scan s (if rb_seq (sr_body r) = s then Some r else found) rs
      | Outcome o' \<Rightarrow>
          (case found of
             Some d \<Rightarrow>
               if oe_decision_seq o' = s then Inr \<lparr>dv_decision = d, dv_outcome = Some r\<rparr>
               else view_scan s found rs
           | None \<Rightarrow> view_scan s found rs))"

fun view_from :: "u64 \<Rightarrow> stored_record option \<Rightarrow> segment list \<Rightarrow> integrity_error + decision_view option" where
  "view_from s found [] = Inr (map_option (\<lambda>d. \<lparr>dv_decision = d, dv_outcome = None\<rparr>) found)"
| "view_from s found (g # gs) =
     bind_result (read_segment g) (\<lambda>rs.
       case view_scan s found rs of Inr v \<Rightarrow> Inr (Some v) | Inl found' \<Rightarrow> view_from s found' gs)"

definition decision_view_of :: "dir \<Rightarrow> u64 \<Rightarrow> integrity_error + decision_view option" where
  "decision_view_of d s = view_from s None (dir_segs d)"

end
