(* ===== verification/RecordLog.thy ===== *)
theory RecordLog
  imports Records
begin

text \<open>
  The single writer of the decision log (\<open>agent-records/src/store.rs\<close>): append with rotation and
  pruning, and opening with crash recovery. What the disk answers to a write is an argument; the
  exclusive lock on the directory is not modelled, as there is one writer.
\<close>

section \<open>State\<close>

record log_config =
  max_segment_bytes :: u64
  max_segments :: "nat option"

definition default_config :: log_config where
  "default_config = \<lparr>max_segment_bytes = 8 * 1024 * 1024, max_segments = None\<rparr>"

record receipt =
  rc_seq :: u64
  rc_hash :: string
  rc_ts_ms :: u64
  rc_awaiting_outcome :: bool

record recovery_report =
  torn_tail_bytes :: nat
  head_repaired :: bool
  marked_unknown :: "u64 list"
  stale_segments_removed :: nat

record inner =
  in_seg_index :: u32
  in_seg_len :: u64
  in_seg_count :: nat
  in_next_seq :: u64
  in_prev :: string
  in_last_ts :: u64
  in_open :: "u64 set"
  in_failed :: bool

text \<open>How the write of a line and of \<open>HEAD\<close> went: a failed write leaves some bytes of the line, or
  all of it, which are cut off again unless that fails too.\<close>

datatype disk_result = WriteOk | LineFails "nat option" bool | HeadFails

section \<open>Files\<close>

definition change_seg :: "u32 \<Rightarrow> (segment \<Rightarrow> segment) \<Rightarrow> dir \<Rightarrow> dir" where
  "change_seg i f d = d\<lparr>dir_segs := map (\<lambda>s. if seg_index s = i then f s else s) (dir_segs d)\<rparr>"

definition write_line :: "u32 \<Rightarrow> stored_record \<Rightarrow> dir \<Rightarrow> dir" where
  "write_line i r = change_seg i (\<lambda>s. s\<lparr>seg_lines := seg_lines s @ [Some r]\<rparr>)"

definition leave_tail :: "u32 \<Rightarrow> nat \<Rightarrow> dir \<Rightarrow> dir" where
  "leave_tail i n = change_seg i (\<lambda>s. s\<lparr>seg_tail := n\<rparr>)"

definition new_seg :: "u32 \<Rightarrow> dir \<Rightarrow> dir" where
  "new_seg i d = d\<lparr>dir_segs := dir_segs d @ [\<lparr>seg_index = i, seg_lines = [], seg_tail = 0\<rparr>]\<rparr>"

definition write_head :: "u64 \<Rightarrow> string \<Rightarrow> dir \<Rightarrow> dir" where
  "write_head s h d = d\<lparr>dir_head := Some \<lparr>head_seq = s, head_hash = h\<rparr>\<rparr>"

section \<open>Pruning and rotation\<close>

fun prune_open :: "u64 set \<Rightarrow> stored_record list \<Rightarrow> u64 set" where
  "prune_open op [] = op"
| "prune_open op (r # rs) =
     prune_open
       (case rb_entry (sr_body r) of
          Decision e \<Rightarrow> if expects_outcome (de_decision e) then insert (rb_seq (sr_body r)) op else op
        | Outcome o' \<Rightarrow> op - {oe_decision_seq o'}) rs"

text \<open>The new \<open>CHECKPOINT\<close> before the oldest segment is deleted.\<close>

definition prune_checkpoint :: "dir \<Rightarrow> integrity_error + dir" where
  "prune_checkpoint d =
     (case dir_segs d of
        [] \<Rightarrow> Inr d
      | oldest # _ \<Rightarrow>
          bind_result (read_segment oldest) (\<lambda>rs.
            let op = (case dir_checkpoint d of Some cp \<Rightarrow> cp_open cp | None \<Rightarrow> {});
                floor = (case dir_checkpoint d of Some cp \<Rightarrow> cp_next_seq cp | None \<Rightarrow> 0);
                kept = filter (\<lambda>r. floor \<le> rb_seq (sr_body r)) rs
            in Inr (if kept = [] then d
                    else let r = last kept
                         in d\<lparr>dir_checkpoint := Some \<lparr>cp_next_seq = rb_seq (sr_body r) + 1,
                              cp_prev = sr_hash r, cp_ts_ms = rb_ts_ms (sr_body r),
                              cp_open = prune_open op kept\<rparr>\<rparr>)))"

definition drop_oldest :: "dir \<Rightarrow> dir" where
  "drop_oldest d = d\<lparr>dir_segs := tl (dir_segs d)\<rparr>"

definition prune_oldest :: "dir \<Rightarrow> integrity_error + dir" where
  "prune_oldest d = bind_result (prune_checkpoint d) (\<lambda>d'. Inr (drop_oldest d'))"

text \<open>The pruning loop: \<open>n\<close> segments too many. A failure keeps what was done.\<close>

fun prune_times :: "nat \<Rightarrow> dir \<Rightarrow> nat \<Rightarrow> (integrity_error option) \<times> dir \<times> nat" where
  "prune_times 0 d count = (None, d, count)"
| "prune_times (Suc n) d count =
     (case prune_oldest d of
        Inl e \<Rightarrow> (Some e, d, count)
      | Inr d' \<Rightarrow> prune_times n d' (count - 1))"

definition rotate :: "log_config \<Rightarrow> inner \<Rightarrow> dir \<Rightarrow> (log_error option) \<times> inner \<times> dir" where
  "rotate cfg g d =
     (case (if unat (in_seg_index g) + 1 < 2 ^ 32 then Some (in_seg_index g + 1) else None) of
        None \<Rightarrow> (Some Invalid, g, d)
      | Some i \<Rightarrow>
          if i \<in> seg_index ` set (dir_segs d) then (Some Io, g, d)
          else
            let g1 = g\<lparr>in_seg_index := i, in_seg_len := 0, in_seg_count := in_seg_count g + 1\<rparr>;
                d1 = new_seg i d
            in case max_segments cfg of
                 None \<Rightarrow> (None, g1, d1)
               | Some m \<Rightarrow>
                   (case prune_times (in_seg_count g1 - m) d1 (in_seg_count g1) of
                      (Some e, d2, c) \<Rightarrow>
                        (Some (Integrity e), g1\<lparr>in_seg_count := c, in_failed := True\<rparr>, d2)
                    | (None, d2, c) \<Rightarrow> (None, g1\<lparr>in_seg_count := c\<rparr>, d2)))"

section \<open>Appending\<close>

definition next_record :: "(record_body \<Rightarrow> string) \<Rightarrow> inner \<Rightarrow> actor \<Rightarrow> entry \<Rightarrow> u64 \<Rightarrow> stored_record" where
  "next_record H g a e now =
     seal H \<lparr>rb_v = SCHEMA_VERSION, rb_seq = in_next_seq g, rb_ts_ms = max now (in_last_ts g),
       rb_prev = in_prev g, rb_actor = a, rb_entry = e\<rparr>"

definition room_made ::
  "(stored_record \<Rightarrow> u64) \<Rightarrow> log_config \<Rightarrow> inner \<Rightarrow> dir \<Rightarrow> stored_record \<Rightarrow> (log_error option) \<times> inner \<times> dir" where
  "room_made L cfg g d r =
     (if 0 < in_seg_len g \<and> max_segment_bytes cfg < sat_add (in_seg_len g) (L r)
      then rotate cfg g d else (None, g, d))"

definition recorded :: "(stored_record \<Rightarrow> u64) \<Rightarrow> inner \<Rightarrow> stored_record \<Rightarrow> inner" where
  "recorded L g r =
     (let b = sr_body r
      in g\<lparr>in_seg_len := in_seg_len g + L r, in_next_seq := in_next_seq g + 1, in_prev := sr_hash r,
           in_last_ts := rb_ts_ms b,
           in_open := (case rb_entry b of
                         Decision e \<Rightarrow>
                           if expects_outcome (de_decision e) then insert (rb_seq b) (in_open g) else in_open g
                       | Outcome o' \<Rightarrow> in_open g - {oe_decision_seq o'})\<rparr>)"

definition receipt_of :: "stored_record \<Rightarrow> receipt" where
  "receipt_of r =
     \<lparr>rc_seq = rb_seq (sr_body r), rc_hash = sr_hash r, rc_ts_ms = rb_ts_ms (sr_body r),
      rc_awaiting_outcome =
        (case rb_entry (sr_body r) of Decision e \<Rightarrow> expects_outcome (de_decision e) | Outcome _ \<Rightarrow> False)\<rparr>"

definition append_entry ::
  "(record_body \<Rightarrow> string) \<Rightarrow> (stored_record \<Rightarrow> u64) \<Rightarrow> log_config \<Rightarrow> inner \<Rightarrow> dir \<Rightarrow> actor \<Rightarrow> entry \<Rightarrow>
   u64 \<Rightarrow> disk_result \<Rightarrow> (log_error + receipt) \<times> inner \<times> dir" where
  "append_entry H L cfg g d a e now io =
     (if in_failed g then (Inl Invalid, g, d)
      else if (case e of Outcome o' \<Rightarrow> oe_decision_seq o' \<notin> in_open g | Decision _ \<Rightarrow> False)
      then (Inl Invalid, g, d)
      else
        let r = next_record H g a e now
        in case room_made L cfg g d r of
             (Some err, g1, d1) \<Rightarrow> (Inl err, g1, d1)
           | (None, g1, d1) \<Rightarrow>
               (case io of
                  LineFails n back \<Rightarrow>
                    if back then (Inl Io, g1, d1)
                    else (Inl Io, g1\<lparr>in_failed := True\<rparr>,
                      case n of Some k \<Rightarrow> leave_tail (in_seg_index g1) k d1
                              | None \<Rightarrow> write_line (in_seg_index g1) r d1)
                | HeadFails \<Rightarrow>
                    (Inl Io, g1\<lparr>in_failed := True\<rparr>, write_line (in_seg_index g1) r d1)
                | WriteOk \<Rightarrow>
                    (Inr (receipt_of r), recorded L g1 r,
                     write_head (rb_seq (sr_body r)) (sr_hash r) (write_line (in_seg_index g1) r d1))))"

definition record_decision ::
  "(record_body \<Rightarrow> string) \<Rightarrow> (stored_record \<Rightarrow> u64) \<Rightarrow> log_config \<Rightarrow> inner \<Rightarrow> dir \<Rightarrow> actor \<Rightarrow>
   decision_event \<Rightarrow> u64 \<Rightarrow> disk_result \<Rightarrow> (log_error + receipt) \<times> inner \<times> dir" where
  "record_decision H L cfg g d a ev now io =
     (case bind_result (validate_actor a) (\<lambda>_. validate_decision ev) of
        Inl err \<Rightarrow> (Inl err, g, d)
      | Inr _ \<Rightarrow> append_entry H L cfg g d a (Decision ev) now io)"

definition record_outcome ::
  "(record_body \<Rightarrow> string) \<Rightarrow> (stored_record \<Rightarrow> u64) \<Rightarrow> log_config \<Rightarrow> inner \<Rightarrow> dir \<Rightarrow> actor \<Rightarrow>
   outcome_event \<Rightarrow> u64 \<Rightarrow> disk_result \<Rightarrow> (log_error + receipt) \<times> inner \<times> dir" where
  "record_outcome H L cfg g d a ev now io =
     (case bind_result (validate_actor a) (\<lambda>_. validate_outcome ev) of
        Inl err \<Rightarrow> (Inl err, g, d)
      | Inr _ \<Rightarrow> append_entry H L cfg g d a (Outcome ev) now io)"

section \<open>Opening\<close>

definition RECOVERY_ACTOR :: string where "RECOVERY_ACTOR = ''agent-records.recovery''"

definition RECOVERY_DETAIL :: string where
  "RECOVERY_DETAIL = ''closed on recovery: the process stopped after this decision was recorded and before its outcome was; the effect may or may not have happened''"

definition repaired :: "walked \<Rightarrow> dir \<Rightarrow> dir" where
  "repaired w d =
     (let d1 = (case w_torn w of Some (i, _) \<Rightarrow> leave_tail i 0 d | None \<Rightarrow> d);
          d2 = d1\<lparr>dir_segs := filter (\<lambda>s. seg_index s \<notin> set (w_stale w)) (dir_segs d1)\<rparr>
      in if w_head_lag w
         then (case w_tip w of Some (s, h, _) \<Rightarrow> write_head s h d2 | None \<Rightarrow> d2) else d2)"

definition with_segment :: "dir \<Rightarrow> dir" where
  "with_segment d = (if dir_segs d = [] then new_seg 1 d else d)"

definition seg_bytes :: "(stored_record \<Rightarrow> u64) \<Rightarrow> segment \<Rightarrow> u64" where
  "seg_bytes L s = sum_list (map L (List.map_filter id (seg_lines s)))"

definition opened :: "(stored_record \<Rightarrow> u64) \<Rightarrow> walked \<Rightarrow> dir \<Rightarrow> inner" where
  "opened L w d =
     \<lparr>in_seg_index = seg_index (last (dir_segs d)), in_seg_len = seg_bytes L (last (dir_segs d)),
      in_seg_count = length (dir_segs d),
      in_next_seq = (case w_tip w of Some (s, _, _) \<Rightarrow> s + 1
                     | None \<Rightarrow> (case dir_checkpoint d of Some cp \<Rightarrow> cp_next_seq cp | None \<Rightarrow> 0)),
      in_prev = (case w_tip w of Some (_, h, _) \<Rightarrow> h
                 | None \<Rightarrow> (case dir_checkpoint d of Some cp \<Rightarrow> cp_prev cp | None \<Rightarrow> GENESIS_PREV)),
      in_last_ts = (case w_tip w of Some (_, _, t) \<Rightarrow> t
                    | None \<Rightarrow> (case dir_checkpoint d of Some cp \<Rightarrow> cp_ts_ms cp | None \<Rightarrow> 0)),
      in_open = w_open w, in_failed = False\<rparr>"

text \<open>Every allowing decision without an outcome is closed as unknown, in ascending order.\<close>

fun close_open ::
  "(record_body \<Rightarrow> string) \<Rightarrow> (stored_record \<Rightarrow> u64) \<Rightarrow> log_config \<Rightarrow> (u64 \<Rightarrow> u64) \<Rightarrow> inner \<Rightarrow> dir \<Rightarrow>
   u64 list \<Rightarrow> log_error + inner \<times> dir" where
  "close_open H L cfg clk g d [] = Inr (g, d)"
| "close_open H L cfg clk g d (s # ss) =
     (case record_outcome H L cfg g d \<lparr>actor_kind = Daemon, actor_id = RECOVERY_ACTOR\<rparr>
             \<lparr>oe_decision_seq = s, oe_outcome = OutcomeUnknown, oe_detail = RECOVERY_DETAIL\<rparr>
             (clk (in_next_seq g)) WriteOk of
        (Inl e, _, _) \<Rightarrow> Inl e
      | (Inr _, g', d') \<Rightarrow> close_open H L cfg clk g' d' ss)"

definition open_log ::
  "(record_body \<Rightarrow> string) \<Rightarrow> (stored_record \<Rightarrow> u64) \<Rightarrow> log_config \<Rightarrow> (u64 \<Rightarrow> u64) \<Rightarrow> dir \<Rightarrow>
   log_error + inner \<times> dir \<times> recovery_report" where
  "open_log H L cfg0 clk d =
     (let cfg = \<lparr>max_segment_bytes = max (max_segment_bytes cfg0) 1,
                 max_segments = map_option (\<lambda>n. max n 1) (max_segments cfg0)\<rparr>
      in case walk H Recover d of
           Inl e \<Rightarrow> Inl (Integrity e)
         | Inr w \<Rightarrow>
             (let d1 = with_segment (repaired w d);
                  todo = sorted_list_of_set (w_open w)
              in bind_result (close_open H L cfg clk (opened L w d1) d1 todo) (\<lambda>(g, d2).
                   Inr (g, d2,
                     \<lparr>torn_tail_bytes = (case w_torn w of Some (_, n) \<Rightarrow> n | None \<Rightarrow> 0),
                      head_repaired = (w_head_lag w \<and> w_tip w \<noteq> None),
                      marked_unknown = todo, stale_segments_removed = length (w_stale w)\<rparr>))))"

end
