(* ===== verification/RecordChain.thy ===== *)
theory RecordChain
  imports RecordLog
begin

text \<open>
  The decision log as a chain of records: the reference view of a directory (its records in order,
  checked link by link from the checkpoint) and the lemmas that the walk computes exactly this view,
  for a directory at rest and for one a crash left behind.
\<close>

section \<open>The chain\<close>

text \<open>The next number, the previous hash, the last time and the open decisions.\<close>

type_synonym link_state = "u64 \<times> string \<times> u64 \<times> u64 set"

definition link :: "(record_body \<Rightarrow> string) \<Rightarrow> link_state \<Rightarrow> stored_record \<Rightarrow> link_state option" where
  "link H st r =
     (case st of (e, p, t, op) \<Rightarrow>
        (let b = sr_body r
         in if rb_v b = SCHEMA_VERSION \<and> hash_matches H r \<and> rb_seq b = e \<and> rb_prev b = p \<and> t \<le> rb_ts_ms b \<and>
               is_ok (validate_actor (rb_actor b)) \<and> is_ok (validate_entry (rb_entry b))
            then (case open_after (rb_seq b) (rb_entry b) op of
                    Inr op' \<Rightarrow> Some (rb_seq b + 1, sr_hash r, rb_ts_ms b, op') | Inl _ \<Rightarrow> None)
            else None))"

fun chain :: "(record_body \<Rightarrow> string) \<Rightarrow> link_state \<Rightarrow> stored_record list \<Rightarrow> link_state option" where
  "chain H st [] = Some st"
| "chain H st (r # rs) = (case link H st r of None \<Rightarrow> None | Some st' \<Rightarrow> chain H st' rs)"

lemma chain_append: "chain H st (xs @ ys) = (case chain H st xs of None \<Rightarrow> None | Some st' \<Rightarrow> chain H st' ys)"
  by (induction xs arbitrary: st) (auto split: option.split)

lemma link_Some:
  "link H (e, p, t, op) r = Some st \<Longrightarrow>
     rb_seq (sr_body r) = e \<and> rb_prev (sr_body r) = p \<and> hash_matches H r \<and>
     fst st = e + 1 \<and> fst (snd st) = sr_hash r"
  by (auto simp: link_def Let_def split: if_splits sum.splits)

lemma chain_seqs:
  "chain H (e, p, t, op) rs = Some st \<Longrightarrow>
     fst st = e + of_nat (length rs) \<and> (\<forall>i < length rs. rb_seq (sr_body (rs ! i)) = e + of_nat i)"
proof (induction rs arbitrary: e p t op)
  case (Cons r rs)
  obtain e' p' t' op' where l: "link H (e, p, t, op) r = Some (e', p', t', op')" "chain H (e', p', t', op') rs = Some st"
    using Cons.prems by (auto split: option.splits)
  have "rb_seq (sr_body ((r # rs) ! i)) = e + of_nat i" if "i < length (r # rs)" for i
    using Cons.IH [OF l(2)] link_Some [OF l(1)] that by (cases i) auto
  then show ?case using Cons.IH [OF l(2)] link_Some [OF l(1)] by auto
qed auto

lemma chain_floor:
  assumes "chain H (e, p, t, op) rs = Some st" "unat e + length rs < 2 ^ 64" "r \<in> set rs"
  shows "\<not> rb_seq (sr_body r) < e" "rb_seq (sr_body r) < fst st"
proof -
  obtain i where i: "i < length rs" "rs ! i = r" using assms(3) by (auto simp: in_set_conv_nth)
  have small: "unat (e + of_nat k) = unat e + k" if "k \<le> length rs" for k
    using that assms(2) by (simp add: unat_word_ariths unat_of_nat take_bit_eq_mod)
  have "rb_seq (sr_body r) = e + of_nat i" "fst st = e + of_nat (length rs)"
    using chain_seqs [OF assms(1)] i by auto
  then show "\<not> rb_seq (sr_body r) < e" "rb_seq (sr_body r) < fst st"
    using small i(1) by (simp_all add: word_less_nat_alt)
qed

lemma chain_last:
  "chain H st rs = Some (e, p, t, op) \<Longrightarrow> rs \<noteq> [] \<Longrightarrow>
     e = rb_seq (sr_body (last rs)) + 1 \<and> p = sr_hash (last rs) \<and> t = rb_ts_ms (sr_body (last rs))"
proof (induction rs rule: rev_induct)
  case (snoc r rs)
  then obtain st' where "link H st' r = Some (e, p, t, op)" by (auto simp: chain_append split: option.splits)
  then show ?case by (cases st') (auto simp: link_def Let_def split: if_splits sum.splits)
qed simp

section \<open>The walk follows the chain\<close>

definition state_of :: "walked \<Rightarrow> link_state" where
  "state_of w = (w_expect w, w_prev w, w_last_ts w, w_open w)"

fun head_hash_after :: "dir \<Rightarrow> string option \<Rightarrow> stored_record list \<Rightarrow> string option" where
  "head_hash_after d hh [] = hh"
| "head_hash_after d hh (r # rs) =
     head_hash_after d
       (if (case dir_head d of Some h \<Rightarrow> head_seq h = rb_seq (sr_body r) | None \<Rightarrow> False)
        then Some (sr_hash r) else hh) rs"

lemma head_hash_after_snoc:
  "head_hash_after d hh (rs @ [r]) =
     (if (case dir_head d of Some h \<Rightarrow> head_seq h = rb_seq (sr_body r) | None \<Rightarrow> False)
      then Some (sr_hash r) else head_hash_after d hh rs)"
  by (induction rs arbitrary: hh) auto

definition tip_of :: "stored_record \<Rightarrow> u64 \<times> string \<times> u64" where
  "tip_of r = (rb_seq (sr_body r), sr_hash r, rb_ts_ms (sr_body r))"

text \<open>What visiting the records \<open>rs\<close> does to the walk, apart from the chain and the torn tail.\<close>

definition moved :: "dir \<Rightarrow> walked \<Rightarrow> stored_record list \<Rightarrow> walked \<Rightarrow> bool" where
  "moved d w rs w' \<longleftrightarrow>
     w_count w' = w_count w + length rs \<and> w_seen w' = w_seen w @ rs \<and> w_stale w' = w_stale w \<and>
     w_head_lag w' = w_head_lag w \<and>
     w_tip w' = (if rs = [] then w_tip w else Some (tip_of (last rs))) \<and>
     w_head_hash w' = head_hash_after d (w_head_hash w) rs"

lemma head_hash_after_append:
  "head_hash_after d hh (xs @ ys) = head_hash_after d (head_hash_after d hh xs) ys"
  by (induction xs arbitrary: hh) auto

lemma moved_trans: "moved d w rs w1 \<Longrightarrow> moved d w1 rs' w2 \<Longrightarrow> moved d w (rs @ rs') w2"
  by (auto simp: moved_def head_hash_after_append)

lemma visit_link:
  assumes "link H (state_of w) r = Some st"
  shows "\<exists>w'. visit H d w r = Inr w' \<and> state_of w' = st \<and> moved d w [r] w' \<and> w_torn w' = w_torn w"
  using assms
  by (auto simp: visit_def link_def state_of_def moved_def tip_of_def Let_def not_less split: if_splits sum.splits)

lemma link_visit: "visit H d w r = Inr w' \<Longrightarrow> link H (state_of w) r = Some (state_of w')"
  by (auto simp: visit_def link_def state_of_def Let_def not_less result_iff split: if_splits)

lemma visit_all_chain:
  "chain H (state_of w) rs = Some st \<Longrightarrow>
     \<exists>w'. visit_all H d w rs = Inr w' \<and> state_of w' = st \<and> moved d w rs w' \<and> w_torn w' = w_torn w"
proof (induction rs arbitrary: w)
  case (Cons r rs)
  then obtain st1 where l: "link H (state_of w) r = Some st1" "chain H st1 rs = Some st"
    by (auto split: option.splits)
  from visit_link [OF l(1)] obtain w1 where w1: "visit H d w r = Inr w1" "state_of w1 = st1" "moved d w [r] w1"
    "w_torn w1 = w_torn w" by blast
  from Cons.IH [of w1] obtain w2 where "visit_all H d w1 rs = Inr w2" "state_of w2 = st" "moved d w1 rs w2"
    "w_torn w2 = w_torn w1" using l(2) w1(2) by auto
  then show ?case using w1 moved_trans [OF w1(3), of rs w2] by auto
qed (auto simp: moved_def)

lemma chain_visit_all: "visit_all H d w rs = Inr w' \<Longrightarrow> chain H (state_of w) rs = Some (state_of w')"
  by (induction rs arbitrary: w) (auto simp: result_iff dest: link_visit)

section \<open>Segments\<close>

definition lines_ok :: "segment list \<Rightarrow> bool" where
  "lines_ok ss \<longleftrightarrow> (\<forall>s \<in> set ss. \<forall>l \<in> set (seg_lines s). l \<noteq> None)"

definition records_of :: "segment list \<Rightarrow> stored_record list" where
  "records_of ss = concat (map (\<lambda>s. map the (seg_lines s)) ss)"

lemma records_of_simps [simp]:
  "records_of [] = []" "records_of (s # ss) = map the (seg_lines s) @ records_of ss"
  "records_of (ss @ ss') = records_of ss @ records_of ss'"
  by (simp_all add: records_of_def)

lemma read_segment_ok: "lines_ok (s # ss) \<Longrightarrow> read_segment s = Inr (map the (seg_lines s))"
  by (auto simp: lines_ok_def read_segment_def list_all_iff)

definition tails_ok :: "mode \<Rightarrow> segment list \<Rightarrow> bool" where
  "tails_ok m ss \<longleftrightarrow>
     (\<forall>s \<in> set (butlast ss). seg_tail s = 0) \<and> (ss \<noteq> [] \<longrightarrow> m = Strict \<longrightarrow> seg_tail (last ss) = 0)"

definition torn_of :: "mode \<Rightarrow> segment list \<Rightarrow> (u32 \<times> nat) option" where
  "torn_of m ss =
     (if ss \<noteq> [] \<and> m = Recover \<and> seg_tail (last ss) \<noteq> 0
      then Some (seg_index (last ss), seg_tail (last ss)) else None)"

lemma walk_segments_chain:
  assumes "chain H (state_of w) (records_of ss) = Some st" "lines_ok ss" "tails_ok m ss" "w_torn w = None"
    "\<forall>r \<in> set (records_of ss). \<not> rb_seq (sr_body r) < w_expect (start d)"
  shows "\<exists>w'. walk_segments H m d w ss = Inr w' \<and> state_of w' = st \<and> moved d w (records_of ss) w' \<and>
    w_torn w' = torn_of m ss"
  using assms
proof (induction ss arbitrary: w)
  case Nil
  then show ?case by (simp add: moved_def torn_of_def)
next
  case (Cons s ss)
  let ?rs = "map the (seg_lines s)"
  obtain st1 where c: "chain H (state_of w) ?rs = Some st1" "chain H st1 (records_of ss) = Some st"
    using Cons.prems(1) by (auto simp: chain_append split: option.splits)
  have tail: "seg_tail s = 0 \<or> ss = [] \<and> m \<noteq> Strict"
    using Cons.prems(3) by (auto simp: tails_ok_def split: if_splits)
  define w0 where "w0 = (if seg_tail s \<noteq> 0 \<and> m = Recover then w\<lparr>w_torn := Some (seg_index s, seg_tail s)\<rparr> else w)"
  have w0: "state_of w0 = state_of w" "moved d w [] w0" by (simp_all add: w0_def state_of_def moved_def)
  from visit_all_chain [of H w0 ?rs st1 d] obtain w1 where
    w1: "visit_all H d w0 ?rs = Inr w1" "state_of w1 = st1" "moved d w0 ?rs w1" "w_torn w1 = w_torn w0"
    using c(1) w0(1) by auto
  have fresh: "\<not> (?rs \<noteq> [] \<and> list_all (\<lambda>r. rb_seq (sr_body r) < w_expect (start d)) ?rs)"
    using Cons.prems(5) by (cases "seg_lines s") auto
  have seg: "walk_segment H m d (ss = []) w s = Inr w1"
    using tail w1(1) fresh read_segment_ok [OF Cons.prems(2)]
    by (cases m) (auto simp: walk_segment_def w0_def Let_def)
  show ?case
  proof (cases "ss = []")
    case True
    then show ?thesis
      using seg w1 c(2) moved_trans [OF w0(2) w1(3)] tail Cons.prems(4)
      by (auto simp: torn_of_def w0_def)
  next
    case False
    have "w_torn w1 = None" using tail False w1(4) Cons.prems(4) by (simp add: w0_def)
    moreover have "tails_ok m ss" "lines_ok ss" using Cons.prems(2,3) False by (auto simp: tails_ok_def lines_ok_def)
    ultimately obtain w2 where "walk_segments H m d w1 ss = Inr w2" "state_of w2 = st" "moved d w1 (records_of ss) w2"
      "w_torn w2 = torn_of m ss" using Cons.IH [of w1] c(2) w1(2) Cons.prems(5) by auto
    then show ?thesis
      using seg False moved_trans [OF moved_trans [OF w0(2) w1(3)]] by (auto simp: torn_of_def)
  qed
qed

section \<open>Sound directories\<close>

definition first_link :: "dir \<Rightarrow> link_state" where
  "first_link d = state_of (start d)"

definition head_at :: "dir \<Rightarrow> link_state \<Rightarrow> bool" where
  "head_at d st \<longleftrightarrow>
     (case dir_head d of
        Some h \<Rightarrow> checked_add (head_seq h) 1 = Some (fst st) \<and> head_hash h = fst (snd st)
      | None \<Rightarrow> False)"

text \<open>
  The lines are records that chain up to \<open>st\<close>; \<open>well_kept\<close> leaves the last tail and the head open.
\<close>

definition well_kept :: "(record_body \<Rightarrow> string) \<Rightarrow> dir \<Rightarrow> link_state \<Rightarrow> bool" where
  "well_kept H d st \<longleftrightarrow>
     lines_ok (dir_segs d) \<and> (\<forall>s \<in> set (butlast (dir_segs d)). seg_tail s = 0) \<and>
     sorted_wrt (<) (map seg_index (dir_segs d)) \<and>
     chain H (first_link d) (records_of (dir_segs d)) = Some st \<and>
     unat (fst (first_link d)) + length (records_of (dir_segs d)) < 2 ^ 64"

definition whole :: "dir \<Rightarrow> bool" where
  "whole d \<longleftrightarrow> (\<forall>s \<in> set (dir_segs d). seg_tail s = 0)"

definition non_empty :: "dir \<Rightarrow> bool" where
  "non_empty d \<longleftrightarrow> dir_checkpoint d \<noteq> None \<or> records_of (dir_segs d) \<noteq> []"

definition sound :: "(record_body \<Rightarrow> string) \<Rightarrow> dir \<Rightarrow> link_state \<Rightarrow> bool" where
  "sound H d st \<longleftrightarrow> well_kept H d st \<and> whole d \<and>
     (if dir_head d = None then \<not> non_empty d else head_at d st \<and> non_empty d)"

text \<open>After a crash the last line may be incomplete, and the head may be one record behind.\<close>

definition crashed :: "(record_body \<Rightarrow> string) \<Rightarrow> dir \<Rightarrow> link_state \<Rightarrow> bool" where
  "crashed H d st \<longleftrightarrow> well_kept H d st \<and>
     (if dir_head d = None then \<not> non_empty d
      else head_at d st \<and> non_empty d \<or>
           (\<exists>rs r st0. records_of (dir_segs d) = rs @ [r] \<and> rs \<noteq> [] \<and>
              chain H (first_link d) rs = Some st0 \<and> head_at d st0))"

lemma sound_crashed: "sound H d st \<Longrightarrow> crashed H d st"
  by (auto simp: sound_def crashed_def)

lemma well_kept_seq:
  assumes "well_kept H d st" "r \<in> set (records_of (dir_segs d))"
  shows "\<not> rb_seq (sr_body r) < w_expect (start d)"
proof -
  obtain e p t op where "first_link d = (e, p, t, op)" by (cases "first_link d")
  then show ?thesis
    using assms chain_floor(1) [of H e p t op "records_of (dir_segs d)" st r]
    by (auto simp: well_kept_def first_link_def state_of_def)
qed

lemma start_simps [simp]:
  "w_count (start d) = 0" "w_seen (start d) = []" "w_stale (start d) = []" "w_head_lag (start d) = False"
  "w_tip (start d) = None" "w_head_hash (start d) = None" "w_torn (start d) = None"
  by (simp_all add: start_def split: option.split)

lemma head_at_last:
  assumes "chain H fl (rs @ [r]) = Some st" "head_at d st"
  shows "\<exists>h. dir_head d = Some h \<and> head_seq h = rb_seq (sr_body r) \<and> head_hash h = sr_hash r"
proof -
  obtain e p t op where st: "st = (e, p, t, op)" by (cases st)
  have l: "e = rb_seq (sr_body r) + 1" "p = sr_hash r"
    using chain_last [of H fl "rs @ [r]" e p t op] assms(1) st by auto
  obtain h where h: "dir_head d = Some h" "checked_add (head_seq h) 1 = Some e" "head_hash h = p"
    using assms(2) st by (auto simp: head_at_def split: option.splits)
  then have "head_seq h + 1 = e" by (auto simp: checked_add_def split: if_splits)
  then show ?thesis using h l by simp
qed

text \<open>What a crash left passes the comparison of the tip with \<open>HEAD\<close>.\<close>

lemma check_head_crashed:
  assumes "crashed H d st" "m = Strict \<or> m = Recover" "\<not> w_head_lag w"
    "w_tip w = (if records_of (dir_segs d) = [] then None else Some (tip_of (last (records_of (dir_segs d)))))"
    "w_head_hash w = head_hash_after d None (records_of (dir_segs d))"
  shows "\<exists>w'. check_head m d w = Inr w' \<and> w' = w\<lparr>w_head_lag := dir_head d \<noteq> None \<and> \<not> head_at d st\<rparr>"
proof -
  let ?rs = "records_of (dir_segs d)"
  have wk: "well_kept H d st" using assms(1) by (simp add: crashed_def)
  note wf = assms(3-5)
  show ?thesis
  proof (cases "dir_head d")
    case None
    then have "?rs = []" "dir_checkpoint d = None" using assms(1) by (auto simp: crashed_def non_empty_def)
    then show ?thesis using None wf by (cases w) (simp add: check_head_def)
  next
    case (Some h)
    show ?thesis
    proof (cases "head_at d st")
      case True
      then have ne: "non_empty d" using assms(1) Some by (auto simp: crashed_def non_empty_def)
      show ?thesis
      proof (cases ?rs rule: rev_cases)
        case Nil
        then have st: "first_link d = st" using wk by (simp add: well_kept_def)
        obtain cp where "dir_checkpoint d = Some cp" using ne Nil by (auto simp: non_empty_def)
        then show ?thesis using Some True wf Nil st
          by (cases w) (auto simp: check_head_def head_at_def first_link_def state_of_def start_def)
      next
        case (snoc rs r)
        have c: "chain H (first_link d) (rs @ [r]) = Some st" using wk snoc by (simp add: well_kept_def)
        have h: "head_seq h = rb_seq (sr_body r)" "head_hash h = sr_hash r"
          using head_at_last [OF c True] Some by auto
        have "\<not> head_seq h < w_expect (start d)" using well_kept_seq [OF wk, of r] snoc h by simp
        then show ?thesis using Some True wf snoc h
          by (cases w) (auto simp: check_head_def tip_of_def head_hash_after_snoc)
      qed
    next
      case False
      then obtain rs r st0 where lag: "?rs = rs @ [r]" "rs \<noteq> []" "chain H (first_link d) rs = Some st0" "head_at d st0"
        using assms(1) Some by (auto simp: crashed_def)
      obtain rs' r' where r': "rs = rs' @ [r']" using lag(2) by (cases rs rule: rev_cases) auto
      have h: "head_seq h = rb_seq (sr_body r')" "head_hash h = sr_hash r'"
        using head_at_last [of H "first_link d" rs' r' st0 d] lag(3,4) r' Some by auto
      obtain e p t op where st0: "st0 = (e, p, t, op)" by (cases st0)
      have "link H st0 r = Some st" using wk lag(1,3) by (simp add: well_kept_def chain_append split: option.splits)
      then have seq: "rb_seq (sr_body r) = rb_seq (sr_body r') + 1"
        using link_Some [of H e p t op r st] chain_last [of H "first_link d" rs e p t op] lag(2,3) st0 r' by auto
      have lt: "rb_seq (sr_body r') < rb_seq (sr_body r)"
      proof -
        obtain e0 p0 t0 o0 where fl: "first_link d = (e0, p0, t0, o0)" by (cases "first_link d")
        have "unat e0 + length rs < 2 ^ 64" using wk lag(1) fl by (simp add: well_kept_def)
        then have "rb_seq (sr_body r') < fst st0"
          using chain_floor(2) [of H e0 p0 t0 o0 rs st0 r'] lag(3) fl r' by simp
        moreover have "fst st0 = rb_seq (sr_body r)"
          using \<open>link H st0 r = Some st\<close> link_Some [of H e p t op r st] st0 by simp
        ultimately show ?thesis by simp
      qed
      have "\<not> head_seq h < w_expect (start d)" using well_kept_seq [OF wk, of r'] lag(1) r' h by simp
      moreover have "w_head_hash w = Some (sr_hash r')"
        using wf(3) lag(1) r' h Some less_imp_neq [OF lt]
        by (simp add: head_hash_after_snoc [of d None "rs' @ [r']" r, simplified] head_hash_after_snoc)
      moreover have "\<not> rb_seq (sr_body r) < head_seq h" "rb_seq (sr_body r) - head_seq h = 1" "head_seq h \<noteq> rb_seq (sr_body r)"
        using h lt seq by auto
      ultimately show ?thesis using Some False wf(2) lag(1) h(2)
        by (simp add: check_head_def tip_of_def Let_def)
    qed
  qed
qed

text \<open>The walk accepts what a crash left and computes the chain's state.\<close>

lemma walk_crashed:
  assumes "crashed H d st" "m = Strict \<longrightarrow> whole d" "m = Strict \<or> m = Recover"
  shows "\<exists>w. walk H m d = Inr w \<and> state_of w = st \<and> w_seen w = records_of (dir_segs d) \<and>
    w_stale w = [] \<and> w_torn w = torn_of m (dir_segs d) \<and> (w_head_lag w \<longleftrightarrow> dir_head d \<noteq> None \<and> \<not> head_at d st) \<and>
    w_tip w = (if records_of (dir_segs d) = [] then None else Some (tip_of (last (records_of (dir_segs d)))))"
proof -
  let ?ss = "dir_segs d" and ?rs = "records_of (dir_segs d)"
  have wk: "well_kept H d st" using assms(1) by (simp add: crashed_def)
  have "tails_ok m ?ss" using wk assms(2) by (auto simp: well_kept_def tails_ok_def whole_def)
  then obtain w where w: "walk_segments H m d (start d) ?ss = Inr w" "state_of w = st" "moved d (start d) ?rs w"
    "w_torn w = torn_of m ?ss"
    using walk_segments_chain [of H "start d" ?ss st m d] wk well_kept_seq [OF wk]
    by (auto simp: well_kept_def first_link_def)
  have wf: "w_seen w = ?rs" "w_stale w = []" "\<not> w_head_lag w"
    "w_tip w = (if ?rs = [] then None else Some (tip_of (last ?rs)))" "w_head_hash w = head_hash_after d None ?rs"
    using w(3) by (auto simp: moved_def)
  obtain w' where "check_head m d w = Inr w'" "w' = w\<lparr>w_head_lag := dir_head d \<noteq> None \<and> \<not> head_at d st\<rparr>"
    using check_head_crashed [OF assms(1,3) wf(3,4,5)] by blast
  then show ?thesis using w wf by (auto simp: walk_def state_of_def)
qed

section \<open>The writer keeps the directory sound\<close>

text \<open>The writer's memory agrees with the directory.\<close>

definition synced :: "inner \<Rightarrow> dir \<Rightarrow> link_state \<Rightarrow> bool" where
  "synced g d st \<longleftrightarrow>
     dir_segs d \<noteq> [] \<and> in_seg_index g = seg_index (last (dir_segs d)) \<and>
     in_seg_count g = length (dir_segs d) \<and> \<not> in_failed g \<and>
     st = (in_next_seq g, in_prev g, in_last_ts g, in_open g)"

lemma sorted_last_index:
  assumes "sorted_wrt (<) (map seg_index ss)" "s \<in> set ss" "seg_index s = seg_index (last ss)"
  shows "s = last ss"
proof (cases ss rule: rev_cases)
  case (snoc ys y)
  then show ?thesis using assms by (fastforce simp: sorted_wrt_append)
qed (use assms in simp)

lemma change_last_seg:
  assumes "sorted_wrt (<) (map seg_index (dir_segs d))" "dir_segs d = ys @ [y]"
  shows "dir_segs (change_seg (seg_index y) f d) = ys @ [f y]"
proof -
  have "seg_index x \<noteq> seg_index y" if "x \<in> set ys" for x
    using assms that by (fastforce simp: sorted_wrt_append)
  then have "map (\<lambda>s. if seg_index s = seg_index y then f s else s) ys = ys"
    by (simp add: map_idI)
  then show ?thesis using assms(2) by (simp add: change_seg_def)
qed

lemma start_segs [simp]:
  "start (d\<lparr>dir_segs := ss\<rparr>) = start d" "start (d\<lparr>dir_head := h\<rparr>) = start d"
  "start (change_seg i f d) = start d"
  by (simp_all add: start_def change_seg_def)

lemma first_link_segs [simp]:
  "first_link (d\<lparr>dir_segs := ss\<rparr>) = first_link d" "first_link (d\<lparr>dir_head := h\<rparr>) = first_link d"
  "first_link (change_seg i f d) = first_link d"
  by (simp_all add: first_link_def)

lemma head_at_segs [simp]:
  "head_at (d\<lparr>dir_segs := ss\<rparr>) st = head_at d st" "head_at (change_seg i f d) st = head_at d st"
  by (simp_all add: head_at_def change_seg_def)

lemma soundI:
  assumes "lines_ok (dir_segs d)" "whole d" "sorted_wrt (<) (map seg_index (dir_segs d))"
    "chain H (first_link d) (records_of (dir_segs d)) = Some st"
    "unat (fst (first_link d)) + length (records_of (dir_segs d)) < 2 ^ 64"
    "if dir_head d = None then \<not> non_empty d else head_at d st \<and> non_empty d"
  shows "sound H d st"
  using assms by (auto simp: sound_def well_kept_def whole_def dest: in_set_butlastD)

lemma soundD:
  assumes "sound H d st"
  shows "lines_ok (dir_segs d)" "whole d" "sorted_wrt (<) (map seg_index (dir_segs d))"
    "chain H (first_link d) (records_of (dir_segs d)) = Some st"
    "unat (fst (first_link d)) + length (records_of (dir_segs d)) < 2 ^ 64"
    "if dir_head d = None then \<not> non_empty d else head_at d st \<and> non_empty d"
  using assms by (simp_all add: sound_def well_kept_def)

text \<open>Starting a segment changes nothing else.\<close>

lemma sound_new_seg:
  assumes "sound H d st" "\<forall>s \<in> set (dir_segs d). seg_index s < i"
  shows "sound H (new_seg i d) st"
proof -
  have "sorted_wrt (<) (map seg_index (dir_segs d @ [\<lparr>seg_index = i, seg_lines = [], seg_tail = 0\<rparr>]))"
    using assms by (simp add: sound_def well_kept_def sorted_wrt_append)
  then show ?thesis
    using assms by (auto simp: sound_def well_kept_def whole_def non_empty_def new_seg_def lines_ok_def)
qed

lemma prune_open_chain:
  "chain H (e, p, t, op) rs = Some (e', p', t', op') \<Longrightarrow> prune_open op rs = op'"
proof (induction rs arbitrary: e p t op)
  case (Cons r rs)
  then obtain st1 where l: "link H (e, p, t, op) r = Some st1" "chain H st1 rs = Some (e', p', t', op')"
    by (auto split: option.splits)
  obtain e1 p1 t1 op1 where st1: "st1 = (e1, p1, t1, op1)" by (cases st1)
  have "open_after (rb_seq (sr_body r)) (rb_entry (sr_body r)) op = Inr op1"
    using l(1) st1 by (auto simp: link_def Let_def split: if_splits sum.splits)
  then show ?case using Cons.IH [of e1 p1 t1 op1] l(2) st1
    by (auto simp: open_after_def split: entry.splits if_splits)
qed simp

lemma prune_oldest_sound:
  assumes "sound H d st" "dir_segs d = s # ss"
  shows "\<exists>d'. prune_oldest d = Inr d' \<and> dir_segs d' = ss \<and> sound H d' st"
proof -
  let ?rs = "map the (seg_lines s)"
  have wk: "well_kept H d st" using assms(1) by (simp add: sound_def)
  obtain st1 where c: "chain H (first_link d) ?rs = Some st1" "chain H st1 (records_of ss) = Some st"
    using wk assms(2) by (auto simp: well_kept_def chain_append split: option.splits)
  have fl: "first_link d = (case dir_checkpoint d of
      Some cp \<Rightarrow> (cp_next_seq cp, cp_prev cp, cp_ts_ms cp, cp_open cp) | None \<Rightarrow> (0, GENESIS_PREV, 0, {}))"
    by (simp add: first_link_def state_of_def start_def split: option.split)
  define floor where "floor = (case dir_checkpoint d of Some cp \<Rightarrow> cp_next_seq cp | None \<Rightarrow> 0)"
  define op where "op = (case dir_checkpoint d of Some cp \<Rightarrow> cp_open cp | None \<Rightarrow> {})"
  have floor: "w_expect (start d) = floor" by (simp add: floor_def start_def split: option.split)
  have "floor \<le> rb_seq (sr_body r)" if "r \<in> set ?rs" for r
    using well_kept_seq [OF wk, of r] that assms(2) floor by (simp add: not_less)
  then have kept: "filter (\<lambda>r. floor \<le> rb_seq (sr_body r)) ?rs = ?rs" by (auto simp: filter_id_conv)
  have rd: "read_segment s = Inr ?rs"
    using wk assms(2) read_segment_ok [of s ss] by (simp add: well_kept_def)
  show ?thesis
  proof (cases "?rs = []")
    case True
    then have "prune_oldest d = Inr (drop_oldest d)"
      using rd assms(2) by (simp add: prune_oldest_def prune_checkpoint_def Let_def)
    moreover have "non_empty (drop_oldest d) = non_empty d"
      using assms(2) True by (simp add: drop_oldest_def non_empty_def)
    then have "sound H (drop_oldest d) st"
      by (intro soundI)
        (use soundD [OF assms(1)] assms(2) True in
          \<open>simp_all add: drop_oldest_def lines_ok_def whole_def\<close>)
    ultimately show ?thesis using assms(2) by (simp add: drop_oldest_def)
  next
    case False
    obtain e p t op1 where st1: "st1 = (e, p, t, op1)" by (cases st1)
    have l: "e = rb_seq (sr_body (last ?rs)) + 1" "p = sr_hash (last ?rs)" "t = rb_ts_ms (sr_body (last ?rs))"
      using chain_last [of H "first_link d" ?rs e p t op1] c(1) st1 False by auto
    have po: "prune_open op ?rs = op1"
      using prune_open_chain [of H _ _ _ op ?rs e p t op1] c(1) st1 fl
      by (auto simp: op_def split: option.splits)
    let ?d = "d\<lparr>dir_checkpoint := Some \<lparr>cp_next_seq = e, cp_prev = p, cp_ts_ms = t, cp_open = op1\<rparr>,
      dir_segs := ss\<rparr>"
    have "prune_oldest d = Inr ?d"
      using rd assms(2) kept False l po
      by (simp add: prune_oldest_def prune_checkpoint_def Let_def drop_oldest_def flip: floor_def op_def)
    moreover have "first_link ?d = st1" by (simp add: first_link_def state_of_def start_def st1)
    moreover have "fst st1 = fst (first_link d) + of_nat (length ?rs)"
      using chain_seqs [of H _ _ _ _ ?rs st1] c(1) by (cases "first_link d") auto
    then have "unat (fst st1) + length (records_of ss) < 2 ^ 64"
      using wk assms(2) by (simp add: well_kept_def unat_word_ariths unat_of_nat take_bit_eq_mod)
    moreover have "head_at d st" using soundD(6) [OF assms(1)] False assms(2)
      by (auto simp: non_empty_def split: if_splits)
    ultimately have "sound H ?d st"
      by (intro soundI)
        (use soundD [OF assms(1)] assms(2) c(2) in
          \<open>simp_all add: lines_ok_def whole_def non_empty_def head_at_def split: option.splits\<close>)
    then show ?thesis using \<open>prune_oldest d = Inr ?d\<close> by auto
  qed
qed

section \<open>A segment left behind by pruning\<close>

text \<open>Between the new \<open>CHECKPOINT\<close> and the deletion of the oldest segment all its records precede the floor.\<close>

lemma head_hash_after_head: "dir_head d = dir_head d' \<Longrightarrow> head_hash_after d hh rs = head_hash_after d' hh rs"
  by (induction rs arbitrary: hh) auto

lemma checkpoint_written:
  assumes "sound H d st" "dir_segs d = s # ss" "prune_checkpoint d = Inr d'" "seg_lines s \<noteq> []"
  shows "\<exists>cp. d' = d\<lparr>dir_checkpoint := Some cp\<rparr> \<and> cp_next_seq cp = rb_seq (sr_body (last (map the (seg_lines s)))) + 1 \<and>
    cp_prev cp = sr_hash (last (map the (seg_lines s)))"
proof -
  let ?rs = "map the (seg_lines s)"
  have wk: "well_kept H d st" using assms(1) by (simp add: sound_def)
  define lo where "lo = (case dir_checkpoint d of Some cp \<Rightarrow> cp_next_seq cp | None \<Rightarrow> 0)"
  have "w_expect (start d) = lo" by (simp add: lo_def start_def split: option.split)
  then have "lo \<le> rb_seq (sr_body r)" if "r \<in> set ?rs" for r
    using well_kept_seq [OF wk, of r] that assms(2) by (simp add: not_less)
  then have "filter (\<lambda>r. lo \<le> rb_seq (sr_body r)) ?rs = ?rs" by (auto simp: filter_id_conv)
  moreover have "read_segment s = Inr ?rs" using wk assms(2) read_segment_ok [of s ss] by (simp add: well_kept_def)
  ultimately show ?thesis
    using assms(2,3,4) by (auto simp: prune_checkpoint_def Let_def simp flip: lo_def)
qed

lemma walk_stale:
  assumes "sound H d st" "dir_segs d = s # ss" "prune_checkpoint d = Inr d'" "seg_lines s \<noteq> []"
  shows "\<exists>w. walk H Recover d' = Inr w \<and> state_of w = st \<and> w_stale w = [seg_index s] \<and> w_torn w = None \<and>
    \<not> w_head_lag w \<and> w_tip w = (if records_of ss = [] then None else Some (tip_of (last (records_of ss))))"
proof -
  let ?rs = "map the (seg_lines s)"
  define d4 where "d4 = drop_oldest d'"
  obtain cp where cp: "d' = d\<lparr>dir_checkpoint := Some cp\<rparr>" "cp_next_seq cp = rb_seq (sr_body (last ?rs)) + 1"
    "cp_prev cp = sr_hash (last ?rs)"
    using checkpoint_written [OF assms] by blast
  have d4: "dir_segs d4 = ss" "sound H d4 st"
    using prune_oldest_sound [OF assms(1,2)] assms(3) by (auto simp: prune_oldest_def d4_def)
  have same: "start d' = start d4" "dir_head d' = dir_head d4" "dir_checkpoint d' = dir_checkpoint d4"
    by (simp_all add: d4_def drop_oldest_def)
  have wk: "well_kept H d4 st" "whole d4" using d4(2) by (simp_all add: sound_def)
  obtain e p t op where fl: "first_link d = (e, p, t, op)" by (cases "first_link d")
  have small: "unat e + length (?rs @ records_of ss) < 2 ^ 64" using soundD(5) [OF assms(1)] assms(2) fl by simp
  obtain st1 where c: "chain H (e, p, t, op) ?rs = Some st1"
    using soundD(4) [OF assms(1)] assms(2) fl by (auto simp: chain_append split: option.splits)
  have F: "w_expect (start d') = cp_next_seq cp" "fst st1 = cp_next_seq cp"
    using cp(1,2) chain_last [of H _ ?rs] c assms(4) by (cases st1; auto simp: start_def)+
  have below: "rb_seq (sr_body r) < w_expect (start d')" if "r \<in> set ?rs" for r
    using chain_floor(2) [OF c _ that] small F by simp
  have hash: "sr_hash r = cp_prev cp" if r: "r \<in> set ?rs" "rb_seq (sr_body r) + 1 = w_expect (start d')" for r
  proof -
    obtain i where i: "i < length ?rs" "?rs ! i = r" using r(1) unfolding in_set_conv_nth by blast
    have "e + of_nat i + 1 = e + of_nat (length ?rs)" using chain_seqs [OF c] i r(2) F by auto
    then have "(of_nat (i + 1) :: u64) = of_nat (length ?rs)" by (simp add: add.commute)
    moreover have "i + 1 < 2 ^ 64" "length ?rs < 2 ^ 64" using i(1) small by simp_all
    moreover have "unat (of_nat n :: u64) = n" if "n < 2 ^ 64" for n
      using that by (simp add: unat_of_nat take_bit_eq_mod)
    ultimately have "i + 1 = length ?rs" by metis
    then have "length ?rs - 1 = i" by simp
    then have "last ?rs = r" using i(2) assms(4) last_conv_nth [of ?rs] by (simp del: length_map nth_map)
    then show ?thesis using cp(3) by simp
  qed
  define w0 where "w0 = start d'\<lparr>w_stale := [seg_index s]\<rparr>"
  have rd: "read_segment s = Inr ?rs" using soundD(1) [OF assms(1)] assms(2) read_segment_ok [of s ss] by simp
  have tail: "seg_tail s = 0" using soundD(2) [OF assms(1)] assms(2) by (simp add: whole_def)
  have "stale_segment d' (start d') s ?rs = Inr w0"
  proof (cases "find (\<lambda>r. rb_seq (sr_body r) + 1 = w_expect (start d')) ?rs")
    case (Some r)
    then obtain i where "i < length ?rs" "rb_seq (sr_body (?rs ! i)) + 1 = w_expect (start d')" "r = ?rs ! i"
      unfolding find_Some_iff by blast
    then have "sr_hash r = cp_prev cp" using hash [OF nth_mem] by metis
    then show ?thesis using Some cp(1) by (simp add: stale_segment_def w0_def)
  qed (simp add: stale_segment_def w0_def)
  moreover have "list_all (\<lambda>r. rb_seq (sr_body r) < w_expect (start d')) ?rs" using below by (simp only: list_all_iff) blast
  ultimately have seg: "walk_segment H Recover d' (ss = []) (start d') s = Inr w0"
    using tail rd assms(4) by (simp add: walk_segment_def Let_def)
  have "chain H (state_of w0) (records_of ss) = Some st"
    using soundD(4) [OF d4(2)] d4(1) same(1) by (simp add: w0_def first_link_def state_of_def)
  then obtain w where w: "walk_segments H Recover d' w0 ss = Inr w" "state_of w = st" "moved d' w0 (records_of ss) w"
    "w_torn w = torn_of Recover ss"
    using walk_segments_chain [of H w0 ss st Recover d'] soundD(1,2) [OF d4(2)] d4(1) well_kept_seq [OF wk(1)] same(1)
    by (auto simp: w0_def tails_ok_def whole_def dest: in_set_butlastD)
  have "torn_of Recover ss = None"
    using wk(2) d4(1) by (cases ss rule: rev_cases) (auto simp: torn_of_def whole_def)
  have wf: "w_stale w = [seg_index s]" "\<not> w_head_lag w" "w_torn w = None"
    "w_tip w = (if records_of (dir_segs d4) = [] then None else Some (tip_of (last (records_of (dir_segs d4)))))"
    "w_head_hash w = head_hash_after d4 None (records_of (dir_segs d4))"
    using w(3,4) \<open>torn_of Recover ss = None\<close> d4(1) head_hash_after_head [OF same(2)]
    by (simp_all add: moved_def w0_def)
  have "check_head Recover d' w = check_head Recover d4 w"
    unfolding check_head_def same by (rule refl)
  moreover obtain w' where "check_head Recover d4 w = Inr w'" "w' = w\<lparr>w_head_lag := dir_head d4 \<noteq> None \<and> \<not> head_at d4 st\<rparr>"
    using check_head_crashed [OF sound_crashed [OF d4(2)] _ wf(2,4,5)] by blast
  moreover have "dir_head d4 = None \<or> head_at d4 st" using soundD(6) [OF d4(2)] by (auto split: if_splits)
  ultimately have "check_head Recover d' w = Inr (w\<lparr>w_head_lag := False\<rparr>)" by auto
  moreover have "dir_segs d' = s # ss" using cp(1) assms(2) by simp
  ultimately have "walk H Recover d' = Inr (w\<lparr>w_head_lag := False\<rparr>)" using seg w(1) by (simp add: walk_def)
  then show ?thesis using w(2) wf d4(1) by (intro exI [of _ "w\<lparr>w_head_lag := False\<rparr>"]) (simp add: state_of_def)
qed

end
