(* ===== verification/RecordWriter.thy ===== *)
theory RecordWriter
  imports RecordChain
begin

text \<open>
  The writer of the decision log keeps a sound directory: pruning, rotation, one append, the closing
  of open decisions on recovery, and what a crash in the middle of an append leaves on disk.
\<close>

section \<open>Pruning and rotation\<close>

lemma prune_times_sound:
  "sound H d st \<Longrightarrow> n \<le> length (dir_segs d) \<Longrightarrow>
     \<exists>d'. prune_times n d c = (None, d', c - n) \<and> dir_segs d' = drop n (dir_segs d) \<and> sound H d' st"
proof (induction n arbitrary: d c)
  case (Suc n)
  then obtain s ss where segs: "dir_segs d = s # ss" by (cases "dir_segs d") auto
  obtain d1 where d1: "prune_oldest d = Inr d1" "dir_segs d1 = ss" "sound H d1 st"
    using prune_oldest_sound [OF Suc.prems(1) segs] by blast
  then show ?case using Suc.IH [OF d1(3), of "c - 1"] Suc.prems(2) segs by auto
qed simp

definition keeps_one :: "log_config \<Rightarrow> bool" where
  "keeps_one cfg \<longleftrightarrow> max_segments cfg \<noteq> Some 0"

lemma sorted_le_last:
  "sorted_wrt (<) (map seg_index ss) \<Longrightarrow> s \<in> set ss \<Longrightarrow> seg_index s \<le> seg_index (last ss)"
  by (cases ss rule: rev_cases) (auto simp: sorted_wrt_append intro: less_imp_le)

lemma records_of_drop: "\<exists>j. records_of (drop n ss) = drop j (records_of ss) \<and> (n = 0 \<longrightarrow> j = 0)"
proof (induction n arbitrary: ss)
  case (Suc n)
  show ?case
  proof (cases ss)
    case (Cons s ss')
    obtain j where "records_of (drop n ss') = drop j (records_of ss')" using Suc.IH [of ss'] by blast
    then show ?thesis using Cons by (intro exI [of _ "length (seg_lines s) + j"]) simp
  qed simp
qed auto

text \<open>
  What pruning \<open>n\<close> segments owes to the configured limit: something is dropped only to come down to
  exactly the limit, one new segment makes at most one too many, and a directory at its limit stays there.
\<close>

definition keeps_limit :: "log_config \<Rightarrow> nat \<Rightarrow> dir \<Rightarrow> dir \<Rightarrow> bool" where
  "keeps_limit cfg n d d' \<longleftrightarrow>
     (n = 0 \<or> max_segments cfg = Some (length (dir_segs d'))) \<and>
     length (dir_segs d') + n \<le> length (dir_segs d) + 1 \<and>
     (max_segments cfg = Some (length (dir_segs d)) \<longrightarrow> length (dir_segs d') = length (dir_segs d))"

text \<open>Rotation gives a sound directory that has lost at most oldest segments.\<close>

lemma rotate_sound:
  assumes "sound H d st" "synced g d st" "keeps_one cfg" "unat (in_seg_index g) + 1 < 2 ^ 32"
  shows "\<exists>g1 d1 n. rotate cfg g d = (None, g1, d1) \<and> sound H d1 st \<and> synced g1 d1 st \<and>
    records_of (dir_segs d1) = records_of (drop n (dir_segs d)) \<and>
    in_seg_index g1 = in_seg_index g + 1 \<and> keeps_limit cfg n d d1"
proof -
  let ?i = "in_seg_index g + 1"
  have up: "in_seg_index g < ?i" using assms(4) by (simp add: word_less_nat_alt unat_word_ariths)
  have lt: "seg_index s < ?i" if "s \<in> set (dir_segs d)" for s
    using sorted_le_last [OF soundD(3) [OF assms(1)] that] assms(2) up by (auto simp: synced_def)
  then have fresh: "?i \<notin> seg_index ` set (dir_segs d)" by force
  have new: "sound H (new_seg ?i d) st" using sound_new_seg [OF assms(1)] lt by simp
  let ?g1 = "g\<lparr>in_seg_index := ?i, in_seg_len := 0, in_seg_count := in_seg_count g + 1\<rparr>"
  have segs: "dir_segs (new_seg ?i d) = dir_segs d @ [\<lparr>seg_index = ?i, seg_lines = [], seg_tail = 0\<rparr>]"
    by (simp add: new_seg_def)
  have len: "in_seg_count ?g1 = length (dir_segs (new_seg ?i d))" using assms(2) segs by (simp add: synced_def)
  show ?thesis
  proof (cases "max_segments cfg")
    case None
    then have "rotate cfg g d = (None, ?g1, new_seg ?i d)"
      using fresh assms(4) by (simp add: rotate_def Let_def)
    then show ?thesis using new assms(2) segs None
      by (intro exI [of _ ?g1] exI [of _ "new_seg ?i d"] exI [of _ 0]) (simp add: synced_def keeps_limit_def)
  next
    case (Some m)
    define n where "n = in_seg_count ?g1 - m"
    have n: "n \<le> length (dir_segs d)" using Some assms(3) len segs by (simp add: n_def keeps_one_def)
    obtain d2 where d2: "prune_times n (new_seg ?i d) (in_seg_count ?g1) = (None, d2, in_seg_count ?g1 - n)"
      "dir_segs d2 = drop n (dir_segs (new_seg ?i d))" "sound H d2 st"
      using prune_times_sound [OF new, of n] n segs by auto
    then have "rotate cfg g d = (None, ?g1\<lparr>in_seg_count := in_seg_count ?g1 - n\<rparr>, d2)"
      using fresh assms(4) Some by (simp add: rotate_def Let_def n_def)
    moreover have "records_of (dir_segs d2) = records_of (drop n (dir_segs d))" using d2(2) n segs by simp
    moreover have "synced (?g1\<lparr>in_seg_count := in_seg_count ?g1 - n\<rparr>) d2 st"
      using assms(2) d2(2) n segs len by (simp add: synced_def)
    moreover have "keeps_limit cfg n d d2"
      using d2(2) n segs Some len by (auto simp: keeps_limit_def n_def)
    ultimately show ?thesis using d2(3) by auto
  qed
qed

lemma room_made_sound:
  assumes "sound H d st" "synced g d st" "keeps_one cfg" "unat (in_seg_index g) + 1 < 2 ^ 32"
  shows "\<exists>g1 d1 n. room_made L cfg g d r = (None, g1, d1) \<and> sound H d1 st \<and> synced g1 d1 st \<and>
    records_of (dir_segs d1) = records_of (drop n (dir_segs d)) \<and>
    unat (in_seg_index g1) \<le> unat (in_seg_index g) + 1 \<and> keeps_limit cfg n d d1"
proof (cases "0 < in_seg_len g \<and> max_segment_bytes cfg < sat_add (in_seg_len g) (L r)")
  case True
  then show ?thesis using rotate_sound [OF assms] by (fastforce simp: room_made_def unat_word_ariths)
next
  case False
  then show ?thesis using assms
    by (intro exI [of _ g] exI [of _ d] exI [of _ 0]) (auto simp: room_made_def keeps_limit_def)
qed

section \<open>One record\<close>

lemma next_record_link:
  assumes "is_ok (validate_actor a)" "is_ok (validate_entry e)"
    "case e of Outcome ev \<Rightarrow> oe_decision_seq ev \<in> in_open g | Decision _ \<Rightarrow> True"
  shows "\<exists>op. link H (in_next_seq g, in_prev g, in_last_ts g, in_open g) (next_record H g a e now) =
      Some (in_next_seq g + 1, sr_hash (next_record H g a e now), max now (in_last_ts g), op) \<and>
    op = in_open (recorded L g (next_record H g a e now))"
  using assms
  by (cases e) (auto simp: link_def next_record_def seal_def hash_matches_def open_after_def recorded_def Let_def)

lemma written_segs:
  assumes "sound H d st" "synced g d st"
  obtains ys y where "dir_segs d = ys @ [y]" "seg_index y = in_seg_index g"
    "dir_segs (write_line (in_seg_index g) r d) = ys @ [y\<lparr>seg_lines := seg_lines y @ [Some r]\<rparr>]"
    "records_of (dir_segs (write_line (in_seg_index g) r d)) = records_of (dir_segs d) @ [r]"
proof -
  obtain ys y where y: "dir_segs d = ys @ [y]" "seg_index y = in_seg_index g"
    using assms(2) by (cases "dir_segs d" rule: rev_cases) (auto simp: synced_def)
  then have "dir_segs (write_line (in_seg_index g) r d) = ys @ [y\<lparr>seg_lines := seg_lines y @ [Some r]\<rparr>]"
    using change_last_seg [OF soundD(3) [OF assms(1)] y(1)] by (simp add: write_line_def)
  with y show thesis by (intro that) simp_all
qed

lemma written_records:
  assumes "sound H d st" "synced g d st"
  shows "records_of (dir_segs (write_line (in_seg_index g) r d)) = records_of (dir_segs d) @ [r]"
  by (rule written_segs [OF assms])

lemma room_for_one:
  assumes "sound H d st" "unat (fst st) + 1 < 2 ^ 64"
  shows "unat (fst (first_link d)) + length (records_of (dir_segs d)) + 1 < 2 ^ 64"
proof -
  obtain e p t op where fl: "first_link d = (e, p, t, op)" by (cases "first_link d")
  have "fst st = e + of_nat (length (records_of (dir_segs d)))"
    using chain_seqs [of H e p t op _ st] soundD(4) [OF assms(1)] fl by auto
  then have "unat (fst st) = unat e + length (records_of (dir_segs d))"
    using soundD(5) [OF assms(1)] fl by (simp add: unat_word_ariths unat_of_nat take_bit_eq_mod)
  then show ?thesis using assms(2) fl by simp
qed

text \<open>The line alone leaves a well-kept directory, the line and the head a sound one.\<close>

lemma written_well_kept:
  assumes "sound H d st" "synced g d st" "link H st r = Some st'" "unat (fst st) + 1 < 2 ^ 64"
  shows "well_kept H (write_line (in_seg_index g) r d) st'" "whole (write_line (in_seg_index g) r d)"
proof -
  obtain ys y where y: "dir_segs d = ys @ [y]"
    "dir_segs (write_line (in_seg_index g) r d) = ys @ [y\<lparr>seg_lines := seg_lines y @ [Some r]\<rparr>]"
    "records_of (dir_segs (write_line (in_seg_index g) r d)) = records_of (dir_segs d) @ [r]"
    by (rule written_segs [OF assms(1,2)])
  have fl: "first_link (write_line (in_seg_index g) r d) = first_link d" by (simp add: write_line_def)
  show w: "whole (write_line (in_seg_index g) r d)"
    using y soundD(2) [OF assms(1)] by (auto simp: whole_def)
  have "lines_ok (dir_segs (write_line (in_seg_index g) r d))"
    using y soundD(1) [OF assms(1)] by (auto simp: lines_ok_def)
  moreover have "sorted_wrt (<) (map seg_index (dir_segs (write_line (in_seg_index g) r d)))"
    using y soundD(3) [OF assms(1)] by simp
  moreover have "chain H (first_link d) (records_of (dir_segs (write_line (in_seg_index g) r d))) = Some st'"
    using soundD(4) [OF assms(1)] assms(3) by (simp add: y(3) chain_append)
  ultimately show "well_kept H (write_line (in_seg_index g) r d) st'"
    using w room_for_one [OF assms(1,4)] y fl
    by (auto simp: well_kept_def whole_def dest: in_set_butlastD)
qed

lemma link_head:
  assumes "link H st r = Some st'" "unat (fst st) + 1 < 2 ^ 64"
  shows "checked_add (rb_seq (sr_body r)) 1 = Some (fst st')" "fst (snd st') = sr_hash r"
proof -
  obtain e p t op where st: "st = (e, p, t, op)" by (cases st)
  show "checked_add (rb_seq (sr_body r)) 1 = Some (fst st')" "fst (snd st') = sr_hash r"
    using link_Some [of H e p t op r st'] assms st by (simp_all add: checked_add_def)
qed

lemma written_sound:
  assumes "sound H d st" "synced g d st" "link H st r = Some st'" "unat (fst st) + 1 < 2 ^ 64"
  shows "sound H (write_head (rb_seq (sr_body r)) (sr_hash r) (write_line (in_seg_index g) r d)) st'"
proof -
  let ?d = "write_line (in_seg_index g) r d"
  let ?d' = "write_head (rb_seq (sr_body r)) (sr_hash r) ?d"
  have wk: "well_kept H ?d st'" "whole ?d" using written_well_kept [OF assms] by simp_all
  have "records_of (dir_segs ?d) = records_of (dir_segs d) @ [r]" by (rule written_records [OF assms(1,2)])
  then have "non_empty ?d'" by (simp add: non_empty_def write_head_def)
  moreover have "head_at ?d' st'" using link_head [OF assms(3,4)] by (simp add: head_at_def write_head_def)
  moreover have "well_kept H ?d' st'" "whole ?d'" using wk by (simp_all add: write_head_def well_kept_def whole_def)
  ultimately show ?thesis by (simp add: sound_def write_head_def)
qed

section \<open>Appending\<close>

definition entry_fits :: "inner \<Rightarrow> entry \<Rightarrow> bool" where
  "entry_fits g e \<longleftrightarrow> is_ok (validate_entry e) \<and>
     (case e of Outcome ev \<Rightarrow> oe_decision_seq ev \<in> in_open g | Decision _ \<Rightarrow> True)"

lemma append_step:
  assumes "sound H d st" "synced g d st" "keeps_one cfg" "is_ok (validate_actor a)" "entry_fits g e"
    "unat (in_seg_index g) + 1 < 2 ^ 32" "unat (in_next_seq g) + 1 < 2 ^ 64"
  obtains g1 d1 n r st' where "r = next_record H g1 a e now" "r = next_record H g a e now"
    "room_made L cfg g d r = (None, g1, d1)" "sound H d1 st" "synced g1 d1 st"
    "records_of (dir_segs d1) = records_of (drop n (dir_segs d))" "keeps_limit cfg n d d1"
    "unat (in_seg_index g1) \<le> unat (in_seg_index g) + 1"
    "link H st r = Some st'" "unat (fst st) + 1 < 2 ^ 64" "fst st' = in_next_seq g + 1"
    "synced (recorded L g1 r) d1 st'" "in_open (recorded L g1 r) = in_open (recorded L g r)"
proof -
  let ?r = "next_record H g a e now"
  obtain g1 d1 n where room: "room_made L cfg g d ?r = (None, g1, d1)" "sound H d1 st" "synced g1 d1 st"
    "records_of (dir_segs d1) = records_of (drop n (dir_segs d))" "keeps_limit cfg n d d1"
    "unat (in_seg_index g1) \<le> unat (in_seg_index g) + 1"
    using room_made_sound [OF assms(1,2,3,6), of L ?r] by (elim exE conjE)
  have st: "st = (in_next_seq g, in_prev g, in_last_ts g, in_open g)"
    "st = (in_next_seq g1, in_prev g1, in_last_ts g1, in_open g1)"
    using assms(2) room(3) by (simp_all add: synced_def)
  then have r: "next_record H g1 a e now = ?r" by (simp add: next_record_def)
  have "is_ok (validate_entry e)" "case e of Outcome ev \<Rightarrow> oe_decision_seq ev \<in> in_open g1 | Decision _ \<Rightarrow> True"
    using assms(5) st by (cases e; simp add: entry_fits_def)+
  then obtain st' where l: "link H st ?r = Some st'"
    "st' = (in_next_seq g1 + 1, sr_hash ?r, max now (in_last_ts g1), in_open (recorded L g1 ?r))"
    using next_record_link [OF assms(4), of e g1 H now L] r st(2) by auto
  have "synced (recorded L g1 ?r) d1 st'"
    using room(3) l(2) st
    by (simp add: synced_def recorded_def Let_def) (simp add: next_record_def seal_def)
  moreover have "in_open (recorded L g1 ?r) = in_open (recorded L g ?r)"
    using st by (simp add: recorded_def Let_def split: entry.split)
  ultimately show thesis
    using room l st assms(7) r
    by (intro that [of ?r g1 d1 n st']) simp_all
qed

lemma synced_write:
  "synced g d1 st \<Longrightarrow> synced g (write_head s h (write_line i r d1)) st"
  by (auto simp: synced_def write_head_def write_line_def change_seg_def last_map)

lemma append_sound_step:
  assumes "sound H d st" "synced g d st" "keeps_one cfg" "is_ok (validate_actor a)" "entry_fits g e"
    "unat (in_seg_index g) + 1 < 2 ^ 32" "unat (in_next_seq g) + 1 < 2 ^ 64"
  obtains g' d' n st' where
    "append_entry H L cfg g d a e now WriteOk = (Inr (receipt_of (next_record H g a e now)), g', d')"
    "sound H d' st'" "synced g' d' st'"
    "records_of (dir_segs d') = records_of (drop n (dir_segs d)) @ [next_record H g a e now]"
    "keeps_limit cfg n d d'" "unat (in_seg_index g') \<le> unat (in_seg_index g) + 1"
    "in_next_seq g' = in_next_seq g + 1" "in_open g' = in_open (recorded L g (next_record H g a e now))"
proof -
  obtain g1 d1 n r st' where x: "r = next_record H g1 a e now" "r = next_record H g a e now"
    "room_made L cfg g d r = (None, g1, d1)" "sound H d1 st" "synced g1 d1 st"
    "records_of (dir_segs d1) = records_of (drop n (dir_segs d))" "keeps_limit cfg n d d1"
    "unat (in_seg_index g1) \<le> unat (in_seg_index g) + 1"
    "link H st r = Some st'" "unat (fst st) + 1 < 2 ^ 64" "fst st' = in_next_seq g + 1"
    "synced (recorded L g1 r) d1 st'" "in_open (recorded L g1 r) = in_open (recorded L g r)"
    by (rule append_step [OF assms])
  let ?d = "write_head (rb_seq (sr_body r)) (sr_hash r) (write_line (in_seg_index g1) r d1)"
  have "append_entry H L cfg g d a e now WriteOk = (Inr (receipt_of r), recorded L g1 r, ?d)"
    using assms(2,5) x(2,3)
    by (cases e) (auto simp: append_entry_def entry_fits_def synced_def Let_def)
  moreover have "sound H ?d st'" by (rule written_sound [OF x(4,5,9,10)])
  moreover have s: "synced (recorded L g1 r) ?d st'" by (rule synced_write [OF x(12)])
  moreover have "records_of (dir_segs (write_line (in_seg_index g1) r d1)) = records_of (dir_segs d1) @ [r]"
    by (rule written_records [OF x(4,5)])
  then have "records_of (dir_segs ?d) = records_of (drop n (dir_segs d)) @ [r]"
    using x(6) by (simp add: write_head_def)
  moreover have "in_seg_index (recorded L g1 r) = in_seg_index g1" by (simp add: recorded_def Let_def)
  moreover have "in_next_seq (recorded L g1 r) = in_next_seq g + 1" using s x(11) by (auto simp: synced_def)
  moreover have "keeps_limit cfg n d ?d"
    using x(7) by (simp add: keeps_limit_def write_head_def write_line_def change_seg_def)
  ultimately show thesis using x(2,8,13) by (intro that [of "recorded L g1 r" ?d st' n]) simp_all
qed

section \<open>Closing what was open\<close>

lemma recovery_fits:
  "is_ok (validate_actor \<lparr>actor_kind = Daemon, actor_id = RECOVERY_ACTOR\<rparr>)"
  "is_ok (validate_outcome \<lparr>oe_decision_seq = s, oe_outcome = OutcomeUnknown, oe_detail = RECOVERY_DETAIL\<rparr>)"
proof -
  have "trim RECOVERY_ACTOR = RECOVERY_ACTOR"
    by (rule trim_graphic) (simp_all add: RECOVERY_ACTOR_def is_graphic_def)
  then show "is_ok (validate_actor \<lparr>actor_kind = Daemon, actor_id = RECOVERY_ACTOR\<rparr>)"
    by (simp add: validate_actor_def check_len_def MAX_ID_LEN_def) (simp add: RECOVERY_ACTOR_def)
  show "is_ok (validate_outcome \<lparr>oe_decision_seq = s, oe_outcome = OutcomeUnknown, oe_detail = RECOVERY_DETAIL\<rparr>)"
    by (simp add: validate_outcome_def check_len_def RECOVERY_DETAIL_def MAX_REASON_LEN_def)
qed

definition closes :: "u64 list \<Rightarrow> stored_record list \<Rightarrow> bool" where
  "closes ss rs \<longleftrightarrow> map (\<lambda>r. rb_entry (sr_body r)) rs =
     map (\<lambda>s. Outcome \<lparr>oe_decision_seq = s, oe_outcome = OutcomeUnknown, oe_detail = RECOVERY_DETAIL\<rparr>) ss"

lemma close_open_sound:
  "sound H d st \<Longrightarrow> synced g d st \<Longrightarrow> keeps_one cfg \<Longrightarrow> distinct ss \<Longrightarrow> set ss \<subseteq> in_open g \<Longrightarrow>
   unat (in_seg_index g) + length ss < 2 ^ 32 \<Longrightarrow> unat (in_next_seq g) + length ss < 2 ^ 64 \<Longrightarrow>
     \<exists>g' d' st' rs k. close_open H L cfg clk g d ss = Inr (g', d') \<and> sound H d' st' \<and> synced g' d' st' \<and>
       records_of (dir_segs d') = drop k (records_of (dir_segs d) @ rs) \<and> closes ss rs \<and> in_open g' = in_open g - set ss \<and>
       (k = 0 \<or> max_segments cfg = Some (length (dir_segs d'))) \<and>
       (max_segments cfg = Some (length (dir_segs d)) \<longrightarrow> length (dir_segs d') = length (dir_segs d))"
proof (induction ss arbitrary: g d st)
  case Nil
  then show ?case
    by (intro exI [of _ g] exI [of _ d] exI [of _ st] exI [of _ "[]"] exI [of _ 0]) (simp add: closes_def)
next
  case (Cons s ss)
  let ?a = "\<lparr>actor_kind = Daemon, actor_id = RECOVERY_ACTOR\<rparr>"
    and ?ev = "\<lparr>oe_decision_seq = s, oe_outcome = OutcomeUnknown, oe_detail = RECOVERY_DETAIL\<rparr>"
  let ?now = "clk (in_next_seq g)"
  let ?r = "next_record H g ?a (Outcome ?ev) ?now"
  have fits: "entry_fits g (Outcome ?ev)"
    using Cons.prems(5) recovery_fits(2) by (simp add: entry_fits_def validate_entry_def)
  have room: "unat (in_seg_index g) + 1 < 2 ^ 32" "unat (in_next_seq g) + 1 < 2 ^ 64"
    using Cons.prems(6,7) by simp_all
  obtain g1 d1 n st1 where x:
    "append_entry H L cfg g d ?a (Outcome ?ev) ?now WriteOk = (Inr (receipt_of ?r), g1, d1)"
    "sound H d1 st1" "synced g1 d1 st1" "records_of (dir_segs d1) = records_of (drop n (dir_segs d)) @ [?r]"
    "keeps_limit cfg n d d1" "unat (in_seg_index g1) \<le> unat (in_seg_index g) + 1"
    "in_next_seq g1 = in_next_seq g + 1" "in_open g1 = in_open (recorded L g ?r)"
    by (rule append_sound_step [OF Cons.prems(1,2,3) recovery_fits(1) fits room])
  have op: "in_open g1 = in_open g - {s}" using x(8) by (simp add: recorded_def next_record_def seal_def Let_def)
  have seq: "unat (in_next_seq g1) = unat (in_next_seq g) + 1" using x(7) room(2) by (simp add: unat_word_ariths)
  have ro: "record_outcome H L cfg g d ?a ?ev ?now WriteOk = (Inr (receipt_of ?r), g1, d1)"
    using x(1) recovery_fits(1) recovery_fits(2) [of s]
    by (simp add: record_outcome_def is_ok_def split: sum.splits)
  have "set ss \<subseteq> in_open g1" "unat (in_seg_index g1) + length ss < 2 ^ 32"
    "unat (in_next_seq g1) + length ss < 2 ^ 64" "distinct ss"
    using Cons.prems(4-7) op x(6) seq by auto
  then obtain g2 d2 st2 rs k where y: "close_open H L cfg clk g1 d1 ss = Inr (g2, d2)" "sound H d2 st2" "synced g2 d2 st2"
    "records_of (dir_segs d2) = drop k (records_of (dir_segs d1) @ rs)" "closes ss rs" "in_open g2 = in_open g1 - set ss"
    "k = 0 \<or> max_segments cfg = Some (length (dir_segs d2))"
    "max_segments cfg = Some (length (dir_segs d1)) \<longrightarrow> length (dir_segs d2) = length (dir_segs d1)"
    using Cons.IH [OF x(2,3) Cons.prems(3)] by metis
  obtain j where j: "records_of (drop n (dir_segs d)) = drop j (records_of (dir_segs d))" "n = 0 \<longrightarrow> j = 0"
    using records_of_drop by blast
  define k' where "k' = k + min j (length (records_of (dir_segs d)))"
  have "drop j (records_of (dir_segs d)) @ zs = drop (min j (length (records_of (dir_segs d)))) (records_of (dir_segs d) @ zs)" for zs
    by (cases "j \<le> length (records_of (dir_segs d))") simp_all
  then have recs: "records_of (dir_segs d2) = drop k' (records_of (dir_segs d) @ ?r # rs)"
    using x(4) y(4) j(1) by (simp add: k'_def)
  have "k' = 0 \<or> max_segments cfg = Some (length (dir_segs d2))"
    using x(5) y(7,8) j(2) by (auto simp: k'_def keeps_limit_def)
  moreover have "max_segments cfg = Some (length (dir_segs d)) \<longrightarrow> length (dir_segs d2) = length (dir_segs d)"
    using x(5) y(8) by (simp add: keeps_limit_def)
  moreover have "closes (s # ss) (?r # rs)" using y(5) by (simp add: closes_def next_record_def seal_def)
  moreover have "close_open H L cfg clk g d (s # ss) = Inr (g2, d2)" using ro y(1) by simp
  moreover have "in_open g2 = in_open g - set (s # ss)" using y(6) op by auto
  ultimately show ?case using y(2,3) recs by blast
qed

section \<open>Opening after a crash\<close>

text \<open>What is on disk when the process stops during an append, \<open>d\<close> being the directory once there is room.\<close>

inductive left_by_crash :: "dir \<Rightarrow> u32 \<Rightarrow> stored_record \<Rightarrow> dir \<Rightarrow> bool" for d i r where
  nothing: "left_by_crash d i r d"
| part_of_line: "left_by_crash d i r (leave_tail i k d)"
| line: "left_by_crash d i r (write_line i r d)"
| line_and_head: "left_by_crash d i r (write_head (rb_seq (sr_body r)) (sr_hash r) (write_line i r d))"

lemma left_tail:
  assumes "sound H d st" "synced g d st"
  shows "well_kept H (leave_tail (in_seg_index g) k d) st"
    "records_of (dir_segs (leave_tail (in_seg_index g) k d)) = records_of (dir_segs d)"
proof -
  obtain ys y where y: "dir_segs d = ys @ [y]" "seg_index y = in_seg_index g"
    using assms(2) by (cases "dir_segs d" rule: rev_cases) (auto simp: synced_def)
  then have c: "dir_segs (leave_tail (in_seg_index g) k d) = ys @ [y\<lparr>seg_tail := k\<rparr>]"
    using change_last_seg [OF soundD(3) [OF assms(1)] y(1)] by (simp add: leave_tail_def)
  then show r: "records_of (dir_segs (leave_tail (in_seg_index g) k d)) = records_of (dir_segs d)" using y by simp
  have "first_link (leave_tail (in_seg_index g) k d) = first_link d" by (simp add: leave_tail_def)
  then show "well_kept H (leave_tail (in_seg_index g) k d) st"
    using soundD [OF assms(1)] y c r by (simp add: well_kept_def lines_ok_def whole_def)
qed

text \<open>A record that is the only one retained is named by \<open>HEAD\<close>.\<close>

definition alone_is_head :: "stored_record \<Rightarrow> dir \<Rightarrow> bool" where
  "alone_is_head r d \<longleftrightarrow>
     (records_of (dir_segs d) = [r] \<longrightarrow> dir_head d = Some \<lparr>head_seq = rb_seq (sr_body r), head_hash = sr_hash r\<rparr>)"

lemma left_crashed:
  assumes "left_by_crash d (in_seg_index g) r d'" "sound H d st" "synced g d st" "link H st r = Some st'"
    "unat (fst st) + 1 < 2 ^ 64" "alone_is_head r d'"
  shows "\<exists>s tl. crashed H d' s \<and> (s = st \<or> s = st') \<and> dir_segs d' \<noteq> [] \<and>
    seg_index (last (dir_segs d')) = in_seg_index g \<and>
    records_of (dir_segs d') = records_of (dir_segs d) @ tl \<and> (tl = [] \<and> s = st \<or> tl = [r] \<and> s = st')"
  using assms(1)
proof cases
  have segs: "dir_segs (change_seg i f d) \<noteq> []" for i f using assms(3) by (simp add: synced_def change_seg_def)
  have idx: "seg_index (last (dir_segs (change_seg i (\<lambda>s. s\<lparr>seg_lines := l s\<rparr>) d))) = in_seg_index g"
    "seg_index (last (dir_segs (change_seg i (\<lambda>s. s\<lparr>seg_tail := k\<rparr>) d))) = in_seg_index g" for i l k
    using assms(3) by (auto simp: synced_def change_seg_def last_map)
  {
    case nothing
    then show ?thesis using sound_crashed [OF assms(2)] assms(3) by (auto simp: synced_def)
  next
    case (part_of_line k)
    have "crashed H d' st" using left_tail [OF assms(2,3), of k] soundD(6) [OF assms(2)] part_of_line
      by (auto simp: crashed_def non_empty_def leave_tail_def change_seg_def head_at_def simp del: not_None_eq split: if_splits)
    then show ?thesis using left_tail(2) [OF assms(2,3), of k] part_of_line segs idx
      by (intro exI [of _ st] exI [of _ "[]"]) (simp add: leave_tail_def)
  next
    case line
    have recs: "records_of (dir_segs d') = records_of (dir_segs d) @ [r]"
      using line written_records [OF assms(2,3)] by simp
    have "records_of (dir_segs d) \<noteq> []"
    proof
      assume none: "records_of (dir_segs d) = []"
      then have h: "dir_head d = Some \<lparr>head_seq = rb_seq (sr_body r), head_hash = sr_hash r\<rparr>"
        using assms(6) recs line by (simp add: alone_is_head_def write_line_def change_seg_def)
      then have "checked_add (rb_seq (sr_body r)) 1 = Some (fst st)"
        using soundD(6) [OF assms(2)] by (simp add: head_at_def)
      moreover have "rb_seq (sr_body r) = fst st" using assms(4) link_Some by (cases st) fastforce
      ultimately show False by (auto simp: checked_add_def split: if_splits)
    qed
    then have hd: "head_at d st" "dir_head d \<noteq> None" "records_of (dir_segs d) \<noteq> []"
      using soundD(6) [OF assms(2)] by (auto simp: non_empty_def split: if_splits)
    have "first_link d' = first_link d" "head_at d' st" "dir_head d' \<noteq> None"
      using line hd(1,2) by (simp_all add: write_line_def) (simp add: change_seg_def)
    then have "crashed H d' st'"
      using written_well_kept(1) [OF assms(2,3,4,5)] line recs soundD(4) [OF assms(2)] hd(3)
      by (auto simp: crashed_def simp del: split_paired_Ex)
    then show ?thesis using recs line segs idx
      by (intro exI [of _ st'] exI [of _ "[r]"]) (simp add: write_line_def)
  next
    case line_and_head
    have "records_of (dir_segs d') = records_of (dir_segs d) @ [r]"
      using line_and_head written_records [OF assms(2,3)] by (simp add: write_head_def)
    then show ?thesis
      using sound_crashed [OF written_sound [OF assms(2,3,4,5)]] line_and_head segs idx
      by (intro exI [of _ st'] exI [of _ "[r]"]) (simp add: write_line_def write_head_def)
  }
qed

text \<open>
  Every point at which an append can stop. A segment is full when the line would not fit; then a new
  segment is created and the oldest are deleted one by one, each after the \<open>CHECKPOINT\<close> that stands
  for it, and only then the line and \<open>HEAD\<close> are written. \<open>CHECKPOINT\<close> and \<open>HEAD\<close> are replaced atomically.
\<close>

definition segment_full :: "(stored_record \<Rightarrow> u64) \<Rightarrow> log_config \<Rightarrow> inner \<Rightarrow> stored_record \<Rightarrow> bool" where
  "segment_full L cfg g r \<longleftrightarrow> 0 < in_seg_len g \<and> max_segment_bytes cfg < sat_add (in_seg_len g) (L r)"

definition surplus :: "log_config \<Rightarrow> nat \<Rightarrow> nat" where
  "surplus cfg c = (case max_segments cfg of None \<Rightarrow> 0 | Some m \<Rightarrow> c - m)"

inductive stopped :: "(stored_record \<Rightarrow> u64) \<Rightarrow> log_config \<Rightarrow> inner \<Rightarrow> dir \<Rightarrow> stored_record \<Rightarrow> dir \<Rightarrow> bool"
  for L cfg g d r where
  before_writing: "stopped L cfg g d r d"
| after_deletions: "segment_full L cfg g r \<Longrightarrow> j \<le> surplus cfg (in_seg_count g + 1) \<Longrightarrow>
    prune_times j (new_seg (in_seg_index g + 1) d) c = (None, d1, c') \<Longrightarrow> stopped L cfg g d r d1"
| before_deletion: "segment_full L cfg g r \<Longrightarrow> j < surplus cfg (in_seg_count g + 1) \<Longrightarrow>
    prune_times j (new_seg (in_seg_index g + 1) d) c = (None, d1, c') \<Longrightarrow> prune_checkpoint d1 = Inr d2 \<Longrightarrow>
    stopped L cfg g d r d2"
| while_writing: "room_made L cfg g d r = (None, g1, d1) \<Longrightarrow> left_by_crash d1 (in_seg_index g1) r d2 \<Longrightarrow>
    stopped L cfg g d r d2"

lemma fresh_segment:
  assumes "sound H d st" "synced g d st" "unat (in_seg_index g) + 1 < 2 ^ 32"
  shows "sound H (new_seg (in_seg_index g + 1) d) st"
proof -
  have "in_seg_index g < in_seg_index g + 1" using assms(3) by (simp add: word_less_nat_alt unat_word_ariths)
  then have "seg_index s < in_seg_index g + 1" if "s \<in> set (dir_segs d)" for s
    using sorted_le_last [OF soundD(3) [OF assms(1)] that] assms(2) by (auto simp: synced_def)
  then show ?thesis using sound_new_seg [OF assms(1)] by simp
qed

lemma keeps_limit_surplus:
  assumes "keeps_limit cfg n d d'"
  shows "n \<le> surplus cfg (length (dir_segs d) + 1)"
  using assms by (auto simp: keeps_limit_def surplus_def)

text \<open>Some segments deleted: the newest one, empty, is still there.\<close>

lemma deleted_some:
  assumes "sound H d st" "synced g d st" "keeps_one cfg" "unat (in_seg_index g) + 1 < 2 ^ 32"
    "j \<le> surplus cfg (in_seg_count g + 1)" "prune_times j (new_seg (in_seg_index g + 1) d) c = (None, d1, c')"
  shows "sound H d1 st" "dir_segs d1 = drop j (dir_segs d) @ [\<lparr>seg_index = in_seg_index g + 1, seg_lines = [], seg_tail = 0\<rparr>]"
    "j \<le> length (dir_segs d)"
proof -
  show j: "j \<le> length (dir_segs d)"
    using assms(2,3,5) by (auto simp: surplus_def synced_def keeps_one_def split: option.splits)
  have "j \<le> length (dir_segs (new_seg (in_seg_index g + 1) d))" using j by (simp add: new_seg_def)
  from prune_times_sound [OF fresh_segment [OF assms(1,2,4)] this, of c] obtain d' where
    "prune_times j (new_seg (in_seg_index g + 1) d) c = (None, d', c - j)"
    "dir_segs d' = drop j (dir_segs (new_seg (in_seg_index g + 1) d))" "sound H d' st" by blast
  then show "sound H d1 st" "dir_segs d1 = drop j (dir_segs d) @ [\<lparr>seg_index = in_seg_index g + 1, seg_lines = [], seg_tail = 0\<rparr>]"
    using assms(6) j by (simp_all add: new_seg_def)
qed

end
