(* ===== verification/RecordProperties.thy ===== *)
theory RecordProperties
  imports RecordWriter
begin

text \<open>
  What the decision log promises: an append extends the verified chain by one record, a crash in the
  middle of an append is repaired by reopening, the verifier accepts exactly the chains of the
  reference view, and two verified logs that agree on \<open>HEAD\<close> agree on every record before it. The
  last theorems give the two places where a crash leaves a log that cannot be opened again.
\<close>

section \<open>Opening\<close>

definition cut_tail :: "walked \<Rightarrow> dir \<Rightarrow> dir" where
  "cut_tail w d = (case w_torn w of Some (i, _) \<Rightarrow> leave_tail i 0 d | None \<Rightarrow> d)"

lemma cut_tail_ok:
  assumes "well_kept H d st" "w_torn w = torn_of Recover (dir_segs d)"
  shows "well_kept H (cut_tail w d) st" "whole (cut_tail w d)"
    "records_of (dir_segs (cut_tail w d)) = records_of (dir_segs d)"
    "map seg_index (dir_segs (cut_tail w d)) = map seg_index (dir_segs d)"
    "dir_head (cut_tail w d) = dir_head d" "dir_checkpoint (cut_tail w d) = dir_checkpoint d"
proof -
  show "dir_head (cut_tail w d) = dir_head d" "dir_checkpoint (cut_tail w d) = dir_checkpoint d"
    by (simp_all add: cut_tail_def leave_tail_def change_seg_def split: option.split)
  have same: "well_kept H (cut_tail w d) st \<and> whole (cut_tail w d) \<and>
      records_of (dir_segs (cut_tail w d)) = records_of (dir_segs d) \<and>
      map seg_index (dir_segs (cut_tail w d)) = map seg_index (dir_segs d)" if "whole d"
  proof -
    have "cut_tail w d = d"
      using that assms(2) by (cases "dir_segs d" rule: rev_cases) (auto simp: cut_tail_def torn_of_def whole_def)
    then show ?thesis using assms(1) that by simp
  qed
  have "well_kept H (cut_tail w d) st \<and> whole (cut_tail w d) \<and>
      records_of (dir_segs (cut_tail w d)) = records_of (dir_segs d) \<and>
      map seg_index (dir_segs (cut_tail w d)) = map seg_index (dir_segs d)"
  proof (cases "whole d")
    case False
    then obtain ys y where y: "dir_segs d = ys @ [y]"
      by (cases "dir_segs d" rule: rev_cases) (auto simp: whole_def)
    then have tail: "seg_tail y \<noteq> 0" using False assms(1) by (auto simp: whole_def well_kept_def)
    then have "cut_tail w d = leave_tail (seg_index y) 0 d"
      using assms(2) y by (simp add: cut_tail_def torn_of_def)
    moreover have "dir_segs (leave_tail (seg_index y) 0 d) = ys @ [y\<lparr>seg_tail := 0\<rparr>]"
      using change_last_seg [OF _ y] assms(1) by (simp add: leave_tail_def well_kept_def)
    moreover have "first_link (leave_tail (seg_index y) 0 d) = first_link d" by (simp add: leave_tail_def)
    ultimately show ?thesis using assms(1) y by (simp add: whole_def well_kept_def lines_ok_def)
  qed (rule same)
  then show "well_kept H (cut_tail w d) st" "whole (cut_tail w d)"
    "records_of (dir_segs (cut_tail w d)) = records_of (dir_segs d)"
    "map seg_index (dir_segs (cut_tail w d)) = map seg_index (dir_segs d)" by simp_all
qed

lemma repaired_sound:
  assumes "crashed H d st" "w_stale w = []"
    "w_torn w = torn_of Recover (dir_segs d)" "w_head_lag w \<longleftrightarrow> dir_head d \<noteq> None \<and> \<not> head_at d st"
    "w_tip w = (if records_of (dir_segs d) = [] then None else Some (tip_of (last (records_of (dir_segs d)))))"
  shows "sound H (repaired w d) st \<and> records_of (dir_segs (repaired w d)) = records_of (dir_segs d) \<and>
    dir_checkpoint (repaired w d) = dir_checkpoint d \<and>
    map seg_index (dir_segs (repaired w d)) = map seg_index (dir_segs d)"
proof -
  have wk: "well_kept H d st" using assms(1) by (simp add: crashed_def)
  note d1 = cut_tail_ok [OF wk assms(3)]
  have rep: "repaired w d = (if w_head_lag w
      then case w_tip w of Some (s, h, _) \<Rightarrow> write_head s h (cut_tail w d) | None \<Rightarrow> cut_tail w d else cut_tail w d)"
    using assms(2) by (auto simp: repaired_def cut_tail_def Let_def split: option.split)
  show ?thesis
  proof (cases "w_head_lag w")
    case False
    then have "if dir_head d = None then \<not> non_empty d else head_at d st \<and> non_empty d"
      using assms(1,4) by (auto simp: crashed_def non_empty_def)
    moreover have "head_at (cut_tail w d) st = head_at d st" "non_empty (cut_tail w d) = non_empty d"
      using d1 by (simp_all add: head_at_def non_empty_def)
    ultimately show ?thesis using d1 False rep by (simp add: sound_def)
  next
    case True
    then obtain rs r st0 where r: "records_of (dir_segs d) = rs @ [r]" "chain H (first_link d) rs = Some st0"
      using assms(1,4) by (auto simp: crashed_def)
    then have c: "chain H (first_link d) (rs @ [r]) = Some st" using wk by (simp add: well_kept_def)
    then have l: "link H st0 r = Some st" using r(2) by (simp add: chain_append split: option.splits)
    obtain e0 p0 t0 o0 where fl: "first_link d = (e0, p0, t0, o0)" by (cases "first_link d")
    have "fst st0 = e0 + of_nat (length rs)" "unat e0 + length rs + 1 < 2 ^ 64"
      using chain_seqs [of H e0 p0 t0 o0 rs st0] r wk fl by (simp_all add: well_kept_def)
    then have "unat (fst st0) + 1 < 2 ^ 64" by (simp add: unat_word_ariths unat_of_nat take_bit_eq_mod)
    note h = link_head [OF l this]
    have "repaired w d = write_head (rb_seq (sr_body r)) (sr_hash r) (cut_tail w d)"
      using rep True assms(5) r(1) by (simp add: tip_of_def)
    then show ?thesis using d1 h r(1)
      by (simp add: sound_def well_kept_def whole_def write_head_def head_at_def non_empty_def first_link_def start_def)
  qed
qed

lemma opened_sound:
  assumes "sound H d st" "state_of w = st"
    "w_tip w = (if records_of (dir_segs d) = [] then None else Some (tip_of (last (records_of (dir_segs d)))))"
  shows "sound H (with_segment d) st \<and> synced (opened L w (with_segment d)) (with_segment d) st \<and>
    records_of (dir_segs (with_segment d)) = records_of (dir_segs d)"
proof -
  have wk: "well_kept H d st" using assms(1) by (simp add: sound_def)
  have "sound H (with_segment d) st" using sound_new_seg [OF assms(1), of 1] assms(1) by (simp add: with_segment_def)
  moreover have "records_of (dir_segs (with_segment d)) = records_of (dir_segs d)"
    by (simp add: with_segment_def new_seg_def)
  moreover have cp: "dir_segs (with_segment d) \<noteq> []" "dir_checkpoint (with_segment d) = dir_checkpoint d"
    by (simp_all add: with_segment_def new_seg_def)
  have "st = (in_next_seq (opened L w (with_segment d)), in_prev (opened L w (with_segment d)),
      in_last_ts (opened L w (with_segment d)), in_open (opened L w (with_segment d)))"
  proof (cases "records_of (dir_segs d) = []")
    case True
    then have "st = first_link d" using wk by (simp add: well_kept_def)
    then show ?thesis using True assms(2,3) cp(2)
      by (simp add: opened_def first_link_def state_of_def start_def split: option.splits)
  next
    case False
    obtain e p t op where st: "st = (e, p, t, op)" by (cases st)
    then show ?thesis
      using False assms(2,3) chain_last [of H "first_link d" "records_of (dir_segs d)" e p t op] wk
      by (simp add: well_kept_def opened_def tip_of_def state_of_def)
  qed
  then have "synced (opened L w (with_segment d)) (with_segment d) st"
    using cp(1) by (simp add: synced_def) (simp add: opened_def)
  ultimately show ?thesis by simp
qed

text \<open>Recovery mends a directory: the walk accepts it and the repairs give a sound one.\<close>

definition mends :: "(record_body \<Rightarrow> string) \<Rightarrow> dir \<Rightarrow> link_state \<Rightarrow> dir \<Rightarrow> bool" where
  "mends H d st d' \<longleftrightarrow>
     (\<exists>w. walk H Recover d = Inr w \<and> d' = repaired w d \<and> state_of w = st \<and> sound H d' st \<and>
        w_tip w = (if records_of (dir_segs d') = [] then None else Some (tip_of (last (records_of (dir_segs d'))))))"

lemma mends_crashed:
  assumes "crashed H d st"
  shows "\<exists>d'. mends H d st d' \<and> records_of (dir_segs d') = records_of (dir_segs d) \<and>
    map seg_index (dir_segs d') = map seg_index (dir_segs d)"
proof -
  obtain w where w: "walk H Recover d = Inr w" "state_of w = st" "w_stale w = []"
    "w_torn w = torn_of Recover (dir_segs d)" "w_head_lag w \<longleftrightarrow> dir_head d \<noteq> None \<and> \<not> head_at d st"
    "w_tip w = (if records_of (dir_segs d) = [] then None else Some (tip_of (last (records_of (dir_segs d)))))"
    using walk_crashed [OF assms, of Recover] by auto
  then show ?thesis
    using repaired_sound [OF assms w(3,4,5,6)] by (intro exI [of _ "repaired w d"]) (simp add: mends_def)
qed

text \<open>A segment whose deletion was announced is deleted now.\<close>

lemma mends_stale:
  assumes "sound H d st" "dir_segs d = s # ss" "prune_checkpoint d = Inr d'" "seg_lines s \<noteq> []"
  shows "mends H d' st (drop_oldest d')" "dir_segs (drop_oldest d') = ss"
proof -
  have d4: "dir_segs (drop_oldest d') = ss" "sound H (drop_oldest d') st"
    using prune_oldest_sound [OF assms(1,2)] assms(3) by (auto simp: prune_oldest_def)
  obtain w where w: "walk H Recover d' = Inr w" "state_of w = st" "w_stale w = [seg_index s]" "w_torn w = None"
    "\<not> w_head_lag w" "w_tip w = (if records_of ss = [] then None else Some (tip_of (last (records_of ss))))"
    using walk_stale [OF assms] by blast
  have segs: "dir_segs d' = s # ss" using checkpoint_written [OF assms] assms(2) by auto
  have "seg_index x \<noteq> seg_index s" if "x \<in> set ss" for x
    using soundD(3) [OF assms(1)] assms(2) that by fastforce
  then have "filter (\<lambda>x. seg_index x \<notin> set (w_stale w)) (dir_segs d') = ss"
    using segs w(3) by (simp add: filter_id_conv)
  then have "repaired w d' = drop_oldest d'"
    using w(4,5) segs by (simp add: repaired_def drop_oldest_def)
  then show "mends H d' st (drop_oldest d')" using w d4 by (auto simp: mends_def)
  show "dir_segs (drop_oldest d') = ss" by (rule d4(1))
qed

text \<open>Opening: nothing verified is lost but to the limit on segments, and every open decision is closed.\<close>

definition at_limit :: "log_config \<Rightarrow> dir \<Rightarrow> bool" where
  "at_limit cfg d \<longleftrightarrow> map_option (\<lambda>n. max n 1) (max_segments cfg) = Some (length (dir_segs d))"

lemma open_mended:
  assumes "mends H d st d0"
    "dir_segs d0 \<noteq> [] \<longrightarrow> unat (seg_index (last (dir_segs d0))) + card (snd (snd (snd st))) < 2 ^ 32"
    "unat (fst st) + card (snd (snd (snd st))) < 2 ^ 64" "card (snd (snd (snd st))) + 1 < 2 ^ 32"
  shows "\<exists>g d' st' rep rs k. open_log H L cfg clk d = Inr (g, d', rep) \<and> sound H d' st' \<and> synced g d' st' \<and>
    records_of (dir_segs d') = drop k (records_of (dir_segs d0) @ rs) \<and> (k = 0 \<or> at_limit cfg d') \<and>
    closes (sorted_list_of_set (snd (snd (snd st)))) rs \<and> in_open g = {} \<and>
    marked_unknown rep = sorted_list_of_set (snd (snd (snd st)))"
proof -
  define op where "op = snd (snd (snd st))"
  let ?cfg = "\<lparr>max_segment_bytes = max (max_segment_bytes cfg) 1, max_segments = map_option (\<lambda>n. max n 1) (max_segments cfg)\<rparr>"
  obtain w where w: "walk H Recover d = Inr w" "d0 = repaired w d" "state_of w = st" "sound H d0 st"
    "w_tip w = (if records_of (dir_segs d0) = [] then None else Some (tip_of (last (records_of (dir_segs d0)))))"
    using assms(1) by (auto simp: mends_def)
  define d1 where "d1 = with_segment d0"
  have d1: "sound H d1 st" "synced (opened L w d1) d1 st" "records_of (dir_segs d1) = records_of (dir_segs d0)"
    using opened_sound [OF w(4,3), of L] w(5) by (simp_all add: d1_def)
  have op: "w_open w = op" "in_open (opened L w d1) = op" using w(3) by (auto simp: op_def state_of_def opened_def)
  have "seg_index (last (dir_segs d1)) = (if dir_segs d0 = [] then 1 else seg_index (last (dir_segs d0)))"
    by (simp add: d1_def with_segment_def new_seg_def)
  then have room: "unat (in_seg_index (opened L w d1)) + card op < 2 ^ 32" "unat (in_next_seq (opened L w d1)) + card op < 2 ^ 64"
    using assms(2-4) d1(2) by (auto simp: op_def synced_def)
  have one: "keeps_one ?cfg" by (auto simp: keeps_one_def)
  obtain g d' st' rs k where c:
    "close_open H L ?cfg clk (opened L w d1) d1 (sorted_list_of_set op) = Inr (g, d')" "sound H d' st'" "synced g d' st'"
    "records_of (dir_segs d') = drop k (records_of (dir_segs d1) @ rs)" "closes (sorted_list_of_set op) rs"
    "in_open g = in_open (opened L w d1) - set (sorted_list_of_set op)" "k = 0 \<or> max_segments ?cfg = Some (length (dir_segs d'))"
  proof -
    have "distinct (sorted_list_of_set op)" "set (sorted_list_of_set op) \<subseteq> in_open (opened L w d1)"
      "length (sorted_list_of_set op) = card op" using op(2) by simp_all
    then show thesis using that close_open_sound [OF d1(1,2) one, of "sorted_list_of_set op" L clk] room by metis
  qed
  have "with_segment (repaired w d) = d1" using w(2) by (simp add: d1_def)
  then have "\<exists>rep. open_log H L cfg clk d = Inr (g, d', rep) \<and> marked_unknown rep = sorted_list_of_set op"
    using c(1) w(1) op(1) by (simp add: open_log_def Let_def)
  moreover have "k = 0 \<or> at_limit cfg d'" using c(7) by (simp add: at_limit_def)
  moreover have "in_open g = {}" using c(6) op(2) by simp
  moreover have "records_of (dir_segs d') = drop k (records_of (dir_segs d0) @ rs)" using c(4) d1(3) by simp
  ultimately show ?thesis using c(2,3,5) unfolding op_def by blast
qed

lemma last_index:
  "map seg_index xs = map seg_index ys \<Longrightarrow> ys \<noteq> [] \<Longrightarrow> xs \<noteq> [] \<and> seg_index (last xs) = seg_index (last ys)"
  by (metis last_map map_is_Nil_conv)

text \<open>Wherever an append stops, recovery mends what is on disk.\<close>

lemma stopped_mends:
  assumes "stopped L cfg g d r d2" "sound H d st" "synced g d st" "keeps_one cfg" "unat (in_seg_index g) + 1 < 2 ^ 32"
    "link H st r = Some st'" "unat (fst st) + 1 < 2 ^ 64" "alone_is_head r d2"
  shows "\<exists>d3 s n tl. mends H d2 s d3 \<and> (tl = [] \<and> s = st \<or> tl = [r] \<and> s = st') \<and>
    records_of (dir_segs d3) = records_of (drop n (dir_segs d)) @ tl \<and> n \<le> surplus cfg (length (dir_segs d) + 1) \<and>
    dir_segs d3 \<noteq> [] \<and> unat (seg_index (last (dir_segs d3))) \<le> unat (in_seg_index g) + 1"
  using assms(1)
proof cases
  have next_index: "unat (in_seg_index g + 1) = unat (in_seg_index g) + 1" using assms(5) by (simp add: unat_word_ariths)
  have quiet: ?thesis
    if r: "sound H d2 st" "records_of (dir_segs d2) = records_of (drop n (dir_segs d))" "n \<le> surplus cfg (length (dir_segs d) + 1)"
      "dir_segs d2 \<noteq> []" "unat (seg_index (last (dir_segs d2))) \<le> unat (in_seg_index g) + 1" for n
  proof -
    obtain d3 where d3: "mends H d2 st d3" "records_of (dir_segs d3) = records_of (dir_segs d2)"
      "map seg_index (dir_segs d3) = map seg_index (dir_segs d2)"
      using mends_crashed [OF sound_crashed [OF r(1)]] by blast
    then have "dir_segs d3 \<noteq> []" "seg_index (last (dir_segs d3)) = seg_index (last (dir_segs d2))"
      using last_index [OF d3(3) r(4)] by simp_all
    then show ?thesis using d3 r by (intro exI [of _ d3] exI [of _ st] exI [of _ n] exI [of _ "[]"]) simp
  qed
  have count: "in_seg_count g = length (dir_segs d)" using assms(3) by (simp add: synced_def)
  {
    case before_writing
    then show ?thesis using quiet [of 0] assms(2,3) by (auto simp: synced_def)
  next
    case (after_deletions j c c')
    note x = deleted_some [OF assms(2-5) after_deletions(2,3)]
    show ?thesis by (rule quiet [of j]) (use x after_deletions(2) count next_index in simp_all)
  next
    case (before_deletion j c d1 c')
    have le: "j \<le> surplus cfg (in_seg_count g + 1)" using before_deletion(2) by simp
    note x = deleted_some [OF assms(2-5) le before_deletion(3)]
    have "dir_segs d1 \<noteq> []" using x(2) by simp
    then obtain s ss where segs: "dir_segs d1 = s # ss" by (meson neq_Nil_conv)
    show ?thesis
    proof (cases "seg_lines s = []")
      case True
      then have "d2 = d1" using before_deletion(4) segs by (simp add: prune_checkpoint_def read_segment_def)
      then show ?thesis using x le count next_index by (intro quiet [of j]) simp_all
    next
      case False
      note m = mends_stale [OF x(1) segs before_deletion(4) False]
      have ne: "drop j (dir_segs d) \<noteq> []" using x(2) segs False by (cases "drop j (dir_segs d)") auto
      then have "ss = drop (Suc j) (dir_segs d) @ [\<lparr>seg_index = in_seg_index g + 1, seg_lines = [], seg_tail = 0\<rparr>]"
        using x(2) segs by (cases "drop j (dir_segs d)") (auto simp: drop_Suc tl_drop [symmetric])
      then show ?thesis using m before_deletion(2) count next_index
        by (intro exI [of _ "drop_oldest d2"] exI [of _ st] exI [of _ "Suc j"] exI [of _ "[]"]) simp
    qed
  next
    case (while_writing g1 d1)
    obtain n where x: "sound H d1 st" "synced g1 d1 st" "records_of (dir_segs d1) = records_of (drop n (dir_segs d))"
      "unat (in_seg_index g1) \<le> unat (in_seg_index g) + 1" "keeps_limit cfg n d d1"
      using room_made_sound [OF assms(2-5), of L r] while_writing(1) by auto
    obtain s tl where c: "crashed H d2 s" "dir_segs d2 \<noteq> []" "seg_index (last (dir_segs d2)) = in_seg_index g1"
      "records_of (dir_segs d2) = records_of (dir_segs d1) @ tl" "tl = [] \<and> s = st \<or> tl = [r] \<and> s = st'"
      using left_crashed [OF while_writing(2) x(1,2) assms(6,7,8)] by blast
    obtain d3 where d3: "mends H d2 s d3" "records_of (dir_segs d3) = records_of (dir_segs d2)"
      "map seg_index (dir_segs d3) = map seg_index (dir_segs d2)"
      using mends_crashed [OF c(1)] by blast
    then have "dir_segs d3 \<noteq> []" "seg_index (last (dir_segs d3)) = in_seg_index g1"
      using last_index [OF d3(3) c(2)] c(3) by simp_all
    then show ?thesis using d3 c(4,5) x keeps_limit_surplus [OF x(5)]
      by (intro exI [of _ d3] exI [of _ s] exI [of _ n] exI [of _ tl]) simp
  }
qed

section \<open>The verifier\<close>

definition genesis :: link_state where "genesis = (0, GENESIS_PREV, 0, {})"

text \<open>\<open>HEAD\<close> names the last record or the one before it.\<close>

definition head_names :: "head option \<Rightarrow> stored_record list \<Rightarrow> bool" where
  "head_names ho rs \<longleftrightarrow>
     (case ho of
        None \<Rightarrow> rs = []
      | Some h \<Rightarrow>
          (let n = unat (head_seq h)
           in n < length rs \<and> length rs \<le> n + 2 \<and> head_hash h = sr_hash (rs ! n)))"

lemma genesis_first: "dir_checkpoint d = None \<Longrightarrow> first_link d = genesis"
  by (simp add: first_link_def start_def state_of_def genesis_def)

lemma genesis_seqs:
  assumes "chain H genesis rs = Some st" "length rs < 2 ^ 64"
  shows "unat (fst st) = length rs" "i < length rs \<Longrightarrow> unat (rb_seq (sr_body (rs ! i))) = i"
  using chain_seqs [of H 0 GENESIS_PREV 0 "{}" rs st] assms
  by (auto simp: genesis_def unat_of_nat take_bit_eq_mod)

lemma head_hash_after_names:
  assumes "chain H genesis rs = Some st" "length rs < 2 ^ 64" "dir_head d = Some h"
  shows "head_hash_after d None rs =
    (if unat (head_seq h) < length rs then Some (sr_hash (rs ! unat (head_seq h))) else None)"
  using assms(1,2)
proof (induction rs arbitrary: st rule: rev_induct)
  case (snoc r rs)
  obtain st0 where st0: "chain H genesis rs = Some st0" using snoc.prems(1) by (auto simp: chain_append split: option.splits)
  have "unat (rb_seq (sr_body r)) = length rs"
    using genesis_seqs(2) [OF snoc.prems, of "length rs"] by (simp add: nth_append)
  moreover have "head_seq h = rb_seq (sr_body r) \<longleftrightarrow> unat (head_seq h) = unat (rb_seq (sr_body r))"
    by (simp add: word_unat_eq_iff)
  ultimately show ?case using snoc.IH [OF st0] snoc.prems(2) assms(3)
    by (auto simp: head_hash_after_snoc nth_append)
qed simp

lemma names_crashed:
  assumes "dir_checkpoint d = None" "lines_ok (dir_segs d)" "whole d" "sorted_wrt (<) (map seg_index (dir_segs d))"
    "length (records_of (dir_segs d)) < 2 ^ 64" "chain H genesis (records_of (dir_segs d)) = Some st"
    "head_names (dir_head d) (records_of (dir_segs d))"
  shows "crashed H d st"
proof -
  let ?rs = "records_of (dir_segs d)"
  have wk: "well_kept H d st"
    using assms by (auto simp: well_kept_def whole_def genesis_first genesis_def dest: in_set_butlastD)
  show ?thesis
  proof (cases "dir_head d")
    case None
    then show ?thesis using wk assms(1,7) by (simp add: crashed_def head_names_def non_empty_def)
  next
    case (Some h)
    have n: "unat (head_seq h) < length ?rs" "length ?rs \<le> unat (head_seq h) + 2"
      "head_hash h = sr_hash (?rs ! unat (head_seq h))"
      using assms(7) Some by (simp_all add: head_names_def Let_def)
    have at: "head_at d st0" if c: "chain H genesis xs = Some st0" and l: "xs = take (Suc (unat (head_seq h))) ?rs" for xs st0
    proof -
      have len: "length xs = Suc (unat (head_seq h))" "length xs < 2 ^ 64" using n l assms(5) by auto
      then have "unat (fst st0) = Suc (unat (head_seq h))" using genesis_seqs(1) [OF c] by simp
      moreover have "xs \<noteq> []" "last xs = ?rs ! unat (head_seq h)" using l n(1) by (simp_all add: take_Suc_conv_app_nth)
      moreover obtain e p t op where "st0 = (e, p, t, op)" by (cases st0)
      ultimately show ?thesis
        using chain_last [of H genesis xs] c Some n(3) by (auto simp: head_at_def checked_add_Some_iff)
    qed
    show ?thesis
    proof (cases "length ?rs = Suc (unat (head_seq h))")
      case True
      then show ?thesis using at [OF assms(6)] wk Some by (auto simp: crashed_def non_empty_def)
    next
      case False
      then have len: "length ?rs = Suc (Suc (unat (head_seq h)))" using n by simp
      then obtain ys r where ys: "?rs = ys @ [r]" by (cases ?rs rule: rev_cases) auto
      then obtain st0 where st0: "chain H genesis ys = Some st0" using assms(6) by (auto simp: chain_append split: option.splits)
      have "ys = take (Suc (unat (head_seq h))) ?rs" "ys \<noteq> []" using len ys by auto
      then show ?thesis using at [OF st0] st0 wk Some ys assms(1)
        by (auto simp: crashed_def genesis_first simp del: split_paired_Ex)
    qed
  qed
qed

lemma visit_all_append:
  "visit_all H d w (xs @ ys) = bind_result (visit_all H d w xs) (\<lambda>w'. visit_all H d w' ys)"
  by (induction xs arbitrary: w) (auto simp: bind_result_def split: sum.split)

lemma walked_segments:
  assumes "dir_checkpoint d = None"
  shows "walk_segments H Strict d w ss = Inr w' \<Longrightarrow>
     lines_ok ss \<and> (\<forall>s \<in> set ss. seg_tail s = 0) \<and> visit_all H d w (records_of ss) = Inr w'"
proof (induction ss arbitrary: w)
  case (Cons s ss)
  have "w_expect (start d) = 0" using assms by (simp add: start_def)
  then obtain w1 where w1: "read_segment s \<noteq> Inl (Malformed (seg_index s))" "seg_tail s = 0"
    "visit_all H d w (map the (seg_lines s)) = Inr w1" "walk_segments H Strict d w1 ss = Inr w'"
    using Cons.prems
    by (auto simp: walk_segment_def read_segment_def result_iff Let_def list_all_iff split: if_splits)
  then have "\<forall>l \<in> set (seg_lines s). l \<noteq> None" by (auto simp: read_segment_def list_all_iff split: if_splits)
  then show ?case using Cons.IH [OF w1(4)] w1 by (auto simp: lines_ok_def visit_all_append)
qed (simp add: lines_ok_def)

lemma verified_names:
  assumes "walk H Strict d = Inr w" "dir_checkpoint d = None" "length (records_of (dir_segs d)) < 2 ^ 64"
  shows "lines_ok (dir_segs d) \<and> whole d \<and> chain H genesis (records_of (dir_segs d)) = Some (state_of w) \<and>
    head_names (dir_head d) (records_of (dir_segs d)) \<and> w_count w = length (records_of (dir_segs d))"
proof -
  let ?rs = "records_of (dir_segs d)"
  obtain w0 where w0: "walk_segments H Strict d (start d) (dir_segs d) = Inr w0" "check_head Strict d w0 = Inr w"
    using assms(1) by (auto simp: walk_def result_iff)
  then have seg: "lines_ok (dir_segs d)" "whole d" "visit_all H d (start d) ?rs = Inr w0"
    using walked_segments [OF assms(2)] by (auto simp: whole_def)
  then have c: "chain H genesis ?rs = Some (state_of w0)"
    using chain_visit_all [OF seg(3)] genesis_first [OF assms(2)] by (simp add: first_link_def)
  have mv: "moved d (start d) ?rs w0"
    using visit_all_chain [of H "start d" ?rs "state_of w0" d] c seg(3) genesis_first [OF assms(2)]
    by (auto simp: first_link_def)
  have same: "state_of w = state_of w0" "w_count w = w_count w0"
    using w0(2) by (auto simp: check_head_def Let_def state_of_def split: option.splits prod.splits if_splits)
  have tip: "w_tip w0 = (if ?rs = [] then None else Some (tip_of (last ?rs)))"
    "w_head_hash w0 = head_hash_after d None ?rs" "w_count w0 = length ?rs"
    using mv by (auto simp: moved_def)
  have "head_names (dir_head d) ?rs"
  proof (cases "dir_head d")
    case None
    then show ?thesis using w0(2) tip(1) assms(2)
      by (auto simp: check_head_def head_names_def tip_of_def split: if_splits)
  next
    case (Some h)
    then have ne: "?rs \<noteq> []" using w0(2) tip(1) assms(2) by (auto simp: check_head_def)
    then have last: "unat (rb_seq (sr_body (last ?rs))) = length ?rs - 1"
      using genesis_seqs(2) [OF c assms(3), of "length ?rs - 1"] by (simp add: last_conv_nth)
    have hh: "head_hash_after d None ?rs =
        (if unat (head_seq h) < length ?rs then Some (sr_hash (?rs ! unat (head_seq h))) else None)"
      by (rule head_hash_after_names [OF c assms(3) Some])
    have "\<not> rb_seq (sr_body (last ?rs)) < head_seq h" "w_head_hash w0 = Some (head_hash h)"
      "\<not> 1 < rb_seq (sr_body (last ?rs)) - head_seq h"
      using w0(2) Some tip(1) ne assms(2)
      by (auto simp: check_head_def tip_of_def Let_def start_def split: if_splits)
    moreover from this have "unat (rb_seq (sr_body (last ?rs)) - head_seq h) = length ?rs - 1 - unat (head_seq h)"
      using last by (simp add: unat_sub not_less)
    moreover have "unat (head_seq h) < length ?rs" "head_hash h = sr_hash (?rs ! unat (head_seq h))"
      using hh tip(2) calculation(2) by (auto split: if_splits)
    ultimately show ?thesis using Some by (auto simp: head_names_def Let_def word_less_nat_alt not_less)
  qed
  then show ?thesis using seg c same tip(3) by simp
qed

lemma names_verified:
  assumes "dir_checkpoint d = None" "lines_ok (dir_segs d)" "whole d" "sorted_wrt (<) (map seg_index (dir_segs d))"
    "length (records_of (dir_segs d)) < 2 ^ 64" "chain H genesis (records_of (dir_segs d)) = Some st"
    "head_names (dir_head d) (records_of (dir_segs d))"
  shows "\<exists>rep. verify_dir H d = Inr rep"
  using walk_crashed [OF names_crashed [OF assms], of Strict] assms(3) by (auto simp: verify_dir_def)

text \<open>The last hash determines the whole chain.\<close>

lemma chain_unique:
  "chain H genesis xs = Some (e, p, t, op) \<Longrightarrow> chain H genesis ys = Some (e', p, t', op') \<Longrightarrow>
   length xs = length ys \<Longrightarrow> inj_on H (sr_body ` (set xs \<union> set ys)) \<Longrightarrow> xs = ys"
proof (induction xs arbitrary: ys e p t op e' t' op' rule: rev_induct)
  case (snoc x xs)
  then obtain ys' y where ys: "ys = ys' @ [y]" by (cases ys rule: rev_cases) auto
  obtain e1 p1 t1 op1 where x: "chain H genesis xs = Some (e1, p1, t1, op1)" "link H (e1, p1, t1, op1) x = Some (e, p, t, op)"
    using snoc.prems(1) by (auto simp: chain_append split: option.splits)
  obtain e2 p2 t2 op2 where y: "chain H genesis ys' = Some (e2, p2, t2, op2)" "link H (e2, p2, t2, op2) y = Some (e', p, t', op')"
    using snoc.prems(2) ys by (auto simp: chain_append split: option.splits)
  have "H (sr_body x) = H (sr_body y)" "sr_hash x = sr_hash y"
    using link_Some [OF x(2)] link_Some [OF y(2)] by (auto simp: hash_matches_def)
  moreover from this(1) have "sr_body x = sr_body y" by (rule inj_onD [OF snoc.prems(4)]) (simp_all add: ys)
  ultimately have same: "x = y" "p1 = p2"
    using link_Some [OF x(2)] link_Some [OF y(2)] by (cases x; cases y; simp)+
  have "inj_on H (sr_body ` (set xs \<union> set ys'))"
    by (rule inj_on_subset [OF snoc.prems(4)]) (use ys in auto)
  then have "xs = ys'" using snoc.IH [OF x(1), of ys' e2 t2 op2] y(1) same(2) snoc.prems(3) ys by simp
  then show ?case using ys same by simp
qed simp

section \<open>The reads\<close>

lemma lines_ok_append: "lines_ok (xs @ ys) \<longleftrightarrow> lines_ok xs \<and> lines_ok ys"
  by (auto simp: lines_ok_def)

lemma page_from_eq:
  "lines_ok ss \<Longrightarrow> length out \<le> limit \<Longrightarrow>
     page_from before limit out (rev ss) =
       Inr (take limit (out @ filter (\<lambda>r. case before of Some b \<Rightarrow> rb_seq (sr_body r) < b | None \<Rightarrow> True) (rev (records_of ss))))"
proof (induction ss arbitrary: out rule: rev_induct)
  case (snoc s ss)
  let ?fit = "filter (\<lambda>r. case before of Some b \<Rightarrow> rb_seq (sr_body r) < b | None \<Rightarrow> True) (rev (map the (seg_lines s)))"
  have rd: "read_segment s = Inr (map the (seg_lines s))"
    using snoc.prems(1) by (intro read_segment_ok [of s "[]"]) (simp add: lines_ok_append)
  have "length (out @ take (limit - length out) ?fit) \<le> limit" using snoc.prems(2) by auto
  then show ?case using snoc.IH [of "out @ take (limit - length out) ?fit"] snoc.prems rd
    by (cases "length ?fit < limit - length out") (auto simp: lines_ok_append Let_def)
qed simp

lemma get_from_eq:
  "lines_ok ss \<Longrightarrow> sorted_wrt (<) (map (\<lambda>r. rb_seq (sr_body r)) (records_of ss)) \<Longrightarrow>
     get_from s (rev ss) = Inr (find (\<lambda>r. rb_seq (sr_body r) = s) (records_of ss))"
proof (induction ss rule: rev_induct)
  case (snoc y ss)
  let ?rs = "map the (seg_lines y)"
  have rd: "read_segment y = Inr ?rs"
    using snoc.prems(1) by (intro read_segment_ok [of y "[]"]) (simp add: lines_ok_append)
  have IH: "get_from s (rev ss) = Inr (find (\<lambda>r. rb_seq (sr_body r) = s) (records_of ss))"
    using snoc.IH snoc.prems by (simp add: lines_ok_append sorted_wrt_append)
  have split: "find (\<lambda>r. rb_seq (sr_body r) = s) (xs @ ys) =
      (case find (\<lambda>r. rb_seq (sr_body r) = s) xs of None \<Rightarrow> find (\<lambda>r. rb_seq (sr_body r) = s) ys | Some r \<Rightarrow> Some r)" for xs ys
    by (induction xs) auto
  show ?case
  proof (cases ?rs)
    case Nil
    then show ?thesis using rd IH by simp
  next
    case (Cons f fs)
    have below: "rb_seq (sr_body r) < rb_seq (sr_body f)" if "r \<in> set (records_of ss)" for r
      using snoc.prems(2) that Cons by (auto simp: sorted_wrt_append)
    have above: "rb_seq (sr_body f) \<le> rb_seq (sr_body r)" if "r \<in> set ?rs" for r
      using snoc.prems(2) that Cons by (auto simp: sorted_wrt_append)
    show ?thesis
    proof (cases "s < rb_seq (sr_body f)")
      case True
      then have "find (\<lambda>r. rb_seq (sr_body r) = s) ?rs = None"
        using above by (auto simp: find_None_iff dest: leD)
      then show ?thesis using True rd IH Cons split [of "records_of ss" ?rs] by (simp split: option.split)
    next
      case False
      then have "find (\<lambda>r. rb_seq (sr_body r) = s) (records_of ss) = None"
        using below by (auto simp: find_None_iff)
      then show ?thesis using False rd Cons split [of "records_of ss" ?rs] by simp
    qed
  qed
qed simp

lemma view_scan_append:
  "view_scan s found (xs @ ys) = (case view_scan s found xs of Inl found' \<Rightarrow> view_scan s found' ys | Inr v \<Rightarrow> Inr v)"
  by (induction xs arbitrary: found) (auto split: entry.split option.split)

lemma view_from_eq:
  "lines_ok ss \<Longrightarrow> view_from s found ss =
     Inr (case view_scan s found (records_of ss) of
            Inl found' \<Rightarrow> map_option (\<lambda>d. \<lparr>dv_decision = d, dv_outcome = None\<rparr>) found'
          | Inr v \<Rightarrow> Some v)"
proof (induction ss arbitrary: found)
  case (Cons y ss)
  have "read_segment y = Inr (map the (seg_lines y))" by (rule read_segment_ok [OF Cons.prems])
  moreover have "lines_ok ss" using Cons.prems by (simp add: lines_ok_def)
  ultimately show ?case using Cons.IH by (auto simp: view_scan_append split: sum.split)
qed simp

lemma chain_sorted:
  assumes "well_kept H d st"
  shows "sorted_wrt (<) (map (\<lambda>r. rb_seq (sr_body r)) (records_of (dir_segs d)))"
proof -
  let ?rs = "records_of (dir_segs d)"
  obtain e p t op where fl: "first_link d = (e, p, t, op)" by (cases "first_link d")
  have small: "unat e + length ?rs < 2 ^ 64" using assms fl by (simp add: well_kept_def)
  have "rb_seq (sr_body (?rs ! i)) = e + of_nat i" if "i < length ?rs" for i
    using chain_seqs [of H e p t op ?rs st] assms fl that by (simp add: well_kept_def)
  moreover have "unat (e + of_nat i) = unat e + i" if "i < length ?rs" for i
    using that small by (simp add: unat_word_ariths unat_of_nat take_bit_eq_mod)
  ultimately show ?thesis by (auto simp: sorted_wrt_iff_nth_less word_less_nat_alt)
qed

text \<open>What a successful append does.\<close>

definition extends_log :: "(record_body \<Rightarrow> string) \<Rightarrow> log_config \<Rightarrow> dir \<Rightarrow> stored_record \<Rightarrow> (log_error + receipt) \<times> inner \<times> dir \<Rightarrow> bool" where
  "extends_log H cfg d r out \<longleftrightarrow>
     (case out of (res, g', d') \<Rightarrow>
        res = Inr (receipt_of r) \<and>
        (\<exists>st' n. sound H d' st' \<and> synced g' d' st' \<and>
           records_of (dir_segs d') = records_of (drop n (dir_segs d)) @ [r] \<and>
           n \<le> surplus cfg (length (dir_segs d) + 1)))"

section \<open>Properties\<close>

text \<open>
  C22. The verifier is the reference view: a directory that was never pruned passes exactly when every
  complete line is a record, no line is torn, the records chain from the first one, and \<open>HEAD\<close> names
  the last record or the one before it.
\<close>

theorem verify_dir_iff:
  assumes "dir_checkpoint d = None" "sorted_wrt (<) (map seg_index (dir_segs d))"
    "length (records_of (dir_segs d)) < 2 ^ 64"
  shows "(\<exists>rep. verify_dir H d = Inr rep) \<longleftrightarrow>
    lines_ok (dir_segs d) \<and> whole d \<and> chain H genesis (records_of (dir_segs d)) \<noteq> None \<and>
    head_names (dir_head d) (records_of (dir_segs d))"
proof
  assume "\<exists>rep. verify_dir H d = Inr rep"
  then obtain w where "walk H Strict d = Inr w" by (auto simp: verify_dir_def result_iff)
  then show "lines_ok (dir_segs d) \<and> whole d \<and> chain H genesis (records_of (dir_segs d)) \<noteq> None \<and>
      head_names (dir_head d) (records_of (dir_segs d))"
    using verified_names [OF _ assms(1,3), of H w] by simp
next
  assume "lines_ok (dir_segs d) \<and> whole d \<and> chain H genesis (records_of (dir_segs d)) \<noteq> None \<and>
    head_names (dir_head d) (records_of (dir_segs d))"
  then show "\<exists>rep. verify_dir H d = Inr rep"
    using names_verified [OF assms(1) _ _ assms(2,3)] by (auto simp del: split_paired_Ex)
qed

text \<open>
  Tamper evidence: two logs that were never pruned, that both verify and that carry the same \<open>HEAD\<close>
  hold the same records up to it, unless two different bodies among them have the same hash.
\<close>

lemma head_binds_records:
  assumes "verify_dir H d = Inr rep" "verify_dir H d' = Inr rep'" "dir_head d = Some h" "dir_head d' = Some h"
    "dir_checkpoint d = None" "dir_checkpoint d' = None"
    "length (records_of (dir_segs d)) < 2 ^ 64" "length (records_of (dir_segs d')) < 2 ^ 64"
    "inj_on H (sr_body ` (set (records_of (dir_segs d)) \<union> set (records_of (dir_segs d'))))"
  shows "take (unat (head_seq h) + 1) (records_of (dir_segs d)) = take (unat (head_seq h) + 1) (records_of (dir_segs d'))"
proof -
  let ?n = "unat (head_seq h)"
  have up: "\<exists>e t op. chain H genesis (take (?n + 1) (records_of (dir_segs x))) = Some (e, head_hash h, t, op) \<and>
      ?n < length (records_of (dir_segs x))"
    if v: "verify_dir H x = Inr r" "dir_head x = Some h" "dir_checkpoint x = None" "length (records_of (dir_segs x)) < 2 ^ 64"
    for x r
  proof -
    let ?rs = "records_of (dir_segs x)"
    obtain w where "walk H Strict x = Inr w" using v(1) by (auto simp: verify_dir_def result_iff)
    then have c: "chain H genesis ?rs = Some (state_of w)" and n: "?n < length ?rs" "head_hash h = sr_hash (?rs ! ?n)"
      using verified_names [OF _ v(3,4), of H w] v(2) by (auto simp: head_names_def Let_def)
    have "chain H genesis (take (?n + 1) ?rs @ drop (?n + 1) ?rs) = Some (state_of w)" using c by simp
    then obtain e p t op where k: "chain H genesis (take (?n + 1) ?rs) = Some (e, p, t, op)"
      unfolding chain_append by (auto split: option.splits)
    have "last (take (?n + 1) ?rs) = ?rs ! ?n" using n(1) by (simp add: take_Suc_conv_app_nth)
    then have "p = head_hash h" using chain_last [OF k] n by (cases "?rs = []") simp_all
    then show ?thesis using k n(1) by blast
  qed
  obtain e t op e' t' op' where
    k: "chain H genesis (take (?n + 1) (records_of (dir_segs d))) = Some (e, head_hash h, t, op)"
      "chain H genesis (take (?n + 1) (records_of (dir_segs d'))) = Some (e', head_hash h, t', op')"
    and n: "?n < length (records_of (dir_segs d))" "?n < length (records_of (dir_segs d'))"
    using up [OF assms(1,3,5,7)] up [OF assms(2,4,6,8)] by blast
  show ?thesis
  proof (rule chain_unique [OF k])
    show "inj_on H (sr_body ` (set (take (?n + 1) (records_of (dir_segs d))) \<union> set (take (?n + 1) (records_of (dir_segs d')))))"
      by (rule inj_on_subset [OF assms(9)]) (auto dest: in_set_takeD)
  qed (use n in simp)
qed

text \<open>
  C21. Appending: on a sound directory a record is written exactly when its actor and its event satisfy
  the policy and, for an outcome, the decision is open. Then it is the last record, receives the next
  number and the hash of the one before, only oldest segments may be gone, as many as the configured
  limit demands, and directory and writer are sound again; otherwise nothing changes.
\<close>

theorem append_extends_log:
  assumes "sound H d st" "synced g d st" "keeps_one cfg"
    "unat (in_seg_index g) + 1 < 2 ^ 32" "unat (in_next_seq g) + 1 < 2 ^ 64"
  shows
    "(if is_ok (validate_actor a) \<and> is_ok (validate_decision ev)
      then extends_log H cfg d (next_record H g a (Decision ev) now) (record_decision H L cfg g d a ev now WriteOk)
      else \<exists>e. record_decision H L cfg g d a ev now WriteOk = (Inl e, g, d)) \<and>
     (if is_ok (validate_actor a) \<and> is_ok (validate_outcome o') \<and> oe_decision_seq o' \<in> in_open g
      then extends_log H cfg d (next_record H g a (Outcome o') now) (record_outcome H L cfg g d a o' now WriteOk)
      else \<exists>e. record_outcome H L cfg g d a o' now WriteOk = (Inl e, g, d))"
proof (intro conjI)
  have ext: "extends_log H cfg d (next_record H g a e now) (append_entry H L cfg g d a e now WriteOk)"
    if ok: "is_ok (validate_actor a)" "entry_fits g e" for e
  proof -
    obtain g' d' n st' where "append_entry H L cfg g d a e now WriteOk = (Inr (receipt_of (next_record H g a e now)), g', d')"
      "sound H d' st'" "synced g' d' st'" "records_of (dir_segs d') = records_of (drop n (dir_segs d)) @ [next_record H g a e now]"
      "keeps_limit cfg n d d'"
      by (rule append_sound_step [where L = L and now = now, OF assms(1,2,3) ok assms(4,5)])
    then show ?thesis using keeps_limit_surplus [of cfg n d d']
      by (simp add: extends_log_def del: split_paired_Ex) blast
  qed
  show "if is_ok (validate_actor a) \<and> is_ok (validate_decision ev)
     then extends_log H cfg d (next_record H g a (Decision ev) now) (record_decision H L cfg g d a ev now WriteOk)
     else \<exists>e. record_decision H L cfg g d a ev now WriteOk = (Inl e, g, d)"
    using ext [of "Decision ev"]
    by (auto simp: record_decision_def entry_fits_def validate_entry_def is_ok_def bind_result_def split: sum.splits)
  show "if is_ok (validate_actor a) \<and> is_ok (validate_outcome o') \<and> oe_decision_seq o' \<in> in_open g
     then extends_log H cfg d (next_record H g a (Outcome o') now) (record_outcome H L cfg g d a o' now WriteOk)
     else \<exists>e. record_outcome H L cfg g d a o' now WriteOk = (Inl e, g, d)"
    using ext [of "Outcome o'"] assms(2)
    by (auto simp: record_outcome_def append_entry_def synced_def entry_fits_def validate_entry_def is_ok_def
        bind_result_def split: sum.splits)
qed

text \<open>
  C20. Crash recovery: wherever the process stops in an append (before it, while a full segment is
  replaced and old ones are deleted, with nothing, a part of the line, the whole line, or line and \<open>HEAD\<close>
  written), reopening the directory succeeds, unless the new record is the only one retained and \<open>HEAD\<close>
  does not name it (the next theorem). The earlier records are kept but for the oldest segments, and only as many as the
  configured limit of segments demands of the append and of the reopening; the new record is there whole
  or not at all, and every decision that was waiting for its outcome is closed as unknown, in order.
\<close>

theorem crash_recovered:
  assumes "sound H d st" "synced g d st" "keeps_one cfg" "is_ok (validate_actor a)" "entry_fits g e"
    "unat (in_seg_index g) + card (in_open g) + 3 < 2 ^ 32" "unat (in_next_seq g) + card (in_open g) + 3 < 2 ^ 64"
    "stopped L cfg g d (next_record H g a e now) d2" "alone_is_head (next_record H g a e now) d2"
  shows "\<exists>g' d' st' rep tl rs n k. open_log H L cfg' clk d2 = Inr (g', d', rep) \<and> sound H d' st' \<and> synced g' d' st' \<and>
    records_of (dir_segs d') = drop k (records_of (drop n (dir_segs d)) @ tl @ rs) \<and>
    n \<le> surplus cfg (length (dir_segs d) + 1) \<and> (k = 0 \<or> at_limit cfg' d') \<and>
    tl \<in> {[], [next_record H g a e now]} \<and>
    marked_unknown rep = sorted_list_of_set (in_open (if tl = [] then g else recorded L g (next_record H g a e now))) \<and>
    closes (marked_unknown rep) rs \<and> in_open g' = {}"
proof -
  let ?r = "next_record H g a e now"
  have small: "unat (in_seg_index g) + 1 < 2 ^ 32" "unat (in_next_seq g) + 1 < 2 ^ 64" using assms(6,7) by simp_all
  obtain g1 d1 st' where x: "link H st ?r = Some st'" "unat (fst st) + 1 < 2 ^ 64" "fst st' = in_next_seq g + 1"
    "in_open (recorded L g1 ?r) = in_open (recorded L g ?r)" "synced (recorded L g1 ?r) d1 st'"
    by (rule append_step [where L = L and now = now, OF assms(1-5) small]) auto
  obtain d3 s n tl where m: "mends H d2 s d3" "tl = [] \<and> s = st \<or> tl = [?r] \<and> s = st'"
    "records_of (dir_segs d3) = records_of (drop n (dir_segs d)) @ tl" "n \<le> surplus cfg (length (dir_segs d) + 1)"
    "dir_segs d3 \<noteq> []" "unat (seg_index (last (dir_segs d3))) \<le> unat (in_seg_index g) + 1"
    using stopped_mends [OF assms(8,1-3) small(1) x(1,2) assms(9)] by blast
  have open_st: "snd (snd (snd st)) = in_open g" "fst st = in_next_seq g" "snd (snd (snd st')) = in_open (recorded L g ?r)"
    using assms(2) x(4,5) by (auto simp: synced_def)
  have "in_open (recorded L g ?r) \<subseteq> insert (in_next_seq g) (in_open g)"
    by (auto simp: recorded_def Let_def next_record_def seal_def split: entry.split)
  then have "card (in_open (recorded L g ?r)) \<le> card (insert (in_next_seq g) (in_open g))"
    by (intro card_mono) simp_all
  also have "\<dots> \<le> card (in_open g) + 1" by (simp add: card_insert_if)
  finally have "card (snd (snd (snd st'))) \<le> card (in_open g) + 1" using open_st by simp
  moreover have "unat (fst st') = unat (in_next_seq g) + 1" using x(3) assms(7) by (simp add: unat_word_ariths)
  ultimately have room: "card (snd (snd (snd s))) \<le> card (in_open g) + 1" "unat (fst s) \<le> unat (in_next_seq g) + 1"
    using m(2) open_st by auto
  obtain g' d' st2 rep rs k where o: "open_log H L cfg' clk d2 = Inr (g', d', rep)" "sound H d' st2" "synced g' d' st2"
    "records_of (dir_segs d') = drop k (records_of (dir_segs d3) @ rs)" "k = 0 \<or> at_limit cfg' d'"
    "closes (sorted_list_of_set (snd (snd (snd s)))) rs" "in_open g' = {}"
    "marked_unknown rep = sorted_list_of_set (snd (snd (snd s)))"
  proof -
    have "unat (seg_index (last (dir_segs d3))) + card (snd (snd (snd s))) < 2 ^ 32"
      "unat (fst s) + card (snd (snd (snd s))) < 2 ^ 64" "card (snd (snd (snd s))) + 1 < 2 ^ 32"
      using m(6) room assms(6,7) by simp_all
    then show thesis using that open_mended [OF m(1), of L cfg' clk] by metis
  qed
  have "marked_unknown rep = sorted_list_of_set (in_open (if tl = [] then g else recorded L g ?r))"
    using m(2) o(8) open_st by auto
  moreover have "tl \<in> {[], [?r]}" using m(2) by blast
  moreover have "records_of (dir_segs d') = drop k (records_of (drop n (dir_segs d)) @ tl @ rs)" using o(4) m(3) by simp
  moreover have "closes (marked_unknown rep) rs" using o(6,8) by simp
  ultimately show ?thesis using o(1-3,5,7) m(4) by blast
qed

text \<open>
  C23. An empty retained chain is the exception: when the process stops between the first line of a log
  and the first \<open>HEAD\<close>, or between the first line after everything was pruned and its \<open>HEAD\<close>, the log
  cannot be opened again.
\<close>

theorem lone_record_crash_locks_out:
  assumes "sound H d st" "synced g d st" "records_of (dir_segs d) = []" "link H st r = Some st'" "unat (fst st) + 1 < 2 ^ 64"
  shows "open_log H L cfg clk (write_line (in_seg_index g) r d) =
    Inl (Integrity (case dir_head d of None \<Rightarrow> HeadMissing | Some h \<Rightarrow> HeadBehind (head_seq h) (rb_seq (sr_body r))))"
proof -
  let ?d = "write_line (in_seg_index g) r d"
  have wk: "well_kept H ?d st'" "whole ?d" using written_well_kept [OF assms(1,2,4,5)] by simp_all
  have recs: "records_of (dir_segs ?d) = [r]" using written_records [OF assms(1,2)] assms(3) by simp
  have "tails_ok Recover (dir_segs ?d)" using wk(2) by (auto simp: tails_ok_def whole_def dest: in_set_butlastD)
  then obtain w where w: "walk_segments H Recover ?d (start ?d) (dir_segs ?d) = Inr w" "moved ?d (start ?d) [r] w"
    using walk_segments_chain [of H "start ?d" "dir_segs ?d" st' Recover ?d] wk(1) well_kept_seq [OF wk(1)] recs
    by (auto simp: well_kept_def first_link_def)
  have dd: "dir_head ?d = dir_head d" "start ?d = start d" "dir_checkpoint ?d = dir_checkpoint d"
    by (simp_all add: write_line_def change_seg_def start_def)
  have st: "st = first_link d" using soundD(4) [OF assms(1)] assms(3) by simp
  have "check_head Recover ?d w =
      Inl (case dir_head d of None \<Rightarrow> HeadMissing | Some h \<Rightarrow> HeadBehind (head_seq h) (rb_seq (sr_body r)))"
  proof (cases "dir_head d")
    case None
    then show ?thesis using w(2) dd by (simp add: check_head_def moved_def tip_of_def)
  next
    case (Some h)
    then have "head_at d st" using soundD(6) [OF assms(1)] by simp
    then have h: "checked_add (head_seq h) 1 = Some (w_expect (start d))"
      using Some st by (simp add: head_at_def first_link_def state_of_def)
    then have lt: "head_seq h < w_expect (start d)" by (simp add: checked_add_Some_iff word_less_nat_alt)
    have "rb_seq (sr_body r) = w_expect (start d)"
      using link_Some [of H "w_expect (start d)" "w_prev (start d)" "w_last_ts (start d)" "w_open (start d)" r st'] assms(4) st
      by (simp add: first_link_def state_of_def)
    then show ?thesis using w(2) dd Some lt less_not_sym [OF lt]
      by (simp add: check_head_def moved_def tip_of_def Let_def)
  qed
  then show ?thesis using w(1) by (simp add: open_log_def walk_def Let_def)
qed

text \<open>
  Reading goes newest segment first and stops early, yet it gives what the records in order give:
  a page is the newest records below the bound, a record is found by its number wherever it is, and a
  decision comes with its first outcome.
\<close>

lemma reads_agree:
  assumes "well_kept H d st"
  shows "page d before limit =
      Inr (take limit (filter (\<lambda>r. case before of Some b \<Rightarrow> rb_seq (sr_body r) < b | None \<Rightarrow> True)
                         (rev (records_of (dir_segs d))))) \<and>
    get_record d s = Inr (find (\<lambda>r. rb_seq (sr_body r) = s) (records_of (dir_segs d))) \<and>
    decision_view_of d s =
      Inr (case view_scan s None (records_of (dir_segs d)) of
             Inl found \<Rightarrow> map_option (\<lambda>v. \<lparr>dv_decision = v, dv_outcome = None\<rparr>) found
           | Inr v \<Rightarrow> Some v)"
proof (intro conjI)
  have ok: "lines_ok (dir_segs d)" using assms by (simp add: well_kept_def)
  show "page d before limit =
      Inr (take limit (filter (\<lambda>r. case before of Some b \<Rightarrow> rb_seq (sr_body r) < b | None \<Rightarrow> True)
                         (rev (records_of (dir_segs d)))))"
    using page_from_eq [OF ok, of "[]" limit before] by (simp add: page_def)
  show "get_record d s = Inr (find (\<lambda>r. rb_seq (sr_body r) = s) (records_of (dir_segs d)))"
    using get_from_eq [OF ok chain_sorted [OF assms]] by (simp add: get_record_def)
  show "decision_view_of d s =
      Inr (case view_scan s None (records_of (dir_segs d)) of
             Inl found \<Rightarrow> map_option (\<lambda>v. \<lparr>dv_decision = v, dv_outcome = None\<rparr>) found
           | Inr v \<Rightarrow> Some v)"
    using view_from_eq [OF ok] by (simp add: decision_view_of_def)
qed

section \<open>Concrete inputs\<close>

definition sample_hash :: "record_body \<Rightarrow> string" where
  "sample_hash b = (if rb_seq b = 0 then ''h'' else ''i'')"

definition sample_actor :: actor where "sample_actor = \<lparr>actor_kind = Member, actor_id = ''m''\<rparr>"

definition sample_decision :: decision_event where
  "sample_decision = \<lparr>de_tier = Hic2, de_kind = ''k'', de_subject = ''s'', de_decision = Approved,
     de_reason = [], de_evidence = []\<rparr>"

definition sample_outcome :: outcome_event where
  "sample_outcome = \<lparr>oe_decision_seq = 0, oe_outcome = Completed, oe_detail = []\<rparr>"

definition sample0 :: stored_record where
  "sample0 = \<lparr>sr_hash = ''h'', sr_body = \<lparr>rb_v = 1, rb_seq = 0, rb_ts_ms = 5, rb_prev = GENESIS_PREV,
     rb_actor = sample_actor, rb_entry = Decision sample_decision\<rparr>\<rparr>"

definition sample1 :: stored_record where
  "sample1 = \<lparr>sr_hash = ''i'', sr_body = \<lparr>rb_v = 1, rb_seq = 1, rb_ts_ms = 6, rb_prev = ''h'',
     rb_actor = sample_actor, rb_entry = Outcome sample_outcome\<rparr>\<rparr>"

definition sample_dir :: "stored_record list \<Rightarrow> head option \<Rightarrow> dir" where
  "sample_dir rs h = \<lparr>dir_head = h, dir_checkpoint = None,
     dir_segs = [\<lparr>seg_index = 1, seg_lines = map Some rs, seg_tail = 0\<rparr>]\<rparr>"

definition sample_head :: "head option" where "sample_head = Some \<lparr>head_seq = 0, head_hash = ''h''\<rparr>"

definition sample_inner :: "link_state \<Rightarrow> inner" where
  "sample_inner st = (case st of (e, p, t, op) \<Rightarrow>
     \<lparr>in_seg_index = 1, in_seg_len = 0, in_seg_count = 1, in_next_seq = e, in_prev = p, in_last_ts = t,
      in_open = op, in_failed = False\<rparr>)"

lemma sample_trim: "trim ''m'' = ''m''" "trim ''k'' = ''k''" "trim ''s'' = ''s''"
  by (simp_all add: trim_graphic is_graphic_def)

lemmas sample_defs = sample_hash_def sample_actor_def sample_decision_def sample_outcome_def sample0_def sample1_def

lemma sample_ok: "is_ok (validate_actor sample_actor)" "is_ok (validate_decision sample_decision)"
  "is_ok (validate_outcome sample_outcome)"
  by (simp_all add: sample_defs validate_actor_def validate_decision_def validate_outcome_def check_len_def sample_trim
      MAX_ID_LEN_def MAX_KIND_LEN_def MAX_SUBJECT_LEN_def MAX_REASON_LEN_def MAX_EVIDENCE_def)

lemma sample_chain:
  "chain sample_hash genesis [sample0] = Some (1, ''h'', 5, {0})"
  "chain sample_hash genesis [sample0, sample1] = Some (2, ''i'', 6, {})"
proof -
  have "link sample_hash genesis sample0 = Some (1, ''h'', 5, {0})"
    using sample_ok by (simp add: link_def genesis_def sample0_def hash_matches_def sample_hash_def open_after_def
        validate_entry_def SCHEMA_VERSION_def) (simp add: sample_decision_def expects_outcome_def)
  moreover have "link sample_hash (1, ''h'', 5, {0}) sample1 = Some (2, ''i'', 6, {})"
    using sample_ok by (simp add: link_def sample1_def hash_matches_def sample_hash_def open_after_def
        validate_entry_def SCHEMA_VERSION_def) (simp add: sample_outcome_def)
  ultimately show "chain sample_hash genesis [sample0] = Some (1, ''h'', 5, {0})"
    "chain sample_hash genesis [sample0, sample1] = Some (2, ''i'', 6, {})" by simp_all
qed

lemma sample_segs [simp]:
  "records_of (dir_segs (sample_dir rs h)) = rs" "dir_checkpoint (sample_dir rs h) = None"
  "dir_head (sample_dir rs h) = h" "lines_ok (dir_segs (sample_dir rs h))" "whole (sample_dir rs h)"
  "sorted_wrt (<) (map seg_index (dir_segs (sample_dir rs h)))"
  by (auto simp: sample_dir_def lines_ok_def whole_def comp_def)

lemma sample_sound:
  "sound sample_hash (sample_dir [] None) genesis" "synced (sample_inner genesis) (sample_dir [] None) genesis"
  "sound sample_hash (sample_dir [sample0] sample_head) (1, ''h'', 5, {0})"
  "synced (sample_inner (1, ''h'', 5, {0})) (sample_dir [sample0] sample_head) (1, ''h'', 5, {0})"
proof -
  show "sound sample_hash (sample_dir [] None) genesis"
    by (rule soundI) (simp_all add: genesis_first non_empty_def, (simp add: genesis_def)?)
  show "sound sample_hash (sample_dir [sample0] sample_head) (1, ''h'', 5, {0})"
    using sample_chain(1)
    by (intro soundI) (simp_all add: genesis_first non_empty_def head_at_def sample_head_def checked_add_def,
      (simp add: genesis_def)?)
  show "synced (sample_inner genesis) (sample_dir [] None) genesis"
    "synced (sample_inner (1, ''h'', 5, {0})) (sample_dir [sample0] sample_head) (1, ''h'', 5, {0})"
    by (simp_all add: synced_def sample_inner_def sample_dir_def genesis_def)
qed

lemma sample_verified:
  "\<exists>rep. verify_dir sample_hash (sample_dir [sample0] sample_head) = Inr rep"
  "\<exists>rep. verify_dir sample_hash (sample_dir [sample0, sample1] sample_head) = Inr rep"
  using sample_chain by (auto intro!: names_verified simp: head_names_def sample_head_def sample0_def)

corollary verify_dir_iff_witness:
  "\<exists>rep. verify_dir sample_hash (sample_dir [sample0, sample1] sample_head) = Inr rep"
  by (subst verify_dir_iff) (use sample_chain in \<open>auto simp: head_names_def sample_head_def sample0_def\<close>)

corollary head_binds_records_witness:
  "take 1 (records_of (dir_segs (sample_dir [sample0] sample_head))) =
     take 1 (records_of (dir_segs (sample_dir [sample0, sample1] sample_head)))"
proof -
  obtain rep rep' where v: "verify_dir sample_hash (sample_dir [sample0] sample_head) = Inr rep"
    "verify_dir sample_hash (sample_dir [sample0, sample1] sample_head) = Inr rep'" using sample_verified by blast
  have "inj_on sample_hash (sr_body ` {sample0, sample1})"
    by (simp add: sample_hash_def sample0_def sample1_def)
  then show ?thesis
    using head_binds_records [OF v, of "\<lparr>head_seq = 0, head_hash = ''h''\<rparr>"] by (simp add: sample_head_def)
qed

corollary append_extends_log_witness:
  "extends_log sample_hash default_config (sample_dir [] None)
     (next_record sample_hash (sample_inner genesis) sample_actor (Decision sample_decision) 5)
     (record_decision sample_hash (\<lambda>_. 100) default_config (sample_inner genesis) (sample_dir [] None)
        sample_actor sample_decision 5 WriteOk)"
proof -
  have "unat (in_seg_index (sample_inner genesis)) + 1 < 2 ^ 32" "unat (in_next_seq (sample_inner genesis)) + 1 < 2 ^ 64"
    by (simp_all add: sample_inner_def genesis_def)
  then show ?thesis
    using append_extends_log [OF sample_sound(1,2), of default_config sample_actor sample_decision 5 "\<lambda>_. 100"] sample_ok
    by (simp add: keeps_one_def default_config_def)
qed

corollary crash_recovered_witness:
  "\<exists>g' d' st' rep tl rs n k.
     open_log sample_hash (\<lambda>_. 100) default_config (\<lambda>_. 9)
       (leave_tail 1 40 (sample_dir [sample0] sample_head)) = Inr (g', d', rep) \<and> sound sample_hash d' st' \<and> synced g' d' st' \<and>
     records_of (dir_segs d') = drop k (records_of (drop n (dir_segs (sample_dir [sample0] sample_head))) @ tl @ rs) \<and>
     n \<le> surplus default_config (length (dir_segs (sample_dir [sample0] sample_head)) + 1) \<and> (k = 0 \<or> at_limit default_config d') \<and>
     tl \<in> {[], [next_record sample_hash (sample_inner (1, ''h'', 5, {0})) sample_actor (Outcome sample_outcome) 6]} \<and>
     marked_unknown rep = sorted_list_of_set (in_open (if tl = [] then sample_inner (1, ''h'', 5, {0})
       else recorded (\<lambda>_. 100) (sample_inner (1, ''h'', 5, {0}))
         (next_record sample_hash (sample_inner (1, ''h'', 5, {0})) sample_actor (Outcome sample_outcome) 6))) \<and>
     closes (marked_unknown rep) rs \<and> in_open g' = {}"
proof -
  let ?g = "sample_inner (1, ''h'', 5, {0})" and ?d = "sample_dir [sample0] sample_head"
  let ?r = "next_record sample_hash ?g sample_actor (Outcome sample_outcome) 6"
  have fits: "keeps_one default_config" "is_ok (validate_actor sample_actor)" "entry_fits ?g (Outcome sample_outcome)"
    "unat (in_seg_index ?g) + card (in_open ?g) + 3 < 2 ^ 32" "unat (in_next_seq ?g) + card (in_open ?g) + 3 < 2 ^ 64"
    using sample_ok
    by (simp_all add: keeps_one_def default_config_def entry_fits_def validate_entry_def sample_inner_def, simp add: sample_outcome_def)
  have "room_made (\<lambda>_. 100) default_config ?g ?d ?r = (None, ?g, ?d)"
    by (simp add: room_made_def sample_inner_def)
  moreover have "left_by_crash ?d (in_seg_index ?g) ?r (leave_tail 1 40 ?d)"
    using part_of_line [of ?d "in_seg_index ?g" ?r 40] by (simp add: sample_inner_def)
  ultimately have stop: "stopped (\<lambda>_. 100) default_config ?g ?d ?r (leave_tail 1 40 ?d)" by (rule while_writing)
  have "records_of (dir_segs (leave_tail 1 40 ?d)) = [sample0]"
    by (simp add: leave_tail_def change_seg_def sample_dir_def)
  moreover have "rb_seq (sr_body sample0) \<noteq> rb_seq (sr_body ?r)"
    by (simp add: sample0_def next_record_def seal_def sample_inner_def)
  ultimately have "alone_is_head ?r (leave_tail 1 40 ?d)" by (auto simp: alone_is_head_def)
  then show ?thesis by (rule crash_recovered [OF sample_sound(3,4) fits stop])
qed

corollary lone_record_crash_locks_out_witness:
  "open_log sample_hash (\<lambda>_. 100) default_config (\<lambda>_. 9) (sample_dir [sample0] None) = Inl (Integrity HeadMissing)"
proof -
  have "link sample_hash genesis sample0 = Some (1, ''h'', 5, {0})"
    using sample_chain(1) by (simp split: option.splits)
  moreover have "write_line 1 sample0 (sample_dir [] None) = sample_dir [sample0] None"
    by (simp add: write_line_def change_seg_def sample_dir_def)
  ultimately show ?thesis
    using lone_record_crash_locks_out [OF sample_sound(1,2), of sample0 "(1, ''h'', 5, {0})" "\<lambda>_. 100" default_config "\<lambda>_. 9"]
    by (simp add: sample_inner_def genesis_def)
qed

corollary reads_agree_witness:
  "get_record (sample_dir [sample0] sample_head) 0 = Inr (Some sample0) \<and>
   page (sample_dir [sample0] sample_head) None 3 = Inr [sample0]"
proof -
  have "well_kept sample_hash (sample_dir [sample0] sample_head) (1, ''h'', 5, {0})"
    using sample_sound(3) by (simp add: sound_def)
  from reads_agree [OF this] show ?thesis by (simp add: sample0_def)
qed

end
