(* ===== verification/Hermes.thy ===== *)
theory Hermes
  imports Prelude
begin

text \<open>
  The Hermes decision core (\<open>hermes/core\<close>) and the Discord adapter that feeds it
  (\<open>hermes/discord\<close>): event types, the ingress guard and its two-plane routing, the refusal
  cooldown with its bounded memory, the action layer, the append-only audit trail, and the
  gateway handler that composes them. Time is the injected millisecond clock.
\<close>

section \<open>Events\<close>

datatype author_kind = User u64 | Webhook | System | Integration

datatype channel_kind = Dm | GuildText | Thread | Forum | OtherChannel

definition command_allowed :: "channel_kind \<Rightarrow> bool" where
  "command_allowed k \<longleftrightarrow> (case k of Dm \<Rightarrow> True | GuildText \<Rightarrow> True | Thread \<Rightarrow> True | _ \<Rightarrow> False)"

datatype addressed = Direct | Mention | Reply | NotAddressed

definition is_addressed :: "addressed \<Rightarrow> bool" where
  "is_addressed a \<longleftrightarrow> a \<noteq> NotAddressed"

record message_event =
  author :: author_kind
  is_bot_self :: bool
  channel :: u64
  channel_kind :: channel_kind
  message_id :: u64
  content :: string
  addressed :: addressed
  edited :: bool

datatype interaction_kind = Button string | Slash string | Component string

record interaction_event =
  ie_user :: u64
  ie_channel :: u64
  ie_kind :: interaction_kind

datatype principal = Owner | OtherPrincipal

section \<open>The ingress guard\<close>

definition REFUSAL :: string where
  "REFUSAL = ''I don't work for you respectfully, I work for the company and Saul specifically.''"

record owner_auth =
  owner_id :: "u64 option"

definition from_config :: "string option \<Rightarrow> owner_auth" where
  "from_config value =
     \<lparr>owner_id =
        (case value of
           None \<Rightarrow> None
         | Some s \<Rightarrow>
             (case parse_u64 (trim s) of
                None \<Rightarrow> None
              | Some uid \<Rightarrow> if uid \<noteq> 0 then Some uid else None))\<rparr>"

definition is_configured :: "owner_auth \<Rightarrow> bool" where
  "is_configured auth \<longleftrightarrow> owner_id auth \<noteq> None"

definition authorize_user :: "owner_auth \<Rightarrow> u64 \<Rightarrow> principal" where
  "authorize_user auth uid =
     (case owner_id auth of
        Some owner \<Rightarrow> if owner = uid then Owner else OtherPrincipal
      | None \<Rightarrow> OtherPrincipal)"

fun authorize_author :: "owner_auth \<Rightarrow> author_kind \<Rightarrow> principal" where
  "authorize_author auth (User uid) = authorize_user auth uid"
| "authorize_author auth Webhook = OtherPrincipal"
| "authorize_author auth System = OtherPrincipal"
| "authorize_author auth Integration = OtherPrincipal"

datatype drop_reason = SelfEvent

datatype message_routing =
    RouteCommand u64
  | RouteRefuse
  | RouteModerate
  | RouteDrop drop_reason

definition route_message :: "owner_auth \<Rightarrow> message_event \<Rightarrow> message_routing" where
  "route_message auth ev =
     (if is_bot_self ev then RouteDrop SelfEvent
      else
        let principal = authorize_author auth (author ev);
            command_eligible = is_addressed (addressed ev) \<and> command_allowed (channel_kind ev)
        in case (principal, command_eligible) of
             (Owner, True) \<Rightarrow> RouteCommand (message_id ev)
           | (Owner, False) \<Rightarrow> RouteModerate
           | (OtherPrincipal, True) \<Rightarrow> RouteRefuse
           | (OtherPrincipal, False) \<Rightarrow> RouteModerate)"

datatype interaction_decision = Allow | Deny

definition route_interaction :: "owner_auth \<Rightarrow> interaction_event \<Rightarrow> interaction_decision" where
  "route_interaction auth ev =
     (case authorize_user auth (ie_user ev) of Owner \<Rightarrow> Allow | OtherPrincipal \<Rightarrow> Deny)"

definition owner_authored_context :: "owner_auth \<Rightarrow> message_event list \<Rightarrow> message_event list" where
  "owner_authored_context auth msgs =
     filter (\<lambda>m. \<not> is_bot_self m \<and> authorize_author auth (author m) = Owner) msgs"

section \<open>The refusal cooldown\<close>

definition MAX_TRACKED_USERS :: nat where "MAX_TRACKED_USERS = 100000"

text \<open>The hash map of last refusal times is an association list with distinct keys.\<close>

record refusal_cooldown =
  window_ms :: u64
  cd_last :: "(u64 \<times> u64) list"

definition new_cooldown :: "u64 \<Rightarrow> refusal_cooldown" where
  "new_cooldown w = \<lparr>window_ms = w, cd_last = []\<rparr>"

definition evict :: "refusal_cooldown \<Rightarrow> u64 \<Rightarrow> refusal_cooldown" where
  "evict c now =
     (if length (cd_last c) < MAX_TRACKED_USERS then c
      else
        let live = filter (\<lambda>(_, t). sat_sub now t < window_ms c) (cd_last c)
        in if MAX_TRACKED_USERS \<le> length live
           then let times = sort (map snd live);
                    cutoff = times ! (length times div 4)
                in c\<lparr>cd_last := filter (\<lambda>(_, t). cutoff < t) live\<rparr>
           else c\<lparr>cd_last := live\<rparr>)"

definition should_refuse :: "refusal_cooldown \<Rightarrow> u64 \<Rightarrow> u64 \<Rightarrow> bool \<times> refusal_cooldown" where
  "should_refuse c user now =
     (case map_of (cd_last c) user of
        Some t \<Rightarrow>
          if sat_sub now t < window_ms c then (False, c)
          else (True, c\<lparr>cd_last := AList.update user now (cd_last c)\<rparr>)
      | None \<Rightarrow>
          let c' = evict c now
          in (True, c'\<lparr>cd_last := AList.update user now (cd_last c')\<rparr>))"

section \<open>Actions\<close>

datatype action = ActRefuse | ActCommand u64 | ActModerate | ActIgnore

definition refusal_key :: "message_event \<Rightarrow> u64" where
  "refusal_key ev = (case author ev of User uid \<Rightarrow> uid | _ \<Rightarrow> channel ev)"

definition decide ::
  "owner_auth \<Rightarrow> refusal_cooldown \<Rightarrow> message_event \<Rightarrow> u64 \<Rightarrow> action \<times> refusal_cooldown" where
  "decide auth cooldown ev now =
     (case route_message auth ev of
        RouteDrop _ \<Rightarrow> (ActIgnore, cooldown)
      | RouteCommand m \<Rightarrow> (ActCommand m, cooldown)
      | RouteModerate \<Rightarrow> (ActModerate, cooldown)
      | RouteRefuse \<Rightarrow>
          (case should_refuse cooldown (refusal_key ev) now of
             (sent, cooldown') \<Rightarrow> (if sent then ActRefuse else ActIgnore, cooldown')))"

section \<open>The audit trail\<close>

datatype outcome =
    OutCommand u64
  | OutRefused
  | OutModerated
  | OutIgnored
  | OutInteractionAllowed
  | OutInteractionDenied

fun from_action :: "action \<Rightarrow> outcome" where
  "from_action ActRefuse = OutRefused"
| "from_action (ActCommand m) = OutCommand m"
| "from_action ActModerate = OutModerated"
| "from_action ActIgnore = OutIgnored"

record trail_entry =
  at_ms :: u64
  te_principal :: principal
  actor :: "u64 option"
  te_channel :: u64
  te_outcome :: outcome

definition for_message ::
  "u64 \<Rightarrow> principal \<Rightarrow> author_kind \<Rightarrow> u64 \<Rightarrow> action \<Rightarrow> trail_entry" where
  "for_message at p a ch act =
     \<lparr>at_ms = at, te_principal = p, actor = (case a of User uid \<Rightarrow> Some uid | _ \<Rightarrow> None),
      te_channel = ch, te_outcome = from_action act\<rparr>"

definition is_security_signal :: "trail_entry \<Rightarrow> bool" where
  "is_security_signal e \<longleftrightarrow>
     (case te_outcome e of OutRefused \<Rightarrow> True | OutInteractionDenied \<Rightarrow> True | _ \<Rightarrow> False)"

text \<open>The two sinks of the crate: the in-memory trail keeps every entry, the null trail none.\<close>

type_synonym in_memory_trail = "trail_entry list"

definition in_memory_record :: "in_memory_trail \<Rightarrow> trail_entry \<Rightarrow> in_memory_trail" where
  "in_memory_record t e = t @ [e]"

definition in_memory_entries :: "in_memory_trail \<Rightarrow> trail_entry list" where
  "in_memory_entries t = t"

definition null_record :: "unit \<Rightarrow> trail_entry \<Rightarrow> unit" where
  "null_record t e = t"

section \<open>The gateway adapter\<close>

definition classify_author :: "bool \<Rightarrow> u64 \<Rightarrow> u64 \<Rightarrow> author_kind \<times> bool" where
  "classify_author is_webhook author_id self_id =
     (if is_webhook then (Webhook, False) else (User author_id, author_id = self_id))"

definition classify_channel :: "bool \<Rightarrow> bool \<Rightarrow> channel_kind" where
  "classify_channel in_guild is_thread =
     (case (in_guild, is_thread) of
        (False, _) \<Rightarrow> Dm
      | (True, True) \<Rightarrow> Thread
      | (True, False) \<Rightarrow> GuildText)"

definition classify_addressed :: "bool \<Rightarrow> bool \<Rightarrow> bool \<Rightarrow> addressed" where
  "classify_addressed is_dm mentions_bot replies_to_bot =
     (if is_dm then Direct
      else if replies_to_bot then Reply
      else if mentions_bot then Mention
      else NotAddressed)"

text \<open>
  The fields of a gateway message that the adapter reads, and \<open>rm_surface\<close>, the type of the channel
  the message was posted in. Discord knows it; the message does not carry it and the adapter never
  asks for it, so no definition reads it: it is there to state what the adapter takes a post for.
\<close>

record raw_message =
  webhook_id :: "u64 option"
  rm_author :: u64
  guild_id :: "u64 option"
  mentions :: "u64 list"
  referenced_author :: "u64 option"
  rm_channel :: u64
  rm_surface :: channel_kind
  rm_id :: u64
  rm_content :: string

datatype raw_interaction =
    CommandInteraction u64 u64 string
  | ComponentInteraction u64 u64 string
  | UnhandledInteraction

record 't handler =
  auth :: owner_auth
  cooldown :: refusal_cooldown
  bot_id :: u64
  trail :: 't

definition REFUSAL_WINDOW_MS :: u64 where "REFUSAL_WINDOW_MS = 10 * 60 * 1000"

definition new_handler :: "owner_auth \<Rightarrow> u64 \<Rightarrow> 't \<Rightarrow> 't handler" where
  "new_handler a self_id t =
     \<lparr>auth = a, cooldown = new_cooldown REFUSAL_WINDOW_MS, bot_id = self_id, trail = t\<rparr>"

definition normalize :: "u64 \<Rightarrow> raw_message \<Rightarrow> message_event" where
  "normalize self_id msg =
     (let (a, self) = classify_author (webhook_id msg \<noteq> None) (rm_author msg) self_id;
          in_guild = guild_id msg \<noteq> None;
          mentions_bot = list_ex (\<lambda>u. u = self_id) (mentions msg);
          replies_to_bot = (case referenced_author msg of None \<Rightarrow> False | Some r \<Rightarrow> r = self_id)
      in \<lparr>author = a, is_bot_self = self, channel = rm_channel msg,
          channel_kind = classify_channel in_guild False, message_id = rm_id msg,
          content = rm_content msg,
          addressed = classify_addressed (\<not> in_guild) mentions_bot replies_to_bot,
          edited = False\<rparr>)"

text \<open>
  One gateway message: decide, record, and reply with the fixed refusal when the action says so.
  The trail sink is the operation \<open>rec\<close>; the last component is the text sent, if any.
\<close>

definition on_message ::
  "('t \<Rightarrow> trail_entry \<Rightarrow> 't) \<Rightarrow> 't handler \<Rightarrow> raw_message \<Rightarrow> u64 \<Rightarrow> 't handler \<times> action \<times> string option" where
  "on_message rec h msg now =
     (let ev = normalize (bot_id h) msg;
          (act, cd') = decide (auth h) (cooldown h) ev now;
          p = authorize_author (auth h) (author ev);
          t' = rec (trail h) (for_message now p (author ev) (channel ev) act)
      in (h\<lparr>cooldown := cd', trail := t'\<rparr>, act,
          case act of ActRefuse \<Rightarrow> Some REFUSAL | _ \<Rightarrow> None))"

definition interaction_of :: "raw_interaction \<Rightarrow> interaction_event option" where
  "interaction_of i =
     (case i of
        CommandInteraction u ch n \<Rightarrow> Some \<lparr>ie_user = u, ie_channel = ch, ie_kind = Slash n\<rparr>
      | ComponentInteraction u ch c \<Rightarrow> Some \<lparr>ie_user = u, ie_channel = ch, ie_kind = Button c\<rparr>
      | UnhandledInteraction \<Rightarrow> None)"

definition on_interaction ::
  "('t \<Rightarrow> trail_entry \<Rightarrow> 't) \<Rightarrow> 't handler \<Rightarrow> raw_interaction \<Rightarrow> u64 \<Rightarrow> 't handler \<times> interaction_decision option" where
  "on_interaction rec h i now =
     (case interaction_of i of
        None \<Rightarrow> (h, None)
      | Some ev \<Rightarrow>
          let d = route_interaction (auth h) ev;
              p = authorize_user (auth h) (ie_user ev);
              out = (case d of Allow \<Rightarrow> OutInteractionAllowed | Deny \<Rightarrow> OutInteractionDenied)
          in (h\<lparr>trail := rec (trail h)
                \<lparr>at_ms = now, te_principal = p, actor = Some (ie_user ev),
                 te_channel = ie_channel ev, te_outcome = out\<rparr>\<rparr>, Some d))"

datatype gateway_event = MessageCreate raw_message | InteractionCreate raw_interaction

definition handle_event ::
  "('t \<Rightarrow> trail_entry \<Rightarrow> 't) \<Rightarrow> 't handler \<Rightarrow> gateway_event \<times> u64 \<Rightarrow> 't handler" where
  "handle_event rec h e =
     (case e of
        (MessageCreate m, now) \<Rightarrow> fst (on_message rec h m now)
      | (InteractionCreate i, now) \<Rightarrow> fst (on_interaction rec h i now))"

definition handle_events ::
  "('t \<Rightarrow> trail_entry \<Rightarrow> 't) \<Rightarrow> 't handler \<Rightarrow> (gateway_event \<times> u64) list \<Rightarrow> 't handler" where
  "handle_events rec = foldl (handle_event rec)"

section \<open>Guard and routing\<close>

lemma authorize_user_Owner_iff: "authorize_user a u = Owner \<longleftrightarrow> owner_id a = Some u"
  by (auto simp: authorize_user_def split: option.splits)

lemma authorize_user_Other_iff: "authorize_user a u = OtherPrincipal \<longleftrightarrow> owner_id a \<noteq> Some u"
  by (auto simp: authorize_user_def split: option.splits)

lemma authorize_author_Owner_iff:
  "authorize_author a k = Owner \<longleftrightarrow> (\<exists>u. k = User u \<and> owner_id a = Some u)"
  by (cases k) (auto simp: authorize_user_Owner_iff)

lemma authorize_author_Other_iff:
  "authorize_author a k = OtherPrincipal \<longleftrightarrow> (\<forall>u. k = User u \<longrightarrow> owner_id a \<noteq> Some u)"
  by (cases k) (auto simp: authorize_user_Other_iff)

lemmas authorize_iffs =
  authorize_user_Owner_iff authorize_user_Other_iff authorize_author_Owner_iff authorize_author_Other_iff

lemma route_message_Command_iff:
  "route_message a ev = RouteCommand m \<longleftrightarrow>
     \<not> is_bot_self ev \<and> authorize_author a (author ev) = Owner \<and>
     is_addressed (addressed ev) \<and> command_allowed (channel_kind ev) \<and> m = message_id ev"
  by (auto simp: route_message_def Let_def split: principal.splits bool.splits)

lemma route_message_Refuse_iff:
  "route_message a ev = RouteRefuse \<longleftrightarrow>
     \<not> is_bot_self ev \<and> authorize_author a (author ev) = OtherPrincipal \<and>
     is_addressed (addressed ev) \<and> command_allowed (channel_kind ev)"
  by (auto simp: route_message_def Let_def split: principal.splits bool.splits)

lemma decide_Command_iff:
  "fst (decide a cd ev now) = ActCommand m \<longleftrightarrow> route_message a ev = RouteCommand m"
  by (auto simp: decide_def split: message_routing.splits prod.splits)

lemma decide_Refuse_iff:
  "fst (decide a cd ev now) = ActRefuse \<longleftrightarrow>
     route_message a ev = RouteRefuse \<and> fst (should_refuse cd (refusal_key ev) now)"
  by (auto simp: decide_def split: message_routing.splits prod.splits)

lemma decide_cooldown:
  "snd (decide a cd ev now) =
     (if route_message a ev = RouteRefuse then snd (should_refuse cd (refusal_key ev) now) else cd)"
  by (auto simp: decide_def split: message_routing.splits prod.splits)

lemmas normalize_defs =
  normalize_def classify_author_def classify_channel_def classify_addressed_def

lemma normalize_addressed:
  "is_addressed (addressed (normalize b msg)) \<longleftrightarrow>
     guild_id msg = None \<or> referenced_author msg = Some b \<or> b \<in> set (mentions msg)"
  by (auto simp: normalize_defs is_addressed_def Let_def list_ex_iff split: option.splits)

lemma normalize_command_allowed: "command_allowed (channel_kind (normalize b msg))"
  by (cases "guild_id msg = None") (simp_all add: normalize_defs command_allowed_def Let_def)

lemma normalize_author:
  "author (normalize b msg) = (if webhook_id msg = None then User (rm_author msg) else Webhook)"
  "is_bot_self (normalize b msg) \<longleftrightarrow> webhook_id msg = None \<and> rm_author msg = b"
  by (simp_all add: normalize_defs Let_def)

lemma normalize_ids: "message_id (normalize b msg) = rm_id msg" "channel (normalize b msg) = rm_channel msg"
  by (simp_all add: normalize_defs Let_def)

lemmas normalize_simps = normalize_addressed normalize_command_allowed normalize_author normalize_ids

section \<open>The owner id in the configuration\<close>

definition ascii_ws :: "char set" where
  "ascii_ws = char_of ` {9, 10, 11, 12, 13, 32 :: nat}"

lemma ws_not_digit:
  "list_all (\<lambda>w. w \<noteq> [] \<and> \<not> is_digit (hd w)) unicode_ws"
  "list_all (\<lambda>w. w \<noteq> [] \<and> \<not> is_digit (hd w)) (map rev unicode_ws)"
  by (simp_all add: unicode_ws_def is_digit_def)

lemma ws_ascii_unique:
  "\<forall>c \<in> ascii_ws. filter (\<lambda>w. hd w = c) unicode_ws = [[c]] \<and>
      filter (\<lambda>w. hd w = c) (map rev unicode_ws) = [[c]]"
  by (simp add: ascii_ws_def unicode_ws_def)

lemma find_hd:
  assumes "list_all (\<lambda>w. w \<noteq> []) ws" "filter (\<lambda>w. hd w = c) ws = [[c]]"
  shows "find (\<lambda>w. w \<noteq> [] \<and> starts_with w (c # s)) ws = Some [c]"
  using assms
proof (induction ws)
  case (Cons w ws)
  then show ?case by (cases w) (auto simp: starts_with_def split: if_splits)
qed simp

lemma find_ws_none:
  assumes "is_digit c" "ws = unicode_ws \<or> ws = map rev unicode_ws"
  shows "find (\<lambda>w. w \<noteq> [] \<and> starts_with w (c # s)) ws = None"
proof -
  have "list_all (\<lambda>w. w \<noteq> [] \<and> \<not> is_digit (hd w)) ws"
    using assms(2) ws_not_digit by blast
  with assms(1) show ?thesis
    by (auto simp: find_None_iff list_all_iff starts_with_iff) (metis append_eq_Cons_conv list.sel(1))
qed

lemma find_ws_some:
  assumes "c \<in> ascii_ws" "ws = unicode_ws \<or> ws = map rev unicode_ws"
  shows "find (\<lambda>w. w \<noteq> [] \<and> starts_with w (c # s)) ws = Some [c]"
proof (rule find_hd)
  show "list_all (\<lambda>w. w \<noteq> []) ws"
    using assms(2) ws_not_digit by (auto simp: list_all_iff)
  show "filter (\<lambda>w. hd w = c) ws = [[c]]"
    using assms ws_ascii_unique by blast
qed

lemma strip_ws_append:
  assumes "set sp \<subseteq> ascii_ws" "ws = unicode_ws \<or> ws = map rev unicode_ws"
  shows "strip_any ws (sp @ s) = strip_any ws s"
  using assms
proof (induction sp)
  case (Cons c sp)
  then have "strip_any ws (c # sp @ s) = strip_any ws (sp @ s)"
    by (subst strip_any.simps) (simp add: find_ws_some)
  with Cons show ?case by simp
qed simp

lemma strip_ws_digit:
  assumes "s \<noteq> []" "is_digit (hd s)" "ws = unicode_ws \<or> ws = map rev unicode_ws"
  shows "strip_any ws s = s"
proof -
  from assms(1,2) obtain c r where "s = c # r" "is_digit c" by (cases s) auto
  with assms(3) show ?thesis by (subst strip_any.simps) (simp add: find_ws_none)
qed

lemma trim_spaces:
  assumes "set sp \<subseteq> ascii_ws" "set sp' \<subseteq> ascii_ws"
    and "s \<noteq> []" "is_digit (hd s)" "is_digit (last s)"
  shows "trim (sp @ s @ sp') = s"
proof -
  have "strip_any unicode_ws (sp @ s @ sp') = s @ sp'"
    using assms by (simp add: strip_ws_append strip_ws_digit)
  moreover have "strip_any (map rev unicode_ws) (rev sp' @ rev s) = rev s"
    using assms by (simp add: strip_ws_append strip_ws_digit hd_rev)
  ultimately show ?thesis by (simp add: trim_def)
qed

section \<open>The cooldown\<close>

definition cooldown_ok :: "refusal_cooldown \<Rightarrow> bool" where
  "cooldown_ok cd \<longleftrightarrow> distinct (map fst (cd_last cd)) \<and> length (cd_last cd) \<le> MAX_TRACKED_USERS"

lemma cooldown_ok_new: "cooldown_ok (new_cooldown w)"
  by (simp add: cooldown_ok_def new_cooldown_def)

lemma filter_above_sorted_length:
  assumes "sorted ts" "k < length ts"
  shows "length (filter (\<lambda>t. ts ! k < t) ts) < length ts - k"
proof -
  have "filter (\<lambda>t. ts ! k < t) (take (Suc k) ts) = []"
    using assms by (auto simp: filter_empty_conv in_set_conv_nth linorder_not_less
        intro!: sorted_nth_mono)
  then have "filter (\<lambda>t. ts ! k < t) ts = filter (\<lambda>t. ts ! k < t) (drop (Suc k) ts)"
    by (metis append_Nil append_take_drop_id filter_append)
  also have "length \<dots> \<le> length (drop (Suc k) ts)" by (rule length_filter_le)
  also have "\<dots> < length ts - k" using assms by simp
  finally show ?thesis .
qed

lemma evict_window [simp]: "window_ms (evict cd now) = window_ms cd"
  by (simp add: evict_def Let_def)

lemma evict_subset: "set (cd_last (evict cd now)) \<subseteq> set (cd_last cd)"
  by (auto simp: evict_def Let_def)

lemma evict_distinct:
  "distinct (map fst (cd_last cd)) \<Longrightarrow> distinct (map fst (cd_last (evict cd now)))"
  by (simp add: evict_def Let_def distinct_map_fst_filter)

lemma evict_below_cap:
  assumes "length (cd_last cd) \<le> MAX_TRACKED_USERS"
  shows "length (cd_last (evict cd now)) < MAX_TRACKED_USERS"
proof -
  define live where "live = filter (\<lambda>(_, t). sat_sub now t < window_ms cd) (cd_last cd)"
  define ts where "ts = sort (map snd live)"
  let ?cut = "ts ! (length ts div 4)"
  have len: "length ts = length live" by (simp add: ts_def)
  show ?thesis
  proof (cases "length (cd_last cd) < MAX_TRACKED_USERS \<or> length live < MAX_TRACKED_USERS")
    case True
    then show ?thesis by (auto simp: evict_def Let_def live_def)
  next
    case False
    then have full: "MAX_TRACKED_USERS \<le> length live" by simp
    then have "0 < length ts" unfolding len by (rule less_le_trans [rotated]) (simp add: MAX_TRACKED_USERS_def)
    then have "length (filter (\<lambda>t. ?cut < t) ts) < length ts"
      using filter_above_sorted_length [of ts "length ts div 4"] by (simp add: ts_def)
    moreover have "length (filter (\<lambda>t. ?cut < t) ts) = length (filter (\<lambda>(_, t). ?cut < t) live)"
    proof -
      have "filter (\<lambda>t. ?cut < t) ts = sort (filter (\<lambda>t. ?cut < t) (map snd live))"
        unfolding ts_def by (rule filter_sort)
      then show ?thesis by (simp add: filter_map o_def case_prod_beta')
    qed
    moreover have "cd_last (evict cd now) = filter (\<lambda>(_, t). ?cut < t) live"
      using False by (simp add: evict_def Let_def live_def ts_def)
    moreover have "length live \<le> length (cd_last cd)" by (simp add: live_def)
    ultimately show ?thesis using assms len by simp
  qed
qed

lemma should_refuse_ok:
  assumes "cooldown_ok cd"
  shows "cooldown_ok (snd (should_refuse cd u now))"
proof (cases "map_of (cd_last cd) u")
  case None
  have "length (cd_last (evict cd now)) < MAX_TRACKED_USERS"
    using assms by (simp add: cooldown_ok_def evict_below_cap)
  then have "length (AList.update u now (cd_last (evict cd now))) \<le> MAX_TRACKED_USERS"
    using length_update_le [of u now "cd_last (evict cd now)"] by simp
  with None assms show ?thesis
    by (simp add: should_refuse_def Let_def cooldown_ok_def evict_distinct distinct_update)
next
  case (Some t)
  then have "u \<in> fst ` set (cd_last cd)" by (metis map_of_SomeD image_eqI fst_conv)
  with Some assms show ?thesis
    by (auto simp: should_refuse_def cooldown_ok_def length_update_mem distinct_update)
qed

lemma should_refuse_window [simp]: "window_ms (snd (should_refuse cd u now)) = window_ms cd"
  by (auto simp: should_refuse_def Let_def split: option.split)

lemma decide_ok: "cooldown_ok cd \<Longrightarrow> cooldown_ok (snd (decide a cd ev now))"
  by (simp add: decide_cooldown should_refuse_ok)

lemma decide_window [simp]: "window_ms (snd (decide a cd ev now)) = window_ms cd"
  by (simp add: decide_cooldown)

text \<open>A sequence of messages through \<open>decide\<close>, each with its clock reading.\<close>

fun decide_run ::
  "owner_auth \<Rightarrow> refusal_cooldown \<Rightarrow> (message_event \<times> u64) list \<Rightarrow> action list \<times> refusal_cooldown" where
  "decide_run a cd [] = ([], cd)"
| "decide_run a cd ((ev, now) # evs) =
     (case decide a cd ev now of
        (act, cd') \<Rightarrow> (case decide_run a cd' evs of (acts, cd'') \<Rightarrow> (act # acts, cd'')))"

lemma decide_run_length [simp]: "length (fst (decide_run a cd evs)) = length evs"
  by (induction a cd evs rule: decide_run.induct) (auto split: prod.splits)

lemma decide_run_ok: "cooldown_ok cd \<Longrightarrow> cooldown_ok (snd (decide_run a cd evs))"
proof (induction a cd evs rule: decide_run.induct)
  case (2 a cd ev now evs)
  then have "cooldown_ok (snd (decide a cd ev now))" by (simp add: decide_ok)
  with 2 show ?case by (auto split: prod.splits)
qed simp

text \<open>
  While the map is below its cap nothing is evicted: the recorded time of a user moves only
  when that user is refused again, and then by at least the window.
\<close>

definition room_for :: "refusal_cooldown \<Rightarrow> u64 set \<Rightarrow> bool" where
  "room_for cd us \<longleftrightarrow>
     distinct (map fst (cd_last cd)) \<and> finite us \<and>
     length (cd_last cd) + card (us - fst ` set (cd_last cd)) \<le> MAX_TRACKED_USERS"

lemma room_for_no_evict:
  assumes "room_for cd us" "u \<in> us" "map_of (cd_last cd) u = None"
  shows "evict cd now = cd"
proof -
  have "u \<in> us - fst ` set (cd_last cd)" using assms by (simp add: map_of_eq_None_iff)
  then have "0 < card (us - fst ` set (cd_last cd))"
    using assms(1) by (metis card_gt_0_iff empty_iff finite_Diff room_for_def)
  then show ?thesis using assms(1) by (simp add: evict_def room_for_def)
qed

lemma should_refuse_room:
  assumes "room_for cd us" "u \<in> us"
  shows "room_for (snd (should_refuse cd u now)) us"
    and "map_of (cd_last (snd (should_refuse cd u now))) =
           (if fst (should_refuse cd u now) then (map_of (cd_last cd))(u \<mapsto> now) else map_of (cd_last cd))"
proof -
  have fin: "finite us" "distinct (map fst (cd_last cd))"
    using assms by (simp_all add: room_for_def)
  have keys: "fst ` set (AList.update u now (cd_last cd)) = insert u (fst ` set (cd_last cd))"
    by (simp add: dom_update)
  show "room_for (snd (should_refuse cd u now)) us"
  proof (cases "map_of (cd_last cd) u")
    case None
    then have out: "u \<notin> fst ` set (cd_last cd)" by (simp add: map_of_eq_None_iff)
    have "card (us - insert u (fst ` set (cd_last cd))) = card (us - fst ` set (cd_last cd)) - 1"
      using out assms(2) fin
      by (metis Diff_insert card_Diff_singleton DiffI)
    moreover have "0 < card (us - fst ` set (cd_last cd))"
      using out assms(2) fin by (metis DiffI card_gt_0_iff empty_iff finite_Diff)
    moreover have "length (AList.update u now (cd_last cd)) \<le> Suc (length (cd_last cd))"
      by (rule length_update_le)
    ultimately show ?thesis
      using None assms fin room_for_no_evict [OF assms None]
      by (simp add: should_refuse_def room_for_def keys distinct_update)
  next
    case (Some t)
    then have mem: "u \<in> fst ` set (cd_last cd)" by (metis map_of_SomeD image_eqI fst_conv)
    then show ?thesis using Some assms fin
      by (auto simp: should_refuse_def room_for_def keys distinct_update length_update_mem insert_absorb)
  qed
  show "map_of (cd_last (snd (should_refuse cd u now))) =
           (if fst (should_refuse cd u now) then (map_of (cd_last cd))(u \<mapsto> now) else map_of (cd_last cd))"
    using room_for_no_evict [OF assms]
    by (auto simp: should_refuse_def Let_def update_conv split: option.split)
qed

lemma should_refuse_gap:
  "map_of (cd_last cd) u = Some t \<Longrightarrow> fst (should_refuse cd u now) \<Longrightarrow> window_ms cd \<le> sat_sub now t"
  by (auto simp: should_refuse_def split: if_splits)

lemma sat_sub_trans:
  assumes "w \<le> sat_sub b a" "w \<le> sat_sub c b"
  shows "w \<le> sat_sub c a"
  using assms by (simp add: word_le_nat_alt unat_sat_sub)

lemma later_refusal_gap:
  assumes "room_for cd us" "\<And>ev now. (ev, now) \<in> set evs \<Longrightarrow> refusal_key ev \<in> us"
    and "map_of (cd_last cd) u = Some t" "j < length evs"
    and "fst (decide_run a cd evs) ! j = ActRefuse" "refusal_key (fst (evs ! j)) = u"
  shows "window_ms cd \<le> sat_sub (snd (evs ! j)) t"
  using assms
proof (induction a cd evs arbitrary: j t rule: decide_run.induct)
  case (2 a cd ev now evs)
  obtain act cd' where d: "decide a cd ev now = (act, cd')" by (cases "decide a cd ev now")
  have cd': "cd' = snd (decide a cd ev now)" and act: "act = fst (decide a cd ev now)"
    by (simp_all add: d)
  have in_us: "refusal_key ev \<in> us" by (rule "2.prems"(2) [of ev now]) simp
  have IH: "\<lbrakk>map_of (cd_last cd') u = Some t'; room_for cd' us; i < length evs;
      fst (decide_run a cd' evs) ! i = ActRefuse; refusal_key (fst (evs ! i)) = u\<rbrakk>
      \<Longrightarrow> window_ms cd' \<le> sat_sub (snd (evs ! i)) t'" for i t'
    using "2.IH" [OF d [symmetric]] "2.prems"(2) by (metis list.set_intros(2))
  have room': "room_for cd' us"
    using 2 in_us by (auto simp: cd' decide_cooldown should_refuse_room)
  have win: "window_ms cd' = window_ms cd" by (simp add: cd')
  show ?case
  proof (cases j)
    case 0
    with 2 d have "fst (decide a cd ev now) = ActRefuse" by (auto split: prod.splits)
    with 2 0 show ?thesis by (auto simp: decide_Refuse_iff intro: should_refuse_gap)
  next
    case (Suc i)
    have *: "fst (decide_run a cd' evs) ! i = ActRefuse"
      using 2 d Suc by (auto split: prod.splits)
    show ?thesis
    proof (cases "act = ActRefuse \<and> refusal_key ev = u")
      case True
      then have m: "map_of (cd_last cd') u = Some now" and g: "window_ms cd \<le> sat_sub now t"
        using 2 in_us by (auto simp: cd' act decide_Refuse_iff decide_cooldown should_refuse_room
            intro: should_refuse_gap)
      have "window_ms cd' \<le> sat_sub (snd (evs ! i)) now"
        using 2 Suc * room' m by (intro IH) auto
      with g show ?thesis by (simp add: win Suc) (rule sat_sub_trans)
    next
      case False
      then have m: "map_of (cd_last cd') u = Some t"
        using 2 in_us by (auto simp: cd' act decide_Refuse_iff decide_cooldown should_refuse_room)
      have "window_ms cd' \<le> sat_sub (snd (evs ! i)) t"
        using 2 Suc * room' m by (intro IH) auto
      then show ?thesis by (simp add: win Suc)
    qed
  qed
qed simp

section \<open>The trail interface\<close>

text \<open>
  What the handler relies on: a sink never rewrites what it recorded (\<open>trail_sink\<close>), and a
  recording sink keeps every entry, in order (\<open>recording_sink\<close>).
\<close>

locale trail_sink =
  fixes record_entry :: "'t \<Rightarrow> trail_entry \<Rightarrow> 't"
    and entries :: "'t \<Rightarrow> trail_entry list"
  assumes keeps: "prefix (entries t) (entries (record_entry t e))"
begin

lemma handle_event_prefix:
  "prefix (entries (trail h)) (entries (trail (handle_event record_entry h e)))"
  by (auto simp: handle_event_def on_message_def on_interaction_def Let_def keeps
      split: prod.split gateway_event.split option.split)

lemma handle_events_prefix:
  "prefix (entries (trail h)) (entries (trail (handle_events record_entry h es)))"
  unfolding handle_events_def
  by (induction es arbitrary: h) (auto intro: handle_event_prefix prefix_order.trans)

end

definition event_entries :: "'t handler \<Rightarrow> gateway_event \<times> u64 \<Rightarrow> trail_entry list" where
  "event_entries h e =
     (case e of
        (MessageCreate m, now) \<Rightarrow>
          let ev = normalize (bot_id h) m
          in [for_message now (authorize_author (auth h) (author ev)) (author ev) (channel ev)
                (fst (decide (auth h) (cooldown h) ev now))]
      | (InteractionCreate i, now) \<Rightarrow>
          (case interaction_of i of
             None \<Rightarrow> []
           | Some ev \<Rightarrow>
               [\<lparr>at_ms = now, te_principal = authorize_user (auth h) (ie_user ev),
                 actor = Some (ie_user ev), te_channel = ie_channel ev,
                 te_outcome = (case route_interaction (auth h) ev of
                    Allow \<Rightarrow> OutInteractionAllowed | Deny \<Rightarrow> OutInteractionDenied)\<rparr>]))"

lemma handle_event_fields [simp]:
  "auth (handle_event rec h e) = auth h"
  "bot_id (handle_event rec h e) = bot_id h"
  by (auto simp: handle_event_def on_message_def on_interaction_def Let_def
      split: prod.split gateway_event.split option.split)

lemma handle_events_auth [simp]: "auth (handle_events rec h es) = auth h"
  unfolding handle_events_def by (induction es arbitrary: h) auto

lemma handle_events_Cons [simp]:
  "handle_events rec h (e # es) = handle_events rec (handle_event rec h e) es"
  "handle_events rec h [] = h"
  by (simp_all add: handle_events_def)

definition recognised :: "gateway_event \<times> u64 \<Rightarrow> bool" where
  "recognised e \<longleftrightarrow>
     (case fst e of MessageCreate _ \<Rightarrow> True | InteractionCreate i \<Rightarrow> interaction_of i \<noteq> None)"

locale recording_sink =
  fixes record_entry :: "'t \<Rightarrow> trail_entry \<Rightarrow> 't"
    and entries :: "'t \<Rightarrow> trail_entry list"
  assumes appends: "entries (record_entry t e) = entries t @ [e]"
begin

lemma handle_event_entries:
  "entries (trail (handle_event record_entry h e)) = entries (trail h) @ event_entries h e"
  by (auto simp: handle_event_def on_message_def on_interaction_def event_entries_def Let_def appends
      split: prod.split gateway_event.split option.split)

lemma handle_events_count:
  "length (entries (trail (handle_events record_entry h es))) =
     length (entries (trail h)) + length (filter recognised es)"
proof (induction es arbitrary: h)
  case (Cons e es)
  have "length (event_entries h e) = (if recognised e then 1 else 0)"
    by (auto simp: event_entries_def recognised_def Let_def
        split: prod.split gateway_event.split option.split)
  with Cons show ?case by (simp add: handle_event_entries)
qed simp

lemma handle_events_all:
  assumes "\<And>(h' :: 't handler) e. auth h' = auth h \<Longrightarrow> \<forall>x \<in> set (event_entries h' e). Q x"
    and "\<forall>x \<in> set (entries (trail h)). Q x"
  shows "\<forall>x \<in> set (entries (trail (handle_events record_entry h es))). Q x"
  using assms
proof (induction es arbitrary: h)
  case (Cons e es)
  show ?case
    unfolding handle_events_Cons
  proof (rule Cons.IH)
    show "\<forall>x \<in> set (entries (trail (handle_event record_entry h e))). Q x"
      using Cons.prems(1) [of h e] Cons.prems(2) by (auto simp: handle_event_entries)
  qed (use Cons.prems(1) in auto)
qed simp

end

sublocale recording_sink \<subseteq> trail_sink
  by unfold_locales (simp add: appends)

interpretation im: recording_sink in_memory_record in_memory_entries
  by unfold_locales (simp add: in_memory_record_def in_memory_entries_def)

interpretation nt: trail_sink null_record "\<lambda>_. []"
  by unfold_locales simp

text \<open>An entry is sound when what it grants was granted to the owner, and to nobody else.\<close>

definition sound_entry :: "owner_auth \<Rightarrow> trail_entry \<Rightarrow> bool" where
  "sound_entry a e \<longleftrightarrow>
     (case te_outcome e of
        OutCommand _ \<Rightarrow> actor e \<noteq> None \<and> owner_id a = actor e \<and> te_principal e = Owner
      | OutInteractionAllowed \<Rightarrow> actor e \<noteq> None \<and> owner_id a = actor e \<and> te_principal e = Owner
      | OutRefused \<Rightarrow> te_principal e = OtherPrincipal \<and> (actor e \<noteq> None \<longrightarrow> owner_id a \<noteq> actor e)
      | OutInteractionDenied \<Rightarrow> te_principal e = OtherPrincipal \<and> owner_id a \<noteq> actor e
      | _ \<Rightarrow> True)"

lemma event_entries_sound: "x \<in> set (event_entries h e) \<Longrightarrow> sound_entry (auth h) x"
proof -
  assume x: "x \<in> set (event_entries h e)"
  obtain g now where e: "e = (g, now)" by (cases e)
  show ?thesis
  proof (cases g)
    case (MessageCreate m)
    let ?ev = "normalize (bot_id h) m"
    let ?act = "fst (decide (auth h) (cooldown h) ?ev now)"
    have x': "x = for_message now (authorize_author (auth h) (author ?ev)) (author ?ev) (channel ?ev) ?act"
      using x by (simp add: e MessageCreate event_entries_def Let_def)
    show ?thesis
    proof (cases ?act)
      case ActRefuse
      then have "authorize_author (auth h) (author ?ev) = OtherPrincipal"
        by (simp add: decide_Refuse_iff route_message_Refuse_iff)
      then show ?thesis
        by (auto simp: x' ActRefuse for_message_def sound_entry_def authorize_iffs split: author_kind.splits)
    next
      case (ActCommand i)
      then have "authorize_author (auth h) (author ?ev) = Owner"
        by (simp add: decide_Command_iff route_message_Command_iff)
      then show ?thesis
        by (auto simp: x' ActCommand for_message_def sound_entry_def authorize_iffs split: author_kind.splits)
    qed (auto simp: x' for_message_def sound_entry_def)
  next
    case (InteractionCreate i)
    then show ?thesis using x
      by (auto simp: e event_entries_def sound_entry_def route_interaction_def authorize_iffs
          split: option.splits principal.splits)
  qed
qed

section \<open>Properties\<close>

text \<open>
  The documented default-deny of forums and unknown channels stops at the guard: the adapter takes
  every guild channel for a text channel, so the owner's mention of the bot in a forum post is a
  command.
\<close>

lemma forum_post_commands:
  "fst (snd (on_message null_record (new_handler \<lparr>owner_id = Some 7\<rparr> 1 ())
     \<lparr>webhook_id = None, rm_author = 7, guild_id = Some 3, mentions = [1], referenced_author = None,
      rm_channel = 4, rm_surface = Forum, rm_id = 9, rm_content = []\<rparr> 0)) = ActCommand 9"
  by code_simp

text \<open>
  C1. The command plane serves exactly the owner. The guard makes an event a command precisely when
  it is not the bot's own, its author is the user configured as the owner (so no webhook, system
  message or integration), it is addressed to the bot, and its channel is a direct message, a guild
  text channel or a thread: forums and unknown channels are denied. The command is bound to that
  event's message id. Through the gateway adapter, a message becomes a command precisely when it is
  not a webhook post, not the bot's own, its author is the owner, and it addresses the bot; there
  the channel's real type plays no part, for the adapter classifies every guild channel as a
  text channel (\<open>forum_post_commands\<close>).
\<close>

theorem command_iff_owner:
  "(fst (decide a cd ev now) = ActCommand m \<longleftrightarrow>
     \<not> is_bot_self ev \<and> (\<exists>u. author ev = User u \<and> owner_id a = Some u) \<and>
     addressed ev \<in> {Direct, Mention, Reply} \<and> channel_kind ev \<in> {Dm, GuildText, Thread} \<and>
     m = message_id ev) \<and>
   (fst (snd (on_message rec h msg now)) = ActCommand m \<longleftrightarrow>
     webhook_id msg = None \<and> rm_author msg \<noteq> bot_id h \<and>
     owner_id (auth h) = Some (rm_author msg) \<and>
     (guild_id msg = None \<or> referenced_author msg = Some (bot_id h) \<or> bot_id h \<in> set (mentions msg)) \<and>
     m = rm_id msg)"
proof
  have "authorize_author a x = Owner \<longleftrightarrow> (\<exists>u. x = User u \<and> owner_id a = Some u)" for x
    by (cases x) (simp_all add: authorize_iffs)
  moreover have "is_addressed y \<longleftrightarrow> y \<in> {Direct, Mention, Reply}" for y
    by (cases y) (simp_all add: is_addressed_def)
  moreover have "command_allowed k \<longleftrightarrow> k \<in> {Dm, GuildText, Thread}" for k
    by (cases k) (simp_all add: command_allowed_def)
  ultimately show "fst (decide a cd ev now) = ActCommand m \<longleftrightarrow>
     \<not> is_bot_self ev \<and> (\<exists>u. author ev = User u \<and> owner_id a = Some u) \<and>
     addressed ev \<in> {Direct, Mention, Reply} \<and> channel_kind ev \<in> {Dm, GuildText, Thread} \<and>
     m = message_id ev"
    by (simp only: decide_Command_iff route_message_Command_iff)
  have "fst (snd (on_message rec h msg now)) =
      fst (decide (auth h) (cooldown h) (normalize (bot_id h) msg) now)"
    by (simp add: on_message_def Let_def split: prod.split)
  then show "fst (snd (on_message rec h msg now)) = ActCommand m \<longleftrightarrow>
     webhook_id msg = None \<and> rm_author msg \<noteq> bot_id h \<and>
     owner_id (auth h) = Some (rm_author msg) \<and>
     (guild_id msg = None \<or> referenced_author msg = Some (bot_id h) \<or> bot_id h \<in> set (mentions msg)) \<and>
     m = rm_id msg"
    by (auto simp: decide_Command_iff route_message_Command_iff normalize_simps authorize_iffs)
qed

text \<open>
  C2. Reading the owner id from the configuration is the inverse of printing it: surrounding
  ASCII white space is ignored, and the id zero configures nobody.
\<close>

theorem owner_config_roundtrip:
  assumes "set sp \<subseteq> ascii_ws" "set sp' \<subseteq> ascii_ws"
  shows "from_config (Some (sp @ dec (unat w) @ sp')) =
    \<lparr>owner_id = (if w = 0 then None else Some w)\<rparr>"
proof -
  have "trim (sp @ dec (unat w) @ sp') = dec (unat w)"
    using assms by (intro trim_spaces) (simp_all add: hd_dec_digit last_dec_digit)
  then show ?thesis by (simp add: from_config_def)
qed

theorem owner_config_roundtrip_witness:
  "from_config (Some (replicate 2 (char_of (32 :: nat)) @ dec (unat (877642945996673126 :: u64)) @
     [char_of (10 :: nat)])) = \<lparr>owner_id = Some 877642945996673126\<rparr>"
proof -
  have h: "set (replicate 2 (char_of (32 :: nat))) \<subseteq> ascii_ws" "set [char_of (10 :: nat)] \<subseteq> ascii_ws"
    by (simp_all add: ascii_ws_def numeral_2_eq_2)
  show ?thesis
    using owner_config_roundtrip [OF h, of "877642945996673126"] by simp
qed

text \<open>
  Refusals are rate limited: over any sequence of messages, with any clock readings, two
  refusals sent under the same cooldown key are at least one window apart, as long as the map
  has room for the keys of the sequence (beyond its cap the map forgets old entries).
\<close>

lemma refusals_spaced:
  assumes "room_for cd (set (map (\<lambda>(ev, _). refusal_key ev) evs))"
    and "i < j" "j < length evs"
    and "fst (decide_run a cd evs) ! i = ActRefuse" "fst (decide_run a cd evs) ! j = ActRefuse"
    and "refusal_key (fst (evs ! i)) = refusal_key (fst (evs ! j))"
  shows "window_ms cd \<le> sat_sub (snd (evs ! j)) (snd (evs ! i))"
proof -
  define us where "us = set (map (\<lambda>(ev, _). refusal_key ev) evs)"
  have room: "room_for cd us" and keys: "\<And>ev now. (ev, now) \<in> set evs \<Longrightarrow> refusal_key ev \<in> us"
    using assms(1) by (force simp: us_def)+
  from room keys assms(2-) show ?thesis
  proof (induction a cd evs arbitrary: i j rule: decide_run.induct)
    case (2 a cd ev now evs)
    obtain act cd' where d: "decide a cd ev now = (act, cd')" by (cases "decide a cd ev now")
    have cd': "cd' = snd (decide a cd ev now)" and act: "act = fst (decide a cd ev now)"
      by (simp_all add: d)
    have in_us: "refusal_key ev \<in> us" by (rule "2.prems"(2) [of ev now]) simp
    have rest: "\<And>e n. (e, n) \<in> set evs \<Longrightarrow> refusal_key e \<in> us"
      using "2.prems"(2) by (metis list.set_intros(2))
    have room': "room_for cd' us"
      using 2 in_us by (auto simp: cd' decide_cooldown should_refuse_room)
    have win: "window_ms cd' = window_ms cd" by (simp add: cd')
    obtain j' where j: "j = Suc j'" using 2 by (cases j) auto
    have later: "fst (decide_run a cd' evs) ! j' = ActRefuse"
      using 2 d j by (auto split: prod.splits)
    show ?case
    proof (cases i)
      case 0
      then have r: "act = ActRefuse" using 2 d by (auto split: prod.splits)
      then have m: "map_of (cd_last cd') (refusal_key ev) = Some now"
        using 2 in_us by (auto simp: cd' act decide_Refuse_iff decide_cooldown should_refuse_room)
      have "window_ms cd' \<le> sat_sub (snd (evs ! j')) now"
      proof (rule later_refusal_gap [OF room' rest m])
        show "fst (decide_run a cd' evs) ! j' = ActRefuse" by (rule later)
        show "j' < length evs" using "2.prems"(4) j by simp
        show "refusal_key (fst (evs ! j')) = refusal_key ev" using "2.prems"(7) j 0 by simp
      qed
      then show ?thesis using 0 j by (simp add: win)
    next
      case (Suc i')
      then have "fst (decide_run a cd' evs) ! i' = ActRefuse"
        using 2 d by (auto split: prod.splits)
      then have "window_ms cd' \<le> sat_sub (snd (evs ! j')) (snd (evs ! i'))"
        using "2.prems"(3,4,7) Suc j by (intro "2.IH" [OF d [symmetric] room' rest]) (simp_all add: later)
      then show ?thesis using Suc j by (simp add: win)
    qed
  qed simp
qed

definition flood :: "u64 list \<Rightarrow> (message_event \<times> u64) list" where
  "flood ts = map (\<lambda>t. (\<lparr>author = Webhook, is_bot_self = False, channel = 7,
     channel_kind = GuildText, message_id = 1, content = ''x'', addressed = Mention,
     edited = False\<rparr>, t)) ts"

text \<open>
  The cooldown's memory is bounded: whatever messages arrive, the map never holds two
  entries for one key and never more than \<open>MAX_TRACKED_USERS\<close> entries.
\<close>

lemma cooldown_bounded:
  "length (cd_last (snd (decide_run a (new_cooldown w) evs))) \<le> MAX_TRACKED_USERS \<and>
   distinct (map fst (cd_last (snd (decide_run a (new_cooldown w) evs))))"
  using decide_run_ok [OF cooldown_ok_new, of a w evs] by (simp add: cooldown_ok_def)

text \<open>
  When the map is full of live entries of one and the same instant, making room drops every
  one of them, not only the oldest quarter.
\<close>

lemma evict_may_drop_all:
  assumes "MAX_TRACKED_USERS \<le> length (cd_last cd)"
    and "\<forall>(u, t) \<in> set (cd_last cd). t = tt" "sat_sub now tt < window_ms cd"
  shows "cd_last (evict cd now) = []"
proof -
  have live: "filter (\<lambda>(_, t). sat_sub now t < window_ms cd) (cd_last cd) = cd_last cd"
    using assms(2,3) by (auto simp: filter_id_conv)
  define ts where "ts = sort (map snd (cd_last cd))"
  have pos: "0 < length ts"
    using assms(1) by (auto simp: ts_def MAX_TRACKED_USERS_def)
  have "ts ! (length ts div 4) \<in> set ts" by (rule nth_mem) (use pos in simp)
  then have "ts ! (length ts div 4) = tt" using assms(2) by (auto simp: ts_def)
  then show ?thesis
    using assms by (auto simp: evict_def Let_def live ts_def filter_empty_conv)
qed

text \<open>
  The audit trail is complete and truthful: over any run of gateway events the in-memory
  trail keeps what it held, gains exactly one entry per message and per recognised interaction,
  and every entry that grants something names the configured owner while every refusal and
  denial names somebody else.
\<close>

lemma trail_complete_and_sound:
  "let t = in_memory_entries (trail (handle_events in_memory_record (new_handler a self_id []) es))
   in length t = length (filter recognised es) \<and> list_all (sound_entry a) t \<and>
      prefix t (in_memory_entries (trail
        (handle_events in_memory_record (handle_events in_memory_record (new_handler a self_id []) es) es')))"
proof -
  let ?h = "new_handler a self_id [] :: in_memory_trail handler"
  have "\<forall>e \<in> set (in_memory_entries (trail (handle_events in_memory_record ?h es))). sound_entry a e"
    by (rule im.handle_events_all)
      (auto dest: event_entries_sound simp: new_handler_def in_memory_entries_def)
  then show ?thesis
    by (simp add: Let_def list_all_iff im.handle_events_count im.handle_events_prefix)
       (simp add: new_handler_def in_memory_entries_def)
qed

end
