(* ===== verification/CapsuleManifest.thy ===== *)
theory CapsuleManifest
  imports Prelude
begin

text \<open>
  The typed capsule manifest (\<open>agent/core/src/capsule/manifest.rs\<close>): its records and
  enumerations, with the role order the code derives.
\<close>

section \<open>Enumerations\<close>

datatype role = Operator | Reviewer | ComplianceOfficer | SecurityOfficer | Auditor

text \<open>\<open>Role\<close> derives \<open>Ord\<close>: the declaration order.\<close>

primrec role_index :: "role \<Rightarrow> nat" where
  "role_index Operator = 0"
| "role_index Reviewer = 1"
| "role_index ComplianceOfficer = 2"
| "role_index SecurityOfficer = 3"
| "role_index Auditor = 4"

lemma role_index_inject: "role_index r = role_index s \<longleftrightarrow> r = s"
  by (cases r; cases s) simp_all

instantiation role :: linorder
begin

definition less_eq_role :: "role \<Rightarrow> role \<Rightarrow> bool" where
  "r \<le> s \<longleftrightarrow> role_index r \<le> role_index s"

definition less_role :: "role \<Rightarrow> role \<Rightarrow> bool" where
  "r < s \<longleftrightarrow> role_index r < role_index s"

instance
  by standard (auto simp: less_eq_role_def less_role_def role_index_inject)

end

lemma UNIV_role: "UNIV = {Operator, Reviewer, ComplianceOfficer, SecurityOfficer, Auditor}"
proof -
  have "r \<in> {Operator, Reviewer, ComplianceOfficer, SecurityOfficer, Auditor}" for r
    by (cases r) simp_all
  then show ?thesis by blast
qed

lemma finite_roles [simp]: "finite (A :: role set)"
  by (rule finite_subset [OF subset_UNIV]) (simp add: UNIV_role)

datatype risk_tier = LowTier | MediumTier | HighTier | CriticalTier

datatype data_class = Public | Cui | Phi | Ferpa | FerpaDirectory | FerpaRestricted | Itar

datatype network_policy = NetNone | BrokerOnly | EgressAllowed

datatype signing_tier = Bundled | Managed | Workspace

section \<open>The manifest\<close>

record capsule_metadata =
  cm_name :: string
  cm_version :: string
  content_hash :: string

record capability_set =
  network :: network_policy
  filesystem :: "string list"
  chain_calls :: "string list"
  subagent_spawn :: bool
  network_allow :: "string list"

record data_class_decl =
  reads :: "data_class list"
  writes :: "data_class list"
  emits :: "data_class list"

record risk_decl =
  risk_tier :: risk_tier
  required_roles :: "role list"
  break_glass_eligible :: bool

record overlay_decl =
  certified :: "string list"
  not_certified :: "string list"

record gate_step =
  gs_step :: string
  gs_role :: role

record procedure_decl =
  gates :: "gate_step list"

record provenance_decl =
  publisher :: string
  build_reproducible :: bool
  agentile_sprint :: string
  tla_spec :: string

record signing_decl =
  sd_tier :: signing_tier

record manifest =
  capsule :: capsule_metadata
  capability :: capability_set
  data_class :: data_class_decl
  risk :: risk_decl
  overlay :: overlay_decl
  procedure :: procedure_decl
  provenance :: provenance_decl
  signing :: signing_decl

end
