(* ===== verification/Signing.thy ===== *)
theory Signing
  imports CapsuleManifest
begin

text \<open>
  Roles, quorums, attested signatures and the signer roster
  (\<open>agent/core/src/hitl/roles.rs\<close>, \<open>quorum.rs\<close>, \<open>signing.rs\<close>). The signature scheme and the
  hash are code outside the repository: the record \<open>crypto\<close> of their operations is a parameter
  of every definition that uses them, and nothing is assumed about it.
\<close>

section \<open>Roles\<close>

definition is_conflict :: "role \<Rightarrow> role \<Rightarrow> bool" where
  "is_conflict a b \<longleftrightarrow>
     (a, b) = (ComplianceOfficer, SecurityOfficer) \<or> (a, b) = (SecurityOfficer, ComplianceOfficer)"

definition can_approve :: "role \<Rightarrow> bool" where
  "can_approve r \<longleftrightarrow> r \<noteq> Auditor"

section \<open>Quorums\<close>

datatype quorum =
    AutoApprove
  | OneOf "role set"
  | NofM u8 "role set"
  | Multiset "role set"

definition for_tier :: "risk_tier \<Rightarrow> role list \<Rightarrow> quorum" where
  "for_tier tier manifest_required =
     (case tier of
        LowTier \<Rightarrow> AutoApprove
      | MediumTier \<Rightarrow> OneOf (set manifest_required)
      | HighTier \<Rightarrow> NofM 2 (set manifest_required)
      | CriticalTier \<Rightarrow> Multiset {SecurityOfficer, ComplianceOfficer, Reviewer})"

definition satisfied_by :: "quorum \<Rightarrow> role list \<Rightarrow> bool" where
  "satisfied_by q signed_roles =
     (let usable = filter can_approve signed_roles
      in case q of
           AutoApprove \<Rightarrow> True
         | OneOf rs \<Rightarrow> list_ex (\<lambda>r. r \<in> rs) usable
         | NofM n m \<Rightarrow> unat n \<le> card (set (filter (\<lambda>r. r \<in> m) usable))
         | Multiset required \<Rightarrow> required \<subseteq> set usable)"

section \<open>Attested signatures\<close>

record crypto =
  vk_valid :: "bytes \<Rightarrow> bool"
  vk_verify :: "bytes \<Rightarrow> bytes \<Rightarrow> bytes \<Rightarrow> bool"
  sha256 :: "bytes \<Rightarrow> bytes"

record signer =
  signer_id :: string
  role :: role

record attested_signature =
  signer :: signer
  signature_bytes :: bytes
  pubkey :: bytes

text \<open>\<open>format!("{b:02x}")\<close> over the digest.\<close>

definition hex_digit :: "nat \<Rightarrow> char" where
  "hex_digit n = char_of (if n < 10 then 48 + n else 87 + n)"

definition hex_encode :: "bytes \<Rightarrow> string" where
  "hex_encode bs = concat (map (\<lambda>b. [hex_digit (unat b div 16), hex_digit (unat b mod 16)]) bs)"

definition signer_id_from_pubkey :: "crypto \<Rightarrow> bytes \<Rightarrow> string" where
  "signer_id_from_pubkey cr pk = hex_encode (sha256 cr pk)"

datatype attestation_error =
    BadPubkey
  | BadSignatureLength nat
  | DoesNotVerify
  | IdMismatch string string

definition SIGNATURE_SIZE :: nat where "SIGNATURE_SIZE = 64"

definition verify_attestation :: "crypto \<Rightarrow> bytes \<Rightarrow> attested_signature \<Rightarrow> attestation_error + unit" where
  "verify_attestation cr payload sig =
     (if \<not> vk_valid cr (pubkey sig) then Inl BadPubkey
      else if length (signature_bytes sig) \<noteq> SIGNATURE_SIZE
      then Inl (BadSignatureLength (length (signature_bytes sig)))
      else if \<not> vk_verify cr (pubkey sig) payload (signature_bytes sig) then Inl DoesNotVerify
      else let expected_id = signer_id_from_pubkey cr (pubkey sig)
           in if signer_id (signer sig) \<noteq> expected_id
              then Inl (IdMismatch (signer_id (signer sig)) expected_id)
              else Inr ())"

section \<open>The roster\<close>

type_synonym signer_roster = "bytes \<Rightarrow> role \<Rightarrow> bool"

type_synonym static_signer_roster = "bytes \<rightharpoonup> role set"

definition new_roster :: static_signer_roster where
  "new_roster = (\<lambda>_. None)"

definition authorize :: "static_signer_roster \<Rightarrow> bytes \<Rightarrow> role \<Rightarrow> static_signer_roster" where
  "authorize m pk r = m(pk \<mapsto> insert r (case m pk of None \<Rightarrow> {} | Some rs \<Rightarrow> rs))"

definition is_authorized :: "static_signer_roster \<Rightarrow> signer_roster" where
  "is_authorized m pk r \<longleftrightarrow> (case m pk of None \<Rightarrow> False | Some rs \<Rightarrow> r \<in> rs)"

text \<open>\<open>dev_allowed\<close> is the build flag; a release build has it off.\<close>

definition signer_is_authorized :: "signer_roster option \<Rightarrow> bytes \<Rightarrow> role \<Rightarrow> bool \<Rightarrow> bool" where
  "signer_is_authorized roster pk r dev_allowed \<longleftrightarrow>
     (case roster of Some ro \<Rightarrow> ro pk r | None \<Rightarrow> dev_allowed)"

section \<open>The authority interface\<close>

text \<open>
  What the approval queue and the break-glass registry rely on when they accept a signer: a check
  of an attestation over a payload, an enrolment test, and the binding of the signer id to the key.
\<close>

locale signer_authority =
  fixes verify :: "bytes \<Rightarrow> attested_signature \<Rightarrow> attestation_error + unit"
    and enrolled :: "bytes \<Rightarrow> role \<Rightarrow> bool"
    and id_of :: "bytes \<Rightarrow> string"
  assumes id_bound: "verify payload s = Inr () \<Longrightarrow> signer_id (signer s) = id_of (pubkey s)"
begin

text \<open>A signer the authority accepts for a payload.\<close>

definition accepted :: "bytes \<Rightarrow> attested_signature \<Rightarrow> bool" where
  "accepted payload s \<longleftrightarrow> verify payload s = Inr () \<and> enrolled (pubkey s) (role (signer s))"

lemma accepted_id: "accepted payload s \<Longrightarrow> signer_id (signer s) = id_of (pubkey s)"
  unfolding accepted_def using id_bound by blast

lemma distinct_ids_distinct_keys:
  assumes "\<forall>s \<in> set ss. accepted payload s" "distinct (map (signer_id \<circ> signer) ss)"
  shows "distinct (map pubkey ss)"
proof -
  have "map (signer_id \<circ> signer) ss = map id_of (map pubkey ss)"
    using assms(1) by (auto intro: accepted_id)
  with assms(2) show ?thesis by (metis distinct_map)
qed

end

lemma verify_attestation_Inr_iff:
  "verify_attestation cr payload s = Inr () \<longleftrightarrow>
     vk_valid cr (pubkey s) \<and> length (signature_bytes s) = SIGNATURE_SIZE \<and>
     vk_verify cr (pubkey s) payload (signature_bytes s) \<and>
     signer_id (signer s) = signer_id_from_pubkey cr (pubkey s)"
  by (auto simp: verify_attestation_def Let_def)

interpretation ed: signer_authority "verify_attestation cr"
    "\<lambda>pk r. signer_is_authorized roster pk r dev" "signer_id_from_pubkey cr"
  for cr roster dev
  by unfold_locales (simp add: verify_attestation_Inr_iff)

section \<open>Quorum lemmas\<close>

lemma satisfied_by_mono:
  assumes "set rs \<subseteq> set rs'" "satisfied_by q rs"
  shows "satisfied_by q rs'"
proof (cases q)
  case (NofM n m)
  have "set (filter (\<lambda>r. r \<in> m) (filter can_approve rs)) \<subseteq> set (filter (\<lambda>r. r \<in> m) (filter can_approve rs'))"
    using assms(1) by auto
  then have "card (set (filter (\<lambda>r. r \<in> m) (filter can_approve rs)))
      \<le> card (set (filter (\<lambda>r. r \<in> m) (filter can_approve rs')))"
    by (rule card_mono [rotated]) simp
  with assms(2) NofM show ?thesis by (simp only: satisfied_by_def Let_def quorum.case)
qed (use assms in \<open>auto simp: satisfied_by_def Let_def list_ex_iff\<close>)

lemma satisfied_by_no_auditor:
  "satisfied_by q rs \<longleftrightarrow> satisfied_by q (filter (\<lambda>r. r \<noteq> Auditor) rs)"
proof -
  have "filter can_approve (filter (\<lambda>r. r \<noteq> Auditor) rs) = filter can_approve rs"
    by (induction rs) (auto simp: can_approve_def)
  then show ?thesis by (simp add: satisfied_by_def)
qed

definition min_people :: "risk_tier \<Rightarrow> nat" where
  "min_people t = (case t of LowTier \<Rightarrow> 0 | MediumTier \<Rightarrow> 1 | HighTier \<Rightarrow> 2 | CriticalTier \<Rightarrow> 3)"

text \<open>Each signature carries one role, so distinct roles need distinct signatures.\<close>

lemma satisfied_tier_distinct_roles:
  assumes "satisfied_by (for_tier t req) rs"
  shows "min_people t \<le> card (set rs - {Auditor})"
proof (cases t)
  case MediumTier
  with assms obtain r where "r \<in> set rs - {Auditor}"
    by (auto simp: satisfied_by_def for_tier_def list_ex_iff can_approve_def)
  then have "0 < card (set rs - {Auditor})" by (auto simp: card_gt_0_iff)
  then show ?thesis by (simp add: MediumTier min_people_def)
next
  case HighTier
  have "set (filter (\<lambda>r. r \<in> set req) (filter can_approve rs)) \<subseteq> set rs - {Auditor}"
    by (auto simp: can_approve_def)
  then have "card (set (filter (\<lambda>r. r \<in> set req) (filter can_approve rs))) \<le> card (set rs - {Auditor})"
    by (rule card_mono [rotated]) simp
  with assms show ?thesis
    by (simp add: HighTier satisfied_by_def for_tier_def min_people_def)
next
  case CriticalTier
  with assms have "{SecurityOfficer, ComplianceOfficer, Reviewer} \<subseteq> set rs - {Auditor}"
    by (auto simp: satisfied_by_def for_tier_def)
  then have "card {SecurityOfficer, ComplianceOfficer, Reviewer} \<le> card (set rs - {Auditor})"
    by (rule card_mono [rotated]) simp
  then show ?thesis by (simp add: CriticalTier min_people_def)
qed (simp add: min_people_def)

lemma card_roles_le_ids:
  assumes "distinct (map f ss)"
  shows "card (g ` set ss) \<le> card (f ` set ss)"
proof -
  have "card (g ` set ss) \<le> card (set ss)" by (rule card_image_le) simp
  also have "\<dots> = card (f ` set ss)"
    using assms by (metis card_image distinct_map)
  finally show ?thesis .
qed

end
