(* ===== verification/Outcome.thy ===== *)
theory Outcome
  imports Prelude
begin

text \<open>
  The outcome of an approved chain effect whose transaction was submitted but whose result is
  unknown (\<open>agent/core/src/hitl/outcome.rs\<close>): the validated record the approval queue remembers.
  Every value is built by \<open>new_outcome\<close>; its error texts are the constructors of
  \<open>outcome_error\<close>.
\<close>

definition MAX_OUTCOME_MESSAGE :: nat where "MAX_OUTCOME_MESSAGE = 280"

definition REMEMBERED_UNKNOWN_OUTCOMES :: nat where "REMEMBERED_UNKNOWN_OUTCOMES = 256"

definition is_tx_hash :: "string \<Rightarrow> bool" where
  "is_tx_hash s =
     (case strip_prefix ''0x'' s of
        None \<Rightarrow> False
      | Some h \<Rightarrow> length h = 64 \<and> list_all is_hex_digit h)"

definition default_message :: "string option \<Rightarrow> string" where
  "default_message tx =
     (case tx of
        Some h \<Rightarrow> ''submitted, outcome unknown, tx '' @ h @ '', check before retrying''
      | None \<Rightarrow> ''submitted, outcome unknown, check recent transactions before retrying'')"

record unknown_outcome =
  tx_hash :: "string option"
  message :: string

datatype outcome_error = BadTxHash | EmptyMessage | MessageTooLong | ControlCharacters | HashNotNamed

definition new_outcome :: "string option \<Rightarrow> string option \<Rightarrow> outcome_error + unknown_outcome" where
  "new_outcome tx msg =
     (if \<exists>h \<in> set_option tx. \<not> is_tx_hash h then Inl BadTxHash
      else let m = (case msg of Some m \<Rightarrow> m | None \<Rightarrow> default_message tx)
           in if trim m = [] then Inl EmptyMessage
              else if MAX_OUTCOME_MESSAGE < length m then Inl MessageTooLong
              else if has_control m then Inl ControlCharacters
              else if \<exists>h \<in> set_option tx. \<not> str_contains h m then Inl HashNotNamed
              else Inr \<lparr>tx_hash = tx, message = m\<rparr>)"

definition hash_words :: "unknown_outcome \<Rightarrow> string" where
  "hash_words u = (case tx_hash u of None \<Rightarrow> ''not known'' | Some h \<Rightarrow> h)"

text \<open>The middle dot of the record's words is the two bytes 0xC2 0xB7.\<close>

definition record_detail :: "unknown_outcome \<Rightarrow> string" where
  "record_detail u =
     ''Submitted '' @ map (char_of :: nat \<Rightarrow> char) [194, 183] @ '' outcome unknown (tx '' @ hash_words u @ '')''"

definition reproposal_note :: "unknown_outcome \<Rightarrow> string" where
  "reproposal_note u =
     ''an earlier identical request was submitted, outcome unknown (tx '' @ hash_words u @
     ''); check it before approving again''"

section \<open>Lemmas\<close>

lemma is_tx_hash_iff: "is_tx_hash s \<longleftrightarrow> (\<exists>h. s = ''0x'' @ h \<and> length h = 64 \<and> list_all is_hex_digit h)"
  by (auto simp: is_tx_hash_def strip_prefix_Some_iff split: option.split)
     (metis append_Cons append_Nil option.distinct(1) strip_prefix_Some_iff)

lemma hex_printable:
  "list_all is_hex_digit h \<Longrightarrow> list_all (\<lambda>c. 32 \<le> (of_char c :: nat) \<and> (of_char c :: nat) < 127) h"
  by (auto simp: list_all_iff is_hex_digit_def Let_def)

lemma new_outcome_Inr_iff:
  "new_outcome tx msg = Inr u \<longleftrightarrow>
     tx_hash u = tx \<and> message u = (case msg of Some m \<Rightarrow> m | None \<Rightarrow> default_message tx) \<and>
     (\<forall>h. tx = Some h \<longrightarrow> is_tx_hash h \<and> str_contains h (message u)) \<and>
     trim (message u) \<noteq> [] \<and> length (message u) \<le> MAX_OUTCOME_MESSAGE \<and> \<not> has_control (message u)"
  by (cases u; cases tx) (auto simp: new_outcome_def Let_def)

lemma default_message_printable:
  assumes "case tx of None \<Rightarrow> True | Some h \<Rightarrow> is_tx_hash h"
  shows "list_all (\<lambda>c. 32 \<le> (of_char c :: nat) \<and> (of_char c :: nat) < 127) (default_message tx)"
  using assms by (cases tx) (auto simp: default_message_def is_tx_hash_iff dest: hex_printable)

lemma default_message_trim: "trim (default_message tx) = default_message tx"
  by (rule trim_graphic) (auto simp: default_message_def is_graphic_def split: option.split)

section \<open>Properties\<close>

text \<open>
  The words composed without a message from the wallet are never refused: with no hash, or
  with any well-formed hash, validation accepts them, and with a hash the accepted message, the
  record's detail and the note of a re-proposal all name that very hash.
\<close>

lemma default_words_accepted:
  assumes "case tx of None \<Rightarrow> True | Some h \<Rightarrow> is_tx_hash h"
  shows "\<exists>u. new_outcome tx None = Inr u \<and> tx_hash u = tx \<and>
    (\<forall>h. tx = Some h \<longrightarrow> str_contains h (message u) \<and> str_contains h (record_detail u) \<and>
         str_contains h (reproposal_note u))"
proof -
  let ?u = "\<lparr>tx_hash = tx, message = default_message tx\<rparr>"
  have "\<not> has_control (default_message tx)"
    using no_control_append [OF default_message_printable [OF assms], of "[]"] by simp
  moreover have "default_message tx \<noteq> []" "length (default_message tx) \<le> MAX_OUTCOME_MESSAGE"
    using assms by (auto simp: default_message_def MAX_OUTCOME_MESSAGE_def is_tx_hash_iff split: option.splits)
  moreover have mention: "str_contains h (default_message tx) \<and> str_contains h (record_detail ?u) \<and>
      str_contains h (reproposal_note ?u)" if "tx = Some h" for h
    unfolding str_contains_iff record_detail_def reproposal_note_def hash_words_def default_message_def
    using that by (simp only: option.case unknown_outcome.simps) (metis append.assoc)
  ultimately have "new_outcome tx None = Inr ?u"
    using assms by (auto simp: new_outcome_Inr_iff default_message_trim split: option.splits)
  then show ?thesis
    using mention by (intro exI [of _ ?u]) simp
qed

end
