(* ===== verification/Approval.thy ===== *)
theory Approval
  imports Signing Outcome
begin

text \<open>
  The approval queue (\<open>agent/core/src/hitl/mod.rs\<close>): the first-in-first-out track whose entries a
  human resolves by call id, the role-aware track whose entries a quorum of attested signatures
  resolves, the temporary auto-grants, the emergency stop and the remembered unknown outcomes.

  Every mutex section and every atomic operation of the code is one function on the queue's
  state; the theory ApprovalMachine interleaves them. A \<open>oneshot\<close> channel is a number; \<open>chans\<close>
  gives its state. Instants are milliseconds of the monotonic clock. A poisoned lock is not
  modelled (no code path of the module panics while it holds one).
\<close>

section \<open>State\<close>

type_synonym instant = nat

datatype json = JNull | JBool bool | JNumber string | JString string | JArray "json list"
  | JObject "(string \<times> json) list"

record tool_call =
  call_id :: string
  call_name :: string
  args :: json

datatype approval_outcome = Approved | Rejected | SubmittedOutcomeUnknown unknown_outcome

definition PENDING_TIMEOUT :: nat where "PENDING_TIMEOUT = 5 * 60 * 1000"

definition AUTO_GRANT_TTL :: nat where "AUTO_GRANT_TTL = 30 * 60 * 1000"

datatype approval_outcome_public =
  PApproved | PRejected | PTimedOut | PAutoApproved | PSubmittedOutcomeUnknown

datatype resolution = Decided approval_outcome_public | ResSubmittedOutcomeUnknown unknown_outcome

datatype signature_error =
    AuditorCannotApprove
  | ProposerCannotSelfApprove
  | DuplicateSigner
  | RoleConflict role role
  | UnknownCallId
  | ResolverGone
  | AttestationInvalid attestation_error
  | SignerNotAuthorized

text \<open>
  A channel: \<open>Open\<close> while the receiver waits and nothing was sent, \<open>Sent\<close> once a decision is
  in it, \<open>SenderDropped\<close> once the sender went away unused, \<open>Closed\<close> without a receiver.
\<close>

datatype chan_state = Closed | Open | Sent approval_outcome | SenderDropped

record pending_entry =
  pe_call :: tool_call
  pe_resolver :: nat
  pe_nonce :: u64

record role_entry =
  re_quorum :: quorum
  re_proposer :: signer
  re_payload :: bytes
  re_signatures :: "attested_signature list"
  re_resolver :: nat
  re_nonce :: u64

record approval_queue =
  pending :: "pending_entry list"
  grants :: "(string \<times> instant) list"
  role_pending :: "(string \<times> role_entry) list"
  signer_roster :: "signer_roster option"
  next_nonce :: u64
  frozen :: bool
  unknown_outcomes :: "(string \<times> unknown_outcome) list"
  chans :: "nat \<Rightarrow> chan_state"
  next_chan :: nat

definition new_queue :: approval_queue where
  "new_queue = \<lparr>pending = [], grants = [], role_pending = [], signer_roster = None, next_nonce = 0,
     frozen = False, unknown_outcomes = [], chans = (\<lambda>_. Closed), next_chan = 0\<rparr>"

definition with_signer_roster :: "approval_queue \<Rightarrow> signer_roster \<Rightarrow> approval_queue" where
  "with_signer_roster q roster = q\<lparr>signer_roster := Some roster\<rparr>"

section \<open>Channels\<close>

definition open_chan :: "approval_queue \<Rightarrow> nat \<times> approval_queue" where
  "open_chan q =
     (next_chan q, q\<lparr>chans := (chans q)(next_chan q := Open), next_chan := next_chan q + 1\<rparr>)"

definition send :: "nat \<Rightarrow> approval_outcome \<Rightarrow> approval_queue \<Rightarrow> bool \<times> approval_queue" where
  "send c ao q =
     (if chans q c = Open then (True, q\<lparr>chans := (chans q)(c := Sent ao)\<rparr>) else (False, q))"

definition drop_sender :: "nat \<Rightarrow> approval_queue \<Rightarrow> approval_queue" where
  "drop_sender c q =
     (if chans q c = Open then q\<lparr>chans := (chans q)(c := SenderDropped)\<rparr> else q)"

definition drop_receiver :: "nat \<Rightarrow> approval_queue \<Rightarrow> approval_queue" where
  "drop_receiver c q = q\<lparr>chans := (chans q)(c := Closed)\<rparr>"

section \<open>Unknown outcomes, grants and the emergency stop\<close>

definition prior_unknown_outcome :: "approval_queue \<Rightarrow> string \<Rightarrow> unknown_outcome option" where
  "prior_unknown_outcome q cid = map_of (unknown_outcomes q) cid"

definition remembered_unknown_outcomes :: "approval_queue \<Rightarrow> nat" where
  "remembered_unknown_outcomes q = length (unknown_outcomes q)"

definition remember_unknown_outcome ::
  "approval_queue \<Rightarrow> string \<Rightarrow> unknown_outcome \<Rightarrow> approval_queue" where
  "remember_unknown_outcome q cid u =
     (let m = filter (\<lambda>(i, _). i \<noteq> cid) (unknown_outcomes q) @ [(cid, u)]
      in q\<lparr>unknown_outcomes := drop (length m - REMEMBERED_UNKNOWN_OUTCOMES) m\<rparr>)"

definition is_trusted :: "approval_queue \<Rightarrow> instant \<Rightarrow> string \<Rightarrow> bool \<times> approval_queue" where
  "is_trusted q now tool =
     (let g = filter (\<lambda>(_, expiry). now < expiry) (grants q)
      in (list_ex (\<lambda>(n, _). n = tool) g, q\<lparr>grants := g\<rparr>))"

definition add_grant :: "approval_queue \<Rightarrow> instant \<Rightarrow> string \<Rightarrow> approval_queue" where
  "add_grant q now tool = q\<lparr>grants := AList.update tool (now + AUTO_GRANT_TTL) (grants q)\<rparr>"

definition active_grants :: "approval_queue \<Rightarrow> instant \<Rightarrow> (string \<times> nat) list" where
  "active_grants q now = map (\<lambda>(n, expiry). (n, expiry - now)) (filter (\<lambda>(_, expiry). now \<le> expiry) (grants q))"

text \<open>The three steps of \<open>freeze_and_drain\<close>: the flag, then each track under its lock.\<close>

definition freeze :: "approval_queue \<Rightarrow> approval_queue" where
  "freeze q = q\<lparr>frozen := True\<rparr>"

definition reject_all :: "nat list \<Rightarrow> approval_queue \<Rightarrow> approval_queue" where
  "reject_all cs q = fold (\<lambda>c q. snd (send c Rejected q)) cs q"

definition drain_fifo :: "approval_queue \<Rightarrow> nat \<times> approval_queue" where
  "drain_fifo q = (length (pending q), (reject_all (map pe_resolver (pending q)) q)\<lparr>pending := []\<rparr>)"

definition drain_role :: "approval_queue \<Rightarrow> nat \<times> approval_queue" where
  "drain_role q =
     (length (role_pending q),
      (reject_all (map (re_resolver \<circ> snd) (role_pending q)) q)\<lparr>role_pending := []\<rparr>)"

definition freeze_and_drain :: "approval_queue \<Rightarrow> nat \<times> approval_queue" where
  "freeze_and_drain q =
     (let (m, q1) = drain_fifo (freeze q); (n, q2) = drain_role q1 in (m + n, q2))"

definition thaw :: "approval_queue \<Rightarrow> approval_queue" where
  "thaw q = q\<lparr>frozen := False\<rparr>"

section \<open>The first-in-first-out track\<close>

text \<open>
  \<open>submit_with_resolution\<close> up to its wait: the channel and the nonce, and the section under the
  lock. The checks before it (the flag, \<open>is_trusted\<close>, \<open>prior_unknown_outcome\<close>) synchronise
  one by one, so they are three steps of the machine.
\<close>

definition take_nonce :: "approval_queue \<Rightarrow> nat \<times> u64 \<times> approval_queue" where
  "take_nonce q =
     (let (c, q') = open_chan q in (c, next_nonce q', q'\<lparr>next_nonce := next_nonce q' + 1\<rparr>))"

definition park :: "approval_queue \<Rightarrow> tool_call \<Rightarrow> nat \<Rightarrow> u64 \<Rightarrow> bool \<times> approval_queue" where
  "park q call c nonce =
     (if frozen q then (False, drop_receiver c q)
      else if list_ex (\<lambda>e. call_id (pe_call e) = call_id call) (pending q)
      then (False, drop_receiver c q)
      else (True, q\<lparr>pending := pending q @ [\<lparr>pe_call = call, pe_resolver = c, pe_nonce = nonce\<rparr>]\<rparr>))"

text \<open>What the waiter reads off its channel, and what it reports when the deadline passed.\<close>

definition fifo_result :: "approval_outcome \<Rightarrow> resolution" where
  "fifo_result ao =
     (case ao of
        Approved \<Rightarrow> Decided PApproved
      | Rejected \<Rightarrow> Decided PRejected
      | SubmittedOutcomeUnknown u \<Rightarrow> ResSubmittedOutcomeUnknown u)"

definition poll ::
  "(approval_outcome \<Rightarrow> resolution) \<Rightarrow> approval_queue \<Rightarrow> nat \<Rightarrow> instant \<Rightarrow> instant \<Rightarrow> resolution option" where
  "poll result q c deadline now =
     (case chans q c of
        Sent ao \<Rightarrow> Some (result ao)
      | SenderDropped \<Rightarrow> Some (Decided PRejected)
      | _ \<Rightarrow> if deadline \<le> now then Some (Decided PTimedOut) else None)"

text \<open>\<open>submit_with_outcome\<close> and \<open>submit\<close> read the resolution.\<close>

definition outcome_of :: "resolution \<Rightarrow> approval_outcome_public" where
  "outcome_of r = (case r of Decided p \<Rightarrow> p | ResSubmittedOutcomeUnknown _ \<Rightarrow> PSubmittedOutcomeUnknown)"

definition submit_true :: "resolution \<Rightarrow> bool" where
  "submit_true r \<longleftrightarrow> outcome_of r = PApproved \<or> outcome_of r = PAutoApproved"

text \<open>The waiter's drop guard.\<close>

fun remove_exact :: "string \<Rightarrow> u64 \<Rightarrow> pending_entry list \<Rightarrow> pending_entry option \<times> pending_entry list" where
  "remove_exact cid nonce [] = (None, [])"
| "remove_exact cid nonce (e # es) =
     (if pe_nonce e = nonce \<and> call_id (pe_call e) = cid then (Some e, es)
      else let (r, es') = remove_exact cid nonce es in (r, e # es'))"

definition evict_exact :: "approval_queue \<Rightarrow> string \<Rightarrow> u64 \<Rightarrow> approval_queue" where
  "evict_exact q cid nonce =
     (case remove_exact cid nonce (pending q) of
        (None, _) \<Rightarrow> q
      | (Some e, es) \<Rightarrow> drop_sender (pe_resolver e) (q\<lparr>pending := es\<rparr>))"

definition resolve_head_by_id ::
  "approval_queue \<Rightarrow> string \<Rightarrow> approval_outcome \<Rightarrow> (signature_error + unit) \<times> approval_queue" where
  "resolve_head_by_id q cid ao =
     (case pending q of
        [] \<Rightarrow> (Inl UnknownCallId, q)
      | head # rest \<Rightarrow>
          if call_id (pe_call head) = cid
          then let (sent, q') = send (pe_resolver head) ao (q\<lparr>pending := rest\<rparr>)
               in (if sent then Inr () else Inl ResolverGone, q')
          else (Inl UnknownCallId, q))"

definition approve_by_id :: "approval_queue \<Rightarrow> string \<Rightarrow> (signature_error + unit) \<times> approval_queue" where
  "approve_by_id q cid = resolve_head_by_id q cid Approved"

definition reject_by_id :: "approval_queue \<Rightarrow> string \<Rightarrow> (signature_error + unit) \<times> approval_queue" where
  "reject_by_id q cid = resolve_head_by_id q cid Rejected"

definition approve_by_id_outcome_unknown ::
  "approval_queue \<Rightarrow> string \<Rightarrow> unknown_outcome \<Rightarrow> (signature_error + unit) \<times> approval_queue" where
  "approve_by_id_outcome_unknown q cid u =
     resolve_head_by_id (remember_unknown_outcome q cid u) cid (SubmittedOutcomeUnknown u)"

section \<open>The role-aware track\<close>

text \<open>\<open>submit_for_action\<close> up to its wait; \<open>take_nonce\<close> is shared.\<close>

definition action_entry :: "approval_queue \<Rightarrow> quorum \<Rightarrow> resolution option" where
  "action_entry q qu =
     (if frozen q then Some (Decided PRejected)
      else if qu = AutoApprove then Some (Decided PAutoApproved) else None)"

definition park_action ::
  "approval_queue \<Rightarrow> tool_call \<Rightarrow> bytes \<Rightarrow> quorum \<Rightarrow> signer \<Rightarrow> nat \<Rightarrow> u64 \<Rightarrow> bool \<times> approval_queue" where
  "park_action q call payload qu proposer c nonce =
     (if frozen q then (False, drop_receiver c q)
      else if map_of (role_pending q) (call_id call) \<noteq> None then (False, drop_receiver c q)
      else (True, q\<lparr>role_pending := AList.update (call_id call)
              \<lparr>re_quorum = qu, re_proposer = proposer, re_payload = payload, re_signatures = [],
               re_resolver = c, re_nonce = nonce\<rparr> (role_pending q)\<rparr>))"

definition role_result :: "approval_outcome \<Rightarrow> resolution" where
  "role_result ao =
     Decided (case ao of Approved \<Rightarrow> PApproved | Rejected \<Rightarrow> PRejected
                       | SubmittedOutcomeUnknown _ \<Rightarrow> PSubmittedOutcomeUnknown)"

definition evict_role :: "approval_queue \<Rightarrow> string \<Rightarrow> u64 \<Rightarrow> approval_queue" where
  "evict_role q cid nonce =
     (case map_of (role_pending q) cid of
        Some e \<Rightarrow>
          if re_nonce e = nonce
          then drop_sender (re_resolver e) (q\<lparr>role_pending := AList.delete cid (role_pending q)\<rparr>)
          else q
      | None \<Rightarrow> q)"

definition signed_roles :: "role_entry \<Rightarrow> role list" where
  "signed_roles e = map (role \<circ> signer) (re_signatures e)"

text \<open>The checks of \<open>add_signature\<close> on the entry, in the code's order.\<close>

definition check_signature ::
  "(bytes \<Rightarrow> attested_signature \<Rightarrow> attestation_error + unit) \<Rightarrow> (bytes \<Rightarrow> role \<Rightarrow> bool) \<Rightarrow>
   role_entry \<Rightarrow> attested_signature \<Rightarrow> signature_error + unit" where
  "check_signature verify enrolled e sig =
     (case verify (re_payload e) sig of
        Inl err \<Rightarrow> Inl (AttestationInvalid err)
      | Inr _ \<Rightarrow>
          if \<not> enrolled (pubkey sig) (role (signer sig)) then Inl SignerNotAuthorized
          else if signer_id (re_proposer e) = signer_id (signer sig) then Inl ProposerCannotSelfApprove
          else if list_ex (\<lambda>s. signer_id (signer s) = signer_id (signer sig)) (re_signatures e)
          then Inl DuplicateSigner
          else case find (\<lambda>s. signer_id (signer s) = signer_id (signer sig) \<and>
                              is_conflict (role (signer s)) (role (signer sig))) (re_signatures e) of
                 Some s \<Rightarrow> Inl (RoleConflict (role (signer s)) (role (signer sig)))
               | None \<Rightarrow> Inr ())"

definition add_signature_with ::
  "(bytes \<Rightarrow> attested_signature \<Rightarrow> attestation_error + unit) \<Rightarrow> (bytes \<Rightarrow> role \<Rightarrow> bool) \<Rightarrow>
   approval_queue \<Rightarrow> string \<Rightarrow> attested_signature \<Rightarrow> (signature_error + unit) \<times> approval_queue" where
  "add_signature_with verify enrolled q cid sig =
     (if \<not> can_approve (role (signer sig)) then (Inl AuditorCannotApprove, q)
      else case map_of (role_pending q) cid of
        None \<Rightarrow> (Inl UnknownCallId, q)
      | Some e \<Rightarrow>
          (case check_signature verify enrolled e sig of
             Inl err \<Rightarrow> (Inl err, q)
           | Inr _ \<Rightarrow>
               let e' = e\<lparr>re_signatures := re_signatures e @ [sig]\<rparr>
               in if satisfied_by (re_quorum e') (signed_roles e')
                  then (Inr (), snd (send (re_resolver e') Approved
                          (q\<lparr>role_pending := AList.delete cid (role_pending q)\<rparr>)))
                  else (Inr (), q\<lparr>role_pending := AList.update cid e' (role_pending q)\<rparr>)))"

definition add_signature ::
  "crypto \<Rightarrow> bool \<Rightarrow> approval_queue \<Rightarrow> string \<Rightarrow> attested_signature \<Rightarrow>
   (signature_error + unit) \<times> approval_queue" where
  "add_signature cr dev q cid sig =
     add_signature_with (verify_attestation cr)
       (\<lambda>pk r. signer_is_authorized (signer_roster q) pk r dev) q cid sig"

definition reject_action :: "approval_queue \<Rightarrow> string \<Rightarrow> (signature_error + unit) \<times> approval_queue" where
  "reject_action q cid =
     (case map_of (role_pending q) cid of
        None \<Rightarrow> (Inl UnknownCallId, q)
      | Some e \<Rightarrow>
          (Inr (), snd (send (re_resolver e) Rejected
             (q\<lparr>role_pending := AList.delete cid (role_pending q)\<rparr>))))"

section \<open>Reading the queue\<close>

definition signatures_on :: "approval_queue \<Rightarrow> string \<Rightarrow> attested_signature list" where
  "signatures_on q cid =
     (case map_of (role_pending q) cid of None \<Rightarrow> [] | Some e \<Rightarrow> re_signatures e)"

definition payload_for :: "approval_queue \<Rightarrow> string \<Rightarrow> bytes option" where
  "payload_for q cid = map_option re_payload (map_of (role_pending q) cid)"

definition depth :: "approval_queue \<Rightarrow> nat" where
  "depth q = length (pending q)"

definition role_pending_depth :: "approval_queue \<Rightarrow> nat" where
  "role_pending_depth q = length (role_pending q)"

definition risk_level :: "string \<Rightarrow> string" where
  "risk_level name =
     (if name \<in> {''list_compliance_posture'', ''query_decisions_by_tenant'', ''query_supplier_status'',
                 ''verify_provenance_chain''} then ''low''
      else if name \<in> {''anchor_session'', ''revoke_role''} then ''medium''
      else if name = ''provision_user'' then ''high''
      else ''low'')"

definition describe :: "string \<Rightarrow> string" where
  "describe name =
     (if name = ''list_compliance_posture''
      then ''Read one compliance row from defense_primeComplianceRegistry. Read-only.''
      else if name = ''query_decisions_by_tenant''
      then ''Read recent agent decisions from AgentDecisionRegistryV2. Read-only.''
      else if name = ''query_supplier_status''
      then ''Read one supplier from SupplierRegistry. Read-only.''
      else ''Tool: '' @ name)"

record pending_view =
  pv_id :: string
  pv_name :: string
  pv_description :: string
  pv_risk_level :: string
  pv_args_pretty :: string
  pv_prior_unknown :: "unknown_outcome option"

text \<open>\<open>pretty\<close> is the JSON printer of the serialisation library.\<close>

definition peek :: "(json \<Rightarrow> string) \<Rightarrow> approval_queue \<Rightarrow> pending_view option" where
  "peek pretty q =
     (case pending q of
        [] \<Rightarrow> None
      | e # _ \<Rightarrow>
          Some \<lparr>pv_id = call_id (pe_call e), pv_name = call_name (pe_call e),
                pv_description = describe (call_name (pe_call e)),
                pv_risk_level = risk_level (call_name (pe_call e)),
                pv_args_pretty = pretty (args (pe_call e)),
                pv_prior_unknown = prior_unknown_outcome q (call_id (pe_call e))\<rparr>)"

end
