(* ===== verification/ApprovalMachine.thy ===== *)
theory ApprovalMachine
  imports Approval
begin

text \<open>
  The approval queue under interleaving. Submitters are numbered; each runs \<open>submit_with_resolution\<close>
  or \<open>submit_for_action\<close>, whose sections between two atomic operations are the constructors of
  \<open>stage\<close> (a stage keeps the channel number and the call id, which name the submission). A run is a list of events: one atomic operation of one submitter, or one call of
  the approver, the signers, the grant button or the emergency stop (itself three operations).
\<close>

section \<open>Submitters\<close>

datatype track = Fifo | Quorate bytes quorum signer

datatype stage =
    Entered tool_call
  | Trusted tool_call
  | Checked track tool_call
  | Numbered track tool_call nat u64
  | Parked track string nat u64 instant
  | Leaving track string nat u64 "resolution option"
  | Ended track string "resolution option"

record machine =
  queue :: approval_queue
  submitters :: "nat \<Rightarrow> stage option"

datatype event =
    Submit nat track tool_call
  | Trust nat instant
  | Recall nat
  | Number nat
  | Park nat instant
  | Poll nat instant
  | Cancel nat
  | Evict nat
  | ApproveById string
  | RejectById string
  | ApproveUnknown string unknown_outcome
  | AddGrant string instant
  | AddSignature string attested_signature
  | RejectAction string
  | Freeze | DrainFifo | DrainRole | Thaw

definition put :: "nat \<Rightarrow> stage \<Rightarrow> machine \<Rightarrow> machine" where
  "put i s m = m\<lparr>submitters := (submitters m)(i \<mapsto> s)\<rparr>"

definition on_queue :: "(approval_queue \<Rightarrow> approval_queue) \<Rightarrow> machine \<Rightarrow> machine" where
  "on_queue f m = m\<lparr>queue := f (queue m)\<rparr>"

text \<open>
  The first check of a submission reads the flag. On the plain track two more follow, each a step
  of its own: the grants under their lock, then the remembered outcomes under theirs. Anything may
  happen in between.
\<close>

definition enter :: "nat \<Rightarrow> track \<Rightarrow> tool_call \<Rightarrow> machine \<Rightarrow> machine" where
  "enter i t call m =
     put i (case t of
         Fifo \<Rightarrow> if frozen (queue m) then Ended t (call_id call) (Some (Decided PRejected)) else Entered call
       | Quorate _ qu _ \<Rightarrow> (case action_entry (queue m) qu of
             Some x \<Rightarrow> Ended t (call_id call) (Some x)
           | None \<Rightarrow> Checked t call)) m"

definition check_grant :: "nat \<Rightarrow> tool_call \<Rightarrow> instant \<Rightarrow> machine \<Rightarrow> machine" where
  "check_grant i call now m =
     (let (trusted, q) = is_trusted (queue m) now (call_name call)
      in put i (if trusted then Trusted call else Checked Fifo call) (m\<lparr>queue := q\<rparr>))"

definition check_unknown :: "nat \<Rightarrow> tool_call \<Rightarrow> machine \<Rightarrow> machine" where
  "check_unknown i call m =
     put i (if prior_unknown_outcome (queue m) (call_id call) = None
            then Ended Fifo (call_id call) (Some (Decided PAutoApproved))
            else Checked Fifo call) m"

definition park_on :: "track \<Rightarrow> approval_queue \<Rightarrow> tool_call \<Rightarrow> nat \<Rightarrow> u64 \<Rightarrow> bool \<times> approval_queue" where
  "park_on t q call c nonce =
     (case t of
        Fifo \<Rightarrow> park q call c nonce
      | Quorate payload qu proposer \<Rightarrow> park_action q call payload qu proposer c nonce)"

definition result_on :: "track \<Rightarrow> approval_outcome \<Rightarrow> resolution" where
  "result_on t = (case t of Fifo \<Rightarrow> fifo_result | Quorate _ _ _ \<Rightarrow> role_result)"

definition evict_on :: "track \<Rightarrow> approval_queue \<Rightarrow> string \<Rightarrow> u64 \<Rightarrow> approval_queue" where
  "evict_on t = (case t of Fifo \<Rightarrow> evict_exact | Quorate _ _ _ \<Rightarrow> evict_role)"

text \<open>One operation of submitter \<open>i\<close>, from its stage; any other event leaves it alone.\<close>

definition advance :: "nat \<Rightarrow> event \<Rightarrow> machine \<Rightarrow> machine" where
  "advance i ev m =
     (case (submitters m i, ev) of
        (None, Submit _ t call) \<Rightarrow> enter i t call m
      | (Some (Entered call), Trust _ now) \<Rightarrow> check_grant i call now m
      | (Some (Trusted call), Recall _) \<Rightarrow> check_unknown i call m
      | (Some (Checked t call), Number _) \<Rightarrow>
          (let (c, nonce, q) = take_nonce (queue m) in put i (Numbered t call c nonce) (m\<lparr>queue := q\<rparr>))
      | (Some (Numbered t call c nonce), Park _ now) \<Rightarrow>
          (let (ok, q) = park_on t (queue m) call c nonce
           in put i (if ok then Parked t (call_id call) c nonce (now + PENDING_TIMEOUT)
                     else Ended t (call_id call) (Some (Decided PRejected))) (m\<lparr>queue := q\<rparr>))
      | (Some (Parked t cid c nonce deadline), Poll _ now) \<Rightarrow>
          (case poll (result_on t) (queue m) c deadline now of
             None \<Rightarrow> m
           | Some r \<Rightarrow> put i (Leaving t cid c nonce (Some r)) (on_queue (drop_receiver c) m))
      | (Some (Parked t cid c nonce deadline), Cancel _) \<Rightarrow>
          put i (Leaving t cid c nonce None) (on_queue (drop_receiver c) m)
      | (Some (Leaving t cid c nonce r), Evict _) \<Rightarrow>
          put i (Ended t cid r) (on_queue (\<lambda>q. evict_on t q cid nonce) m)
      | _ \<Rightarrow> m)"

definition step :: "crypto \<Rightarrow> bool \<Rightarrow> event \<Rightarrow> machine \<Rightarrow> machine" where
  "step cr dev ev m =
     (case ev of
        Submit i _ _ \<Rightarrow> advance i ev m
      | Trust i _ \<Rightarrow> advance i ev m
      | Recall i \<Rightarrow> advance i ev m
      | Number i \<Rightarrow> advance i ev m
      | Park i _ \<Rightarrow> advance i ev m
      | Poll i _ \<Rightarrow> advance i ev m
      | Cancel i \<Rightarrow> advance i ev m
      | Evict i \<Rightarrow> advance i ev m
      | ApproveById cid \<Rightarrow> on_queue (\<lambda>q. snd (approve_by_id q cid)) m
      | RejectById cid \<Rightarrow> on_queue (\<lambda>q. snd (reject_by_id q cid)) m
      | ApproveUnknown cid u \<Rightarrow> on_queue (\<lambda>q. snd (approve_by_id_outcome_unknown q cid u)) m
      | AddGrant tool now \<Rightarrow> on_queue (\<lambda>q. add_grant q now tool) m
      | AddSignature cid sig \<Rightarrow> on_queue (\<lambda>q. snd (add_signature cr dev q cid sig)) m
      | RejectAction cid \<Rightarrow> on_queue (\<lambda>q. snd (reject_action q cid)) m
      | Freeze \<Rightarrow> on_queue freeze m
      | DrainFifo \<Rightarrow> on_queue (\<lambda>q. snd (drain_fifo q)) m
      | DrainRole \<Rightarrow> on_queue (\<lambda>q. snd (drain_role q)) m
      | Thaw \<Rightarrow> on_queue thaw m)"

definition run :: "crypto \<Rightarrow> bool \<Rightarrow> event list \<Rightarrow> machine \<Rightarrow> machine" where
  "run cr dev evs m = fold (step cr dev) evs m"

definition start :: "signer_roster option \<Rightarrow> machine" where
  "start roster = \<lparr>queue = new_queue\<lparr>signer_roster := roster\<rparr>, submitters = (\<lambda>_. None)\<rparr>"

end
