(* ===== verification/ApprovalSafety.thy ===== *)
theory ApprovalSafety
  imports ApprovalMachine
begin

text \<open>
  Invariants of the interleaved approval queue and the properties that rest on them. The proofs
  go through one relation, \<open>evolves\<close>: what any operation other than a submitter's own may do to
  the entries and the channels. Each operation is shown to be such an evolution once; the
  invariants are shown to survive evolutions once.
\<close>

section \<open>Channels and entries\<close>

definition resolvers :: "approval_queue \<Rightarrow> nat set" where
  "resolvers q = pe_resolver ` set (pending q) \<union> (re_resolver \<circ> snd) ` set (role_pending q)"

definition same_entry :: "role_entry \<Rightarrow> role_entry \<Rightarrow> bool" where
  "same_entry e e' \<longleftrightarrow> re_quorum e = re_quorum e' \<and> re_proposer e = re_proposer e' \<and>
     re_payload e = re_payload e' \<and> re_resolver e = re_resolver e' \<and> re_nonce e = re_nonce e'"

definition evolves :: "(nat \<Rightarrow> chan_state \<Rightarrow> bool) \<Rightarrow> approval_queue \<Rightarrow> approval_queue \<Rightarrow> bool" where
  "evolves J q q' \<longleftrightarrow>
     next_chan q' = next_chan q \<and> next_nonce q' = next_nonce q \<and> signer_roster q' = signer_roster q \<and>
     set (pending q') \<subseteq> set (pending q) \<and>
     (\<forall>(k, e') \<in> set (role_pending q'). \<exists>e. (k, e) \<in> set (role_pending q) \<and> same_entry e e') \<and>
     (\<forall>c. chans q' c = chans q c \<or>
          chans q c = Open \<and> c \<in> resolvers q \<and> chans q' c \<noteq> Closed \<and> J c (chans q' c)) \<and>
     (\<forall>e \<in> set (pending q). e \<in> set (pending q') \<or> chans q' (pe_resolver e) \<noteq> Open) \<and>
     (\<forall>(k, e) \<in> set (role_pending q).
        (\<exists>e'. (k, e') \<in> set (role_pending q') \<and> same_entry e e') \<or> chans q' (re_resolver e) \<noteq> Open)"

lemma same_entry_refl [simp]: "same_entry e e"
  by (simp add: same_entry_def)

lemma evolvesI:
  assumes "next_chan q' = next_chan q" "next_nonce q' = next_nonce q" "signer_roster q' = signer_roster q"
    and "set (pending q') \<subseteq> set (pending q)"
    and "\<And>k e'. (k, e') \<in> set (role_pending q') \<Longrightarrow> \<exists>e. (k, e) \<in> set (role_pending q) \<and> same_entry e e'"
    and "\<And>c. chans q' c = chans q c \<or>
          chans q c = Open \<and> c \<in> resolvers q \<and> chans q' c \<noteq> Closed \<and> J c (chans q' c)"
    and "\<And>e. e \<in> set (pending q) \<Longrightarrow> e \<in> set (pending q') \<or> chans q' (pe_resolver e) \<noteq> Open"
    and "\<And>k e. (k, e) \<in> set (role_pending q) \<Longrightarrow>
        (\<exists>e'. (k, e') \<in> set (role_pending q') \<and> same_entry e e') \<or> chans q' (re_resolver e) \<noteq> Open"
  shows "evolves J q q'"
  unfolding evolves_def using assms by blast

text \<open>An operation that leaves entries, channels and counters alone.\<close>

lemma evolves_same:
  assumes "next_chan q' = next_chan q" "next_nonce q' = next_nonce q" "signer_roster q' = signer_roster q"
    and "pending q' = pending q" "role_pending q' = role_pending q" "chans q' = chans q"
  shows "evolves J q q'"
  by (rule evolvesI) (use assms in \<open>auto intro: same_entry_refl\<close>)

lemma send_simps [simp]:
  "pending (snd (send c ao q)) = pending q" "role_pending (snd (send c ao q)) = role_pending q"
  "next_chan (snd (send c ao q)) = next_chan q" "next_nonce (snd (send c ao q)) = next_nonce q"
  "signer_roster (snd (send c ao q)) = signer_roster q" "frozen (snd (send c ao q)) = frozen q"
  "grants (snd (send c ao q)) = grants q" "unknown_outcomes (snd (send c ao q)) = unknown_outcomes q"
  "chans (snd (send c ao q)) = (if chans q c = Open then (chans q)(c := Sent ao) else chans q)"
  by (simp_all add: send_def)

lemma drop_sender_simps [simp]:
  "pending (drop_sender c q) = pending q" "role_pending (drop_sender c q) = role_pending q"
  "next_chan (drop_sender c q) = next_chan q" "next_nonce (drop_sender c q) = next_nonce q"
  "signer_roster (drop_sender c q) = signer_roster q" "frozen (drop_sender c q) = frozen q"
  "grants (drop_sender c q) = grants q" "unknown_outcomes (drop_sender c q) = unknown_outcomes q"
  "chans (drop_sender c q) = (if chans q c = Open then (chans q)(c := SenderDropped) else chans q)"
  by (simp_all add: drop_sender_def)

lemma drop_receiver_simps [simp]:
  "pending (drop_receiver c q) = pending q" "role_pending (drop_receiver c q) = role_pending q"
  "next_chan (drop_receiver c q) = next_chan q" "next_nonce (drop_receiver c q) = next_nonce q"
  "signer_roster (drop_receiver c q) = signer_roster q" "frozen (drop_receiver c q) = frozen q"
  "grants (drop_receiver c q) = grants q" "unknown_outcomes (drop_receiver c q) = unknown_outcomes q"
  "chans (drop_receiver c q) = (chans q)(c := Closed)"
  by (simp_all add: drop_receiver_def)

lemma reject_all_simps [simp]:
  "pending (reject_all cs q) = pending q" "role_pending (reject_all cs q) = role_pending q"
  "next_chan (reject_all cs q) = next_chan q" "next_nonce (reject_all cs q) = next_nonce q"
  "signer_roster (reject_all cs q) = signer_roster q" "frozen (reject_all cs q) = frozen q"
  "grants (reject_all cs q) = grants q" "unknown_outcomes (reject_all cs q) = unknown_outcomes q"
  by (induction cs arbitrary: q) (simp_all add: reject_all_def)

lemma reject_all_chans [simp]:
  "chans (reject_all cs q) c = (if c \<in> set cs \<and> chans q c = Open then Sent Rejected else chans q c)"
  by (induction cs arbitrary: q) (simp_all add: reject_all_def)

lemma alist_delete_mem: "(k, e) \<in> set (AList.delete k' al) \<longleftrightarrow> (k, e) \<in> set al \<and> k \<noteq> k'"
  by (auto simp: AList.delete_eq)

lemma alist_update_mem:
  "distinct (map fst al) \<Longrightarrow> (k, e) \<in> set (AList.update k' v al) \<longleftrightarrow>
     (k = k' \<and> e = v) \<or> (k \<noteq> k' \<and> (k, e) \<in> set al)"
  by (metis Some_eq_map_of_iff distinct_update map_of_Cons_code(2) AList.update_conv fun_upd_apply option.inject)

section \<open>Each operation is an evolution\<close>

lemma evolves_resolve_head:
  assumes "\<And>e. hd (pending q) = e \<Longrightarrow> pending q \<noteq> [] \<Longrightarrow> call_id (pe_call e) = cid \<Longrightarrow>
     J (pe_resolver e) (Sent ao)"
  shows "evolves J q (snd (resolve_head_by_id q cid ao))"
proof (cases "pending q")
  case (Cons e es)
  show ?thesis
  proof (cases "call_id (pe_call e) = cid")
    case True
    then show ?thesis
      using assms Cons
      by (intro evolvesI) (auto simp: resolve_head_by_id_def resolvers_def split_beta)
  qed (simp add: resolve_head_by_id_def Cons evolves_same)
qed (simp add: resolve_head_by_id_def evolves_same)

lemma evolves_drain_fifo:
  assumes "\<And>c. J c (Sent Rejected)"
  shows "evolves J q (snd (drain_fifo q))"
  by (rule evolvesI) (auto simp: drain_fifo_def resolvers_def assms intro: same_entry_refl)

lemma evolves_drain_role:
  assumes "\<And>c. J c (Sent Rejected)"
  shows "evolves J q (snd (drain_role q))"
proof (rule evolvesI)
  fix k e assume "(k, e) \<in> set (role_pending q)"
  then have "re_resolver e \<in> (re_resolver \<circ> snd) ` set (role_pending q)" by force
  then show "(\<exists>e'. (k, e') \<in> set (role_pending (snd (drain_role q))) \<and> same_entry e e') \<or>
      chans (snd (drain_role q)) (re_resolver e) \<noteq> Open"
    by (simp add: drain_role_def)
qed (simp_all add: drain_role_def resolvers_def assms)

text \<open>Taking one role entry out and settling its channel.\<close>

lemma evolves_settle_role:
  assumes e: "map_of (role_pending q) cid = Some e" and d: "distinct (map fst (role_pending q))"
    and J: "J (re_resolver e) st" and st: "st \<noteq> Open" "st \<noteq> Closed"
    and q': "role_pending q' = AList.delete cid (role_pending q)"
      "chans q' = (if chans q (re_resolver e) = Open then (chans q)(re_resolver e := st) else chans q)"
      "pending q' = pending q" "next_chan q' = next_chan q" "next_nonce q' = next_nonce q"
      "signer_roster q' = signer_roster q"
  shows "evolves J q q'"
proof (rule evolvesI)
  have mem: "(cid, e) \<in> set (role_pending q)" by (rule map_of_SomeD [OF e])
  then have res: "re_resolver e \<in> resolvers q" by (force simp: resolvers_def)
  show "chans q' c = chans q c \<or>
      chans q c = Open \<and> c \<in> resolvers q \<and> chans q' c \<noteq> Closed \<and> J c (chans q' c)" for c
    using res J st by (simp add: q')
  show "(\<exists>e''. (k, e'') \<in> set (role_pending q') \<and> same_entry e' e'') \<or> chans q' (re_resolver e') \<noteq> Open"
    if "(k, e') \<in> set (role_pending q)" for k e'
  proof (cases "k = cid")
    case True
    with that d e have "e' = e" by simp
    then show ?thesis using st by (simp add: q')
  qed (use that in \<open>auto simp: q' alist_delete_mem\<close>)
qed (auto simp: q' alist_delete_mem intro: same_entry_refl)

lemma evolves_reject_action:
  assumes "\<And>c. J c (Sent Rejected)" "distinct (map fst (role_pending q))"
  shows "evolves J q (snd (reject_action q cid))"
proof (cases "map_of (role_pending q) cid")
  case (Some e)
  show ?thesis
    by (rule evolves_settle_role [OF Some assms(2), where st = "Sent Rejected"])
      (simp_all add: reject_action_def Some assms)
qed (simp add: reject_action_def evolves_same)

lemma evolves_evict_role:
  assumes "\<And>e. map_of (role_pending q) cid = Some e \<Longrightarrow> re_nonce e = nonce \<Longrightarrow> J (re_resolver e) SenderDropped"
    and "distinct (map fst (role_pending q))"
  shows "evolves J q (evict_role q cid nonce)"
proof (cases "map_of (role_pending q) cid")
  case (Some e)
  show ?thesis
  proof (cases "re_nonce e = nonce")
    case True
    show ?thesis
      by (rule evolves_settle_role [OF Some assms(2), where st = SenderDropped])
        (simp_all add: evict_role_def Some True assms)
  qed (simp add: evict_role_def Some evolves_same)
qed (simp add: evict_role_def evolves_same)

lemma remove_exact_spec:
  "remove_exact cid nonce es = (r, es') \<Longrightarrow>
     (case r of None \<Rightarrow> es' = es
      | Some e \<Rightarrow> e \<in> set es \<and> pe_nonce e = nonce \<and> call_id (pe_call e) = cid \<and>
          (\<exists>a b. es = a @ e # b \<and> es' = a @ b))"
proof (induction es arbitrary: r es')
  case (Cons x es)
  show ?case
  proof (cases "pe_nonce x = nonce \<and> call_id (pe_call x) = cid")
    case True
    with Cons.prems have "r = Some x" "es' = es" by auto
    with True show ?thesis by simp (metis append_Nil)
  next
    case False
    obtain r1 es1 where "remove_exact cid nonce es = (r1, es1)" by fastforce
    with Cons.IH [OF this] Cons.prems False show ?thesis
      by (cases r1) (auto, (metis append_Cons)+)
  qed
qed simp

lemma evolves_evict_exact:
  assumes "\<And>e. e \<in> set (pending q) \<Longrightarrow> pe_nonce e = nonce \<Longrightarrow> J (pe_resolver e) SenderDropped"
  shows "evolves J q (evict_exact q cid nonce)"
proof -
  obtain r es where r: "remove_exact cid nonce (pending q) = (r, es)" by fastforce
  show ?thesis
  proof (cases r)
    case (Some e)
    with remove_exact_spec [OF r] assms show ?thesis
      by (intro evolvesI) (auto simp: evict_exact_def r Some resolvers_def)
  qed (simp add: evict_exact_def r evolves_same)
qed

lemma evolves_add_signature:
  assumes d: "distinct (map fst (role_pending q))"
    and J: "\<And>e. map_of (role_pending q) cid = Some e \<Longrightarrow> can_approve (role (signer sig)) \<Longrightarrow>
      check_signature verify enrolled e sig = Inr () \<Longrightarrow>
      satisfied_by (re_quorum e) (map (role \<circ> signer) (re_signatures e @ [sig])) \<Longrightarrow>
      J (re_resolver e) (Sent Approved)"
  shows "evolves J q (snd (add_signature_with verify enrolled q cid sig))"
proof (cases "\<exists>e. can_approve (role (signer sig)) \<and> map_of (role_pending q) cid = Some e \<and>
    check_signature verify enrolled e sig = Inr ()")
  case True
  then obtain e where e: "can_approve (role (signer sig))" "map_of (role_pending q) cid = Some e"
    "check_signature verify enrolled e sig = Inr ()" by blast
  let ?e' = "e\<lparr>re_signatures := re_signatures e @ [sig]\<rparr>"
  show ?thesis
  proof (cases "satisfied_by (re_quorum ?e') (signed_roles ?e')")
    case sat: True
    have "J (re_resolver e) (Sent Approved)"
      using J [OF e(2,1,3)] sat by (simp add: signed_roles_def)
    then show ?thesis
      by (rule evolves_settle_role [OF e(2) d])
        (use sat in \<open>simp_all add: add_signature_with_def e\<close>)
  next
    case False
    then have *: "snd (add_signature_with verify enrolled q cid sig) =
        q\<lparr>role_pending := AList.update cid ?e' (role_pending q)\<rparr>"
      by (simp add: add_signature_with_def e)
    have same: "same_entry e ?e'" by (simp add: same_entry_def)
    have mem: "(cid, e) \<in> set (role_pending q)" by (rule map_of_SomeD [OF e(2)])
    have uniq: "e' = e" if "(cid, e') \<in> set (role_pending q)" for e'
      using that d e(2) by simp
    let ?q' = "snd (add_signature_with verify enrolled q cid sig)"
    have upd: "(k, v) \<in> set (role_pending ?q') \<longleftrightarrow>
        k = cid \<and> v = ?e' \<or> k \<noteq> cid \<and> (k, v) \<in> set (role_pending q)" for k v
      using alist_update_mem [OF d] by (simp add: *)
    show ?thesis
    proof (rule evolvesI)
      show "\<exists>e1. (k, e1) \<in> set (role_pending q) \<and> same_entry e1 e2"
        if "(k, e2) \<in> set (role_pending ?q')" for k e2
        using that mem same same_entry_refl unfolding upd by blast
      show "(\<exists>e2. (k, e2) \<in> set (role_pending ?q') \<and> same_entry e1 e2) \<or> chans ?q' (re_resolver e1) \<noteq> Open"
        if "(k, e1) \<in> set (role_pending q)" for k e1
        using that uniq same same_entry_refl unfolding upd by blast
    qed (simp_all add: *)
  qed
next
  case False
  then have "snd (add_signature_with verify enrolled q cid sig) = q"
    by (auto simp: add_signature_with_def split: option.splits sum.splits)
  then show ?thesis by (simp add: evolves_same)
qed

lemma evolves_approve_unknown:
  assumes "\<And>e. hd (pending q) = e \<Longrightarrow> pending q \<noteq> [] \<Longrightarrow> call_id (pe_call e) = cid \<Longrightarrow>
     J (pe_resolver e) (Sent (SubmittedOutcomeUnknown u))"
  shows "evolves J q (snd (approve_by_id_outcome_unknown q cid u))"
proof -
  have "evolves J q q' = evolves J (remember_unknown_outcome q cid u) q'" for q'
    by (simp add: evolves_def remember_unknown_outcome_def Let_def resolvers_def)
  moreover have "pending (remember_unknown_outcome q cid u) = pending q"
    by (simp add: remember_unknown_outcome_def Let_def)
  ultimately show ?thesis
    unfolding approve_by_id_outcome_unknown_def using assms
    by (simp only:) (rule evolves_resolve_head, simp)
qed

section \<open>The machine's invariant\<close>

text \<open>A parked submitter's entry, and that no other entry uses its channel.\<close>

definition entry_in :: "approval_queue \<Rightarrow> track \<Rightarrow> string \<Rightarrow> nat \<Rightarrow> bool" where
  "entry_in q t cid c \<longleftrightarrow>
     (case t of
        Fifo \<Rightarrow> \<exists>e \<in> set (pending q). pe_resolver e = c \<and> call_id (pe_call e) = cid
      | Quorate payload qu proposer \<Rightarrow>
          \<exists>e. (cid, e) \<in> set (role_pending q) \<and> re_resolver e = c \<and>
              re_payload e = payload \<and> re_quorum e = qu \<and> re_proposer e = proposer)"

definition owns :: "approval_queue \<Rightarrow> track \<Rightarrow> string \<Rightarrow> nat \<Rightarrow> bool" where
  "owns q t cid c \<longleftrightarrow>
     (\<forall>e \<in> set (pending q). pe_resolver e = c \<longrightarrow> t = Fifo \<and> call_id (pe_call e) = cid) \<and>
     (\<forall>(k, e) \<in> set (role_pending q). re_resolver e = c \<longrightarrow>
        k = cid \<and> t = Quorate (re_payload e) (re_quorum e) (re_proposer e))"

definition no_wrap :: "approval_queue \<Rightarrow> bool" where
  "no_wrap q \<longleftrightarrow> next_chan q \<le> 2 ^ 64"

fun stage_chan :: "stage \<Rightarrow> nat option" where
  "stage_chan (Numbered t call c n) = Some c"
| "stage_chan (Parked t cid c n d) = Some c"
| "stage_chan (Leaving t cid c n r) = Some c"
| "stage_chan _ = None"

fun stage_inv :: "approval_queue \<Rightarrow> stage \<Rightarrow> bool" where
  "stage_inv q (Numbered t call c n) \<longleftrightarrow>
     c < next_chan q \<and> n = of_nat c \<and> c \<notin> resolvers q \<and> chans q c = Open"
| "stage_inv q (Parked t cid c n d) \<longleftrightarrow>
     c < next_chan q \<and> n = of_nat c \<and> owns q t cid c \<and> chans q c \<noteq> Closed \<and>
     (chans q c = Open \<longrightarrow> entry_in q t cid c) \<and> (no_wrap q \<longrightarrow> chans q c \<noteq> SenderDropped)"
| "stage_inv q (Leaving t cid c n r) \<longleftrightarrow> c < next_chan q \<and> n = of_nat c \<and> chans q c = Closed"
| "stage_inv q _ \<longleftrightarrow> True"

definition queue_inv :: "approval_queue \<Rightarrow> bool" where
  "queue_inv q \<longleftrightarrow>
     next_nonce q = of_nat (next_chan q) \<and> (\<forall>c \<in> resolvers q. c < next_chan q) \<and>
     (\<forall>e \<in> set (pending q). pe_nonce e = of_nat (pe_resolver e)) \<and>
     (\<forall>(k, e) \<in> set (role_pending q). re_nonce e = of_nat (re_resolver e)) \<and>
     distinct (map (call_id \<circ> pe_call) (pending q)) \<and> distinct (map fst (role_pending q))"

definition machine_inv :: "machine \<Rightarrow> bool" where
  "machine_inv m \<longleftrightarrow>
     queue_inv (queue m) \<and>
     (\<forall>i s. submitters m i = Some s \<longrightarrow> stage_inv (queue m) s) \<and>
     (\<forall>i j s s' c. submitters m i = Some s \<longrightarrow> submitters m j = Some s' \<longrightarrow>
        stage_chan s = Some c \<longrightarrow> stage_chan s' = Some c \<longrightarrow> i = j)"

lemma owns_evolves: "evolves J q q' \<Longrightarrow> owns q t cid c \<Longrightarrow> owns q' t cid c"
  unfolding evolves_def owns_def same_entry_def by fastforce

lemma resolvers_evolves: "evolves J q q' \<Longrightarrow> resolvers q' \<subseteq> resolvers q"
  unfolding evolves_def resolvers_def same_entry_def by (fastforce simp: image_iff)

lemma entry_in_evolves:
  assumes ev: "evolves J q q'" and ent: "entry_in q t cid c" and op: "chans q' c = Open"
  shows "entry_in q' t cid c"
proof (cases t)
  case Fifo
  with ent obtain e where e: "e \<in> set (pending q)" "pe_resolver e = c" "call_id (pe_call e) = cid"
    by (auto simp: entry_in_def)
  with ev op have "e \<in> set (pending q')" unfolding evolves_def by blast
  with e Fifo show ?thesis by (auto simp: entry_in_def)
next
  case (Quorate payload qu proposer)
  with ent obtain e where e: "(cid, e) \<in> set (role_pending q)" "re_resolver e = c"
    "re_payload e = payload" "re_quorum e = qu" "re_proposer e = proposer"
    by (auto simp: entry_in_def)
  with ev op obtain e' where "(cid, e') \<in> set (role_pending q')" "same_entry e e'"
    unfolding evolves_def by blast
  with e Quorate show ?thesis by (auto simp: entry_in_def same_entry_def)
qed

lemma evolves_chans:
  "evolves J q q' \<Longrightarrow> chans q' c = chans q c \<or>
     chans q c = Open \<and> c \<in> resolvers q \<and> chans q' c \<noteq> Closed \<and> J c (chans q' c)"
  unfolding evolves_def by blast

text \<open>A stage survives an evolution that never drops the sender of its own channel.\<close>

lemma stage_inv_evolves:
  assumes ev: "evolves J q q'" and inv: "stage_inv q s"
    and J: "\<And>c. stage_chan s = Some c \<Longrightarrow> J c SenderDropped \<Longrightarrow> c < next_chan q \<Longrightarrow> no_wrap q \<Longrightarrow> False"
  shows "stage_inv q' s"
proof -
  have same: "next_chan q' = next_chan q" using ev by (simp add: evolves_def)
  show ?thesis
  proof (cases s)
    case (Numbered t call c n)
    then show ?thesis
      using inv same evolves_chans [OF ev, of c] resolvers_evolves [OF ev] by auto
  next
    case (Parked t cid c n d)
    then show ?thesis
      using inv same evolves_chans [OF ev, of c] owns_evolves [OF ev] entry_in_evolves [OF ev] J [of c]
      by (auto simp: no_wrap_def)
  next
    case (Leaving t cid c n r)
    then show ?thesis using inv same evolves_chans [OF ev, of c] by auto
  qed simp_all
qed

lemma queue_inv_evolves:
  assumes "evolves J q q'" "queue_inv q"
    and "distinct (map (call_id \<circ> pe_call) (pending q'))" "distinct (map fst (role_pending q'))"
  shows "queue_inv q'"
proof -
  have "\<forall>(k, e) \<in> set (role_pending q'). re_nonce e = of_nat (re_resolver e)"
    using assms(1,2) unfolding evolves_def queue_inv_def same_entry_def by fastforce
  moreover have "\<forall>e \<in> set (pending q'). pe_nonce e = of_nat (pe_resolver e)"
    using assms(1,2) unfolding evolves_def queue_inv_def by blast
  moreover have "\<forall>c \<in> resolvers q'. c < next_chan q'"
    using assms(1,2) resolvers_evolves [OF assms(1)] unfolding queue_inv_def by (auto simp: evolves_def)
  ultimately show ?thesis
    using assms unfolding queue_inv_def by (auto simp: evolves_def)
qed

text \<open>Every operation that is not a submission step keeps ids and keys distinct.\<close>

lemma distinct_resolve_head:
  "distinct (map f (pending q)) \<Longrightarrow> distinct (map f (pending (snd (resolve_head_by_id q cid ao))))"
  by (auto simp: resolve_head_by_id_def split_beta split: list.splits)

lemma role_pending_resolve_head [simp]:
  "role_pending (snd (resolve_head_by_id q cid ao)) = role_pending q"
  by (auto simp: resolve_head_by_id_def split_beta split: list.splits)

lemma distinct_evict_exact:
  "distinct (map f (pending q)) \<Longrightarrow> distinct (map f (pending (evict_exact q cid n)))"
proof -
  assume d: "distinct (map f (pending q))"
  obtain r es where r: "remove_exact cid n (pending q) = (r, es)" by fastforce
  from remove_exact_spec [OF r] d show ?thesis
    by (cases r) (auto simp: evict_exact_def r)
qed

lemma role_pending_evict_exact [simp]: "role_pending (evict_exact q cid n) = role_pending q"
  by (auto simp: evict_exact_def split: prod.split option.split)

lemma pending_role_ops [simp]:
  "pending (evict_role q cid n) = pending q" "pending (snd (reject_action q cid)) = pending q"
  "pending (snd (add_signature_with verify enrolled q cid sig)) = pending q"
  by (auto simp: evict_role_def reject_action_def add_signature_with_def Let_def
        split: option.splits sum.splits)

lemma distinct_role_ops:
  assumes "distinct (map fst (role_pending q))"
  shows "distinct (map fst (role_pending (evict_role q cid n)))"
    and "distinct (map fst (role_pending (snd (reject_action q cid))))"
    and "distinct (map fst (role_pending (snd (add_signature_with verify enrolled q cid sig))))"
  using assms
  by (auto simp: evict_role_def reject_action_def add_signature_with_def Let_def
        distinct_delete distinct_update split: option.splits sum.splits)

lemmas op_defs = approve_by_id_def reject_by_id_def approve_by_id_outcome_unknown_def add_signature_def

lemma machine_invI:
  assumes "machine_inv m" "queue_inv q'" "stage_inv q' s"
    and "\<And>j s'. j \<noteq> i \<Longrightarrow> submitters m j = Some s' \<Longrightarrow> stage_inv (queue m) s' \<Longrightarrow>
       stage_chan s' \<noteq> stage_chan s \<or> stage_chan s = None \<Longrightarrow> stage_inv q' s'"
    and "\<And>c. stage_chan s = Some c \<Longrightarrow>
       (\<exists>s0. submitters m i = Some s0 \<and> stage_chan s0 = Some c) \<or>
       (\<forall>j s'. submitters m j = Some s' \<longrightarrow> stage_chan s' \<noteq> Some c)"
  shows "machine_inv (put i s (m\<lparr>queue := q'\<rparr>))"
proof -
  have inj: "j = k" if "submitters m j = Some s1" "submitters m k = Some s2"
    "stage_chan s1 = Some c" "stage_chan s2 = Some c" for j k s1 s2 c
    using assms(1) that unfolding machine_inv_def by blast
  have other: "stage_chan s' \<noteq> stage_chan s \<or> stage_chan s = None"
    if "j \<noteq> i" "submitters m j = Some s'" for j s'
    using assms(5) inj that by (cases "stage_chan s") auto
  have old: "stage_inv q' s'" if "j \<noteq> i" "submitters m j = Some s'" for j s'
    using assms(1,4) other that unfolding machine_inv_def by blast
  have new: "j = k"
    if "(if j = i then Some s else submitters m j) = Some s1"
      "(if k = i then Some s else submitters m k) = Some s2"
      "stage_chan s1 = Some c" "stage_chan s2 = Some c" for j k s1 s2 c
    using that other inj by (cases "j = i"; cases "k = i") auto
  show ?thesis
    unfolding machine_inv_def
  proof (intro conjI allI impI)
    show "queue_inv (queue (put i s (m\<lparr>queue := q'\<rparr>)))" using assms(2) by (simp add: put_def)
    show "stage_inv (queue (put i s (m\<lparr>queue := q'\<rparr>))) s'"
      if "submitters (put i s (m\<lparr>queue := q'\<rparr>)) j = Some s'" for j s'
      using that old [of j s'] assms(3) by (cases "j = i") (simp_all add: put_def)
    show "j = k" if "submitters (put i s (m\<lparr>queue := q'\<rparr>)) j = Some s1"
      "submitters (put i s (m\<lparr>queue := q'\<rparr>)) k = Some s2" "stage_chan s1 = Some c" "stage_chan s2 = Some c"
      for j k s1 s2 c
      by (rule new [OF _ _ that(3,4)]) (use that(1,2) in \<open>simp_all add: put_def fun_upd_apply\<close>)
  qed
qed

lemma machine_inv_on_queue:
  assumes "machine_inv m" "evolves J (queue m) q'" "\<And>c. \<not> J c SenderDropped"
    and "distinct (map (call_id \<circ> pe_call) (pending q'))" "distinct (map fst (role_pending q'))"
  shows "machine_inv (m\<lparr>queue := q'\<rparr>)"
  using assms(1) queue_inv_evolves [OF assms(2) _ assms(4,5)] stage_inv_evolves [OF assms(2)] assms(3)
  unfolding machine_inv_def by simp

text \<open>The submitter's own operations.\<close>

lemma is_trusted_same:
  assumes "is_trusted q now tool = (b, q')"
  shows "pending q' = pending q \<and> role_pending q' = role_pending q \<and> chans q' = chans q \<and>
    next_chan q' = next_chan q \<and> next_nonce q' = next_nonce q \<and> signer_roster q' = signer_roster q \<and>
    unknown_outcomes q' = unknown_outcomes q \<and> frozen q' = frozen q \<and> set (grants q') \<subseteq> set (grants q)"
  using assms by (auto simp: is_trusted_def Let_def)

text \<open>The checks before the channel put a stage without a channel and keep the queue but for expired grants.\<close>

lemma machine_inv_same:
  assumes inv: "machine_inv m" and s: "stage_chan s = None" "stage_inv q s"
    and q: "pending q = pending (queue m)" "role_pending q = role_pending (queue m)"
      "chans q = chans (queue m)" "next_chan q = next_chan (queue m)" "next_nonce q = next_nonce (queue m)"
      "signer_roster q = signer_roster (queue m)"
  shows "machine_inv (put i s (m\<lparr>queue := q\<rparr>))"
proof -
  have ev: "evolves (\<lambda>_ _. False) (queue m) q"
    using q by (auto intro!: evolves_same)
  have "queue_inv q"
    using queue_inv_evolves [OF ev] inv q by (simp add: machine_inv_def queue_inv_def)
  with s show ?thesis by (intro machine_invI [OF inv]) (auto intro: stage_inv_evolves [OF ev])
qed

lemma put_same_queue: "put i s m = put i s (m\<lparr>queue := queue m\<rparr>)"
  by (simp add: put_def)

lemma machine_inv_enter:
  assumes "machine_inv m"
  shows "machine_inv (enter i t call m)"
  unfolding enter_def by (subst put_same_queue, rule machine_inv_same [OF assms])
    (auto split: track.splits option.splits)

lemma machine_inv_check_grant:
  assumes "machine_inv m"
  shows "machine_inv (check_grant i call now m)"
proof -
  obtain b q where t: "is_trusted (queue m) now (call_name call) = (b, q)" by fastforce
  show ?thesis
    unfolding check_grant_def t Let_def prod.case
    by (rule machine_inv_same [OF assms]) (use is_trusted_same [OF t] in auto)
qed

lemma machine_inv_check_unknown:
  assumes "machine_inv m"
  shows "machine_inv (check_unknown i call m)"
  unfolding check_unknown_def by (subst put_same_queue, rule machine_inv_same [OF assms]) auto

lemma take_nonce_eq:
  "take_nonce q = (next_chan q, next_nonce q,
     q\<lparr>chans := (chans q)(next_chan q := Open), next_chan := next_chan q + 1, next_nonce := next_nonce q + 1\<rparr>)"
  by (simp add: take_nonce_def open_chan_def)

lemma machine_inv_number:
  assumes inv: "machine_inv m" and i: "submitters m i = Some (Checked t call)"
  shows "machine_inv (advance i (Number i) m)"
proof -
  let ?q = "queue m" and ?q' = "snd (snd (take_nonce (queue m)))"
  have qi: "queue_inv ?q" and si: "\<And>j s. submitters m j = Some s \<Longrightarrow> stage_inv ?q s"
    using inv by (auto simp: machine_inv_def)
  have res: "resolvers ?q' = resolvers ?q" by (simp add: take_nonce_eq resolvers_def)
  have fresh: "next_chan ?q \<notin> resolvers ?q" using qi by (auto simp: queue_inv_def)
  have "queue_inv ?q'"
    using qi res by (auto simp: queue_inv_def take_nonce_eq)
  moreover have "stage_inv ?q' s" if "stage_inv ?q s" for s
    using that by (cases s) (auto simp: take_nonce_eq resolvers_def owns_def entry_in_def no_wrap_def
        split: track.splits)
  moreover have "stage_chan s \<noteq> Some (next_chan ?q)" if "submitters m j = Some s" for j s
    using si [OF that] by (cases s) auto
  moreover have "advance i (Number i) m =
      put i (Numbered t call (next_chan ?q) (next_nonce ?q)) (m\<lparr>queue := ?q'\<rparr>)"
    by (simp add: advance_def i take_nonce_eq)
  moreover have "stage_inv ?q' (Numbered t call (next_chan ?q) (next_nonce ?q))"
    using fresh qi by (simp add: take_nonce_eq resolvers_def queue_inv_def)
  ultimately show ?thesis by (simp only:) (rule machine_invI [OF inv], auto)
qed

lemma resolvers_drop_receiver [simp]: "resolvers (drop_receiver c q) = resolvers q"
  by (simp add: resolvers_def)

lemma stage_inv_drop_receiver:
  "stage_inv q s \<Longrightarrow> stage_chan s \<noteq> Some c \<Longrightarrow> stage_inv (drop_receiver c q) s"
  by (cases s) (auto simp: owns_def entry_in_def no_wrap_def split: track.splits)

lemma queue_inv_drop_receiver [simp]: "queue_inv (drop_receiver c q) = queue_inv q"
  by (simp add: queue_inv_def)

lemma resolversI:
  "e \<in> set (pending q) \<Longrightarrow> pe_resolver e \<in> resolvers q"
  "(k, e') \<in> set (role_pending q) \<Longrightarrow> re_resolver e' \<in> resolvers q"
  by (force simp: resolvers_def)+

text \<open>Parking either drops the receiver or adds one entry under the submission's channel.\<close>

lemma park_on_cases:
  assumes "park_on t q call c nonce = (ok, q')" "distinct (map fst (role_pending q))"
  obtains (refused) "\<not> ok" "q' = drop_receiver c q"
  | (fifo) e where "ok" "t = Fifo" "\<not> frozen q" "call_id call \<notin> (call_id \<circ> pe_call) ` set (pending q)"
      "e = \<lparr>pe_call = call, pe_resolver = c, pe_nonce = nonce\<rparr>" "q' = q\<lparr>pending := pending q @ [e]\<rparr>"
  | (role) payload qu proposer e where "ok" "t = Quorate payload qu proposer" "\<not> frozen q"
      "call_id call \<notin> fst ` set (role_pending q)"
      "e = \<lparr>re_quorum = qu, re_proposer = proposer, re_payload = payload, re_signatures = [],
            re_resolver = c, re_nonce = nonce\<rparr>"
      "q' = q\<lparr>role_pending := AList.update (call_id call) e (role_pending q)\<rparr>"
      "set (role_pending q') = insert (call_id call, e) (set (role_pending q))"
proof (cases t)
  case Fifo
  show ?thesis
  proof (cases "frozen q \<or> list_ex (\<lambda>e. call_id (pe_call e) = call_id call) (pending q)")
    case True
    with assms(1) Fifo show ?thesis by (intro refused) (auto simp: park_on_def park_def split: if_splits)
  next
    case False
    with assms(1) Fifo show ?thesis
      by (intro fifo [of "\<lparr>pe_call = call, pe_resolver = c, pe_nonce = nonce\<rparr>"])
        (auto simp: park_on_def park_def list_ex_iff)
  qed
next
  case (Quorate payload qu proposer)
  show ?thesis
  proof (cases "frozen q \<or> map_of (role_pending q) (call_id call) \<noteq> None")
    case True
    with assms(1) Quorate show ?thesis
      by (intro refused) (auto simp: park_on_def park_action_def split: if_splits)
  next
    case False
    let ?e = "\<lparr>re_quorum = qu, re_proposer = proposer, re_payload = payload, re_signatures = [],
            re_resolver = c, re_nonce = nonce\<rparr>"
    from False have new: "call_id call \<notin> fst ` set (role_pending q)" by (simp add: map_of_eq_None_iff)
    have "(k, v) \<in> set (AList.update (call_id call) ?e (role_pending q)) \<longleftrightarrow>
        (k, v) \<in> insert (call_id call, ?e) (set (role_pending q))" for k v
      using new by (auto simp: alist_update_mem [OF assms(2)] image_iff)
    then have "set (AList.update (call_id call) ?e (role_pending q)) =
        insert (call_id call, ?e) (set (role_pending q))" by auto
    moreover have "ok" "q' = q\<lparr>role_pending := AList.update (call_id call) ?e (role_pending q)\<rparr>"
      using assms(1) Quorate False by (auto simp: park_on_def park_action_def)
    ultimately show ?thesis using False new Quorate by (intro role) auto
  qed
qed

lemma park_on_keeps:
  assumes p: "park_on t q call c nonce = (ok, q')" and d: "distinct (map fst (role_pending q))"
    and s: "stage_inv q s" "stage_chan s \<noteq> Some c"
  shows "stage_inv q' s"
  using p d
proof (cases rule: park_on_cases)
  case refused
  then show ?thesis using s by (simp add: stage_inv_drop_receiver)
next
  case (fifo e)
  then show ?thesis
    using s by (cases s) (auto simp: resolvers_def owns_def entry_in_def no_wrap_def split: track.splits)
next
  case (role payload qu proposer e)
  have same: "pending q' = pending q" "chans q' = chans q" "next_chan q' = next_chan q"
    using role by simp_all
  show ?thesis
    using s role(5,7)
    by (cases s) (auto simp: same resolvers_def owns_def entry_in_def no_wrap_def split: track.splits)
qed

lemma park_on_queue_inv:
  assumes p: "park_on t q call c nonce = (ok, q')" and inv: "queue_inv q"
    and s: "stage_inv q (Numbered t call c nonce)"
  shows "queue_inv q'"
proof -
  have d: "distinct (map fst (role_pending q))" using inv by (simp add: queue_inv_def)
  from p d show ?thesis
  proof (cases rule: park_on_cases)
    case refused
    then show ?thesis using inv by simp
  next
    case (fifo e)
    then show ?thesis using inv s by (auto simp: queue_inv_def resolvers_def)
  next
    case (role payload qu proposer e)
    have same: "pending q' = pending q" "next_nonce q' = next_nonce q" "next_chan q' = next_chan q"
      "role_pending q' = AList.update (call_id call) e (role_pending q)"
      using role by simp_all
    then have "distinct (map fst (role_pending q'))" using d by (simp add: distinct_update)
    then show ?thesis
      using inv s role(5,7) by (auto simp: queue_inv_def resolvers_def same(1-3))
  qed
qed

lemma park_on_parked:
  assumes p: "park_on t q call c nonce = (True, q')" and inv: "queue_inv q"
    and s: "stage_inv q (Numbered t call c nonce)"
  shows "stage_inv q' (Parked t (call_id call) c nonce d)"
proof -
  have "distinct (map fst (role_pending q))" using inv by (simp add: queue_inv_def)
  with p show ?thesis
  proof (cases rule: park_on_cases)
    case (fifo e)
    then show ?thesis using s by (auto simp: owns_def entry_in_def dest: resolversI)
  next
    case (role payload qu proposer e)
    have same: "pending q' = pending q" "chans q' = chans q" "next_chan q' = next_chan q"
      using role by simp_all
    show ?thesis
      using s role(2,5,7) by (auto simp: same owns_def entry_in_def dest: resolversI)
  qed simp
qed

lemma machine_inv_park:
  assumes inv: "machine_inv m" and i: "submitters m i = Some (Numbered t call c nonce)"
  shows "machine_inv (advance i (Park i now) m)"
proof -
  obtain ok q' where p: "park_on t (queue m) call c nonce = (ok, q')" by fastforce
  have qi: "queue_inv (queue m)" and si: "stage_inv (queue m) (Numbered t call c nonce)"
    and inj: "\<And>j s. j \<noteq> i \<Longrightarrow> submitters m j = Some s \<Longrightarrow> stage_chan s \<noteq> Some c"
    using inv i unfolding machine_inv_def by (blast, blast, metis stage_chan.simps(1))
  have d: "distinct (map fst (role_pending (queue m)))" using qi by (simp add: queue_inv_def)
  have "machine_inv (put i (if ok then Parked t (call_id call) c nonce (now + PENDING_TIMEOUT)
      else Ended t (call_id call) (Some (Decided PRejected))) (m\<lparr>queue := q'\<rparr>))"
    (is "machine_inv (put i ?s _)")
  proof (rule machine_invI [OF inv])
    show "queue_inv q'" by (rule park_on_queue_inv [OF p qi si])
    show "stage_inv q' ?s" using park_on_parked [OF _ qi si] p by simp
    show "stage_inv q' s'" if "j \<noteq> i" "submitters m j = Some s'" "stage_inv (queue m) s'" for j s'
      using park_on_keeps [OF p d that(3) inj [OF that(1,2)]] .
  qed (use i in \<open>auto split: if_splits\<close>)
  then show ?thesis by (simp add: advance_def i p Let_def)
qed

lemma machine_inv_leave:
  assumes inv: "machine_inv m" and i: "submitters m i = Some (Parked t cid c nonce d)"
  shows "machine_inv (put i (Leaving t cid c nonce r) (on_queue (drop_receiver c) m))"
  unfolding on_queue_def
proof (rule machine_invI [OF inv])
  have si: "stage_inv (queue m) (Parked t cid c nonce d)" and qi: "queue_inv (queue m)"
    and inj: "\<And>j s. j \<noteq> i \<Longrightarrow> submitters m j = Some s \<Longrightarrow> stage_chan s \<noteq> Some c"
    using inv i unfolding machine_inv_def by (blast, blast, metis stage_chan.simps(2))
  show "queue_inv (drop_receiver c (queue m))" using qi by simp
  show "stage_inv (drop_receiver c (queue m)) (Leaving t cid c nonce r)" using si by simp
  show "stage_inv (drop_receiver c (queue m)) s'"
    if "j \<noteq> i" "submitters m j = Some s'" "stage_inv (queue m) s'" for j s'
    by (rule stage_inv_drop_receiver [OF that(3) inj [OF that(1,2)]])
qed (use i in auto)

text \<open>The guard's eviction: its nonce is its channel number, so it drops no other sender.\<close>

lemma evolves_evict_on:
  assumes "queue_inv q" "n = of_nat c"
  shows "evolves (\<lambda>c' st. st = SenderDropped \<and> (of_nat c' :: u64) = of_nat c) q (evict_on t q cid n)"
proof (cases t)
  case Fifo
  then show ?thesis
    using assms by (auto simp: evict_on_def queue_inv_def intro!: evolves_evict_exact)
next
  case (Quorate payload qu proposer)
  have "re_nonce e = of_nat (re_resolver e)" if "map_of (role_pending q) cid = Some e" for e
    using map_of_SomeD [OF that] assms(1) by (auto simp: queue_inv_def)
  then show ?thesis
    using assms Quorate by (auto simp: evict_on_def queue_inv_def intro!: evolves_evict_role)
qed

lemma machine_inv_evict:
  assumes inv: "machine_inv m" and i: "submitters m i = Some (Leaving t cid c nonce r)"
  shows "machine_inv (advance i (Evict i) m)"
proof -
  have si: "stage_inv (queue m) (Leaving t cid c nonce r)" and qi: "queue_inv (queue m)"
    and inj: "\<And>j s. j \<noteq> i \<Longrightarrow> submitters m j = Some s \<Longrightarrow> stage_chan s \<noteq> Some c"
    using inv i unfolding machine_inv_def by (blast, blast, metis stage_chan.simps(3))
  let ?q' = "evict_on t (queue m) cid nonce"
  have ev: "evolves (\<lambda>c' st. st = SenderDropped \<and> (of_nat c' :: u64) = of_nat c) (queue m) ?q'"
    using si by (intro evolves_evict_on [OF qi]) simp
  have own: "c' = c" if "(of_nat c' :: u64) = of_nat c" "c' < next_chan (queue m)" "no_wrap (queue m)" for c'
    using that si by (simp add: no_wrap_def of_nat_u64_inject)
  have "machine_inv (put i (Ended t cid r) (m\<lparr>queue := ?q'\<rparr>))"
  proof (rule machine_invI [OF inv])
    show "queue_inv ?q'"
      by (rule queue_inv_evolves [OF ev qi])
        (use qi in \<open>cases t; simp add: evict_on_def queue_inv_def distinct_evict_exact distinct_role_ops\<close>)+
    show "stage_inv ?q' s'" if "j \<noteq> i" "submitters m j = Some s'" "stage_inv (queue m) s'" for j s'
      by (rule stage_inv_evolves [OF ev that(3)]) (use own inj [OF that(1,2)] in blast)
  qed simp_all
  then show ?thesis by (simp add: advance_def i on_queue_def)
qed

section \<open>Every event preserves the invariant\<close>

lemma machine_inv_advance:
  assumes inv: "machine_inv m"
  shows "machine_inv (advance i ev m)"
proof (cases "submitters m i")
  case None
  then show ?thesis
    using inv machine_inv_enter [OF inv] by (cases ev) (simp_all add: advance_def)
next
  case (Some s)
  show ?thesis
  proof (cases s)
    case (Entered call)
    with Some inv machine_inv_check_grant [OF inv] show ?thesis
      by (cases ev) (auto simp: advance_def)
  next
    case (Trusted call)
    with Some inv machine_inv_check_unknown [OF inv] show ?thesis
      by (cases ev) (auto simp: advance_def)
  next
    case (Checked t call)
    with Some inv machine_inv_number [OF inv] show ?thesis
      by (cases ev) (auto simp: advance_def)
  next
    case (Numbered t call c n)
    with Some inv machine_inv_park [OF inv] show ?thesis
      by (cases ev) (auto simp: advance_def)
  next
    case (Parked t cid c n d)
    note i = Some [unfolded Parked]
    show ?thesis
      using inv machine_inv_leave [OF inv i] by (cases ev) (auto simp: advance_def i split: option.splits)
  next
    case (Leaving t cid c n r)
    with Some inv machine_inv_evict [OF inv] show ?thesis
      by (cases ev) (auto simp: advance_def)
  next
    case (Ended t cid r)
    with Some inv show ?thesis by (cases ev) (auto simp: advance_def)
  qed
qed

text \<open>The events that are not a submitter's, and what they do to the queue.\<close>

fun queue_op :: "crypto \<Rightarrow> bool \<Rightarrow> event \<Rightarrow> approval_queue \<Rightarrow> approval_queue" where
  "queue_op cr dev (ApproveById cid) q = snd (approve_by_id q cid)"
| "queue_op cr dev (RejectById cid) q = snd (reject_by_id q cid)"
| "queue_op cr dev (ApproveUnknown cid u) q = snd (approve_by_id_outcome_unknown q cid u)"
| "queue_op cr dev (AddGrant tool now) q = add_grant q now tool"
| "queue_op cr dev (AddSignature cid sig) q = snd (add_signature cr dev q cid sig)"
| "queue_op cr dev (RejectAction cid) q = snd (reject_action q cid)"
| "queue_op cr dev Freeze q = freeze q"
| "queue_op cr dev DrainFifo q = snd (drain_fifo q)"
| "queue_op cr dev DrainRole q = snd (drain_role q)"
| "queue_op cr dev Thaw q = thaw q"
| "queue_op cr dev _ q = q"

fun submitter_of :: "event \<Rightarrow> nat option" where
  "submitter_of (Submit i _ _) = Some i"
| "submitter_of (Trust i _) = Some i"
| "submitter_of (Recall i) = Some i"
| "submitter_of (Number i) = Some i"
| "submitter_of (Park i _) = Some i"
| "submitter_of (Poll i _) = Some i"
| "submitter_of (Cancel i) = Some i"
| "submitter_of (Evict i) = Some i"
| "submitter_of _ = None"

lemma step_eq:
  "step cr dev ev m =
     (case submitter_of ev of Some i \<Rightarrow> advance i ev m | None \<Rightarrow> m\<lparr>queue := queue_op cr dev ev (queue m)\<rparr>)"
  by (cases ev) (simp_all add: step_def on_queue_def)

text \<open>Why a decision may be sent on a channel: the event names the entry's call.\<close>

fun sends :: "crypto \<Rightarrow> bool \<Rightarrow> event \<Rightarrow> approval_queue \<Rightarrow> nat \<Rightarrow> chan_state \<Rightarrow> bool" where
  "sends cr dev (ApproveById cid) q c st \<longleftrightarrow> st = Sent Approved \<and>
     pending q \<noteq> [] \<and> pe_resolver (hd (pending q)) = c \<and> call_id (pe_call (hd (pending q))) = cid"
| "sends cr dev (ApproveUnknown cid u) q c st \<longleftrightarrow> st = Sent (SubmittedOutcomeUnknown u) \<and>
     pending q \<noteq> [] \<and> pe_resolver (hd (pending q)) = c \<and> call_id (pe_call (hd (pending q))) = cid"
| "sends cr dev (AddSignature cid sig) q c st \<longleftrightarrow> st = Sent Approved \<and>
     (\<exists>e. (cid, e) \<in> set (role_pending q) \<and> re_resolver e = c \<and> can_approve (role (signer sig)) \<and>
        check_signature (verify_attestation cr) (\<lambda>pk r. signer_is_authorized (signer_roster q) pk r dev)
          e sig = Inr () \<and>
        satisfied_by (re_quorum e) (map (role \<circ> signer) (re_signatures e @ [sig])))"
| "sends cr dev _ q c st \<longleftrightarrow> st = Sent Rejected"

lemma evolves_queue_op:
  assumes "queue_inv q"
  shows "evolves (sends cr dev ev q) q (queue_op cr dev ev q)"
proof -
  have d: "distinct (map fst (role_pending q))" using assms by (simp add: queue_inv_def)
  show ?thesis
  proof (cases ev)
    case (ApproveById cid)
    then show ?thesis
      by (auto simp: op_defs intro!: evolves_resolve_head)
  next
    case (RejectById cid)
    then show ?thesis by (auto simp: op_defs intro!: evolves_resolve_head)
  next
    case (ApproveUnknown cid u)
    then show ?thesis
      by (auto intro!: evolves_approve_unknown)
  next
    case (AddSignature cid sig)
    then show ?thesis
      by (auto simp: op_defs intro!: evolves_add_signature [OF d]) (blast dest: map_of_SomeD)
  qed (auto simp: add_grant_def freeze_def thaw_def
         intro!: evolves_same evolves_drain_fifo evolves_drain_role evolves_reject_action [OF _ d])
qed

lemma distinct_queue_op:
  assumes "queue_inv q"
  shows "distinct (map (call_id \<circ> pe_call) (pending (queue_op cr dev ev q)))"
    and "distinct (map fst (role_pending (queue_op cr dev ev q)))"
proof -
  have same: "pending (remember_unknown_outcome q cid u) = pending q"
    "role_pending (remember_unknown_outcome q cid u) = role_pending q" for cid u
    by (simp_all add: remember_unknown_outcome_def Let_def)
  have d: "distinct (map (call_id \<circ> pe_call) (pending q))" "distinct (map fst (role_pending q))"
    using assms by (simp_all add: queue_inv_def)
  then show "distinct (map (call_id \<circ> pe_call) (pending (queue_op cr dev ev q)))"
    by (cases ev) (simp_all only: queue_op.simps op_defs, simp_all add: distinct_resolve_head same
         add_grant_def freeze_def thaw_def drain_fifo_def drain_role_def)
  from d show "distinct (map fst (role_pending (queue_op cr dev ev q)))"
    by (cases ev) (simp_all only: queue_op.simps op_defs, simp_all add: distinct_role_ops same
         add_grant_def freeze_def thaw_def drain_fifo_def drain_role_def)
qed

lemma machine_inv_step:
  assumes "machine_inv m"
  shows "machine_inv (step cr dev ev m)"
proof (cases "submitter_of ev")
  case (Some i)
  then show ?thesis using machine_inv_advance [OF assms] by (simp add: step_eq)
next
  case None
  have qi: "queue_inv (queue m)" using assms by (simp add: machine_inv_def)
  have "\<not> sends cr dev ev (queue m) c SenderDropped" for c by (cases ev) simp_all
  then show ?thesis
    using None machine_inv_on_queue [OF assms evolves_queue_op [OF qi] _ distinct_queue_op [OF qi]]
    by (simp add: step_eq)
qed

lemma run_Nil [simp]: "run cr dev [] m = m"
  and run_snoc [simp]: "run cr dev (evs @ [ev]) m = step cr dev ev (run cr dev evs m)"
  and run_append: "run cr dev (evs @ evs') m = run cr dev evs' (run cr dev evs m)"
  by (simp_all add: run_def)

lemma machine_inv_start: "machine_inv (start roster)"
  by (simp add: machine_inv_def start_def new_queue_def queue_inv_def resolvers_def)

lemma machine_inv_run: "machine_inv (run cr dev evs (start roster))"
  by (induction evs rule: rev_induct) (simp_all add: machine_inv_start machine_inv_step)

section \<open>What a quorum's signatures are\<close>

definition signatures_ok ::
  "(bytes \<Rightarrow> attested_signature \<Rightarrow> attestation_error + unit) \<Rightarrow> (bytes \<Rightarrow> role \<Rightarrow> bool) \<Rightarrow>
   bytes \<Rightarrow> signer \<Rightarrow> attested_signature list \<Rightarrow> bool" where
  "signatures_ok verify enrolled payload proposer ss \<longleftrightarrow>
     (\<forall>s \<in> set ss. verify payload s = Inr () \<and> enrolled (pubkey s) (role (signer s)) \<and>
        can_approve (role (signer s)) \<and> signer_id (signer s) \<noteq> signer_id proposer) \<and>
     distinct (map (signer_id \<circ> signer) ss)"

lemma check_signature_Inr_iff:
  "check_signature verify enrolled e sig = Inr () \<longleftrightarrow>
     verify (re_payload e) sig = Inr () \<and> enrolled (pubkey sig) (role (signer sig)) \<and>
     signer_id (re_proposer e) \<noteq> signer_id (signer sig) \<and>
     signer_id (signer sig) \<notin> (signer_id \<circ> signer) ` set (re_signatures e)"
  by (auto simp: check_signature_def list_ex_iff find_None_iff find_Some_iff image_iff
        split: sum.split option.split)
     (metis nth_mem)+

context signer_authority
begin

lemma signatures_ok_accepted:
  "signatures_ok verify enrolled payload proposer ss \<Longrightarrow> \<forall>s \<in> set ss. accepted payload s"
  by (simp add: signatures_ok_def accepted_def)

lemma signatures_ok_snoc:
  assumes "signatures_ok verify enrolled (re_payload e) (re_proposer e) (re_signatures e)"
    and "can_approve (role (signer sig))" "check_signature verify enrolled e sig = Inr ()"
  shows "signatures_ok verify enrolled (re_payload e) (re_proposer e) (re_signatures e @ [sig])"
  using assms by (auto simp: signatures_ok_def check_signature_Inr_iff image_comp)

text \<open>Distinct signer ids of accepted signatures are distinct keys.\<close>

lemma signatures_ok_distinct_keys:
  assumes "signatures_ok verify enrolled payload proposer ss"
  shows "distinct (map pubkey ss)"
  using distinct_ids_distinct_keys [OF signatures_ok_accepted [OF assms]] assms
  by (simp add: signatures_ok_def)

text \<open>So a satisfied tier's quorum has at least the tier's number of keys behind it.\<close>

lemma signatures_ok_people:
  assumes ok: "signatures_ok verify enrolled payload proposer ss"
    and sat: "satisfied_by (for_tier tier req) (map (role \<circ> signer) ss)"
  shows "min_people tier \<le> card (set (map pubkey ss))"
proof -
  have "min_people tier \<le> card (set (map (role \<circ> signer) ss) - {Auditor})"
    by (rule satisfied_tier_distinct_roles [OF sat])
  also have "\<dots> \<le> card ((role \<circ> signer) ` set ss)"
    by (rule card_mono) auto
  also have "\<dots> \<le> card (pubkey ` set ss)"
    by (rule card_roles_le_ids [OF signatures_ok_distinct_keys [OF ok]])
  finally show ?thesis by simp
qed

end

section \<open>Why a submission ended the way it did\<close>

text \<open>
  The event that decides a parked submission: on the first track the approval of the head, which
  is this very submission; on the role track the signature that completes the quorum of its entry.
\<close>

fun decides ::
  "crypto \<Rightarrow> bool \<Rightarrow> signer_roster option \<Rightarrow> event list \<Rightarrow> event \<Rightarrow> track \<Rightarrow> string \<Rightarrow> nat \<Rightarrow> bool" where
  "decides cr dev roster before ev Fifo cid c \<longleftrightarrow>
     (let q = queue (run cr dev before (start roster))
      in ev = ApproveById cid \<and> pending q \<noteq> [] \<and> pe_resolver (hd (pending q)) = c \<and>
         call_id (pe_call (hd (pending q))) = cid)"
| "decides cr dev roster before ev (Quorate payload qu proposer) cid c \<longleftrightarrow>
     (let q = queue (run cr dev before (start roster))
      in \<exists>sig e ss. ev = AddSignature cid sig \<and> (cid, e) \<in> set (role_pending q) \<and> re_resolver e = c \<and>
           ss = re_signatures e @ [sig] \<and> (\<forall>s \<in> set ss. AddSignature cid s \<in> set (before @ [ev])) \<and>
           signatures_ok (verify_attestation cr) (\<lambda>pk r. signer_is_authorized roster pk r dev)
             payload proposer ss \<and>
           satisfied_by qu (map (role \<circ> signer) ss))"

definition granted ::
  "crypto \<Rightarrow> bool \<Rightarrow> signer_roster option \<Rightarrow> event list \<Rightarrow> nat \<Rightarrow> track \<Rightarrow> string \<Rightarrow> bool" where
  "granted cr dev roster evs i t cid \<longleftrightarrow>
     (\<exists>before ev after c n d. evs = before @ ev # after \<and>
        submitters (run cr dev before (start roster)) i = Some (Parked t cid c n d) \<and>
        decides cr dev roster before ev t cid c)"

text \<open>
  An automatic approval passed three checks, one after the other and each in the state of its
  moment: no emergency stop, then a live grant for the tool, then no unknown outcome of the call.
\<close>

definition entered ::
  "crypto \<Rightarrow> bool \<Rightarrow> signer_roster option \<Rightarrow> event list \<Rightarrow> nat \<Rightarrow> tool_call \<Rightarrow> bool" where
  "entered cr dev roster evs i call \<longleftrightarrow>
     (\<exists>before after. evs = before @ Submit i Fifo call # after \<and>
        \<not> frozen (queue (run cr dev before (start roster))))"

definition trusted ::
  "crypto \<Rightarrow> bool \<Rightarrow> signer_roster option \<Rightarrow> event list \<Rightarrow> nat \<Rightarrow> tool_call \<Rightarrow> bool" where
  "trusted cr dev roster evs i call \<longleftrightarrow>
     (\<exists>before now after t. evs = before @ Trust i now # after \<and> entered cr dev roster before i call \<and>
        AddGrant (call_name call) t \<in> set before \<and> now < t + AUTO_GRANT_TTL)"

fun auto_granted ::
  "crypto \<Rightarrow> bool \<Rightarrow> signer_roster option \<Rightarrow> event list \<Rightarrow> nat \<Rightarrow> track \<Rightarrow> string \<Rightarrow> bool" where
  "auto_granted cr dev roster evs i Fifo cid \<longleftrightarrow>
     (\<exists>before call after. evs = before @ Recall i # after \<and> call_id call = cid \<and>
        trusted cr dev roster before i call \<and>
        prior_unknown_outcome (queue (run cr dev before (start roster))) cid = None)"
| "auto_granted cr dev roster evs i (Quorate payload qu proposer) cid \<longleftrightarrow> qu = AutoApprove"

fun why_sent ::
  "crypto \<Rightarrow> bool \<Rightarrow> signer_roster option \<Rightarrow> event list \<Rightarrow> nat \<Rightarrow> track \<Rightarrow> string \<Rightarrow> approval_outcome \<Rightarrow> bool" where
  "why_sent cr dev roster evs i t cid Approved \<longleftrightarrow> granted cr dev roster evs i t cid"
| "why_sent cr dev roster evs i t cid Rejected \<longleftrightarrow> True"
| "why_sent cr dev roster evs i t cid (SubmittedOutcomeUnknown u) \<longleftrightarrow> t = Fifo \<and> ApproveUnknown cid u \<in> set evs"

fun why :: "crypto \<Rightarrow> bool \<Rightarrow> signer_roster option \<Rightarrow> event list \<Rightarrow> nat \<Rightarrow> track \<Rightarrow> string \<Rightarrow> resolution \<Rightarrow> bool" where
  "why cr dev roster evs i t cid (Decided PApproved) \<longleftrightarrow> granted cr dev roster evs i t cid"
| "why cr dev roster evs i t cid (Decided PAutoApproved) \<longleftrightarrow> auto_granted cr dev roster evs i t cid"
| "why cr dev roster evs i t cid (Decided PSubmittedOutcomeUnknown) \<longleftrightarrow> False"
| "why cr dev roster evs i t cid (ResSubmittedOutcomeUnknown u) \<longleftrightarrow> t = Fifo \<and> ApproveUnknown cid u \<in> set evs"
| "why cr dev roster evs i t cid _ \<longleftrightarrow> True"

fun stage_why :: "crypto \<Rightarrow> bool \<Rightarrow> signer_roster option \<Rightarrow> event list \<Rightarrow> nat \<Rightarrow> approval_queue \<Rightarrow> stage \<Rightarrow> bool" where
  "stage_why cr dev roster evs i q (Parked t cid c n d) \<longleftrightarrow>
     (\<forall>ao. chans q c = Sent ao \<longrightarrow> why_sent cr dev roster evs i t cid ao)"
| "stage_why cr dev roster evs i q (Leaving t cid c n (Some r)) \<longleftrightarrow> why cr dev roster evs i t cid r"
| "stage_why cr dev roster evs i q (Ended t cid (Some r)) \<longleftrightarrow> why cr dev roster evs i t cid r"
| "stage_why cr dev roster evs i q (Entered call) \<longleftrightarrow> entered cr dev roster evs i call"
| "stage_why cr dev roster evs i q (Trusted call) \<longleftrightarrow> trusted cr dev roster evs i call"
| "stage_why cr dev roster evs i q _ \<longleftrightarrow> True"

definition queue_why :: "crypto \<Rightarrow> bool \<Rightarrow> signer_roster option \<Rightarrow> event list \<Rightarrow> approval_queue \<Rightarrow> bool" where
  "queue_why cr dev roster evs q \<longleftrightarrow>
     signer_roster q = roster \<and>
     (\<forall>(n, x) \<in> set (grants q). \<exists>t. AddGrant n t \<in> set evs \<and> x = t + AUTO_GRANT_TTL) \<and>
     (\<forall>(k, e) \<in> set (role_pending q).
        signatures_ok (verify_attestation cr) (\<lambda>pk r. signer_is_authorized roster pk r dev)
          (re_payload e) (re_proposer e) (re_signatures e) \<and>
        (\<forall>s \<in> set (re_signatures e). AddSignature k s \<in> set evs))"

lemma granted_mono:
  "granted cr dev roster evs i t cid \<Longrightarrow> prefix evs evs' \<Longrightarrow> granted cr dev roster evs' i t cid"
  unfolding granted_def by (elim exE conjE prefixE) (simp, blast)

lemma entered_mono:
  "entered cr dev roster evs i call \<Longrightarrow> prefix evs evs' \<Longrightarrow> entered cr dev roster evs' i call"
  unfolding entered_def by (elim exE conjE prefixE) (simp, blast)

lemma trusted_mono:
  "trusted cr dev roster evs i call \<Longrightarrow> prefix evs evs' \<Longrightarrow> trusted cr dev roster evs' i call"
  unfolding trusted_def by (elim exE conjE prefixE) (simp, blast)

lemma auto_granted_mono:
  "auto_granted cr dev roster evs i t cid \<Longrightarrow> prefix evs evs' \<Longrightarrow> auto_granted cr dev roster evs' i t cid"
proof (cases t)
  case Fifo
  assume "auto_granted cr dev roster evs i t cid" "prefix evs evs'"
  then show ?thesis
    unfolding Fifo auto_granted.simps by (elim exE conjE prefixE) (simp, blast)
qed simp

lemma why_mono:
  assumes "why cr dev roster evs i t cid r" "prefix evs evs'"
  shows "why cr dev roster evs' i t cid r"
  using assms set_mono_prefix [OF assms(2)]
  by (cases "(cr, dev, roster, evs, i, t, cid, r)" rule: why.cases)
     (use granted_mono auto_granted_mono in auto)

lemma why_sent_mono:
  assumes "why_sent cr dev roster evs i t cid ao" "prefix evs evs'"
  shows "why_sent cr dev roster evs' i t cid ao"
  using assms set_mono_prefix [OF assms(2)] by (cases ao) (use granted_mono in auto)

lemma stage_why_mono:
  assumes "stage_why cr dev roster evs i q s" "prefix evs evs'"
  shows "stage_why cr dev roster evs' i q s"
  using assms by (cases "(cr, dev, roster, evs, i, q, s)" rule: stage_why.cases)
     (use why_mono why_sent_mono entered_mono trusted_mono in auto)

section \<open>Every event preserves the reasons\<close>

lemma set_alist_update: "set (AList.update k v al) \<subseteq> insert (k, v) (set al)"
  by (induction al) auto

lemma resolve_head_same [simp]:
  "grants (snd (resolve_head_by_id q cid ao)) = grants q"
  "signer_roster (snd (resolve_head_by_id q cid ao)) = signer_roster q"
  "frozen (snd (resolve_head_by_id q cid ao)) = frozen q"
  "unknown_outcomes (snd (resolve_head_by_id q cid ao)) = unknown_outcomes q"
  by (auto simp: resolve_head_by_id_def split_beta split: list.splits)

lemma remember_same [simp]:
  "pending (remember_unknown_outcome q cid u) = pending q"
  "role_pending (remember_unknown_outcome q cid u) = role_pending q"
  "grants (remember_unknown_outcome q cid u) = grants q"
  "signer_roster (remember_unknown_outcome q cid u) = signer_roster q"
  "frozen (remember_unknown_outcome q cid u) = frozen q"
  "chans (remember_unknown_outcome q cid u) = chans q"
  by (simp_all add: remember_unknown_outcome_def Let_def)

lemma role_ops_same [simp]:
  "grants (snd (reject_action q cid)) = grants q"
  "grants (snd (add_signature_with verify enrolled q cid sig)) = grants q"
  "unknown_outcomes (snd (reject_action q cid)) = unknown_outcomes q"
  "unknown_outcomes (snd (add_signature_with verify enrolled q cid sig)) = unknown_outcomes q"
  "frozen (snd (reject_action q cid)) = frozen q"
  "frozen (snd (add_signature_with verify enrolled q cid sig)) = frozen q"
  by (auto simp: reject_action_def add_signature_with_def Let_def split: option.splits sum.splits)

lemma queue_op_grants:
  assumes "(n, x) \<in> set (grants (queue_op cr dev ev q))"
  shows "(n, x) \<in> set (grants q) \<or> (\<exists>t. ev = AddGrant n t \<and> x = t + AUTO_GRANT_TTL)"
proof (cases ev)
  case (AddGrant tool now)
  then have "(n, x) \<in> insert (tool, now + AUTO_GRANT_TTL) (set (grants q))"
    using assms set_alist_update [of tool "now + AUTO_GRANT_TTL" "grants q"] by (auto simp: add_grant_def)
  with AddGrant show ?thesis by auto
qed (use assms in \<open>simp_all add: op_defs freeze_def thaw_def drain_fifo_def drain_role_def\<close>)

lemma queue_op_role:
  assumes e': "(k, e') \<in> set (role_pending (queue_op cr dev ev q))" and inv: "queue_inv q"
  shows "(k, e') \<in> set (role_pending q) \<or>
    (\<exists>sig e. ev = AddSignature k sig \<and> (k, e) \<in> set (role_pending q) \<and> can_approve (role (signer sig)) \<and>
       check_signature (verify_attestation cr) (\<lambda>pk r. signer_is_authorized (signer_roster q) pk r dev)
         e sig = Inr () \<and>
       e' = e\<lparr>re_signatures := re_signatures e @ [sig]\<rparr>)"
proof (cases ev)
  case (RejectAction cid)
  then show ?thesis
    using e' by (auto simp: reject_action_def alist_delete_mem split: option.splits)
next
  case (AddSignature cid sig)
  let ?en = "\<lambda>pk r. signer_is_authorized (signer_roster q) pk r dev"
  have d: "distinct (map fst (role_pending q))" using inv by (simp add: queue_inv_def)
  show ?thesis
  proof (cases "map_of (role_pending q) cid")
    case (Some e)
    then show ?thesis
      using e' AddSignature map_of_SomeD [OF Some]
      by (cases "check_signature (verify_attestation cr) ?en e sig")
        (auto simp: op_defs add_signature_with_def Let_def alist_delete_mem alist_update_mem [OF d]
           split: if_splits)
  qed (use e' AddSignature in \<open>auto simp: op_defs add_signature_with_def split: if_splits\<close>)
qed (use e' in \<open>simp_all add: op_defs add_grant_def freeze_def thaw_def drain_fifo_def drain_role_def\<close>)

lemma queue_op_roster: "queue_inv q \<Longrightarrow> signer_roster (queue_op cr dev ev q) = signer_roster q"
  using evolves_queue_op by (auto simp: evolves_def)

lemma queue_why_queue_op:
  assumes w: "queue_why cr dev roster evs q" and inv: "queue_inv q"
  shows "queue_why cr dev roster (evs @ [ev]) (queue_op cr dev ev q)"
proof -
  have roster: "signer_roster q = roster" using w by (simp add: queue_why_def)
  have "\<exists>t. AddGrant n t \<in> set (evs @ [ev]) \<and> x = t + AUTO_GRANT_TTL"
    if "(n, x) \<in> set (grants (queue_op cr dev ev q))" for n x
    using queue_op_grants [OF that] w by (auto simp: queue_why_def)
  moreover have "signatures_ok (verify_attestation cr) (\<lambda>pk r. signer_is_authorized roster pk r dev)
      (re_payload e') (re_proposer e') (re_signatures e') \<and>
      (\<forall>s \<in> set (re_signatures e'). AddSignature k s \<in> set (evs @ [ev]))"
    if "(k, e') \<in> set (role_pending (queue_op cr dev ev q))" for k e'
    using queue_op_role [OF that inv]
  proof (elim disjE exE conjE)
    fix sig e
    assume *: "ev = AddSignature k sig" "(k, e) \<in> set (role_pending q)" "can_approve (role (signer sig))"
      "check_signature (verify_attestation cr) (\<lambda>pk r. signer_is_authorized (signer_roster q) pk r dev) e sig = Inr ()"
      "e' = e\<lparr>re_signatures := re_signatures e @ [sig]\<rparr>"
    have "signatures_ok (verify_attestation cr) (\<lambda>pk r. signer_is_authorized roster pk r dev)
        (re_payload e) (re_proposer e) (re_signatures e)"
      and "\<forall>s \<in> set (re_signatures e). AddSignature k s \<in> set evs"
      using w *(2) by (auto simp: queue_why_def)
    with ed.signatures_ok_snoc [OF this(1) *(3)] *(1,4,5) roster show ?thesis by simp
  qed (use w in \<open>auto simp: queue_why_def\<close>)
  ultimately show ?thesis
    using queue_op_roster [OF inv] roster unfolding queue_why_def by blast
qed

text \<open>A decision sent on a parked submitter's channel is a decision about its own call.\<close>

lemma sends_why:
  assumes m: "m = run cr dev evs (start roster)" and p: "submitters m i = Some (Parked t cid c n d)"
    and s: "sends cr dev ev (queue m) c (Sent ao)" and o: "owns (queue m) t cid c"
    and w: "queue_why cr dev roster evs (queue m)"
  shows "why_sent cr dev roster (evs @ [ev]) i t cid ao"
proof -
  have split: "evs @ [ev] = evs @ ev # []" by simp
  have grantedI: "granted cr dev roster (evs @ [ev]) i t cid" if "decides cr dev roster evs ev t cid c"
    unfolding granted_def using split p that m by blast
  show ?thesis
  proof (cases ev)
    case (ApproveById k)
    then have "decides cr dev roster evs ev t cid c"
      using s o m by (auto simp: owns_def Let_def)
    with grantedI ApproveById s show ?thesis by simp
  next
    case (AddSignature k sig)
    with s obtain e where e: "(k, e) \<in> set (role_pending (queue m))" "re_resolver e = c"
      "can_approve (role (signer sig))"
      "check_signature (verify_attestation cr)
         (\<lambda>pk r. signer_is_authorized (signer_roster (queue m)) pk r dev) e sig = Inr ()"
      "satisfied_by (re_quorum e) (map (role \<circ> signer) (re_signatures e @ [sig]))" "ao = Approved"
      by auto
    have t: "k = cid" "t = Quorate (re_payload e) (re_quorum e) (re_proposer e)"
      using o e(1,2) by (auto simp: owns_def)
    have roster: "signer_roster (queue m) = roster" using w by (simp add: queue_why_def)
    have "signatures_ok (verify_attestation cr) (\<lambda>pk r. signer_is_authorized roster pk r dev)
        (re_payload e) (re_proposer e) (re_signatures e @ [sig])"
      using w e(1,3,4) roster by (intro ed.signatures_ok_snoc) (auto simp: queue_why_def)
    moreover have "\<forall>s \<in> set (re_signatures e @ [sig]). AddSignature cid s \<in> set (evs @ [ev])"
      using w e(1) t(1) AddSignature by (auto simp: queue_why_def)
    ultimately have "decides cr dev roster evs ev t cid c"
      using e(1,2,5) AddSignature unfolding t decides.simps Let_def m by blast
    with grantedI show ?thesis using e(6) by simp
  qed (use s o in \<open>auto simp: owns_def\<close>)
qed

lemma stage_why_queue_op:
  assumes m: "m = run cr dev evs (start roster)" and i: "submitters m i = Some s"
    and w: "queue_why cr dev roster evs (queue m)" and inv: "queue_inv (queue m)"
    and s: "stage_why cr dev roster evs i (queue m) s" "stage_inv (queue m) s"
  shows "stage_why cr dev roster (evs @ [ev]) i (queue_op cr dev ev (queue m)) s"
proof -
  have mono: "stage_why cr dev roster (evs @ [ev]) i (queue m) s"
    by (rule stage_why_mono [OF s(1)]) simp
  show ?thesis
  proof (cases s)
    case (Parked t cid c n d)
    show ?thesis
      using mono sends_why [OF m i [unfolded Parked] _ _ w] s(2)
        evolves_chans [OF evolves_queue_op [OF inv], of cr dev ev c]
      by (auto simp: Parked)
  next
    case (Leaving t cid c n r)
    then show ?thesis using mono by (cases r) auto
  next
    case (Ended t cid r)
    then show ?thesis using mono by (cases r) auto
  qed (use mono in simp_all)
qed

text \<open>A submitter's own operation sends nothing, signs nothing and grants nothing.\<close>

definition quiet :: "approval_queue \<Rightarrow> approval_queue \<Rightarrow> bool" where
  "quiet q q' \<longleftrightarrow>
     signer_roster q' = signer_roster q \<and> set (grants q') \<subseteq> set (grants q) \<and>
     (\<forall>c ao. chans q' c = Sent ao \<longrightarrow> chans q c = Sent ao) \<and>
     (\<forall>(k, e) \<in> set (role_pending q'). (k, e) \<in> set (role_pending q) \<or> re_signatures e = [])"

lemma quiet_refl [simp]: "quiet q q"
  by (auto simp: quiet_def)

lemma quiet_park_on:
  assumes "park_on t q call c nonce = (ok, q')" "distinct (map fst (role_pending q))"
  shows "quiet q q'"
  using assms
proof (cases rule: park_on_cases)
  case refused
  then show ?thesis by (auto simp: quiet_def split: if_splits)
next
  case (fifo e)
  then show ?thesis by (auto simp: quiet_def)
next
  case (role payload qu proposer e)
  have "signer_roster q' = signer_roster q" "grants q' = grants q" "chans q' = chans q" using role by simp_all
  then show ?thesis using role(5,7) by (auto simp: quiet_def)
qed

lemma quiet_drop_receiver [simp]: "quiet q (drop_receiver c q)"
  by (auto simp: quiet_def split: if_splits)

lemma quiet_evict_on: "quiet q (evict_on t q cid n)"
proof (cases t)
  case Fifo
  then show ?thesis
    by (auto simp: evict_on_def evict_exact_def quiet_def split: prod.splits option.splits if_splits)
next
  case (Quorate payload qu proposer)
  then show ?thesis
    by (auto simp: evict_on_def evict_role_def quiet_def alist_delete_mem split: option.splits if_splits)
qed

lemma quiet_checks:
  "quiet (queue m) (queue (enter i t call m))" "quiet (queue m) (queue (check_unknown i call m))"
  "quiet (queue m) (queue (check_grant i call now m))"
proof -
  obtain b q where t: "is_trusted (queue m) now (call_name call) = (b, q)" by fastforce
  from is_trusted_same [OF this] show "quiet (queue m) (queue (check_grant i call now m))"
    by (auto simp: check_grant_def t put_def quiet_def)
qed (simp_all add: enter_def check_unknown_def put_def)

lemma quiet_advance:
  assumes "machine_inv m"
  shows "quiet (queue m) (queue (advance i ev m))"
proof -
  have d: "distinct (map fst (role_pending (queue m)))"
    using assms by (simp add: machine_inv_def queue_inv_def)
  have take: "quiet (queue m) (snd (snd (take_nonce (queue m))))"
    by (auto simp: quiet_def take_nonce_eq split: if_splits)
  have park: "quiet (queue m) (snd (park_on t (queue m) call c n))" for t call c n
    by (rule quiet_park_on [OF _ d]) (rule surjective_pairing)
  show ?thesis
    using quiet_checks take park quiet_evict_on
    by (auto simp: advance_def put_def on_queue_def split_beta Let_def
          split: option.splits stage.splits event.splits)
qed

lemma stage_why_quiet:
  assumes "quiet q q'" "stage_why cr dev roster evs i q s" "prefix evs evs'"
  shows "stage_why cr dev roster evs' i q' s"
  using assms(1) stage_why_mono [OF assms(2,3)]
  by (cases "(cr, dev, roster, evs, i, q, s)" rule: stage_why.cases) (auto simp: quiet_def)

lemma queue_why_quiet:
  assumes "quiet q q'" "queue_why cr dev roster evs q" "prefix evs evs'"
  shows "queue_why cr dev roster evs' q'"
proof -
  note sub = set_mono_prefix [OF assms(3)]
  have "signer_roster q' = roster" using assms by (simp add: quiet_def queue_why_def)
  moreover have "\<forall>(n, x) \<in> set (grants q'). \<exists>t. AddGrant n t \<in> set evs' \<and> x = t + AUTO_GRANT_TTL"
    using assms(1,2) sub unfolding quiet_def queue_why_def by blast
  moreover have "signatures_ok (verify_attestation cr) (\<lambda>pk r. signer_is_authorized roster pk r dev)
       (re_payload e) (re_proposer e) (re_signatures e) \<and>
      (\<forall>s \<in> set (re_signatures e). AddSignature k s \<in> set evs')" if "(k, e) \<in> set (role_pending q')" for k e
  proof (cases "re_signatures e = []")
    case False
    with that assms(1) have "(k, e) \<in> set (role_pending q)" by (auto simp: quiet_def)
    with assms(2) sub show ?thesis unfolding queue_why_def by blast
  qed (simp add: signatures_ok_def)
  ultimately show ?thesis unfolding queue_why_def by blast
qed

definition trace_why :: "crypto \<Rightarrow> bool \<Rightarrow> signer_roster option \<Rightarrow> event list \<Rightarrow> machine \<Rightarrow> bool" where
  "trace_why cr dev roster evs m \<longleftrightarrow>
     queue_why cr dev roster evs (queue m) \<and>
     (\<forall>i s. submitters m i = Some s \<longrightarrow> stage_why cr dev roster evs i (queue m) s)"

lemma result_why:
  "why_sent cr dev roster evs i t cid ao \<Longrightarrow> why cr dev roster evs i t cid (result_on t ao)"
  by (cases t; cases ao) (auto simp: result_on_def fifo_result_def role_result_def)

text \<open>The three checks of the plain track, each with its reason.\<close>

lemma enter_why:
  assumes m: "m = run cr dev evs (start roster)" and s: "submitters (enter i t call m) i = Some s"
  shows "stage_why cr dev roster (evs @ [Submit i t call]) i q s"
proof (cases t)
  case Fifo
  have "entered cr dev roster (evs @ [Submit i Fifo call]) i call" if "\<not> frozen (queue m)"
    using that unfolding entered_def m by blast
  with s Fifo show ?thesis by (auto simp: enter_def put_def split: if_splits)
next
  case (Quorate payload qu proposer)
  with s show ?thesis by (auto simp: enter_def put_def action_entry_def split: if_splits)
qed

lemma check_grant_why:
  assumes q: "queue_why cr dev roster evs (queue m)" and e: "entered cr dev roster evs i call"
    and s: "submitters (check_grant i call now m) i = Some s"
  shows "stage_why cr dev roster (evs @ [Trust i now]) i q' s"
proof -
  have "trusted cr dev roster (evs @ [Trust i now]) i call"
    if "fst (is_trusted (queue m) now (call_name call))"
  proof -
    from that obtain x where "(call_name call, x) \<in> set (grants (queue m))" "now < x"
      by (auto simp: is_trusted_def Let_def list_ex_iff)
    with q obtain t where "AddGrant (call_name call) t \<in> set evs" "now < t + AUTO_GRANT_TTL"
      by (fastforce simp: queue_why_def)
    with e show ?thesis unfolding trusted_def by blast
  qed
  with s show ?thesis by (auto simp: check_grant_def put_def split_beta Let_def split: if_splits)
qed

lemma check_unknown_why:
  assumes m: "m = run cr dev evs (start roster)" and t: "trusted cr dev roster evs i call"
    and s: "submitters (check_unknown i call m) i = Some s"
  shows "stage_why cr dev roster (evs @ [Recall i]) i q s"
proof -
  have "auto_granted cr dev roster (evs @ [Recall i]) i Fifo (call_id call)"
    if "prior_unknown_outcome (queue m) (call_id call) = None"
    using that t unfolding auto_granted.simps m by blast
  with s show ?thesis by (auto simp: check_unknown_def put_def simp del: auto_granted.simps split: if_splits)
qed

lemma own_stage_why:
  assumes w: "trace_why cr dev roster evs m" and i: "submitter_of ev = Some i"
    and s: "submitters (advance i ev m) i = Some s" and m: "m = run cr dev evs (start roster)"
  shows "stage_why cr dev roster (evs @ [ev]) i (queue (advance i ev m)) s"
proof (cases "advance i ev m = m \<or> submitters m i = Some s")
  case True
  then have "stage_why cr dev roster evs i (queue m) s" using w s by (auto simp: trace_why_def)
  then show ?thesis by (rule stage_why_quiet [OF quiet_advance [OF machine_inv_run [of cr dev evs roster, folded m]]]) auto
next
  case False
  show ?thesis
  proof (cases "submitters m i")
    case None
    then obtain j t call where ev: "ev = Submit j t call"
      using False by (cases ev) (auto simp: advance_def)
    with i have j: "j = i" by simp
    then have "submitters (enter i t call m) i = Some s" using s by (simp add: advance_def None ev)
    from enter_why [OF m this] show ?thesis by (simp add: ev j)
  next
    case (Some s0)
    then have w0: "stage_why cr dev roster evs i (queue m) s0" using w by (simp add: trace_why_def)
    have qw: "queue_why cr dev roster evs (queue m)" using w by (simp add: trace_why_def)
    show ?thesis
    proof (cases s0)
      case (Entered call)
      with False Some i obtain now where ev: "ev = Trust i now"
        by (cases ev) (auto simp: advance_def)
      have "submitters (check_grant i call now m) i = Some s"
        using s by (simp add: advance_def Some Entered ev)
      from check_grant_why [OF qw _ this] w0 Entered show ?thesis by (simp add: ev)
    next
      case (Trusted call)
      with False Some i have ev: "ev = Recall i"
        by (cases ev) (auto simp: advance_def)
      have "submitters (check_unknown i call m) i = Some s"
        using s by (simp add: advance_def Some Trusted ev)
      from check_unknown_why [OF m _ this] w0 Trusted show ?thesis by (simp add: ev)
    next
      case (Checked t call)
      then show ?thesis using s False Some i
        by (cases ev) (auto simp: advance_def take_nonce_eq put_def)
    next
      case (Numbered t call c n)
      obtain ok q' where p: "park_on t (queue m) call c n = (ok, q')" by fastforce
      have qi: "queue_inv (queue m)" and si: "stage_inv (queue m) (Numbered t call c n)"
        using machine_inv_run [of cr dev evs roster] Some unfolding m [symmetric] machine_inv_def Numbered by (blast, blast)
      have d: "distinct (map fst (role_pending (queue m)))" using qi by (simp add: queue_inv_def)
      have "chans q' c \<noteq> Sent ao" for ao
        using quiet_park_on [OF p d] si by (auto simp: quiet_def)
      then show ?thesis using s False Some i Numbered p
        by (cases ev) (auto simp: advance_def put_def Let_def split: if_splits)
    next
      case (Parked t cid c n dl)
      have "why cr dev roster (evs @ [ev]) i t cid r"
        if "poll (result_on t) (queue m) c dl now = Some r" for now r
      proof -
        have "why cr dev roster evs i t cid r"
          using that w0 Parked result_why by (auto simp: poll_def split: chan_state.splits if_splits)
        then show ?thesis by (rule why_mono) auto
      qed
      then show ?thesis using s False Some i Parked
        by (cases ev) (auto simp: advance_def put_def on_queue_def split: option.splits)
    next
      case (Leaving t cid c n r)
      have "why cr dev roster (evs @ [ev]) i t cid x" if "r = Some x" for x
        by (rule why_mono [of _ _ _ evs]) (use w0 Leaving that in auto)
      then show ?thesis using s False Some i Leaving
        by (cases ev; cases r) (auto simp: advance_def put_def on_queue_def)
    next
      case (Ended t cid r)
      then show ?thesis using s False Some i by (cases ev) (auto simp: advance_def)
    qed
  qed
qed

lemma advance_other: "j \<noteq> i \<Longrightarrow> submitters (advance i ev m) j = submitters m j"
  by (auto simp: advance_def put_def on_queue_def enter_def check_grant_def check_unknown_def Let_def split_beta
        split: option.splits stage.splits event.splits)

lemma trace_why_step:
  assumes w: "trace_why cr dev roster evs m" and m: "m = run cr dev evs (start roster)"
  shows "trace_why cr dev roster (evs @ [ev]) (step cr dev ev m)"
proof (cases "submitter_of ev")
  case None
  have "queue_inv (queue m)" "\<And>i s. submitters m i = Some s \<Longrightarrow> stage_inv (queue m) s"
    using machine_inv_run [of cr dev evs roster] unfolding m machine_inv_def by blast+
  then show ?thesis
    using w None queue_why_queue_op stage_why_queue_op [OF m] by (simp add: step_eq trace_why_def)
next
  case (Some i)
  note quiet = quiet_advance [OF machine_inv_run [of cr dev evs roster, folded m], of i ev]
  have "queue_why cr dev roster (evs @ [ev]) (queue (advance i ev m))"
    by (rule queue_why_quiet [OF quiet]) (use w in \<open>auto simp: trace_why_def\<close>)
  moreover have "stage_why cr dev roster (evs @ [ev]) j (queue (advance i ev m)) s"
    if "submitters (advance i ev m) j = Some s" for j s
  proof (cases "j = i")
    case True
    then show ?thesis using own_stage_why [OF w Some _ m] that by simp
  next
    case False
    with that have "submitters m j = Some s" by (simp add: advance_other)
    then have "stage_why cr dev roster evs j (queue m) s" using w by (simp add: trace_why_def)
    then show ?thesis by (rule stage_why_quiet [OF quiet]) auto
  qed
  ultimately show ?thesis by (simp add: step_eq Some trace_why_def)
qed

lemma trace_why_run: "trace_why cr dev roster evs (run cr dev evs (start roster))"
proof (induction evs rule: rev_induct)
  case Nil
  show ?case by (simp add: trace_why_def queue_why_def start_def new_queue_def)
next
  case (snoc ev evs)
  then show ?case using trace_why_step [OF _ refl] by simp
qed

end
