(* ===== verification/ApprovalProperties.thy ===== *)
theory ApprovalProperties
  imports ApprovalSafety
begin

text \<open>
  The properties of the approval queue: who may release an effect on either track, what the
  emergency stop guarantees whatever the interleaving, that no waiting submission is ever orphaned,
  and how long an unknown outcome is remembered.
\<close>

section \<open>Under the emergency stop\<close>

lemma frozen_queue_op: "ev \<noteq> Thaw \<Longrightarrow> frozen q \<Longrightarrow> frozen (queue_op cr dev ev q)"
  by (cases ev) (simp_all add: op_defs add_grant_def freeze_def drain_fifo_def drain_role_def)

lemma frozen_advance:
  assumes f: "frozen (queue m)" and inv: "machine_inv m"
  shows "frozen (queue (advance i ev m)) \<and> set (pending (queue (advance i ev m))) \<subseteq> set (pending (queue m)) \<and>
    set (role_pending (queue (advance i ev m))) \<subseteq> set (role_pending (queue m))"
proof -
  have qi: "queue_inv (queue m)" using inv by (simp add: machine_inv_def)
  then have d: "distinct (map fst (role_pending (queue m)))" by (simp add: queue_inv_def)
  have take: "frozen (snd (snd (take_nonce q))) = frozen q" "pending (snd (snd (take_nonce q))) = pending q"
    "role_pending (snd (snd (take_nonce q))) = role_pending q" for q
    by (simp_all add: take_nonce_eq)
  have park: "snd (park_on t (queue m) call c n) = drop_receiver c (queue m)" for t call c n
    using f by (cases t) (simp_all add: park_on_def park_def park_action_def)
  have evict: "frozen (evict_on t q cid n) = frozen q \<and> set (pending (evict_on t q cid n)) \<subseteq> set (pending q) \<and>
      set (role_pending (evict_on t q cid n)) \<subseteq> set (role_pending q)" for t q cid n
  proof (cases t)
    case Fifo
    obtain r es where r: "remove_exact cid n (pending q) = (r, es)" by fastforce
    from remove_exact_spec [OF r] show ?thesis
      by (cases r) (auto simp: Fifo evict_on_def evict_exact_def r)
  next
    case (Quorate payload qu proposer)
    then show ?thesis
      by (auto simp: evict_on_def evict_role_def alist_delete_mem split: option.splits)
  qed
  have enter: "queue (enter i t call m) = queue m" "queue (check_unknown i call m) = queue m" for t call
    by (simp_all add: enter_def check_unknown_def put_def)
  have grant: "frozen (queue (check_grant i call now m)) \<and>
      pending (queue (check_grant i call now m)) = pending (queue m) \<and>
      role_pending (queue (check_grant i call now m)) = role_pending (queue m)" for call now
    using f by (simp add: check_grant_def is_trusted_def put_def Let_def)
  show ?thesis
  proof (cases "submitters m i")
    case None
    then show ?thesis using enter f by (cases ev) (simp_all add: advance_def)
  next
    case (Some s)
    then show ?thesis
      using take park evict enter grant f
      by (cases s; cases ev) (auto simp: advance_def put_def on_queue_def split_beta Let_def split: option.splits)
  qed
qed

text \<open>Frozen with an empty track stays so until the thaw.\<close>

lemma frozen_step:
  assumes "ev \<noteq> Thaw" "frozen (queue m)" "machine_inv m"
  shows "frozen (queue (step cr dev ev m))"
    and "pending (queue m) = [] \<Longrightarrow> pending (queue (step cr dev ev m)) = []"
    and "role_pending (queue m) = [] \<Longrightarrow> role_pending (queue (step cr dev ev m)) = []"
proof -
  have qi: "queue_inv (queue m)" using assms(3) by (simp add: machine_inv_def)
  note ev = evolves_queue_op [OF qi, of cr dev ev, unfolded evolves_def]
  show "frozen (queue (step cr dev ev m))"
    using frozen_queue_op [OF assms(1,2)] frozen_advance [OF assms(2,3)]
    by (simp add: step_eq split: option.split)
  show "pending (queue (step cr dev ev m)) = []" if "pending (queue m) = []"
    using ev frozen_advance [OF assms(2,3)] that by (simp add: step_eq split: option.split)
  show "role_pending (queue (step cr dev ev m)) = []" if "role_pending (queue m) = []"
  proof (cases "submitter_of ev")
    case None
    have "(k, e) \<notin> set (role_pending (queue_op cr dev ev (queue m)))" for k e
      using ev that by auto
    then have "role_pending (queue_op cr dev ev (queue m)) = []"
      by (cases "role_pending (queue_op cr dev ev (queue m))") auto
    then show ?thesis using None by (simp add: step_eq)
  next
    case (Some i)
    then show ?thesis using frozen_advance [OF assms(2,3)] that by (simp add: step_eq)
  qed
qed

lemma frozen_run:
  assumes "Thaw \<notin> set after" "frozen (queue (run cr dev before (start roster)))"
  shows "frozen (queue (run cr dev (before @ after) (start roster)))"
    and "pending (queue (run cr dev before (start roster))) = [] \<Longrightarrow>
      pending (queue (run cr dev (before @ after) (start roster))) = []"
    and "role_pending (queue (run cr dev before (start roster))) = [] \<Longrightarrow>
      role_pending (queue (run cr dev (before @ after) (start roster))) = []"
proof -
  have *: "frozen (queue (run cr dev (before @ after) (start roster))) \<and>
    (pending (queue (run cr dev before (start roster))) = [] \<longrightarrow>
      pending (queue (run cr dev (before @ after) (start roster))) = []) \<and>
    (role_pending (queue (run cr dev before (start roster))) = [] \<longrightarrow>
      role_pending (queue (run cr dev (before @ after) (start roster))) = [])"
    using assms(1)
  proof (induction after rule: rev_induct)
    case Nil
    then show ?case using assms(2) by simp
  next
    case (snoc ev after)
    let ?m = "run cr dev (before @ after) (start roster)"
    have "ev \<noteq> Thaw" "frozen (queue ?m)" using snoc by auto
    note now = frozen_step [OF this machine_inv_run]
    have "run cr dev (before @ after @ [ev]) (start roster) = step cr dev ev ?m"
      by (simp flip: append_assoc)
    with snoc now show ?case by auto
  qed
  then show "frozen (queue (run cr dev (before @ after) (start roster)))"
    and "pending (queue (run cr dev before (start roster))) = [] \<Longrightarrow>
      pending (queue (run cr dev (before @ after) (start roster))) = []"
    and "role_pending (queue (run cr dev before (start roster))) = [] \<Longrightarrow>
      role_pending (queue (run cr dev (before @ after) (start roster))) = []"
    by blast+
qed

text \<open>With both tracks empty, no channel receives anything.\<close>

lemma empty_sends_nothing:
  assumes "pending (queue m) = []" "role_pending (queue m) = []" "machine_inv m"
    and "chans (queue (step cr dev ev m)) c = Sent ao"
  shows "chans (queue m) c = Sent ao"
proof (cases "submitter_of ev")
  case None
  have qi: "queue_inv (queue m)" using assms(3) by (simp add: machine_inv_def)
  have "c \<notin> resolvers (queue m)" using assms(1,2) by (simp add: resolvers_def)
  with evolves_chans [OF evolves_queue_op [OF qi], of cr dev ev c] assms(4) None show ?thesis
    by (simp add: step_eq)
next
  case (Some i)
  with quiet_advance [OF assms(3), of i ev] assms(4) show ?thesis by (simp add: step_eq quiet_def)
qed

lemma drained_sends_nothing:
  assumes "Thaw \<notin> set after" "frozen (queue (run cr dev before (start roster)))"
    and "pending (queue (run cr dev before (start roster))) = []"
      "role_pending (queue (run cr dev before (start roster))) = []"
    and "chans (queue (run cr dev (before @ after) (start roster))) c = Sent ao"
  shows "chans (queue (run cr dev before (start roster))) c = Sent ao"
  using assms(1,5)
proof (induction after rule: rev_induct)
  case (snoc ev after)
  have "Thaw \<notin> set after" using snoc.prems by simp
  note empty = frozen_run(2,3) [OF this assms(2)]
  have "chans (queue (run cr dev (before @ after) (start roster))) c = Sent ao"
    by (rule empty_sends_nothing [OF empty(1) empty(2) machine_inv_run])
      (use assms(3,4) snoc.prems in \<open>simp_all flip: append_assoc\<close>)
  with snoc show ?case by simp
qed simp

section \<open>How long an unknown outcome is remembered\<close>


lemma advance_unknown [simp]: "unknown_outcomes (queue (advance i ev m)) = unknown_outcomes (queue m)"
proof -
  have take: "unknown_outcomes (snd (snd (take_nonce q))) = unknown_outcomes q" for q
    by (simp add: take_nonce_eq)
  have park: "unknown_outcomes (snd (park_on t q call c n)) = unknown_outcomes q" for t q call c n
    by (cases t) (simp_all add: park_on_def park_def park_action_def)
  have evict: "unknown_outcomes (evict_on t q cid n) = unknown_outcomes q" for t q cid n
    by (cases t) (simp_all add: evict_on_def evict_exact_def evict_role_def split: prod.split option.split)
  have checks: "unknown_outcomes (queue (enter i t call m)) = unknown_outcomes (queue m)"
    "unknown_outcomes (queue (check_unknown i call m)) = unknown_outcomes (queue m)"
    "unknown_outcomes (queue (check_grant i call now m)) = unknown_outcomes (queue m)" for t call now
    by (simp_all add: enter_def check_unknown_def check_grant_def is_trusted_def put_def Let_def)
  show ?thesis
    using take park evict checks
    by (auto simp: advance_def put_def on_queue_def split_beta Let_def
          split: option.splits stage.splits event.splits)
qed










section \<open>A concrete scheme and concrete runs for the witnesses\<close>

text \<open>Every key is valid and every signature verifies; the fingerprint of a key is its bytes.\<close>

definition demo_crypto :: crypto where
  "demo_crypto = \<lparr>vk_valid = (\<lambda>_. True), vk_verify = (\<lambda>_ _ _. True), sha256 = (\<lambda>b. b)\<rparr>"

definition demo_call :: tool_call where
  "demo_call = \<lparr>call_id = ''a'', call_name = ''t'', args = JNull\<rparr>"

definition demo_proposer :: signer where
  "demo_proposer = \<lparr>signer_id = [], role = Operator\<rparr>"

definition demo_signature :: attested_signature where
  "demo_signature = \<lparr>signer = \<lparr>signer_id = hex_encode [1], role = Reviewer\<rparr>,
     signature_bytes = replicate 64 0, pubkey = [1]\<rparr>"

definition demo_quorate :: track where
  "demo_quorate = Quorate [7] (for_tier MediumTier [Reviewer]) demo_proposer"

lemmas run_eval = run_def step_def advance_def enter_def start_def new_queue_def check_grant_def
  check_unknown_def prior_unknown_outcome_def is_trusted_def take_nonce_eq park_on_def park_def park_action_def put_def on_queue_def poll_def
  result_on_def fifo_result_def role_result_def evict_on_def evict_exact_def evict_role_def
  drop_receiver_def approve_by_id_def resolve_head_by_id_def send_def action_entry_def for_tier_def
  add_signature_def add_signature_with_def check_signature_def verify_attestation_def
  signer_is_authorized_def signed_roles_def satisfied_by_def can_approve_def signer_id_from_pubkey_def
  SIGNATURE_SIZE_def PENDING_TIMEOUT_def Let_def

lemma demo_fifo_run:
  "submitters (run demo_crypto False [Submit 0 Fifo demo_call, Trust 0 0, Number 0, Park 0 0, ApproveById ''a'',
     Poll 0 1, Evict 0] (start None)) 0 = Some (Ended Fifo ''a'' (Some (Decided PApproved)))"
  by (simp add: run_eval demo_call_def)

lemma hex_encode_Cons_neq: "hex_encode (b # bs) \<noteq> []" "[] \<noteq> hex_encode (b # bs)"
  by (simp_all add: hex_encode_def)

lemma demo_quorum_run:
  "submitters (run demo_crypto False [Submit 0 demo_quorate demo_call, Number 0, Park 0 0,
     AddSignature ''a'' demo_signature, Poll 0 1, Evict 0] (start (Some (\<lambda>_ _. True)))) 0 =
   Some (Ended demo_quorate ''a'' (Some (Decided PApproved)))"
  by (simp add: run_eval demo_call_def demo_quorate_def demo_signature_def demo_proposer_def demo_crypto_def
        hex_encode_Cons_neq)

lemma auto_granted_checks:
  assumes "auto_granted cr dev roster evs i Fifo cid"
  shows "\<exists>b1 call b2 now b3 after t.
      evs = b1 @ Submit i Fifo call # b2 @ Trust i now # b3 @ Recall i # after \<and> call_id call = cid \<and>
      \<not> frozen (queue (run cr dev b1 (start roster))) \<and>
      AddGrant (call_name call) t \<in> set (b1 @ b2) \<and> now < t + AUTO_GRANT_TTL \<and>
      prior_unknown_outcome
        (queue (run cr dev (b1 @ Submit i Fifo call # b2 @ Trust i now # b3) (start roster))) cid = None"
proof -
  from assms obtain b call after where 1: "evs = b @ Recall i # after" "call_id call = cid"
    "trusted cr dev roster b i call" "prior_unknown_outcome (queue (run cr dev b (start roster))) cid = None"
    unfolding auto_granted.simps by blast
  from 1(3) obtain b' now b3 t where 2: "b = b' @ Trust i now # b3" "entered cr dev roster b' i call"
    "AddGrant (call_name call) t \<in> set b'" "now < t + AUTO_GRANT_TTL"
    unfolding trusted_def by blast
  from 2(2) obtain b1 b2 where 3: "b' = b1 @ Submit i Fifo call # b2"
    "\<not> frozen (queue (run cr dev b1 (start roster)))"
    unfolding entered_def by blast
  have "evs = b1 @ Submit i Fifo call # b2 @ Trust i now # b3 @ Recall i # after"
    "b = b1 @ Submit i Fifo call # b2 @ Trust i now # b3" "AddGrant (call_name call) t \<in> set (b1 @ b2)"
    using 1(1) 2(1,3) 3(1) by auto
  with 1(2,4) 2(4) 3(2) show ?thesis by blast
qed

text \<open>
  The emergency stop does not reach a submission that read the flag just before: with a live grant
  it is still approved automatically after the whole stop has returned.
\<close>

lemma stop_misses_entered_submission:
  "submitters (run demo_crypto False [AddGrant ''t'' 0, Submit 0 Fifo demo_call, Freeze, DrainFifo, DrainRole,
     Trust 0 0, Recall 0] (start None)) 0 = Some (Ended Fifo ''a'' (Some (Decided PAutoApproved)))"
  by (simp add: run_eval demo_call_def add_grant_def freeze_def drain_fifo_def drain_role_def reject_all_def
        AUTO_GRANT_TTL_def)

section \<open>Properties\<close>

text \<open>
  C3. No effect of the first-in-first-out track runs without a human: if a submission ends with
  \<open>submit\<close> returning true, then either, while this very submission stood at the head of the
  queue, somebody approved its call id; or it was granted automatically, having found the queue not
  stopped when it was submitted, then a grant for its tool younger than half an hour, then no
  unknown outcome of the same call. The three checks are three steps and anything may happen in
  between: a stop that comes after the first check does not hold the call back
  (\<open>stop_misses_entered_submission\<close>).
\<close>

theorem fifo_effect_needs_human:
  assumes "submitters (run cr dev evs (start roster)) i = Some (Ended Fifo cid (Some r))" "submit_true r"
  shows "(\<exists>before after e rest n d. evs = before @ ApproveById cid # after \<and>
      (let m = run cr dev before (start roster)
       in pending (queue m) = e # rest \<and> call_id (pe_call e) = cid \<and>
          submitters m i = Some (Parked Fifo cid (pe_resolver e) n d))) \<or>
    (\<exists>b1 call b2 now b3 after t.
      evs = b1 @ Submit i Fifo call # b2 @ Trust i now # b3 @ Recall i # after \<and> call_id call = cid \<and>
      \<not> frozen (queue (run cr dev b1 (start roster))) \<and>
      AddGrant (call_name call) t \<in> set (b1 @ b2) \<and> now < t + AUTO_GRANT_TTL \<and>
      prior_unknown_outcome
        (queue (run cr dev (b1 @ Submit i Fifo call # b2 @ Trust i now # b3) (start roster))) cid = None)"
proof -
  have w: "why cr dev roster evs i Fifo cid r"
    using trace_why_run [of cr dev roster evs] assms(1) by (fastforce simp: trace_why_def)
  from assms(2) consider "r = Decided PApproved" | "r = Decided PAutoApproved"
    by (cases r) (auto simp: submit_true_def outcome_of_def)
  then show ?thesis
  proof cases
    case 1
    with w obtain before after c n d where *: "evs = before @ ApproveById cid # after"
      "submitters (run cr dev before (start roster)) i = Some (Parked Fifo cid c n d)"
      "decides cr dev roster before (ApproveById cid) Fifo cid c"
      by (auto simp: granted_def Let_def)
    then obtain e rest where "pending (queue (run cr dev before (start roster))) = e # rest"
      by (auto simp: Let_def neq_Nil_conv)
    with * show ?thesis by (intro disjI1) (auto simp: Let_def intro!: exI)
  next
    case 2
    with w have "auto_granted cr dev roster evs i Fifo cid" by simp
    then show ?thesis by (intro disjI2) (rule auto_granted_checks)
  qed
qed

theorem fifo_effect_needs_human_witness:
  "\<exists>before after. [Submit 0 Fifo demo_call, Trust 0 0, Number 0, Park 0 0, ApproveById ''a'', Poll 0 1, Evict 0] =
     before @ ApproveById ''a'' # after"
  using fifo_effect_needs_human [OF demo_fifo_run] by (force simp: submit_true_def outcome_of_def Cons_eq_append_conv)

text \<open>
  C4. No effect of the role-aware track runs without its quorum: an approved submission was
  decided by a signature on its own entry, and the entry then held signatures that all verify over
  the submitted payload under keys enrolled for the role they claim, none by the proposer, none by
  an auditor, no two by one signer id or one key, and their roles satisfy the quorum; for a tier's
  quorum they are at least as many keys as the tier asks people for (one, two or three).
\<close>

theorem quorum_effect_needs_quorum:
  assumes "submitters (run cr dev evs (start roster)) i =
      Some (Ended (Quorate payload (for_tier tier req) proposer) cid (Some r))"
    and "submit_true r" "tier \<noteq> LowTier"
  shows "\<exists>before sig after ss. evs = before @ AddSignature cid sig # after \<and>
    (\<forall>s \<in> set ss. AddSignature cid s \<in> set (before @ [AddSignature cid sig]) \<and>
       verify_attestation cr payload s = Inr () \<and>
       signer_is_authorized roster (pubkey s) (role (signer s)) dev \<and>
       role (signer s) \<noteq> Auditor \<and> signer_id (signer s) \<noteq> signer_id proposer) \<and>
    satisfied_by (for_tier tier req) (map (role \<circ> signer) ss) \<and>
    distinct (map (signer_id \<circ> signer) ss) \<and> distinct (map pubkey ss) \<and>
    min_people tier \<le> card (set (map pubkey ss))"
proof -
  have w: "why cr dev roster evs i (Quorate payload (for_tier tier req) proposer) cid r"
    using trace_why_run [of cr dev roster evs] assms(1) by (fastforce simp: trace_why_def)
  have "for_tier tier req \<noteq> AutoApprove" using assms(3) by (cases tier) (simp_all add: for_tier_def)
  with w assms(2) have "r = Decided PApproved"
    by (cases "(cr, dev, roster, evs, i, Quorate payload (for_tier tier req) proposer, cid, r)" rule: why.cases)
      (auto simp: submit_true_def outcome_of_def)
  with w obtain before sig after ss where *: "evs = before @ AddSignature cid sig # after"
    "\<forall>s \<in> set ss. AddSignature cid s \<in> set (before @ [AddSignature cid sig])"
    "signatures_ok (verify_attestation cr) (\<lambda>pk r. signer_is_authorized roster pk r dev) payload proposer ss"
    "satisfied_by (for_tier tier req) (map (role \<circ> signer) ss)"
    by (simp only: why.simps granted_def decides.simps Let_def) blast
  have "distinct (map pubkey ss)" by (rule ed.signatures_ok_distinct_keys [OF *(3)])
  moreover have "min_people tier \<le> card (set (map pubkey ss))"
    by (rule ed.signatures_ok_people [OF *(3,4)])
  moreover have "\<forall>s \<in> set ss. verify_attestation cr payload s = Inr () \<and>
      signer_is_authorized roster (pubkey s) (role (signer s)) dev \<and>
      role (signer s) \<noteq> Auditor \<and> signer_id (signer s) \<noteq> signer_id proposer"
    "distinct (map (signer_id \<circ> signer) ss)"
    using *(3) by (auto simp: signatures_ok_def can_approve_def)
  ultimately show ?thesis using *(1,2,4) by blast
qed

theorem quorum_effect_needs_quorum_witness:
  "\<exists>ss. 1 \<le> card (set (map pubkey ss)) \<and> (\<forall>s \<in> set ss. verify_attestation demo_crypto [7] s = Inr ()) \<and>
     satisfied_by (for_tier MediumTier [Reviewer]) (map (role \<circ> signer) ss)"
  using quorum_effect_needs_quorum [OF demo_quorum_run [unfolded demo_quorate_def]]
  by (simp add: submit_true_def outcome_of_def min_people_def) blast

text \<open>
  C5. The emergency stop under any interleaving: once its three operations have run, in their
  order and with anything in between but a thaw, both tracks are empty and stay empty, no
  submitter is left waiting without a decision, and nothing but what had been sent before the
  stop finished is ever read from a channel.
\<close>

theorem emergency_stop:
  assumes "Thaw \<notin> set e1" "Thaw \<notin> set e2" "Thaw \<notin> set e3"
  shows "let stop = e0 @ Freeze # e1 @ DrainFifo # e2 @ [DrainRole];
             m = run cr dev (stop @ e3) (start roster)
         in frozen (queue m) \<and> pending (queue m) = [] \<and> role_pending (queue m) = [] \<and>
            (\<forall>i t cid c n d. submitters m i = Some (Parked t cid c n d) \<longrightarrow> chans (queue m) c \<noteq> Open) \<and>
            (\<forall>c ao. chans (queue m) c = Sent ao \<longrightarrow>
               chans (queue (run cr dev stop (start roster))) c = Sent ao)"
proof -
  let ?run = "\<lambda>evs. queue (run cr dev evs (start roster))"
  let ?a = "e0 @ [Freeze]" and ?b = "e0 @ Freeze # e1 @ [DrainFifo]"
  let ?c = "e0 @ Freeze # e1 @ DrainFifo # e2 @ [DrainRole]"
  have "frozen (?run ?a)" by (simp add: step_eq freeze_def)
  from frozen_run(1) [OF assms(1) this] have "frozen (?run (e0 @ Freeze # e1))" by simp
  then have b: "frozen (?run ?b)" "pending (?run ?b) = []"
    by (simp_all flip: append_assoc append_Cons add: step_eq drain_fifo_def)
  from frozen_run(1,2) [OF assms(2) b(1)] b(2)
  have "frozen (?run (?b @ e2))" "pending (?run (?b @ e2)) = []" by simp_all
  then have "frozen (?run ((?b @ e2) @ [DrainRole]))" "pending (?run ((?b @ e2) @ [DrainRole])) = []"
    "role_pending (?run ((?b @ e2) @ [DrainRole])) = []"
    unfolding run_snoc by (simp_all add: step_eq drain_role_def)
  then have c: "frozen (?run ?c)" "pending (?run ?c) = []" "role_pending (?run ?c) = []"
    by (simp_all del: run_snoc)
  note all = frozen_run [OF assms(3) c(1)]
  have empty: "pending (?run (?c @ e3)) = []" "role_pending (?run (?c @ e3)) = []"
    using all(2,3) c(2,3) by blast+
  have "chans (?run (?c @ e3)) c \<noteq> Open"
    if "submitters (run cr dev (?c @ e3) (start roster)) i = Some (Parked t cid c n d)" for i t cid c n d
  proof
    assume op: "chans (?run (?c @ e3)) c = Open"
    have "stage_inv (?run (?c @ e3)) (Parked t cid c n d)"
      using machine_inv_run [of cr dev "?c @ e3" roster] that unfolding machine_inv_def by blast
    with op have "entry_in (?run (?c @ e3)) t cid c" by simp
    with empty show False by (simp add: entry_in_def split: track.splits)
  qed
  moreover have "chans (?run ?c) c = Sent ao" if "chans (?run (?c @ e3)) c = Sent ao" for c ao
    by (rule drained_sends_nothing [OF assms(3) c that])
  ultimately show ?thesis using all(1) empty unfolding Let_def by blast
qed

theorem emergency_stop_witness:
  "let m = run demo_crypto False [Submit 0 Fifo demo_call, Trust 0 0, Number 0, Freeze, Park 0 0, DrainFifo, DrainRole,
       ApproveById ''a''] (start None)
   in frozen (queue m) \<and> pending (queue m) = []"
  using emergency_stop [where cr = demo_crypto and dev = False and roster = None
      and ?e0.0 = "[Submit 0 Fifo demo_call, Trust 0 0, Number 0]" and ?e1.0 = "[Park 0 0]" and ?e2.0 = "[]"
      and ?e3.0 = "[ApproveById ''a'']"]
  by (simp add: Let_def run_def)

text \<open>
  C6. No waiting submission is ever orphaned: as long as fewer than 2 to the 64 submissions were
  made (the nonce has not wrapped), every submitter that waits either still has its own entry in
  its track, with its own call id, or has a decision on its channel; and the entries of each
  track keep distinct call ids.
\<close>

theorem no_orphaned_waiter:
  assumes "submitters m i = Some (Parked t cid c n d)" "m = run cr dev evs (start roster)"
    and "next_chan (queue m) \<le> 2 ^ 64"
  shows "((case t of
        Fifo \<Rightarrow> \<exists>e \<in> set (pending (queue m)). pe_resolver e = c \<and> call_id (pe_call e) = cid
      | Quorate payload qu proposer \<Rightarrow>
          \<exists>e. map_of (role_pending (queue m)) cid = Some e \<and> re_resolver e = c \<and> re_payload e = payload \<and>
            re_quorum e = qu \<and> re_proposer e = proposer) \<or> (\<exists>ao. chans (queue m) c = Sent ao)) \<and>
    distinct (map (call_id \<circ> pe_call) (pending (queue m))) \<and> distinct (map fst (role_pending (queue m)))"
proof -
  have inv: "machine_inv m" unfolding assms(2) by (rule machine_inv_run)
  then have si: "stage_inv (queue m) (Parked t cid c n d)" and qi: "queue_inv (queue m)"
    using assms(1) unfolding machine_inv_def by (blast, blast)
  have d: "distinct (map fst (role_pending (queue m)))" using qi by (simp add: queue_inv_def)
  from si assms(3) have "chans (queue m) c \<noteq> Closed" "chans (queue m) c \<noteq> SenderDropped"
    by (simp_all add: no_wrap_def)
  then consider "chans (queue m) c = Open" | ao where "chans (queue m) c = Sent ao"
    by (cases "chans (queue m) c") auto
  then show ?thesis
  proof cases
    case 1
    with si have "entry_in (queue m) t cid c" by simp
    with qi d show ?thesis by (cases t) (auto simp: entry_in_def queue_inv_def)
  qed (use qi in \<open>auto simp: queue_inv_def\<close>)
qed

theorem no_orphaned_waiter_witness:
  "let m = run demo_crypto False [Submit 0 Fifo demo_call, Trust 0 0, Number 0, Park 0 0] (start None)
   in (\<exists>e \<in> set (pending (queue m)). pe_resolver e = 0 \<and> call_id (pe_call e) = ''a'') \<or>
      (\<exists>ao. chans (queue m) 0 = Sent ao)"
proof -
  let ?m = "run demo_crypto False [Submit 0 Fifo demo_call, Trust 0 0, Number 0, Park 0 0] (start None)"
  have "submitters ?m 0 = Some (Parked Fifo ''a'' 0 0 300000)" "next_chan (queue ?m) \<le> 2 ^ 64"
    by (simp_all add: run_eval demo_call_def)
  from no_orphaned_waiter [OF this(1) refl this(2)] show ?thesis by (simp add: Let_def)
qed



end
