(* ===== verification/BreakGlass.thy ===== *)
theory BreakGlass
  imports Signing
begin

text \<open>
  Break-glass (\<open>agent/core/src/hitl/break_glass.rs\<close>): a security officer invokes an action out of
  band, a reviewer and a compliance officer affirm it afterwards within 72 hours, and what they do
  not affirm is surfaced for good. Instants are milliseconds of the monotonic clock; the registry's
  hash map is an association list with one entry per action.
\<close>

section \<open>Preimages\<close>

definition AFFIRMATION_WINDOW :: nat where "AFFIRMATION_WINDOW = 72 * 60 * 60 * 1000"

definition ascii :: "string \<Rightarrow> bytes" where
  "ascii s = map of_char s"

definition BREAKGLASS_INVOKE_DOMAIN :: bytes where
  "BREAKGLASS_INVOKE_DOMAIN = ascii ''CIT-BREAKGLASS-INVOKE-v2''"

definition BREAKGLASS_AFFIRM_DOMAIN :: bytes where
  "BREAKGLASS_AFFIRM_DOMAIN = ascii ''CIT-BREAKGLASS-AFFIRM-v2''"

definition breakglass_payload_hash :: "crypto \<Rightarrow> bytes \<Rightarrow> bytes" where
  "breakglass_payload_hash cr payload = sha256 cr payload"

definition breakglass_preimage :: "bytes \<Rightarrow> string \<Rightarrow> bytes \<Rightarrow> bytes" where
  "breakglass_preimage domain action_id payload_hash = domain @ [0] @ payload_hash @ ascii action_id"

definition invoke_preimage :: "crypto \<Rightarrow> string \<Rightarrow> bytes \<Rightarrow> bytes" where
  "invoke_preimage cr action_id payload =
     breakglass_preimage BREAKGLASS_INVOKE_DOMAIN action_id (breakglass_payload_hash cr payload)"

definition affirm_preimage :: "crypto \<Rightarrow> string \<Rightarrow> bytes \<Rightarrow> bytes" where
  "affirm_preimage cr action_id payload =
     breakglass_preimage BREAKGLASS_AFFIRM_DOMAIN action_id (breakglass_payload_hash cr payload)"

section \<open>State\<close>

definition all_approvers :: "role set" where
  "all_approvers = {Operator, Reviewer, ComplianceOfficer, SecurityOfficer, Auditor}"

definition affirmation_quorum :: "role set" where
  "affirmation_quorum = {Reviewer, ComplianceOfficer}"

datatype phase = PendingPhase | Invoked | Affirmed | Unaffirmed | Surfaced

type_synonym instant = nat

record entry =
  action_id :: string
  phase :: phase
  invoked_at :: "instant option"
  invoker :: "signer option"
  notified :: "role set"
  affirmations :: "(role \<times> signer) list"
  surface_count :: u32
  payload_hash :: "bytes option"

definition new_entry :: "string \<Rightarrow> entry" where
  "new_entry aid = \<lparr>action_id = aid, phase = PendingPhase, invoked_at = None, invoker = None,
     notified = {}, affirmations = [], surface_count = 0, payload_hash = None\<rparr>"

datatype break_glass_error =
    NotSecurityOfficer
  | ItarBlocked
  | NotEligible
  | AlreadyInvoked
  | NotInvoked
  | NotAffirmationRole
  | InvokerCannotAffirm
  | DuplicateAffirmer
  | AffirmationWindowExpired
  | UnknownActionId
  | BadAttestation attestation_error
  | SignerNotEnrolled

record registry =
  entries :: "(string \<times> entry) list"
  bg_roster :: "signer_roster option"

definition new_registry :: registry where
  "new_registry = \<lparr>entries = [], bg_roster = None\<rparr>"

definition with_signer_roster :: "registry \<Rightarrow> signer_roster \<Rightarrow> registry" where
  "with_signer_roster r roster = r\<lparr>bg_roster := Some roster\<rparr>"

section \<open>Operations\<close>

definition authorize_with ::
  "(bytes \<Rightarrow> attested_signature \<Rightarrow> attestation_error + unit) \<Rightarrow> (bytes \<Rightarrow> role \<Rightarrow> bool) \<Rightarrow>
   bytes \<Rightarrow> string \<Rightarrow> bytes \<Rightarrow> attested_signature \<Rightarrow> break_glass_error + signer" where
  "authorize_with verify enrolled domain aid h attested =
     (case verify (breakglass_preimage domain aid h) attested of
        Inl e \<Rightarrow> Inl (BadAttestation e)
      | Inr _ \<Rightarrow>
          if \<not> enrolled (pubkey attested) (role (signer attested)) then Inl SignerNotEnrolled
          else Inr (signer attested))"

definition authorize_bg ::
  "crypto \<Rightarrow> bool \<Rightarrow> registry \<Rightarrow> bytes \<Rightarrow> string \<Rightarrow> bytes \<Rightarrow> attested_signature \<Rightarrow> break_glass_error + signer" where
  "authorize_bg cr dev r = authorize_with (verify_attestation cr)
     (\<lambda>pk ro. signer_is_authorized (bg_roster r) pk ro dev)"

definition manifest_touches_itar :: "manifest \<Rightarrow> bool" where
  "manifest_touches_itar mf \<longleftrightarrow>
     (let touches = list_ex (\<lambda>c. c = Itar)
      in touches (reads (data_class mf)) \<or> touches (writes (data_class mf)) \<or> touches (emits (data_class mf)))"

definition invoke ::
  "crypto \<Rightarrow> bool \<Rightarrow> registry \<Rightarrow> string \<Rightarrow> bytes \<Rightarrow> attested_signature \<Rightarrow> manifest \<Rightarrow> instant \<Rightarrow>
   (break_glass_error + unit) \<times> registry" where
  "invoke cr dev r aid payload attested mf now =
     (let h = breakglass_payload_hash cr payload
      in case authorize_bg cr dev r BREAKGLASS_INVOKE_DOMAIN aid h attested of
           Inl e \<Rightarrow> (Inl e, r)
         | Inr sg \<Rightarrow>
             if role sg \<noteq> SecurityOfficer then (Inl NotSecurityOfficer, r)
             else if \<not> break_glass_eligible (risk mf) then (Inl NotEligible, r)
             else if manifest_touches_itar mf then (Inl ItarBlocked, r)
             else
               let e = (case map_of (entries r) aid of Some e \<Rightarrow> e | None \<Rightarrow> new_entry aid);
                   r' = r\<lparr>entries := AList.update aid e (entries r)\<rparr>
               in if phase e \<noteq> PendingPhase then (Inl AlreadyInvoked, r')
                  else (Inr (), r\<lparr>entries := AList.update aid
                         (e\<lparr>phase := Invoked, invoked_at := Some now, invoker := Some sg,
                            notified := all_approvers, payload_hash := Some h\<rparr>) (entries r)\<rparr>))"

definition record_affirmation :: "signer \<Rightarrow> entry \<Rightarrow> entry" where
  "record_affirmation sg e =
     (let e' = e\<lparr>affirmations := AList.update (role sg) sg (affirmations e)\<rparr>
      in if affirmation_quorum \<subseteq> fst ` set (affirmations e') then e'\<lparr>phase := Affirmed\<rparr> else e')"

definition affirm ::
  "crypto \<Rightarrow> bool \<Rightarrow> registry \<Rightarrow> string \<Rightarrow> attested_signature \<Rightarrow> instant \<Rightarrow>
   (break_glass_error + unit) \<times> registry" where
  "affirm cr dev r aid attested now =
     (case map_of (entries r) aid of
        None \<Rightarrow> (Inl UnknownActionId, r)
      | Some e \<Rightarrow>
          if phase e \<noteq> Invoked then (Inl NotInvoked, r)
          else case payload_hash e of
            None \<Rightarrow> (Inl NotInvoked, r)
          | Some h \<Rightarrow>
              (case authorize_bg cr dev r BREAKGLASS_AFFIRM_DOMAIN aid h attested of
                 Inl err \<Rightarrow> (Inl err, r)
               | Inr sg \<Rightarrow>
                   if role sg \<noteq> Reviewer \<and> role sg \<noteq> ComplianceOfficer then (Inl NotAffirmationRole, r)
                   else if \<exists>iv \<in> set_option (invoker e). signer_id iv = signer_id sg
                   then (Inl InvokerCannotAffirm, r)
                   else if \<exists>t \<in> set_option (invoked_at e). AFFIRMATION_WINDOW < now - t
                   then (Inl AffirmationWindowExpired, r)
                   else if map_of (affirmations e) (role sg) \<noteq> None \<or>
                           list_ex (\<lambda>(_, s). signer_id s = signer_id sg) (affirmations e)
                   then (Inl DuplicateAffirmer, r)
                   else (Inr (), r\<lparr>entries := AList.update aid (record_affirmation sg e) (entries r)\<rparr>)))"

definition tick_entry :: "instant \<Rightarrow> entry \<Rightarrow> entry" where
  "tick_entry now e =
     (if phase e = Invoked
      then case invoked_at e of
             Some t \<Rightarrow> if AFFIRMATION_WINDOW \<le> now - t then e\<lparr>phase := Unaffirmed\<rparr> else e
           | None \<Rightarrow> e
      else e)"

definition tick :: "registry \<Rightarrow> instant \<Rightarrow> registry" where
  "tick r now = r\<lparr>entries := map (\<lambda>(k, e). (k, tick_entry now e)) (entries r)\<rparr>"

definition surface_entry :: "entry \<Rightarrow> entry" where
  "surface_entry e =
     (let bump = (\<lambda>n :: u32. if n = - 1 then n else n + 1)
      in case phase e of
           Unaffirmed \<Rightarrow> e\<lparr>phase := Surfaced, surface_count := bump (surface_count e)\<rparr>
         | Surfaced \<Rightarrow> e\<lparr>surface_count := bump (surface_count e)\<rparr>
         | _ \<Rightarrow> e)"

definition surface :: "registry \<Rightarrow> registry" where
  "surface r = r\<lparr>entries := map (\<lambda>(k, e). (k, surface_entry e)) (entries r)\<rparr>"

definition get_entry :: "registry \<Rightarrow> string \<Rightarrow> entry option" where
  "get_entry r aid = map_of (entries r) aid"

section \<open>Runs\<close>

datatype bg_event =
    EvInvoke string bytes attested_signature manifest instant
  | EvAffirm string attested_signature instant
  | EvTick instant
  | EvSurface

fun bg_step :: "crypto \<Rightarrow> bool \<Rightarrow> bg_event \<Rightarrow> registry \<Rightarrow> registry" where
  "bg_step cr dev (EvInvoke aid payload att mf now) r = snd (invoke cr dev r aid payload att mf now)"
| "bg_step cr dev (EvAffirm aid att now) r = snd (affirm cr dev r aid att now)"
| "bg_step cr dev (EvTick now) r = tick r now"
| "bg_step cr dev EvSurface r = surface r"

definition bg_run :: "crypto \<Rightarrow> bool \<Rightarrow> signer_roster option \<Rightarrow> bg_event list \<Rightarrow> registry" where
  "bg_run cr dev roster evs = fold (bg_step cr dev) evs (new_registry\<lparr>bg_roster := roster\<rparr>)"

lemma bg_run_simps [simp]:
  "bg_run cr dev roster [] = new_registry\<lparr>bg_roster := roster\<rparr>"
  "bg_run cr dev roster (evs @ [ev]) = bg_step cr dev ev (bg_run cr dev roster evs)"
  by (simp_all add: bg_run_def)

section \<open>The preimages are unambiguous\<close>

lemma ascii_inject [simp]: "ascii a = ascii b \<longleftrightarrow> a = b"
proof
  have inj: "inj (of_char :: char \<Rightarrow> u8)"
  proof (rule injI)
    fix x y :: char
    assume "(of_char x :: u8) = of_char y"
    then have "unat (of_nat (of_char x) :: u8) = unat (of_nat (of_char y) :: u8)"
      by (metis of_nat_of_char)
    then have "(of_char x :: nat) = of_char y"
      using nat_of_char_less_256 [of x] nat_of_char_less_256 [of y]
      by (simp add: unat_of_nat take_bit_eq_mod del: of_nat_of_char)
    then show "x = y" by simp
  qed
  assume "ascii a = ascii b"
  then show "a = b" unfolding ascii_def using inj map_injective by blast
qed simp

lemma preimage_inject:
  assumes "length h = length h'" "length d = length d'"
  shows "breakglass_preimage d aid h = breakglass_preimage d' aid' h' \<longleftrightarrow> d = d' \<and> aid = aid' \<and> h = h'"
  using assms by (auto simp: breakglass_preimage_def append_eq_append_conv)

lemma domains_differ: "BREAKGLASS_INVOKE_DOMAIN \<noteq> BREAKGLASS_AFFIRM_DOMAIN"
  by (simp add: BREAKGLASS_INVOKE_DOMAIN_def BREAKGLASS_AFFIRM_DOMAIN_def)

lemma length_domains:
  "length BREAKGLASS_INVOKE_DOMAIN = 24" "length BREAKGLASS_AFFIRM_DOMAIN = 24"
  by (simp_all add: BREAKGLASS_INVOKE_DOMAIN_def BREAKGLASS_AFFIRM_DOMAIN_def ascii_def)

section \<open>The invariant of an entry over a run\<close>

lemma authorize_with_Inr_iff:
  "authorize_with verify enrolled domain aid h att = Inr sg \<longleftrightarrow>
     verify (breakglass_preimage domain aid h) att = Inr () \<and>
     enrolled (pubkey att) (role (signer att)) \<and> sg = signer att"
  by (auto simp: authorize_with_def split: sum.splits)

definition invoked_by :: "crypto \<Rightarrow> bool \<Rightarrow> signer_roster option \<Rightarrow> bg_event list \<Rightarrow> string \<Rightarrow> entry \<Rightarrow> bytes \<Rightarrow> attested_signature \<Rightarrow> instant \<Rightarrow> bool" where
  "invoked_by cr dev roster evs aid e payload att t \<longleftrightarrow>
     (\<exists>mf. EvInvoke aid payload att mf t \<in> set evs \<and> break_glass_eligible (risk mf) \<and> \<not> manifest_touches_itar mf) \<and>
     verify_attestation cr (invoke_preimage cr aid payload) att = Inr () \<and>
     signer_is_authorized roster (pubkey att) SecurityOfficer dev \<and> role (signer att) = SecurityOfficer \<and>
     invoked_at e = Some t \<and> invoker e = Some (signer att) \<and> notified e = UNIV \<and>
     payload_hash e = Some (breakglass_payload_hash cr payload)"

definition affirmed_by :: "crypto \<Rightarrow> bool \<Rightarrow> signer_roster option \<Rightarrow> bg_event list \<Rightarrow> string \<Rightarrow> bytes \<Rightarrow> instant \<Rightarrow> attested_signature \<Rightarrow> bool" where
  "affirmed_by cr dev roster evs aid payload t att \<longleftrightarrow>
     (\<exists>now. EvAffirm aid att now \<in> set evs \<and> now - t \<le> AFFIRMATION_WINDOW) \<and>
     verify_attestation cr (affirm_preimage cr aid payload) att = Inr () \<and>
     signer_is_authorized roster (pubkey att) (role (signer att)) dev"

definition entry_inv :: "crypto \<Rightarrow> bool \<Rightarrow> signer_roster option \<Rightarrow> bg_event list \<Rightarrow> string \<Rightarrow> entry \<Rightarrow> bool" where
  "entry_inv cr dev roster evs aid e \<longleftrightarrow>
     phase e \<noteq> PendingPhase \<and> distinct (map fst (affirmations e)) \<and>
     distinct (map (signer_id \<circ> snd) (affirmations e)) \<and>
     (phase e = Affirmed \<longleftrightarrow> affirmation_quorum \<subseteq> fst ` set (affirmations e)) \<and>
     (\<exists>payload att t. invoked_by cr dev roster evs aid e payload att t \<and>
        (\<forall>(ro, sg) \<in> set (affirmations e). ro = role sg \<and> ro \<in> affirmation_quorum \<and>
           signer_id sg \<noteq> signer_id (signer att) \<and>
           (\<exists>a. affirmed_by cr dev roster evs aid payload t a \<and> signer a = sg)))"

lemma entry_inv_mono: "entry_inv cr dev roster evs aid e \<Longrightarrow> entry_inv cr dev roster (evs @ evs') aid e"
proof -
  assume *: "entry_inv cr dev roster evs aid e"
  have "invoked_by cr dev roster evs aid e payload att t \<Longrightarrow>
      invoked_by cr dev roster (evs @ evs') aid e payload att t" for payload att t
    by (auto simp: invoked_by_def)
  moreover have "affirmed_by cr dev roster evs aid payload t a \<Longrightarrow>
      affirmed_by cr dev roster (evs @ evs') aid payload t a" for payload a t
    by (auto simp: affirmed_by_def)
  ultimately show ?thesis using * unfolding entry_inv_def by fast
qed

text \<open>Ticks and surfacing touch neither the invocation nor the affirmations.\<close>

lemma tick_entry_simps [simp]:
  "affirmations (tick_entry now e) = affirmations e" "invoked_at (tick_entry now e) = invoked_at e"
  "invoker (tick_entry now e) = invoker e" "notified (tick_entry now e) = notified e"
  "payload_hash (tick_entry now e) = payload_hash e" "surface_count (tick_entry now e) = surface_count e"
  by (simp_all add: tick_entry_def split: option.split)

lemma surface_entry_simps [simp]:
  "affirmations (surface_entry e) = affirmations e" "invoked_at (surface_entry e) = invoked_at e"
  "invoker (surface_entry e) = invoker e" "notified (surface_entry e) = notified e"
  "payload_hash (surface_entry e) = payload_hash e"
  by (simp_all add: surface_entry_def Let_def split: phase.split)

lemma phase_tick_surface:
  "phase (tick_entry now e) = Affirmed \<longleftrightarrow> phase e = Affirmed"
  "phase (tick_entry now e) = PendingPhase \<longleftrightarrow> phase e = PendingPhase"
  "phase (surface_entry e) = Affirmed \<longleftrightarrow> phase e = Affirmed"
  "phase (surface_entry e) = PendingPhase \<longleftrightarrow> phase e = PendingPhase"
  by (auto simp: tick_entry_def surface_entry_def Let_def split: option.splits phase.splits)

lemma entry_inv_tick_surface:
  "entry_inv cr dev roster evs aid e \<Longrightarrow> entry_inv cr dev roster evs aid (tick_entry now e)"
  "entry_inv cr dev roster evs aid e \<Longrightarrow> entry_inv cr dev roster evs aid (surface_entry e)"
  by (simp_all add: entry_inv_def invoked_by_def phase_tick_surface)

lemma entry_inv_affirm:
  assumes inv: "entry_inv cr dev roster evs aid e" and ph: "phase e = Invoked"
    and h: "payload_hash e = Some h"
    and ok: "authorize_bg cr dev r BREAKGLASS_AFFIRM_DOMAIN aid h att = Inr sg" "bg_roster r = roster"
    and role: "role sg = Reviewer \<or> role sg = ComplianceOfficer"
    and inv_ne: "\<forall>iv \<in> set_option (invoker e). signer_id iv \<noteq> signer_id sg"
    and win: "\<forall>t \<in> set_option (invoked_at e). now - t \<le> AFFIRMATION_WINDOW"
    and new: "map_of (affirmations e) (role sg) = None" "\<not> list_ex (\<lambda>(_, s). signer_id s = signer_id sg) (affirmations e)"
  shows "entry_inv cr dev roster (evs @ [EvAffirm aid att now]) aid (record_affirmation sg e)"
proof -
  let ?evs = "evs @ [EvAffirm aid att now]"
  from inv obtain payload iatt t where i: "invoked_by cr dev roster evs aid e payload iatt t"
    and a: "\<forall>(ro, s) \<in> set (affirmations e). ro = role s \<and> ro \<in> affirmation_quorum \<and>
           signer_id s \<noteq> signer_id (signer iatt) \<and>
           (\<exists>a. affirmed_by cr dev roster evs aid payload t a \<and> signer a = s)"
    unfolding entry_inv_def by blast
  have sg: "verify_attestation cr (affirm_preimage cr aid payload) att = Inr ()"
    "signer_is_authorized roster (pubkey att) (role (signer att)) dev" "sg = signer att"
    using ok h i by (auto simp: authorize_bg_def authorize_with_Inr_iff affirm_preimage_def invoked_by_def)
  have "affirmed_by cr dev roster ?evs aid payload t att"
    using sg win i unfolding affirmed_by_def invoked_by_def by auto
  moreover have "affirmed_by cr dev roster ?evs aid payload t b" if "affirmed_by cr dev roster evs aid payload t b" for b
    using that by (auto simp: affirmed_by_def)
  moreover have "signer_id sg \<noteq> signer_id (signer iatt)" using inv_ne i by (auto simp: invoked_by_def)
  moreover have upd: "AList.update (role sg) sg (affirmations e) = affirmations e @ [(role sg, sg)]"
    by (rule update_new [OF new(1)])
  moreover have "role sg \<in> affirmation_quorum" using role by (auto simp: affirmation_quorum_def)
  ultimately have aff: "\<forall>(ro, s) \<in> set (AList.update (role sg) sg (affirmations e)).
      ro = role s \<and> ro \<in> affirmation_quorum \<and> signer_id s \<noteq> signer_id (signer iatt) \<and>
      (\<exists>b. affirmed_by cr dev roster ?evs aid payload t b \<and> signer b = s)"
    using a sg(3) unfolding upd by fastforce
  have inv': "invoked_by cr dev roster ?evs aid (record_affirmation sg e) payload iatt t"
    using i by (auto simp: invoked_by_def record_affirmation_def Let_def)
  have ph': "phase (record_affirmation sg e) = Affirmed \<longleftrightarrow>
      affirmation_quorum \<subseteq> fst ` set (affirmations (record_affirmation sg e))"
    "phase (record_affirmation sg e) \<noteq> PendingPhase"
    "affirmations (record_affirmation sg e) = AList.update (role sg) sg (affirmations e)"
    using ph by (simp_all add: record_affirmation_def Let_def)
  have "distinct (map (signer_id \<circ> snd) (AList.update (role sg) sg (affirmations e)))"
    using inv new(2) unfolding upd by (auto simp: entry_inv_def list_ex_iff)
  moreover have "distinct (map fst (AList.update (role sg) sg (affirmations e)))"
    using inv by (simp add: entry_inv_def distinct_update)
  ultimately show ?thesis
    unfolding entry_inv_def ph'(3) using aff inv' ph'
    by (intro conjI exI [of _ payload] exI [of _ iatt] exI [of _ t]) simp_all
qed

definition bg_inv :: "crypto \<Rightarrow> bool \<Rightarrow> signer_roster option \<Rightarrow> bg_event list \<Rightarrow> registry \<Rightarrow> bool" where
  "bg_inv cr dev roster evs r \<longleftrightarrow>
     bg_roster r = roster \<and> distinct (map fst (entries r)) \<and>
     (\<forall>k e. map_of (entries r) k = Some e \<longrightarrow> entry_inv cr dev roster evs k e)"

lemma invoke_ok:
  assumes "fst (invoke cr dev r aid payload att mf now) = Inr ()"
  shows "authorize_bg cr dev r BREAKGLASS_INVOKE_DOMAIN aid (breakglass_payload_hash cr payload) att = Inr (signer att) \<and>
    role (signer att) = SecurityOfficer \<and> break_glass_eligible (risk mf) \<and> \<not> manifest_touches_itar mf \<and>
    (\<forall>e. map_of (entries r) aid = Some e \<longrightarrow> phase e = PendingPhase) \<and>
    snd (invoke cr dev r aid payload att mf now) = r\<lparr>entries := AList.update aid
      ((case map_of (entries r) aid of Some e \<Rightarrow> e | None \<Rightarrow> new_entry aid)
         \<lparr>phase := Invoked, invoked_at := Some now, invoker := Some (signer att),
          notified := all_approvers, payload_hash := Some (breakglass_payload_hash cr payload)\<rparr>) (entries r)\<rparr>"
  using assms
  by (auto simp: invoke_def Let_def authorize_bg_def authorize_with_def split: sum.splits if_splits option.splits)

lemma update_same_mem: "map_of al k = Some v \<Longrightarrow> AList.update k v al = al"
  by (induction al) auto

lemma invoke_err:
  assumes "fst (invoke cr dev r aid payload att mf now) = Inl err"
    and "\<And>k e. map_of (entries r) k = Some e \<Longrightarrow> phase e \<noteq> PendingPhase"
  shows "snd (invoke cr dev r aid payload att mf now) = r"
  using assms(1) assms(2) [of aid]
  by (auto simp: invoke_def Let_def new_entry_def update_same_mem split: sum.splits if_splits option.splits)

lemma affirm_cases:
  obtains (err) err where "affirm cr dev r aid att now = (Inl err, r)"
  | (ok) e h sg where "map_of (entries r) aid = Some e" "phase e = Invoked" "payload_hash e = Some h"
      "authorize_bg cr dev r BREAKGLASS_AFFIRM_DOMAIN aid h att = Inr sg"
      "role sg = Reviewer \<or> role sg = ComplianceOfficer"
      "\<forall>iv \<in> set_option (invoker e). signer_id iv \<noteq> signer_id sg"
      "\<forall>t \<in> set_option (invoked_at e). now - t \<le> AFFIRMATION_WINDOW"
      "map_of (affirmations e) (role sg) = None"
      "\<not> list_ex (\<lambda>(_, s). signer_id s = signer_id sg) (affirmations e)"
      "affirm cr dev r aid att now =
         (Inr (), r\<lparr>entries := AList.update aid (record_affirmation sg e) (entries r)\<rparr>)"
proof (cases "fst (affirm cr dev r aid att now)")
  case (Inl x)
  then have "snd (affirm cr dev r aid att now) = r"
    by (auto simp: affirm_def split: option.splits sum.splits if_splits)
  with Inl show ?thesis by (intro err [of x]) (metis prod.collapse)
next
  case (Inr x)
  then obtain e where e: "map_of (entries r) aid = Some e" "phase e = Invoked"
    by (auto simp: affirm_def split: option.splits if_splits)
  with Inr obtain h where h: "payload_hash e = Some h"
    by (auto simp: affirm_def split: option.splits)
  with Inr e obtain sg where sg: "authorize_bg cr dev r BREAKGLASS_AFFIRM_DOMAIN aid h att = Inr sg"
    by (auto simp: affirm_def split: sum.splits)
  show ?thesis
    by (rule ok [OF e h sg])
      (use Inr e h sg in \<open>auto simp: affirm_def linorder_not_less split: if_splits\<close>)
qed

lemma bg_inv_step:
  assumes inv: "bg_inv cr dev roster evs r"
  shows "bg_inv cr dev roster (evs @ [ev]) (bg_step cr dev ev r)"
proof (cases ev)
  case (EvInvoke aid payload att mf now)
  show ?thesis
  proof (cases "fst (invoke cr dev r aid payload att mf now)")
    case (Inl err)
    have "snd (invoke cr dev r aid payload att mf now) = r"
      by (rule invoke_err [OF Inl]) (use inv in \<open>auto simp: bg_inv_def entry_inv_def\<close>)
    then show ?thesis using inv entry_inv_mono by (auto simp: EvInvoke bg_inv_def)
  next
    case (Inr x)
    have ok: "fst (invoke cr dev r aid payload att mf now) = Inr ()" using Inr by simp
    note i = invoke_ok [OF ok]
    have none: "map_of (entries r) aid = None"
    proof (rule ccontr)
      assume "map_of (entries r) aid \<noteq> None"
      then obtain e where "map_of (entries r) aid = Some e" by auto
      with i inv show False by (auto simp: bg_inv_def entry_inv_def)
    qed
    let ?e = "new_entry aid\<lparr>phase := Invoked, invoked_at := Some now, invoker := Some (signer att),
          notified := all_approvers, payload_hash := Some (breakglass_payload_hash cr payload)\<rparr>"
    have "invoked_by cr dev roster (evs @ [ev]) aid ?e payload att now"
      using i inv by (auto simp: invoked_by_def EvInvoke bg_inv_def authorize_bg_def authorize_with_Inr_iff
          invoke_preimage_def all_approvers_def UNIV_role)
    then have "entry_inv cr dev roster (evs @ [ev]) aid ?e"
      by (auto simp: entry_inv_def new_entry_def affirmation_quorum_def)
    then show ?thesis
      using i none inv entry_inv_mono unfolding EvInvoke bg_inv_def
      by (auto simp: update_conv distinct_update)
  qed
next
  case (EvAffirm aid att now)
  show ?thesis
  proof (cases rule: affirm_cases [of cr dev r aid att now])
    case err
    then show ?thesis using inv entry_inv_mono by (auto simp: EvAffirm bg_inv_def)
  next
    case (ok e h sg)
    have "entry_inv cr dev roster (evs @ [ev]) aid (record_affirmation sg e)"
      unfolding EvAffirm
      by (rule entry_inv_affirm [OF _ ok(2,3,4) _ ok(5-9)]) (use inv ok(1) in \<open>auto simp: bg_inv_def\<close>)
    then show ?thesis
      using inv entry_inv_mono ok(10) by (auto simp: EvAffirm bg_inv_def update_conv distinct_update)
  qed
next
  case (EvTick now)
  have "map_of (map (\<lambda>(k, e). (k, tick_entry now e)) (entries r)) k = map_option (tick_entry now) (map_of (entries r) k)" for k
    by (simp add: map_of_map)
  then show ?thesis
    using inv entry_inv_tick_surface(1) entry_inv_mono
    by (fastforce simp: EvTick bg_inv_def tick_def comp_def case_prod_unfold)
next
  case EvSurface
  have "map_of (map (\<lambda>(k, e). (k, surface_entry e)) (entries r)) k = map_option surface_entry (map_of (entries r) k)" for k
    by (simp add: map_of_map)
  then show ?thesis
    using inv entry_inv_tick_surface(2) entry_inv_mono
    by (fastforce simp: EvSurface bg_inv_def surface_def comp_def case_prod_unfold)
qed

lemma bg_inv_run: "bg_inv cr dev roster evs (bg_run cr dev roster evs)"
proof (induction evs rule: rev_induct)
  case Nil
  show ?case by (simp add: bg_inv_def new_registry_def)
qed (simp add: bg_inv_step)

section \<open>How a phase moves\<close>

text \<open>The legal moves of an action's phase; \<open>None\<close> is an action never invoked.\<close>

inductive phase_move :: "phase option \<Rightarrow> phase option \<Rightarrow> bool" where
  stay: "phase_move p p"
| invoked: "phase_move None (Some Invoked)"
| affirmed: "phase_move (Some Invoked) (Some Affirmed)"
| expired: "phase_move (Some Invoked) (Some Unaffirmed)"
| surfaced: "phase_move (Some Unaffirmed) (Some Surfaced)"

inductive_simps phase_move_from_affirmed: "phase_move (Some Affirmed) p"
inductive_simps phase_move_from_surfaced: "phase_move (Some Surfaced) p"

definition phase_of :: "registry \<Rightarrow> string \<Rightarrow> phase option" where
  "phase_of r aid = map_option phase (map_of (entries r) aid)"

lemma map_of_tick_surface [simp]:
  "map_of (entries (tick r now)) k = map_option (tick_entry now) (map_of (entries r) k)"
  "map_of (entries (surface r)) k = map_option surface_entry (map_of (entries r) k)"
  by (simp_all add: tick_def surface_def map_of_map)

lemma tick_move: "phase_move (Some (phase e)) (Some (phase (tick_entry now e)))"
  by (auto simp: tick_entry_def intro: phase_move.intros split: option.split)

lemma surface_move: "phase_move (Some (phase e)) (Some (phase (surface_entry e)))"
  by (cases "phase e") (simp_all add: surface_entry_def Let_def phase_move.intros)

lemma phase_move_step:
  assumes "\<And>k e. map_of (entries r) k = Some e \<Longrightarrow> phase e \<noteq> PendingPhase"
  shows "phase_move (phase_of r aid) (phase_of (bg_step cr dev ev r) aid)"
proof (cases ev)
  case (EvInvoke k payload att mf now)
  show ?thesis
  proof (cases "fst (invoke cr dev r k payload att mf now)")
    case (Inl err)
    then show ?thesis using invoke_err [OF Inl assms] by (simp add: EvInvoke phase_move.stay)
  next
    case (Inr x)
    then have ok: "fst (invoke cr dev r k payload att mf now) = Inr ()" by simp
    with invoke_ok [OF ok] assms have "map_of (entries r) k = None"
      by (metis not_None_eq)
    with invoke_ok [OF ok] show ?thesis
      by (auto simp: EvInvoke phase_of_def update_conv intro: phase_move.intros)
  qed
next
  case (EvAffirm k att now)
  show ?thesis
    by (cases rule: affirm_cases [of cr dev r k att now])
      (auto simp: EvAffirm phase_of_def update_conv record_affirmation_def Let_def intro: phase_move.intros)
next
  case (EvTick now)
  show ?thesis
    by (cases "map_of (entries r) aid")
      (auto simp: EvTick phase_of_def tick_move phase_move.stay)
next
  case EvSurface
  show ?thesis
    by (cases "map_of (entries r) aid")
      (auto simp: EvSurface phase_of_def surface_move phase_move.stay)
qed

lemma pending_never: "map_of (entries (bg_run cr dev roster evs)) k = Some e \<Longrightarrow> phase e \<noteq> PendingPhase"
  using bg_inv_run by (auto simp: bg_inv_def entry_inv_def)

lemma unat_saturating_incr:
  "unat (if x = - 1 then x else x + 1 :: u32) = min (Suc (unat x)) (2 ^ 32 - 1)"
proof (cases "x = - 1")
  case False
  then have "unat x \<noteq> unat (- 1 :: u32)" by (metis word_unat_eq_iff)
  then have "unat x < 4294967295" using unsigned_less [of x, where ?'a = nat]
    by (simp add: unsigned_minus_1_eq_mask mask_eq_exp_minus_1)
  with False show ?thesis by (simp add: unat_word_ariths)
qed (simp add: unsigned_minus_1_eq_mask mask_eq_exp_minus_1)

section \<open>A concrete run\<close>

text \<open>A scheme in which every signature verifies and the fingerprint of a key is its bytes.\<close>

definition demo_scheme :: crypto where
  "demo_scheme = \<lparr>vk_valid = (\<lambda>_. True), vk_verify = (\<lambda>_ _ _. True), sha256 = (\<lambda>b. b)\<rparr>"

definition demo_signed :: "u8 \<Rightarrow> role \<Rightarrow> attested_signature" where
  "demo_signed k r = \<lparr>signer = \<lparr>signer_id = hex_encode [k], role = r\<rparr>,
     signature_bytes = replicate 64 0, pubkey = [k]\<rparr>"

definition demo_manifest :: manifest where
  "demo_manifest = \<lparr>
     capsule = \<lparr>cm_name = ''c'', cm_version = ''1.0.0'', content_hash = []\<rparr>,
     capability = \<lparr>network = NetNone, filesystem = [], chain_calls = [], subagent_spawn = False, network_allow = []\<rparr>,
     data_class = \<lparr>reads = [Phi], writes = [], emits = []\<rparr>,
     risk = \<lparr>risk_tier = CriticalTier, required_roles = [], break_glass_eligible = True\<rparr>,
     overlay = \<lparr>certified = [], not_certified = []\<rparr>, procedure = \<lparr>gates = []\<rparr>,
     provenance = \<lparr>publisher = [], build_reproducible = True, agentile_sprint = [], tla_spec = []\<rparr>,
     signing = \<lparr>sd_tier = Bundled\<rparr>\<rparr>"

lemma hex_encode_distinct:
  "hex_encode [1] \<noteq> hex_encode [2]" "hex_encode [1] \<noteq> hex_encode [3]" "hex_encode [2] \<noteq> hex_encode [3]"
  by (simp_all add: hex_encode_def hex_digit_def)

lemma demo_affirmed:
  "phase_of (bg_run demo_scheme False (Some (\<lambda>_ _. True))
     [EvInvoke ''a'' [7] (demo_signed 1 SecurityOfficer) demo_manifest 0,
      EvAffirm ''a'' (demo_signed 2 Reviewer) 5,
      EvAffirm ''a'' (demo_signed 3 ComplianceOfficer) 259200000]) ''a'' = Some Affirmed"
  using hex_encode_distinct
  by (simp add: bg_run_def new_registry_def invoke_def affirm_def authorize_bg_def authorize_with_def
        verify_attestation_def signer_is_authorized_def demo_scheme_def demo_signed_def demo_manifest_def
        signer_id_from_pubkey_def SIGNATURE_SIZE_def manifest_touches_itar_def new_entry_def Let_def
        phase_of_def record_affirmation_def affirmation_quorum_def AFFIRMATION_WINDOW_def)

section \<open>Properties\<close>

text \<open>
  C8. Three people stand behind an affirmed break-glass action: over any run, an action in the
  affirmed phase was invoked by a security officer on a manifest that is eligible and names no
  ITAR data, a reviewer and a compliance officer affirmed it no later than 72 hours after that,
  all three under enrolled keys, over preimages that name this action and one payload, and the
  three keys are pairwise distinct.
\<close>

theorem affirmed_by_three_people:
  assumes "phase_of (bg_run cr dev roster evs) aid = Some Affirmed"
  shows "\<exists>payload mf inv t rev t1 com t2.
    EvInvoke aid payload inv mf t \<in> set evs \<and> break_glass_eligible (risk mf) \<and> \<not> manifest_touches_itar mf \<and>
    EvAffirm aid rev t1 \<in> set evs \<and> t1 - t \<le> AFFIRMATION_WINDOW \<and>
    EvAffirm aid com t2 \<in> set evs \<and> t2 - t \<le> AFFIRMATION_WINDOW \<and>
    role (signer inv) = SecurityOfficer \<and> role (signer rev) = Reviewer \<and> role (signer com) = ComplianceOfficer \<and>
    verify_attestation cr (invoke_preimage cr aid payload) inv = Inr () \<and>
    verify_attestation cr (affirm_preimage cr aid payload) rev = Inr () \<and>
    verify_attestation cr (affirm_preimage cr aid payload) com = Inr () \<and>
    (\<forall>a \<in> {inv, rev, com}. signer_is_authorized roster (pubkey a) (role (signer a)) dev) \<and>
    distinct [pubkey inv, pubkey rev, pubkey com]"
proof -
  obtain e where e: "map_of (entries (bg_run cr dev roster evs)) aid = Some e" "phase e = Affirmed"
    using assms by (auto simp: phase_of_def)
  with bg_inv_run [of cr dev roster evs] have inv: "entry_inv cr dev roster evs aid e"
    by (simp add: bg_inv_def)
  then obtain payload iatt t where i: "invoked_by cr dev roster evs aid e payload iatt t"
    and a: "\<forall>(ro, s) \<in> set (affirmations e). ro = role s \<and> ro \<in> affirmation_quorum \<and>
           signer_id s \<noteq> signer_id (signer iatt) \<and>
           (\<exists>b. affirmed_by cr dev roster evs aid payload t b \<and> signer b = s)"
    unfolding entry_inv_def by blast
  have "Reviewer \<in> fst ` set (affirmations e)" "ComplianceOfficer \<in> fst ` set (affirmations e)"
    using inv e(2) by (auto simp: entry_inv_def affirmation_quorum_def)
  then obtain s1 s2 where s: "(Reviewer, s1) \<in> set (affirmations e)" "(ComplianceOfficer, s2) \<in> set (affirmations e)"
    by auto
  note a1 = bspec [OF a s(1), simplified] and a2 = bspec [OF a s(2), simplified]
  obtain b1 where b1: "affirmed_by cr dev roster evs aid payload t b1" "signer b1 = s1" using a1 by blast
  obtain b2 where b2: "affirmed_by cr dev roster evs aid payload t b2" "signer b2 = s2" using a2 by blast
  have b: "role s1 = Reviewer" "role s2 = ComplianceOfficer"
    "signer_id s1 \<noteq> signer_id (signer iatt)" "signer_id s2 \<noteq> signer_id (signer iatt)"
    using a1 a2 by auto
  have people: "signer_id s1 \<noteq> signer_id s2"
  proof
    assume same: "signer_id s1 = signer_id s2"
    have "inj_on (signer_id \<circ> snd) (set (affirmations e))"
      using inv by (simp add: entry_inv_def distinct_map)
    from inj_onD [OF this _ s] same show False by simp
  qed
  obtain mf where mf: "EvInvoke aid payload iatt mf t \<in> set evs" "break_glass_eligible (risk mf)" "\<not> manifest_touches_itar mf"
    using i by (auto simp: invoked_by_def)
  obtain t1 where t1: "EvAffirm aid b1 t1 \<in> set evs" "t1 - t \<le> AFFIRMATION_WINDOW"
    using b1(1) by (auto simp: affirmed_by_def)
  obtain t2 where t2: "EvAffirm aid b2 t2 \<in> set evs" "t2 - t \<le> AFFIRMATION_WINDOW"
    using b2(1) by (auto simp: affirmed_by_def)
  have roles: "role (signer iatt) = SecurityOfficer" "role (signer b1) = Reviewer" "role (signer b2) = ComplianceOfficer"
    using b b1(2) b2(2) i by (simp_all add: invoked_by_def)
  have verified: "verify_attestation cr (invoke_preimage cr aid payload) iatt = Inr ()"
    "verify_attestation cr (affirm_preimage cr aid payload) b1 = Inr ()"
    "verify_attestation cr (affirm_preimage cr aid payload) b2 = Inr ()"
    using b1(1) b2(1) i by (simp_all add: invoked_by_def affirmed_by_def)
  have enrolled: "\<forall>a \<in> {iatt, b1, b2}. signer_is_authorized roster (pubkey a) (role (signer a)) dev"
    using b1(1) b2(1) i roles(1) by (simp add: invoked_by_def affirmed_by_def)
  note ids = ed.id_bound [OF verified(1)] ed.id_bound [OF verified(2)] ed.id_bound [OF verified(3)]
  have "pubkey iatt \<noteq> pubkey b1" using ids b(3) b1(2) by metis
  moreover have "pubkey iatt \<noteq> pubkey b2" using ids b(4) b2(2) by metis
  moreover have "pubkey b1 \<noteq> pubkey b2" using ids people b1(2) b2(2) by metis
  ultimately have keys: "distinct [pubkey iatt, pubkey b1, pubkey b2]" by simp
  show ?thesis
    by (intro exI conjI, rule mf(1), rule mf(2), rule mf(3), rule t1(1), rule t1(2), rule t2(1), rule t2(2),
        rule roles(1), rule roles(2), rule roles(3), rule verified(1), rule verified(2), rule verified(3),
        rule enrolled, rule keys)
qed

theorem affirmed_by_three_people_witness:
  "\<exists>(inv :: attested_signature) (rev :: attested_signature) (com :: attested_signature).
     distinct [pubkey inv, pubkey rev, pubkey com] \<and> role (signer inv) = SecurityOfficer \<and>
     role (signer rev) = Reviewer \<and> role (signer com) = ComplianceOfficer"
proof -
  obtain inv rev com :: attested_signature where "distinct [pubkey inv, pubkey rev, pubkey com]"
    "role (signer inv) = SecurityOfficer" "role (signer rev) = Reviewer" "role (signer com) = ComplianceOfficer"
    using affirmed_by_three_people [OF demo_affirmed] by (elim exE conjE) (rule that)
  then show ?thesis by blast
qed

text \<open>
  The phase of an action is a one-way machine under every operation, failed calls included:
  unknown, invoked, then affirmed or expired, and from expired to surfaced; an affirmed action and
  a surfaced one stay what they are, and no action is ever forgotten.
\<close>

lemma phase_one_way:
  "phase_move (phase_of (bg_run cr dev roster evs) aid) (phase_of (bg_run cr dev roster (evs @ [ev])) aid) \<and>
   (case phase_of (bg_run cr dev roster evs) aid of
      Some Affirmed \<Rightarrow> phase_of (bg_run cr dev roster (evs @ rest)) aid = Some Affirmed
    | Some Surfaced \<Rightarrow> phase_of (bg_run cr dev roster (evs @ rest)) aid = Some Surfaced
    | Some p \<Rightarrow> phase_of (bg_run cr dev roster (evs @ rest)) aid \<noteq> None
    | None \<Rightarrow> True)"
proof -
  have move: "phase_move (phase_of (bg_run cr dev roster es) aid) (phase_of (bg_run cr dev roster (es @ [ev])) aid)" for es ev
    using phase_move_step pending_never by simp
  have "phase_of (bg_run cr dev roster evs) aid = Some p \<Longrightarrow>
      (\<exists>p'. phase_of (bg_run cr dev roster (evs @ rest)) aid = Some p' \<and>
        (p \<in> {Affirmed, Surfaced} \<longrightarrow> p' = p))" for p
  proof (induction rest rule: rev_induct)
    case (snoc ev rest)
    then obtain p' where p': "phase_of (bg_run cr dev roster (evs @ rest)) aid = Some p'"
      "p \<in> {Affirmed, Surfaced} \<longrightarrow> p' = p" by auto
    from move [of "evs @ rest" ev] p' show ?case
      by (auto elim: phase_move.cases)
  qed simp
  with move show ?thesis by (auto split: option.split phase.split)
qed

text \<open>
  What is not affirmed in time is surfaced, for good: when an invoked action's 72 hours have
  passed without quorum, one tick and \<open>n + 1\<close> doctor reports leave it surfaced with the reports
  counted (up to the largest 32-bit number), and it can no longer be affirmed.
\<close>

lemma unaffirmed_is_surfaced:
  assumes "map_of (entries r) aid = Some e" "phase e = Invoked" "invoked_at e = Some t"
    and "AFFIRMATION_WINDOW \<le> now - t" "surface_count e = 0"
  shows "let r' = (surface ^^ Suc n) (tick r now)
         in (\<exists>e'. map_of (entries r') aid = Some e' \<and> phase e' = Surfaced \<and>
              unat (surface_count e') = min (Suc n) (2 ^ 32 - 1)) \<and>
            fst (affirm cr dev r' aid att later) = Inl NotInvoked"
proof -
  have "\<exists>e'. map_of (entries ((surface ^^ Suc n) (tick r now))) aid = Some e' \<and> phase e' = Surfaced \<and>
      unat (surface_count e') = min (Suc n) (2 ^ 32 - 1)"
  proof (induction n)
    case 0
    then show ?case
      using assms by (simp add: tick_entry_def surface_entry_def Let_def)
  next
    case (Suc n)
    then obtain e' where e': "map_of (entries ((surface ^^ Suc n) (tick r now))) aid = Some e'"
      "phase e' = Surfaced" "unat (surface_count e') = min (Suc n) (2 ^ 32 - 1)" by blast
    have "unat (surface_count (surface_entry e')) = min (Suc (Suc n)) (2 ^ 32 - 1)"
      using e'(2,3) unat_saturating_incr [of "surface_count e'"] by (simp add: surface_entry_def Let_def)
    moreover have "phase (surface_entry e') = Surfaced" using e'(2) by (simp add: surface_entry_def Let_def)
    moreover have "map_of (entries ((surface ^^ Suc (Suc n)) (tick r now))) aid = Some (surface_entry e')"
    proof -
      have "(surface ^^ Suc (Suc n)) y = surface ((surface ^^ Suc n) y)" for y by simp
      then show ?thesis by (simp only: map_of_tick_surface e'(1) option.map)
    qed
    ultimately show ?case by blast
  qed
  then obtain e' where e': "map_of (entries ((surface ^^ Suc n) (tick r now))) aid = Some e'" "phase e' = Surfaced"
    "unat (surface_count e') = min (Suc n) (2 ^ 32 - 1)" by blast
  then have "fst (affirm cr dev ((surface ^^ Suc n) (tick r now)) aid att later) = Inl NotInvoked"
    by (simp only: affirm_def option.case) simp
  with e' show ?thesis unfolding Let_def by blast
qed

text \<open>
  A captured signature serves once: with 32-byte digests, the bytes signed to invoke are never
  the bytes signed to affirm, and two affirmations' bytes agree only for one action id and one
  payload digest.
\<close>

lemma preimages_unambiguous:
  assumes "\<And>b. length (sha256 cr b) = 32"
  shows "invoke_preimage cr aid p \<noteq> affirm_preimage cr aid' p' \<and>
    (affirm_preimage cr aid p = affirm_preimage cr aid' p' \<longleftrightarrow>
       aid = aid' \<and> breakglass_payload_hash cr p = breakglass_payload_hash cr p')"
  using assms domains_differ
  by (simp add: invoke_preimage_def affirm_preimage_def preimage_inject breakglass_payload_hash_def length_domains)

end
