(* ===== verification/Net.thy ===== *)
theory Net
  imports Prelude
begin

text \<open>
  Address classes (\<open>agent-guard/src/net.rs\<close>): which IP addresses are on the public internet, and
  which host names never are. An address is its octets or its 16-bit segments, as the code reads
  them; the tests of the standard library (\<open>is_private\<close> and the like) are written out.
\<close>

unbundle bit_operations_syntax

type_synonym u16 = "16 word"

datatype ipv4 = V4 u8 u8 u8 u8

datatype ipv6 = V6 u16 u16 u16 u16 u16 u16 u16 u16

datatype ip_addr = IpV4 ipv4 | IpV6 ipv6

section \<open>The standard library's tests\<close>

fun is_loopback :: "ipv4 \<Rightarrow> bool" where
  "is_loopback (V4 a b c d) \<longleftrightarrow> a = 127"

fun is_private :: "ipv4 \<Rightarrow> bool" where
  "is_private (V4 a b c d) \<longleftrightarrow>
     a = 10 \<or> a = 172 \<and> 16 \<le> b \<and> b \<le> 31 \<or> a = 192 \<and> b = 168"

fun is_link_local :: "ipv4 \<Rightarrow> bool" where
  "is_link_local (V4 a b c d) \<longleftrightarrow> a = 169 \<and> b = 254"

fun is_broadcast :: "ipv4 \<Rightarrow> bool" where
  "is_broadcast (V4 a b c d) \<longleftrightarrow> a = 255 \<and> b = 255 \<and> c = 255 \<and> d = 255"

fun is_unspecified :: "ipv4 \<Rightarrow> bool" where
  "is_unspecified (V4 a b c d) \<longleftrightarrow> a = 0 \<and> b = 0 \<and> c = 0 \<and> d = 0"

fun is_multicast :: "ipv4 \<Rightarrow> bool" where
  "is_multicast (V4 a b c d) \<longleftrightarrow> 224 \<le> a \<and> a \<le> 239"

fun is_documentation :: "ipv4 \<Rightarrow> bool" where
  "is_documentation (V4 a b c d) \<longleftrightarrow>
     a = 192 \<and> b = 0 \<and> c = 2 \<or> a = 198 \<and> b = 51 \<and> c = 100 \<or> a = 203 \<and> b = 0 \<and> c = 113"

fun to_ipv4_mapped :: "ipv6 \<Rightarrow> ipv4 option" where
  "to_ipv4_mapped (V6 s0 s1 s2 s3 s4 s5 s6 s7) =
     (if s0 = 0 \<and> s1 = 0 \<and> s2 = 0 \<and> s3 = 0 \<and> s4 = 0 \<and> s5 = 0xffff
      then Some (V4 (ucast (drop_bit 8 s6)) (ucast s6) (ucast (drop_bit 8 s7)) (ucast s7))
      else None)"

section \<open>The module\<close>

fun v4_public :: "ipv4 \<Rightarrow> bool" where
  "v4_public (V4 a b c d) \<longleftrightarrow>
     \<not> (is_loopback (V4 a b c d) \<or> is_private (V4 a b c d) \<or> is_link_local (V4 a b c d) \<or>
        is_broadcast (V4 a b c d) \<or> is_unspecified (V4 a b c d) \<or> is_multicast (V4 a b c d) \<or>
        is_documentation (V4 a b c d) \<or>
        a = 0 \<or>
        a = 100 \<and> (b AND 0xc0) = 64 \<or>
        a = 192 \<and> b = 0 \<and> c = 0 \<or>
        a = 192 \<and> b = 88 \<and> c = 99 \<or>
        a = 198 \<and> (b AND 0xfe) = 18 \<or>
        240 \<le> a)"

definition v4_from :: "u16 \<Rightarrow> u16 \<Rightarrow> ipv4" where
  "v4_from hi lo = V4 (ucast (drop_bit 8 hi)) (ucast hi) (ucast (drop_bit 8 lo)) (ucast lo)"

fun v6_public :: "ipv6 \<Rightarrow> bool" where
  "v6_public (V6 s0 s1 s2 s3 s4 s5 s6 s7) =
     (case to_ipv4_mapped (V6 s0 s1 s2 s3 s4 s5 s6 s7) of
        Some v4 \<Rightarrow> v4_public v4
      | None \<Rightarrow>
          if s0 = 0x64 \<and> s1 = 0xff9b \<and> s2 = 0 \<and> s3 = 0 \<and> s4 = 0 \<and> s5 = 0 then v4_public (v4_from s6 s7)
          else if s0 = 0x2002 then v4_public (v4_from s1 s2)
          else if s0 = 0x2001 \<and> s1 = 0 then False
          else (s0 AND 0xe000) = 0x2000 \<and>
               \<not> (s0 = 0x2001 \<and> s1 = 0x0db8) \<and>
               \<not> (s0 = 0x3fff \<and> (s1 AND 0xf000) = 0) \<and>
               \<not> (s0 = 0x2001 \<and> s1 = 0x0002 \<and> s2 = 0) \<and>
               \<not> (s0 = 0x2001 \<and> (s1 AND 0xfff0) = 0x0010) \<and>
               \<not> (s0 = 0x2001 \<and> (s1 AND 0xfff0) = 0x0020))"

definition is_public_ip :: "ip_addr \<Rightarrow> bool" where
  "is_public_ip ip = (case ip of IpV4 v4 \<Rightarrow> v4_public v4 | IpV6 v6 \<Rightarrow> v6_public v6)"

definition ascii_lower :: "char \<Rightarrow> char" where
  "ascii_lower c =
     (let n = of_char c :: nat in if 65 \<le> n \<and> n \<le> 90 then char_of (n + 32) else c)"

definition trim_end_dots :: "string \<Rightarrow> string" where
  "trim_end_dots s = rev (dropWhile (\<lambda>c. c = CHR ''.'') (rev s))"

definition is_local_name :: "string \<Rightarrow> bool" where
  "is_local_name host =
     (let h = map ascii_lower (trim_end_dots host)
      in h = ''localhost'' \<or> ends_with ''.localhost'' h \<or> ends_with ''.local'' h \<or>
         ends_with ''.internal'' h \<or> ends_with ''.home.arpa'' h \<or> CHR ''.'' \<notin> set h)"

section \<open>Address blocks\<close>

text \<open>The reference: an address as one number, and the CIDR blocks that are not public.\<close>

fun v4_number :: "ipv4 \<Rightarrow> nat" where
  "v4_number (V4 a b c d) = ((unat a * 256 + unat b) * 256 + unat c) * 256 + unat d"

definition in_block :: "nat \<Rightarrow> ipv4 \<times> nat \<Rightarrow> bool" where
  "in_block n blk \<longleftrightarrow> n div 2 ^ (32 - snd blk) = v4_number (fst blk) div 2 ^ (32 - snd blk)"

definition special_blocks :: "(ipv4 \<times> nat) list" where
  "special_blocks =
     [(V4 0 0 0 0, 8), (V4 10 0 0 0, 8), (V4 100 64 0 0, 10), (V4 127 0 0 0, 8), (V4 169 254 0 0, 16),
      (V4 172 16 0 0, 12), (V4 192 0 0 0, 24), (V4 192 0 2 0, 24), (V4 192 88 99 0, 24),
      (V4 192 168 0 0, 16), (V4 198 18 0 0, 15), (V4 198 51 100 0, 24), (V4 203 0 113 0, 24),
      (V4 224 0 0 0, 4), (V4 240 0 0 0, 4)]"

lemma and_c0: "((b :: u8) AND 0xc0) = 64 \<longleftrightarrow> unat b div 64 = 1"
proof -
  have "list_all (\<lambda>n. ((of_nat n :: u8) AND 0xc0) = 64 \<longleftrightarrow> n div 64 = 1) [0..<256]"
    by code_simp
  then have all: "\<forall>n \<in> {0..<256}. ((of_nat n :: u8) AND 0xc0) = 64 \<longleftrightarrow> n div 64 = 1"
    by (simp only: list_all_iff set_upt)
  have "unat b \<in> {0..<256}" using unsigned_less [of b, where ?'a = nat] by simp
  from bspec [OF all this] show ?thesis by simp
qed

lemma and_fe: "((b :: u8) AND 0xfe) = 18 \<longleftrightarrow> unat b div 2 = 9"
proof -
  have "list_all (\<lambda>n. ((of_nat n :: u8) AND 0xfe) = 18 \<longleftrightarrow> n div 2 = 9) [0..<256]"
    by code_simp
  then have all: "\<forall>n \<in> {0..<256}. ((of_nat n :: u8) AND 0xfe) = 18 \<longleftrightarrow> n div 2 = 9"
    by (simp only: list_all_iff set_upt)
  have "unat b \<in> {0..<256}" using unsigned_less [of b, where ?'a = nat] by simp
  from bspec [OF all this] show ?thesis by simp
qed

lemma number_div:
  fixes a b c d :: nat
  assumes "b < 256" "c < 256" "d < 256"
  shows number_div_8: "(((a * 256 + b) * 256 + c) * 256 + d) div 256 = (a * 256 + b) * 256 + c"
    and number_div_16: "(((a * 256 + b) * 256 + c) * 256 + d) div 65536 = a * 256 + b"
    and number_div_24: "(((a * 256 + b) * 256 + c) * 256 + d) div 16777216 = a"
proof -
  let ?n = "((a * 256 + b) * 256 + c) * 256 + d"
  show 1: "?n div 256 = (a * 256 + b) * 256 + c" using assms(3) by simp
  have "?n div (256 * 256) = ?n div 256 div 256" by (rule div_mult2_eq)
  then show 2: "?n div 65536 = a * 256 + b" unfolding 1 using assms(2) by simp
  have "?n div (65536 * 256) = ?n div 65536 div 256" by (rule div_mult2_eq)
  then show "?n div 16777216 = a" unfolding 2 using assms(1) by simp
qed

lemma number_div_part:
  fixes a b c d :: nat
  assumes "b < 256" "c < 256" "d < 256"
  shows "(((a * 256 + b) * 256 + c) * 256 + d) div 131072 = a * 128 + b div 2"
    and "(((a * 256 + b) * 256 + c) * 256 + d) div 1048576 = a * 16 + b div 16"
    and "(((a * 256 + b) * 256 + c) * 256 + d) div 4194304 = a * 4 + b div 64"
    and "(((a * 256 + b) * 256 + c) * 256 + d) div 268435456 = a div 16"
proof -
  let ?n = "((a * 256 + b) * 256 + c) * 256 + d"
  have part: "?n div (65536 * k) = (a * 256 + b) div k" for k
    unfolding div_mult2_eq number_div_16 [OF assms] by (rule refl)
  have "(a * 256 + b) div 2 = a * 128 + b div 2" "(a * 256 + b) div 16 = a * 16 + b div 16"
    "(a * 256 + b) div 64 = a * 4 + b div 64"
    using div_mult_self3 [of 2 "a * 128" b] div_mult_self3 [of 16 "a * 16" b] div_mult_self3 [of 64 "a * 4" b]
    by (simp_all add: algebra_simps)
  then show "?n div 131072 = a * 128 + b div 2" "?n div 1048576 = a * 16 + b div 16"
    "?n div 4194304 = a * 4 + b div 64"
    using part [of 2] part [of 16] part [of 64] by simp_all
  have "?n div (16777216 * 16) = ?n div 16777216 div 16" by (rule div_mult2_eq)
  then show "?n div 268435456 = a div 16" unfolding number_div_24 [OF assms] by simp
qed

lemma digits:
  assumes "B < m" "y < (m :: nat)" shows "A * m + B = x * m + y \<longleftrightarrow> A = x \<and> B = y"
proof
  assume eq: "A * m + B = x * m + y"
  have "(A * m + B) div m = A" "(x * m + y) div m = x" using assms by simp_all
  with eq show "A = x \<and> B = y" by simp
qed simp

lemmas digits2 = digits [where m = 256, simplified]

lemma digits3:
  assumes "B < 256" "C < 256" "y < 256" "z < (256 :: nat)"
  shows "(A * 256 + B) * 256 + C = (x * 256 + y) * 256 + z \<longleftrightarrow> A = x \<and> B = y \<and> C = z"
  using digits [OF assms(2,4), of "A * 256 + B" "x * 256 + y"] digits [OF assms(1,3), of A x] by simp

text \<open>Membership in a block, as tests on the octets.\<close>

lemma special_octets:
  fixes A B C D :: nat
  assumes B: "B < 256" and C: "C < 256" and D: "D < 256"
  shows "list_ex (in_block (((A * 256 + B) * 256 + C) * 256 + D)) special_blocks \<longleftrightarrow>
    A = 0 \<or> A = 10 \<or> A = 100 \<and> B div 64 = 1 \<or> A = 127 \<or> A = 169 \<and> B = 254 \<or> A = 172 \<and> B div 16 = 1 \<or>
    A = 192 \<and> B = 0 \<and> C = 0 \<or> A = 192 \<and> B = 0 \<and> C = 2 \<or> A = 192 \<and> B = 88 \<and> C = 99 \<or>
    A = 192 \<and> B = 168 \<or> A = 198 \<and> B div 2 = 9 \<or> A = 198 \<and> B = 51 \<and> C = 100 \<or>
    A = 203 \<and> B = 0 \<and> C = 113 \<or> A div 16 = 14 \<or> A div 16 = 15"
proof -
  let ?n = "((A * 256 + B) * 256 + C) * 256 + D"
  note div8 = number_div [OF B C D, of A] and part = number_div_part [OF B C D, of A]
  have small: "B div 64 < 4" "B div 16 < 16" "B div 2 < 128" using B by simp_all
  have b1: "in_block ?n (V4 0 0 0 0, 8) \<longleftrightarrow> A = 0"
    using div8(3) by (simp add: in_block_def)
  have b2: "in_block ?n (V4 10 0 0 0, 8) \<longleftrightarrow> A = 10"
    using div8(3) by (simp add: in_block_def)
  have b3: "in_block ?n (V4 100 64 0 0, 10) \<longleftrightarrow> A = 100 \<and> B div 64 = 1"
    using part(3) digits [OF small(1), of 1 A 100] by (simp add: in_block_def)
  have b4: "in_block ?n (V4 127 0 0 0, 8) \<longleftrightarrow> A = 127"
    using div8(3) by (simp add: in_block_def)
  have b5: "in_block ?n (V4 169 254 0 0, 16) \<longleftrightarrow> A = 169 \<and> B = 254"
    using div8(2) digits [OF B, of 254 A 169] by (simp add: in_block_def)
  have b6: "in_block ?n (V4 172 16 0 0, 12) \<longleftrightarrow> A = 172 \<and> B div 16 = 1"
    using part(2) digits [OF small(2), of 1 A 172] by (simp add: in_block_def)
  have b7: "in_block ?n (V4 192 0 0 0, 24) \<longleftrightarrow> A = 192 \<and> B = 0 \<and> C = 0"
    using div8(1) digits3 [OF B C, of 0 0 A 192] by (simp add: in_block_def)
  have b8: "in_block ?n (V4 192 0 2 0, 24) \<longleftrightarrow> A = 192 \<and> B = 0 \<and> C = 2"
    using div8(1) digits3 [OF B C, of 0 2 A 192] by (simp add: in_block_def)
  have b9: "in_block ?n (V4 192 88 99 0, 24) \<longleftrightarrow> A = 192 \<and> B = 88 \<and> C = 99"
    using div8(1) digits3 [OF B C, of 88 99 A 192] by (simp add: in_block_def)
  have b10: "in_block ?n (V4 192 168 0 0, 16) \<longleftrightarrow> A = 192 \<and> B = 168"
    using div8(2) digits [OF B, of 168 A 192] by (simp add: in_block_def)
  have b11: "in_block ?n (V4 198 18 0 0, 15) \<longleftrightarrow> A = 198 \<and> B div 2 = 9"
    using part(1) digits [OF small(3), of 9 A 198] by (simp add: in_block_def)
  have b12: "in_block ?n (V4 198 51 100 0, 24) \<longleftrightarrow> A = 198 \<and> B = 51 \<and> C = 100"
    using div8(1) digits3 [OF B C, of 51 100 A 198] by (simp add: in_block_def)
  have b13: "in_block ?n (V4 203 0 113 0, 24) \<longleftrightarrow> A = 203 \<and> B = 0 \<and> C = 113"
    using div8(1) digits3 [OF B C, of 0 113 A 203] by (simp add: in_block_def)
  have b14: "in_block ?n (V4 224 0 0 0, 4) \<longleftrightarrow> A div 16 = 14"
    using part(4) by (simp add: in_block_def)
  have b15: "in_block ?n (V4 240 0 0 0, 4) \<longleftrightarrow> A div 16 = 15"
    using part(4) by (simp add: in_block_def)
  have ex: "list_ex P (x # xs) \<longleftrightarrow> P x \<or> list_ex P xs" "list_ex P [] \<longleftrightarrow> False" for P x and xs :: "'b list"
    by simp_all
  show ?thesis
    unfolding special_blocks_def ex b1 b2 b3 b4 b5 b6 b7 b8 b9 b10 b11 b12 b13 b14 b15 by (simp only: simp_thms)
qed

section \<open>Spellings of a host name\<close>

lemma dropWhile_replicate: "P c \<Longrightarrow> dropWhile P (replicate n c @ xs) = dropWhile P xs"
  by (induction n) simp_all

lemma trim_end_dots_append: "trim_end_dots (h @ replicate n CHR ''.'') = trim_end_dots h"
  by (simp add: trim_end_dots_def dropWhile_replicate)

lemma trim_end_dots_keep: "last s \<noteq> CHR ''.'' \<Longrightarrow> trim_end_dots s = s"
  by (cases s rule: rev_cases) (simp_all add: trim_end_dots_def)

lemma ascii_lower_idem: "ascii_lower (ascii_lower c) = ascii_lower c"
  by (simp add: ascii_lower_def Let_def)

lemma ascii_lower_dot: "ascii_lower c = CHR ''.'' \<longleftrightarrow> c = CHR ''.''"
proof
  assume *: "ascii_lower c = CHR ''.''"
  show "c = CHR ''.''"
  proof (cases "65 \<le> (of_char c :: nat) \<and> (of_char c :: nat) \<le> 90")
    case True
    then have "(of_char (ascii_lower c) :: nat) = of_char c + 32" by (simp add: ascii_lower_def)
    with * True show ?thesis by simp
  next
    case False
    then have "ascii_lower c = c" by (auto simp: ascii_lower_def Let_def)
    with * show ?thesis by simp
  qed
qed (simp add: ascii_lower_def)

lemma trim_end_dots_lower: "trim_end_dots (map ascii_lower h) = map ascii_lower (trim_end_dots h)"
  by (simp add: trim_end_dots_def rev_map dropWhile_map comp_def ascii_lower_dot)

lemma ends_with_append [simp]: "ends_with s (h @ s)"
  by (simp add: ends_with_def)

lemma map_ascii_lower_twice [simp]: "map ascii_lower (map ascii_lower h) = map ascii_lower h"
  by (simp add: ascii_lower_idem)

lemma local_suffixI:
  assumes "last sfx \<noteq> CHR ''.''" "sfx \<noteq> []" "map ascii_lower sfx = sfx"
    and "sfx \<in> {''.localhost'', ''.local'', ''.internal'', ''.home.arpa''}"
  shows "is_local_name (h @ sfx)"
proof -
  have trimmed: "trim_end_dots (h @ sfx) = h @ sfx" using assms(1,2) by (intro trim_end_dots_keep) simp
  define t where "t = map ascii_lower (h @ sfx)"
  then have "ends_with sfx t" using assms(3) by simp
  with assms(4) show ?thesis
    unfolding is_local_name_def Let_def trimmed t_def [symmetric] by blast
qed

section \<open>Properties\<close>

text \<open>
  An IPv4 address is public exactly when it lies in none of the fifteen special-purpose blocks,
  read as one number against the CIDR prefixes, although the code tests octets and masks.
\<close>

lemma v4_public_iff_no_special_block:
  "is_public_ip (IpV4 ip) \<longleftrightarrow> \<not> list_ex (in_block (v4_number ip)) special_blocks"
proof (cases ip)
  case (V4 a b c d)
  have small: "unat x < 256" for x :: u8 using unsigned_less [of x, where ?'a = nat] by simp
  have hi: "unat a div 16 = 14 \<longleftrightarrow> 224 \<le> unat a \<and> unat a \<le> 239" "unat a div 16 = 15 \<longleftrightarrow> 240 \<le> unat a"
    "unat b div 16 = 1 \<longleftrightarrow> 16 \<le> unat b \<and> unat b \<le> 31"
    using small [of a] by auto
  have eqs: "x = 0 \<longleftrightarrow> unat x = 0" "x = 2 \<longleftrightarrow> unat x = 2" "x = 10 \<longleftrightarrow> unat x = 10"
    "x = 51 \<longleftrightarrow> unat x = 51" "x = 88 \<longleftrightarrow> unat x = 88" "x = 99 \<longleftrightarrow> unat x = 99"
    "x = 100 \<longleftrightarrow> unat x = 100" "x = 113 \<longleftrightarrow> unat x = 113" "x = 127 \<longleftrightarrow> unat x = 127"
    "x = 168 \<longleftrightarrow> unat x = 168" "x = 169 \<longleftrightarrow> unat x = 169" "x = 172 \<longleftrightarrow> unat x = 172"
    "x = 192 \<longleftrightarrow> unat x = 192" "x = 198 \<longleftrightarrow> unat x = 198" "x = 203 \<longleftrightarrow> unat x = 203"
    "x = 254 \<longleftrightarrow> unat x = 254" for x :: u8
    by (simp_all add: word_unat_eq_iff)
  have les: "16 \<le> x \<longleftrightarrow> 16 \<le> unat x" "x \<le> 31 \<longleftrightarrow> unat x \<le> 31" "224 \<le> x \<longleftrightarrow> 224 \<le> unat x"
    "x \<le> 239 \<longleftrightarrow> unat x \<le> 239" "240 \<le> x \<longleftrightarrow> 240 \<le> unat x" for x :: u8
    by (simp_all add: word_le_nat_alt)
  have bcast: "is_broadcast (V4 a b c d) \<Longrightarrow> 240 \<le> unat a" by simp
  have unspec: "is_unspecified (V4 a b c d) \<Longrightarrow> unat a = 0" by simp
  show ?thesis
    unfolding V4 v4_number.simps special_octets [OF small small small] hi
      is_public_ip_def ip_addr.case v4_public.simps is_loopback.simps is_private.simps
      is_link_local.simps is_multicast.simps is_documentation.simps and_c0 and_fe eqs les
    using bcast unspec by argo
qed

text \<open>
  Wrapping never hides an address: the IPv4-mapped, NAT64 and 6to4 forms of an IPv4 address are
  public exactly when that address is, and a Teredo address never is.
\<close>

lemma embedded_address_decides:
  "(is_public_ip (IpV6 (V6 0 0 0 0 0 0xffff hi lo)) \<longleftrightarrow> is_public_ip (IpV4 (v4_from hi lo))) \<and>
   (is_public_ip (IpV6 (V6 0x64 0xff9b 0 0 0 0 hi lo)) \<longleftrightarrow> is_public_ip (IpV4 (v4_from hi lo))) \<and>
   (is_public_ip (IpV6 (V6 0x2002 hi lo s3 s4 s5 s6 s7)) \<longleftrightarrow> is_public_ip (IpV4 (v4_from hi lo))) \<and>
   \<not> is_public_ip (IpV6 (V6 0x2001 0 s2 s3 s4 s5 s6 s7))"
  by (simp add: is_public_ip_def v4_from_def)

text \<open>
  A host name's spelling does not change its class: trailing dots and letter case are ignored,
  and every subdomain of the local suffixes is local.
\<close>

lemma local_name_spelling:
  "is_local_name (map ascii_lower h @ replicate n CHR ''.'') = is_local_name h \<and>
   list_all (\<lambda>sfx. is_local_name (h @ sfx)) [''.localhost'', ''.local'', ''.internal'', ''.home.arpa'']"
proof
  show "is_local_name (map ascii_lower h @ replicate n CHR ''.'') = is_local_name h"
    unfolding is_local_name_def trim_end_dots_append trim_end_dots_lower map_ascii_lower_twice ..
  have lower: "map ascii_lower ''.localhost'' = ''.localhost''" "map ascii_lower ''.local'' = ''.local''"
    "map ascii_lower ''.internal'' = ''.internal''" "map ascii_lower ''.home.arpa'' = ''.home.arpa''"
    by (simp_all add: ascii_lower_def)
  show "list_all (\<lambda>sfx. is_local_name (h @ sfx)) [''.localhost'', ''.local'', ''.internal'', ''.home.arpa'']"
    unfolding list.pred_inject
    using lower by (intro conjI TrueI local_suffixI) simp_all
qed

end
