(* ===== verification/Tools.thy ===== *)
theory Tools
  imports Prelude
begin

text \<open>
  The vocabulary of the reasoning loop (\<open>agent-loop/src/lib.rs\<close>): messages, tools and their
  annotations, tool outcomes, the taint of a session, events, and what the loop calls.

  The model, the tool hosts, the stop flag and the other holders of the taint state answer with a
  function of the trace: everything the loop has done at its interfaces so far. That covers every
  deterministic and every interleaved behaviour of theirs. A JSON schema is its text, and whether a
  string is JSON is a parameter.
\<close>

section \<open>Messages\<close>

datatype role = System | User | Assistant | Tool

record tool_call =
  call_id :: string
  call_name :: string
  call_args :: string

record message =
  msg_role :: role
  msg_content :: string
  msg_calls :: "tool_call list"
  msg_call_id :: "string option"

definition system_message :: "string \<Rightarrow> message" where
  "system_message s = \<lparr>msg_role = System, msg_content = s, msg_calls = [], msg_call_id = None\<rparr>"

definition user_message :: "string \<Rightarrow> message" where
  "user_message s = \<lparr>msg_role = User, msg_content = s, msg_calls = [], msg_call_id = None\<rparr>"

definition tool_result :: "string \<Rightarrow> string \<Rightarrow> message" where
  "tool_result i s = \<lparr>msg_role = Tool, msg_content = s, msg_calls = [], msg_call_id = Some i\<rparr>"

section \<open>Tools\<close>

datatype host_kind = Core | Sidecar

datatype effect = NoEffect | Write | Spend | Sign

datatype trust = Trusted | Untrusted

record annotations =
  ann_read_only :: bool
  ann_destructive :: bool
  ann_idempotent :: bool
  ann_open_world :: bool
  ann_effect :: "effect option"
  ann_trust :: "trust option"

definition is_effectful :: "annotations \<Rightarrow> bool" where
  "is_effectful a \<longleftrightarrow> ann_effect a \<noteq> Some NoEffect"

definition output_untrusted :: "annotations \<Rightarrow> bool" where
  "output_untrusted a \<longleftrightarrow> ann_trust a \<noteq> Some Trusted"

record tool_spec =
  spec_name :: string
  spec_description :: string
  spec_parameters :: string
  spec_host :: host_kind
  spec_annotations :: annotations

datatype tool_outcome =
    OutOk string | OutUntrusted string | OutVouched string | OutDenied string | OutError string

fun to_content :: "tool_outcome \<Rightarrow> string" where
  "to_content (OutOk s) = s"
| "to_content (OutUntrusted s) = s"
| "to_content (OutVouched s) = s"
| "to_content (OutDenied why) = ''declined: '' @ why @ ''. Nothing was done.''"
| "to_content (OutError e) = ''tool error: '' @ e"

datatype status = StOk | StDenied | StError

fun out_status :: "tool_outcome \<Rightarrow> status" where
  "out_status (OutDenied _) = StDenied"
| "out_status (OutError _) = StError"
| "out_status _ = StOk"

section \<open>Taint\<close>

record taint_record =
  tr_source :: string
  tr_reason :: string

text \<open>The shared state; \<open>t_poisoned\<close> says that a holder of its lock panicked.\<close>

record taint =
  t_record :: "taint_record option"
  t_sources :: "string set"
  t_poisoned :: bool

definition untainted :: taint where
  "untainted = \<lparr>t_record = None, t_sources = {}, t_poisoned = False\<rparr>"

definition is_tainted :: "taint \<Rightarrow> bool" where
  "is_tainted t \<longleftrightarrow> (if t_poisoned t then True else t_record t \<noteq> None)"

definition taint_record_of :: "taint \<Rightarrow> taint_record option" where
  "taint_record_of t =
     (if t_poisoned t
      then Some (case t_record t of
          Some r \<Rightarrow> r
        | None \<Rightarrow> \<lparr>tr_source = ''an unknown source'',
                   tr_reason = ''the session'' @ [CHR 0x27] @ ''s taint state could not be read''\<rparr>)
      else t_record t)"

definition taint_sources :: "taint \<Rightarrow> string set option" where
  "taint_sources t = (if t_poisoned t then None else Some (t_sources t))"

definition taint_by :: "string \<Rightarrow> string \<Rightarrow> taint \<Rightarrow> bool \<times> taint" where
  "taint_by source reason t =
     (let t1 = t\<lparr>t_sources := insert source (t_sources t)\<rparr>
      in if t_record t \<noteq> None then (False, t1)
         else (True, t1\<lparr>t_record := Some \<lparr>tr_source = source, tr_reason = reason\<rparr>\<rparr>))"

text \<open>A member's decision to clear carries a note that is not blank.\<close>

definition member_clear :: "string \<Rightarrow> string option" where
  "member_clear note = (if trim note = [] then None else Some note)"

definition clear_by_member :: "string \<Rightarrow> taint \<Rightarrow> taint_record option \<times> taint" where
  "clear_by_member ack t = (t_record t, t\<lparr>t_sources := {}, t_record := None\<rparr>)"

section \<open>The model\<close>

record completion_request =
  rq_model :: string
  rq_messages :: "message list"
  rq_tools :: "tool_spec list"
  rq_max_tokens :: u32

record assistant_turn =
  at_content :: string
  at_calls :: "tool_call list"

record token_usage =
  us_prompt :: u64
  us_completion :: u64
  us_generation_ms :: "u64 option"
  us_prompt_ms :: "u64 option"

datatype llm_error = Transport string | Provider string | BadResponse string

fun show_llm_error :: "llm_error \<Rightarrow> string" where
  "show_llm_error (Transport m) = ''model transport error: '' @ m"
| "show_llm_error (Provider m) = ''model provider error: '' @ m"
| "show_llm_error (BadResponse m) = ''model returned an unusable response: '' @ m"

section \<open>Events and outcomes\<close>

datatype event =
    StepStart nat
  | ToolCallEvent nat tool_call "host_kind option" bool "string option"
  | ToolResultEvent nat string status string
  | StepEnd nat
  | TaintedEvent nat string string
  | AssistantDelta nat string
  | Final string
  | Usage nat token_usage
  | Plan "string list"
  | VerifierEvent string string bool string
  | SelfReview string nat string
  | ErrorEvent string
  | Done string

datatype run_outcome = Answered string | Stopped | StepLimit | Failed string

fun outcome_label :: "run_outcome \<Rightarrow> string" where
  "outcome_label (Answered _) = ''answered''"
| "outcome_label Stopped = ''stopped''"
| "outcome_label StepLimit = ''step_limit''"
| "outcome_label (Failed _) = ''failed''"

section \<open>Interfaces\<close>

text \<open>One step attempt, as the self-reviewer of a workflow sees it.\<close>

record review_request =
  rv_step :: string
  rv_attempt :: nat
  rv_instruction :: string
  rv_answer :: string

datatype act =
    Emit event
  | AskModel completion_request
  | AskReviewer review_request
  | BeforeAnnounce tool_call
  | Execute host_kind tool_call
  | ExecuteExplicit host_kind tool_call string
  | ReadStop

type_synonym trace = "act list"

record host =
  honors_explicit :: bool
  host_execute :: "trace \<Rightarrow> tool_call \<Rightarrow> tool_outcome"
  host_explicit :: "trace \<Rightarrow> tool_call \<Rightarrow> string \<Rightarrow> tool_outcome"

text \<open>The registry: the tools on offer, the host of each kind, the call policies.\<close>

record registry =
  rg_specs :: "tool_spec list"
  rg_hosts :: "host_kind \<Rightarrow> host option"
  rg_policies :: "(trace \<Rightarrow> tool_call \<Rightarrow> string option) list"

definition find_spec :: "registry \<Rightarrow> string \<Rightarrow> tool_spec option" where
  "find_spec g n = find (\<lambda>s. spec_name s = n) (rg_specs g)"

fun first_decline :: "(trace \<Rightarrow> tool_call \<Rightarrow> string option) list \<Rightarrow> trace \<Rightarrow> tool_call \<Rightarrow> string option" where
  "first_decline [] tr c = None"
| "first_decline (p # ps) tr c = (case p tr c of Some why \<Rightarrow> Some why | None \<Rightarrow> first_decline ps tr c)"

definition declined :: "registry \<Rightarrow> trace \<Rightarrow> tool_call \<Rightarrow> string option" where
  "declined g = first_decline (rg_policies g)"

text \<open>
  What the loop is handed: a reply is the pieces of text streamed, each with whether the coalescer
  has waited long enough when it comes, and the turn or the error; \<open>world_taint\<close> is what the other
  holders of the taint state did to it since the loop last touched it.
\<close>

record world =
  world_json :: "string \<Rightarrow> bool"
  world_model :: "trace \<Rightarrow> completion_request \<Rightarrow>
    (string \<times> bool) list \<times> (llm_error + assistant_turn \<times> token_usage option)"
  world_stopped :: "trace \<Rightarrow> bool"
  world_taint :: "trace \<Rightarrow> taint \<Rightarrow> taint"

record loop_config =
  lc_model :: string
  lc_system_prompt :: string
  lc_max_steps :: nat
  lc_max_calls :: nat
  lc_max_tokens :: u32

end
