(* ===== verification/Context.thy ===== *)
theory Context
  imports Tools
begin

text \<open>
  What goes into one request of the reasoning loop (\<open>agent-loop/src/lib.rs\<close>): the system prompt of a
  turn, the choice of tools (pinned, in use, retrieved), and the compaction of the transcript to the
  model's context window. Token counters and tool selectors are parameters; the keyword selector and
  the character counter are modelled.
\<close>

section \<open>Keyword retrieval\<close>

text \<open>
  \<open>str::to_lowercase\<close>, seen through the split at everything that is not an ASCII letter or digit: only
  two other characters have ASCII in their lower case, U+212A and U+0130.
\<close>

definition lower_char :: "char \<Rightarrow> char" where
  "lower_char c = (let n = of_char c :: nat in if 65 \<le> n \<and> n \<le> 90 then char_of (n + 32) else c)"

fun lower_view :: "string \<Rightarrow> string" where
  "lower_view [] = []"
| "lower_view (a # s) =
     (if starts_with [CHR 0xE2, CHR 0x84, CHR 0xAA] (a # s) then CHR ''k'' # lower_view (drop 2 s)
      else if starts_with [CHR 0xC4, CHR 0xB0] (a # s)
        then CHR ''i'' # CHR 0xCC # CHR 0x87 # lower_view (drop 1 s)
      else lower_char a # lower_view s)"

definition is_alnum :: "char \<Rightarrow> bool" where
  "is_alnum c \<longleftrightarrow>
     (let n = of_char c :: nat in 48 \<le> n \<and> n \<le> 57 \<or> 65 \<le> n \<and> n \<le> 90 \<or> 97 \<le> n \<and> n \<le> 122)"

fun split_on :: "(char \<Rightarrow> bool) \<Rightarrow> string \<Rightarrow> string list" where
  "split_on P [] = [[]]"
| "split_on P (c # s) =
     (if P c then [] # split_on P s
      else (case split_on P s of w # ws \<Rightarrow> (c # w) # ws | [] \<Rightarrow> [[c]]))"

definition STOPWORDS :: "string list" where
  "STOPWORDS =
    [''a'', ''an'', ''the'', ''and'', ''or'', ''to'', ''of'', ''in'', ''on'', ''for'', ''my'', ''me'', ''i'', ''is'', ''are'',
     ''it'', ''its'', ''this'', ''that'', ''what'', ''whats'', ''how'', ''many'', ''much'', ''do'', ''does'', ''can'',
     ''you'', ''please'', ''with'', ''from'', ''at'', ''by'', ''be'']"

definition singular :: "string \<Rightarrow> string" where
  "singular w = (if 3 < length w \<and> ends_with ''s'' w \<and> \<not> ends_with ''ss'' w then butlast w else w)"

definition words :: "string \<Rightarrow> string list" where
  "words s =
     map singular
       (filter (\<lambda>w. 2 \<le> length w \<and> w \<notin> set STOPWORDS) (split_on (\<lambda>c. \<not> is_alnum c) (lower_view s)))"

definition keyword_scores :: "string \<Rightarrow> tool_spec list \<Rightarrow> nat list" where
  "keyword_scores query specs =
     (let q = words query
      in map (\<lambda>s. sum_list (map (\<lambda>w. 3 * length (filter (\<lambda>n. n = w) (words (spec_name s))) +
                                     length (filter (\<lambda>d. d = w) (words (spec_description s)))) q)) specs)"

definition keyword_select :: "string \<Rightarrow> tool_spec list \<Rightarrow> nat \<Rightarrow> tool_spec list" where
  "keyword_select query specs k =
     (let scored = zip [0..<length specs] (keyword_scores query specs)
      in if list_all (\<lambda>(_, sc). sc = 0) scored then take k specs
         else map (\<lambda>(i, _). specs ! i)
                (take k (filter (\<lambda>(_, sc). 0 < sc) (sort_key (\<lambda>(_, sc). - int sc) scored))))"

section \<open>The tools of a request\<close>

text \<open>The names of the tools called so far, the most recent first, that are among \<open>rest\<close>.\<close>

definition called_names :: "message list \<Rightarrow> string list" where
  "called_names history = concat (map (\<lambda>m. rev (map call_name (msg_calls m))) (rev history))"

fun in_use :: "tool_spec list \<Rightarrow> string list \<Rightarrow> string list \<Rightarrow> string list" where
  "in_use rest acc [] = acc"
| "in_use rest acc (n # ns) =
     in_use rest (if n \<notin> set acc \<and> n \<in> spec_name ` set rest then acc @ [n] else acc) ns"

fun push_in_use :: "nat option \<Rightarrow> tool_spec list \<Rightarrow> tool_spec list \<Rightarrow> string list \<Rightarrow> tool_spec list" where
  "push_in_use cap rest out [] = out"
| "push_in_use cap rest out (n # ns) =
     (if (case cap of Some c \<Rightarrow> c \<le> length out | None \<Rightarrow> False) then out
      else push_in_use cap rest
             (case find (\<lambda>s. spec_name s = n) rest of Some s \<Rightarrow> out @ [s] | None \<Rightarrow> out) ns)"

fun push_selected :: "nat option \<Rightarrow> nat \<Rightarrow> nat \<Rightarrow> tool_spec list \<Rightarrow> tool_spec list \<Rightarrow> tool_spec list" where
  "push_selected cap base room out [] = out"
| "push_selected cap base room out (s # ss) =
     (if room \<le> length out - base \<or> (case cap of Some c \<Rightarrow> c \<le> length out | None \<Rightarrow> False) then out
      else push_selected cap base room
             (if spec_name s \<notin> spec_name ` set out then out @ [s] else out) ss)"

definition take_cap :: "nat option \<Rightarrow> 'a list \<Rightarrow> 'a list" where
  "take_cap cap xs = (case cap of Some c \<Rightarrow> take c xs | None \<Rightarrow> xs)"

definition offered_tools ::
  "tool_spec list \<Rightarrow> message list \<Rightarrow> string \<Rightarrow> nat option \<Rightarrow> string list \<Rightarrow>
   (string \<Rightarrow> tool_spec list \<Rightarrow> nat \<Rightarrow> tool_spec list) \<Rightarrow> nat option \<Rightarrow> tool_spec list" where
  "offered_tools specs history user k0 pinned select most =
     (case (case k0 of Some k \<Rightarrow> Some k | None \<Rightarrow> most) of
        None \<Rightarrow> specs
      | Some k \<Rightarrow>
          (let out = take_cap most (filter (\<lambda>s. spec_name s \<in> set pinned) specs);
               rest = filter (\<lambda>s. spec_name s \<notin> set pinned) specs;
               base = length out;
               used = in_use rest [] (called_names history)
           in push_selected most base (max k (length used)) (push_in_use most rest out used)
                (select user rest k)))"

section \<open>The context budget\<close>

definition count_messages :: "(string \<Rightarrow> nat) \<Rightarrow> message list \<Rightarrow> nat" where
  "count_messages count ms =
     sum_list (map (\<lambda>m. 4 + count (msg_content m) +
       sum_list (map (\<lambda>c. count (call_name c) + count (call_args c)) (msg_calls m))) ms)"

text \<open>The number of characters of a UTF-8 string: its bytes that do not continue one.\<close>

definition char_count :: "string \<Rightarrow> nat" where
  "char_count s = length (filter (\<lambda>c. \<not> (128 \<le> (of_char c :: nat) \<and> (of_char c :: nat) < 192)) s)"

definition char_token_count :: "string \<Rightarrow> nat" where
  "char_token_count s = (char_count s + 3) div 4"

record context_budget =
  max_context_tokens :: nat
  reserve_for_output :: nat

definition elided :: "message \<Rightarrow> message" where
  "elided m = m\<lparr>msg_content :=
     ''[elided: '' @ dec (char_count (msg_content m)) @ '' characters of earlier tool output]''\<rparr>"

text \<open>The position of the last user message.\<close>

fun last_user :: "message list \<Rightarrow> nat option" where
  "last_user [] = None"
| "last_user (m # ms) =
     (case last_user ms of
        Some i \<Rightarrow> Some (Suc i)
      | None \<Rightarrow> if msg_role m = User then Some 0 else None)"

text \<open>Old tool output is elided, the oldest first, until the prompt fits: \<open>n\<close> messages are left to look at.\<close>

fun elide_from :: "(message list \<Rightarrow> bool) \<Rightarrow> nat \<Rightarrow> nat \<Rightarrow> message list \<Rightarrow> message list" where
  "elide_from fits i 0 ms = ms"
| "elide_from fits i (Suc n) ms =
     (if msg_role (ms ! i) = Tool \<and> \<not> starts_with ''[elided'' (msg_content (ms ! i))
      then (let ms' = ms[i := elided (ms ! i)]
            in if fits ms' then ms' else elide_from fits (Suc i) n ms')
      else elide_from fits (Suc i) n ms)"

fun drop_results :: "message list \<Rightarrow> message list" where
  "drop_results (s # m # ms) =
     (if ms \<noteq> [] \<and> msg_role m = Tool then drop_results (s # ms) else s # m # ms)"
| "drop_results ms = ms"

lemma length_drop_results: "length (drop_results ms) \<le> length ms"
  by (induction ms rule: drop_results.induct) auto

text \<open>Then the oldest exchanges are dropped.\<close>

function drop_oldest_until :: "(message list \<Rightarrow> bool) \<Rightarrow> message list \<Rightarrow> message list" where
  "drop_oldest_until fits ms =
     (if fits ms \<or> (case last_user ms of Some i \<Rightarrow> i | None \<Rightarrow> 0) \<le> 1 \<or> length ms \<le> 2 then ms
      else drop_oldest_until fits (drop_results (hd ms # tl (tl ms))))"
  by pat_completeness auto
termination
proof (relation "measure (\<lambda>(_, ms). length ms)")
  fix fits :: "message list \<Rightarrow> bool" and ms
  assume "\<not> (fits ms \<or> (case last_user ms of Some i \<Rightarrow> i | None \<Rightarrow> 0) \<le> 1 \<or> length ms \<le> 2)"
  then have "length (hd ms # tl (tl ms)) < length ms" by auto
  then show "((fits, drop_results (hd ms # tl (tl ms))), fits, ms) \<in> measure (\<lambda>(_, ms). length ms)"
    using length_drop_results [of "hd ms # tl (tl ms)"] by simp
qed simp

declare drop_oldest_until.simps [simp del]

definition budget_error :: "nat \<Rightarrow> string" where
  "budget_error limit =
     ''the prompt exceeds the model'' @ [CHR 0x27] @ ''s context budget ('' @ dec limit @
     '' tokens available) even after compaction''"

definition compact_to_budget ::
  "message list \<Rightarrow> context_budget \<Rightarrow> (string \<Rightarrow> nat) \<Rightarrow> string + message list" where
  "compact_to_budget ms budget count =
     (let limit = max_context_tokens budget - reserve_for_output budget;
          fits = (\<lambda>m. count_messages count m \<le> limit)
      in if fits ms then Inr ms
         else
           let was = count_messages count ms;
               upto = (case last_user ms of Some i \<Rightarrow> i | None \<Rightarrow> length ms - 1);
               out = drop_oldest_until fits (elide_from fits 0 upto ms)
           in if \<not> fits out \<or> was \<le> count_messages count out then Inl (budget_error limit) else Inr out)"

end
