(* ===== verification/Turn.thy ===== *)
theory Turn
  imports Context
begin

text \<open>
  The turn loop (\<open>run_turn_with\<close> of \<open>agent-loop/src/lib.rs\<close>): model calls, the decision on every
  proposed tool call, dispatch, taint, and the streamed text. Steps and call positions count as natural
  numbers; the state is the transcript, the session's taint and the trace.
\<close>

section \<open>State and options\<close>

record loop_state =
  ls_history :: "message list"
  ls_taint :: taint
  ls_trace :: trace

record turn_options =
  to_max_tools :: "nat option"
  to_budget :: "(context_budget \<times> (string \<Rightarrow> nat)) option"
  to_pinned :: "string list"
  to_context :: "(string \<Rightarrow> message list \<Rightarrow> string option) list"
  to_selector :: "(string \<Rightarrow> tool_spec list \<Rightarrow> nat \<Rightarrow> tool_spec list) option"
  to_max_total :: "nat option"
  to_tools_json :: "tool_spec list \<Rightarrow> string"

definition act :: "act \<Rightarrow> loop_state \<Rightarrow> loop_state" where
  "act a st = st\<lparr>ls_trace := ls_trace st @ [a]\<rparr>"

definition emit :: "event \<Rightarrow> loop_state \<Rightarrow> loop_state" where
  "emit ev = act (Emit ev)"

definition push_message :: "message \<Rightarrow> loop_state \<Rightarrow> loop_state" where
  "push_message m st = st\<lparr>ls_history := ls_history st @ [m]\<rparr>"

text \<open>The stop flag is read.\<close>

definition read_stop :: "world \<Rightarrow> loop_state \<Rightarrow> bool \<times> loop_state" where
  "read_stop w st = (world_stopped w (ls_trace st), act ReadStop st)"

definition finish :: "run_outcome \<Rightarrow> loop_state \<Rightarrow> run_outcome \<times> loop_state" where
  "finish out st = (out, emit (Done (outcome_label out)) st)"

section \<open>Streamed text\<close>

definition MAX_BYTES :: nat where "MAX_BYTES = 64"

definition flush_delta :: "nat \<Rightarrow> string \<Rightarrow> loop_state \<Rightarrow> string \<times> loop_state" where
  "flush_delta step buf st = (if buf = [] then (buf, st) else ([], emit (AssistantDelta step buf) st))"

definition push_delta :: "nat \<Rightarrow> string \<times> bool \<Rightarrow> string \<times> loop_state \<Rightarrow> string \<times> loop_state" where
  "push_delta step d s =
     (case (d, s) of ((piece, late), (buf, st)) \<Rightarrow>
        if piece = [] then (buf, st)
        else if MAX_BYTES \<le> length (buf @ piece) \<or> late then flush_delta step (buf @ piece) st
        else (buf @ piece, st))"

definition stream_deltas :: "nat \<Rightarrow> (string \<times> bool) list \<Rightarrow> loop_state \<Rightarrow> loop_state" where
  "stream_deltas step ds st =
     (case fold (push_delta step) ds ([], st) of (buf, st') \<Rightarrow> snd (flush_delta step buf st'))"

section \<open>One tool call\<close>

definition quoted :: "string \<Rightarrow> string" where
  "quoted s = [CHR 0x27] @ s @ [CHR 0x27]"

definition em_dash :: string where "em_dash = [CHR 0xE2, CHR 0x80, CHR 0x94]"

definition not_available :: "string \<Rightarrow> string" where
  "not_available n = quoted n @ '' is not available in this session''"

definition host_of :: "registry \<Rightarrow> tool_call \<Rightarrow> host option" where
  "host_of g c = Option.bind (find_spec g (call_name c)) (\<lambda>s. rg_hosts g (spec_host s))"

text \<open>Why the loop itself refuses a call, before it is announced.\<close>

definition refusal :: "world \<Rightarrow> registry \<Rightarrow> nat \<Rightarrow> nat \<Rightarrow> tool_call \<Rightarrow> string option" where
  "refusal w g cap i c =
     (if cap \<le> i
      then Some (''skipped: at most '' @ dec cap @ '' tool calls per step '' @ em_dash @
                 '' call it again next step if still needed'')
      else (case find_spec g (call_name c) of
              None \<Rightarrow> Some (''unknown tool '' @ quoted (call_name c))
            | Some _ \<Rightarrow>
                if \<not> world_json w (if trim (call_args c) = [] then ''{}'' else call_args c)
                then Some ''the arguments were not valid JSON; retry with a JSON object''
                else if host_of g c = None then Some (not_available (call_name c))
                else None))"

definition approval_reason :: "string \<Rightarrow> string" where
  "approval_reason source =
     ''this session read untrusted content (from '' @ source @ ''), so this action needs your explicit approval''"

definition cannot_ask_reason :: "string option \<Rightarrow> string" where
  "cannot_ask_reason source =
     ''this session read untrusted content'' @
     (case source of Some s \<Rightarrow> '' (from '' @ s @ '')'' | None \<Rightarrow> []) @
     '', so this action needs a member'' @ [CHR 0x27] @
     ''s explicit approval, and no member can be asked in this session (it was not opened by an app that shows approval cards, for example a headless or scheduled run)''"

text \<open>Why the call needs a member: the session is tainted and the tool has an effect.\<close>

definition hic_reason :: "registry \<Rightarrow> tool_call \<Rightarrow> bool \<Rightarrow> taint \<Rightarrow> string option" where
  "hic_reason g c admitted t =
     (case find_spec g (call_name c) of
        Some s \<Rightarrow>
          if admitted \<and> is_effectful (spec_annotations s)
          then map_option (\<lambda>r. approval_reason (tr_source r)) (taint_record_of t) else None
      | None \<Rightarrow> None)"

definition refused_hic :: "string option \<Rightarrow> host option \<Rightarrow> bool" where
  "refused_hic hic h \<longleftrightarrow> hic \<noteq> None \<and> (case h of Some h' \<Rightarrow> \<not> honors_explicit h' | None \<Rightarrow> False)"

text \<open>Whether running the tool brought untrusted content in.\<close>

definition ingests :: "tool_spec option \<Rightarrow> tool_outcome \<Rightarrow> bool" where
  "ingests spec out =
     (case out of
        OutUntrusted _ \<Rightarrow> True
      | OutVouched _ \<Rightarrow> False
      | OutDenied _ \<Rightarrow> False
      | _ \<Rightarrow> (case spec of Some s \<Rightarrow> output_untrusted (spec_annotations s) | None \<Rightarrow> False))"

text \<open>
  The decision on a call, taken before it is announced: why the loop refuses it, why a policy declines
  it, why it needs a member, and to which host it goes.
\<close>

record call_decision =
  cd_refusal :: "string option"
  cd_declined :: "string option"
  cd_hic :: "string option"
  cd_dispatch :: "(host_kind \<times> host) option"

definition decide_call :: "world \<Rightarrow> registry \<Rightarrow> loop_config \<Rightarrow> nat \<Rightarrow> tool_call \<Rightarrow> trace \<Rightarrow> taint \<Rightarrow> call_decision" where
  "decide_call w g cfg i c tr t =
     (let why = refusal w g (lc_max_calls cfg) i c;
          decl = (if why = None then declined g tr c else None);
          hic = hic_reason g c (why = None \<and> decl = None) t
      in \<lparr>cd_refusal = why, cd_declined = decl, cd_hic = hic,
          cd_dispatch = (case (why, find_spec g (call_name c), host_of g c) of
              (None, Some s, Some h) \<Rightarrow>
                if \<not> refused_hic hic (host_of g c) \<and> decl = None then Some (spec_host s, h) else None
            | _ \<Rightarrow> None)\<rparr>)"

text \<open>The call is handed to its host, or answered by the loop; the flag says that it ran.\<close>

definition perform ::
  "registry \<Rightarrow> tool_call \<Rightarrow> call_decision \<Rightarrow> taint \<Rightarrow> loop_state \<Rightarrow> tool_outcome \<times> bool \<times> loop_state" where
  "perform g c cd t st =
     (case cd_dispatch cd of
        Some (k, h) \<Rightarrow>
          (case cd_hic cd of
             Some reason \<Rightarrow> (host_explicit h (ls_trace st) c reason, True, act (ExecuteExplicit k c reason) st)
           | None \<Rightarrow> (host_execute h (ls_trace st) c, True, act (Execute k c) st))
      | None \<Rightarrow>
          ((case cd_refusal cd of
              Some e \<Rightarrow> OutError e
            | None \<Rightarrow>
                (case cd_declined cd of
                   Some d \<Rightarrow> OutDenied d
                 | None \<Rightarrow>
                     if refused_hic (cd_hic cd) (host_of g c)
                     then OutDenied (cannot_ask_reason (map_option tr_source (taint_record_of t)))
                     else OutError (not_available (call_name c)))), False, st))"

definition taint_after ::
  "nat \<Rightarrow> tool_spec option \<Rightarrow> tool_call \<Rightarrow> bool \<Rightarrow> tool_outcome \<Rightarrow> loop_state \<Rightarrow> loop_state" where
  "taint_after step spec c did_run out st =
     (if did_run \<and> ingests spec out
      then (let reason = call_name c @ '' returned untrusted content'';
                (flipped, t) = taint_by (call_name c) reason (ls_taint st);
                st1 = st\<lparr>ls_taint := t\<rparr>
            in if flipped then emit (TaintedEvent step (call_name c) reason) st1 else st1)
      else st)"

definition others_taint :: "world \<Rightarrow> loop_state \<Rightarrow> loop_state" where
  "others_taint w st = st\<lparr>ls_taint := world_taint w (ls_trace st) (ls_taint st)\<rparr>"

definition announce :: "nat \<Rightarrow> tool_call \<Rightarrow> call_decision \<Rightarrow> loop_state \<Rightarrow> loop_state" where
  "announce step c cd st =
     emit (ToolCallEvent step c (map_option fst (cd_dispatch cd)) (cd_hic cd \<noteq> None) (cd_hic cd))
       (if cd_dispatch cd = None then st else act (BeforeAnnounce c) st)"

definition one_call :: "world \<Rightarrow> registry \<Rightarrow> loop_config \<Rightarrow> nat \<Rightarrow> nat \<Rightarrow> tool_call \<Rightarrow> loop_state \<Rightarrow> loop_state" where
  "one_call w g cfg step i c st0 =
     (let st1 = others_taint w st0;
          cd = decide_call w g cfg i c (ls_trace st0) (ls_taint st1);
          st2 = announce step c cd st1;
          (out, did_run, st3) = perform g c cd (world_taint w (ls_trace st2) (ls_taint st2)) st2;
          st4 = emit (ToolResultEvent step (call_id c) (out_status out) (to_content out)) (others_taint w st3);
          st5 = taint_after step (find_spec g (call_name c)) c did_run out st4
      in push_message (tool_result (call_id c) (to_content out)) st5)"

fun run_calls ::
  "world \<Rightarrow> registry \<Rightarrow> loop_config \<Rightarrow> nat \<Rightarrow> nat \<Rightarrow> tool_call list \<Rightarrow> loop_state \<Rightarrow> bool \<times> loop_state" where
  "run_calls w g cfg step i [] st = (True, st)"
| "run_calls w g cfg step i (c # cs) st =
     (case read_stop w st of (stopped, st1) \<Rightarrow>
        if stopped then (False, st1)
        else run_calls w g cfg step (Suc i) cs (one_call w g cfg step i c st1))"

section \<open>One step and the turn\<close>

definition turn_system_prompt :: "loop_config \<Rightarrow> turn_options \<Rightarrow> string \<Rightarrow> message list \<Rightarrow> string" where
  "turn_system_prompt cfg opts user history =
     foldl (\<lambda>out ctx. case ctx user history of
         Some s \<Rightarrow> if s = [] then out else out @ [CHR 10, CHR 10] @ s
       | None \<Rightarrow> out) (lc_system_prompt cfg) (to_context opts)"

definition offer :: "registry \<Rightarrow> turn_options \<Rightarrow> string \<Rightarrow> message list \<Rightarrow> tool_spec list" where
  "offer g opts user history =
     offered_tools (rg_specs g) history user (to_max_tools opts) (to_pinned opts)
       (case to_selector opts of Some s \<Rightarrow> s | None \<Rightarrow> keyword_select) (to_max_total opts)"

definition request_messages ::
  "turn_options \<Rightarrow> tool_spec list \<Rightarrow> message list \<Rightarrow> string + message list" where
  "request_messages opts offered ms =
     (case to_budget opts of
        None \<Rightarrow> Inr ms
      | Some (budget, count) \<Rightarrow>
          compact_to_budget ms
            \<lparr>max_context_tokens = max_context_tokens budget - count (to_tools_json opts offered),
             reserve_for_output = reserve_for_output budget\<rparr> count)"

definition emit_usage :: "nat \<Rightarrow> token_usage option \<Rightarrow> loop_state \<Rightarrow> loop_state" where
  "emit_usage step usage st = (case usage of Some u \<Rightarrow> emit (Usage step u) st | None \<Rightarrow> st)"

definition assistant_message :: "assistant_turn \<Rightarrow> message" where
  "assistant_message t =
     \<lparr>msg_role = Assistant, msg_content = at_content t, msg_calls = at_calls t, msg_call_id = None\<rparr>"

text \<open>One step: \<open>Inl\<close> the outcome that ends the turn, \<open>Inr\<close> when the next step follows.\<close>

definition run_step ::
  "world \<Rightarrow> registry \<Rightarrow> loop_config \<Rightarrow> turn_options \<Rightarrow> string \<Rightarrow> string \<Rightarrow> nat \<Rightarrow> loop_state \<Rightarrow>
   run_outcome option \<times> loop_state" where
  "run_step w g cfg opts prompt user step st0 =
     (case read_stop w st0 of (stopped, st1) \<Rightarrow>
        if stopped then (Some Stopped, st1)
        else
          let st2 = emit (StepStart step) st1;
              offered = offer g opts user (ls_history st2)
          in case request_messages opts offered (system_message prompt # ls_history st2) of
               Inl e \<Rightarrow> (Some (Failed e), emit (ErrorEvent e) st2)
             | Inr ms \<Rightarrow>
                 (let rq = \<lparr>rq_model = lc_model cfg, rq_messages = ms, rq_tools = offered,
                            rq_max_tokens = lc_max_tokens cfg\<rparr>;
                      (ds, reply) = world_model w (ls_trace st2) rq;
                      st3 = stream_deltas step ds (act (AskModel rq) st2)
                  in case reply of
                       Inl e \<Rightarrow> (Some (Failed (show_llm_error e)), emit (ErrorEvent (show_llm_error e)) st3)
                     | Inr (t, usage) \<Rightarrow>
                         (let st5 = push_message (assistant_message t) (emit_usage step usage st3)
                          in if at_calls t = []
                             then (Some (Answered (at_content t)), emit (Final (at_content t)) st5)
                             else (case run_calls w g cfg step 0 (at_calls t) st5 of
                                     (True, st6) \<Rightarrow> (None, emit (StepEnd step) st6)
                                   | (False, st6) \<Rightarrow> (Some Stopped, st6)))))"

text \<open>\<open>n\<close> steps are left.\<close>

fun run_steps ::
  "world \<Rightarrow> registry \<Rightarrow> loop_config \<Rightarrow> turn_options \<Rightarrow> string \<Rightarrow> string \<Rightarrow> nat \<Rightarrow> nat \<Rightarrow> loop_state \<Rightarrow>
   run_outcome \<times> loop_state" where
  "run_steps w g cfg opts prompt user step 0 st =
     finish StepLimit (emit (ErrorEvent (''step budget of '' @ dec (lc_max_steps cfg) @ '' exhausted'')) st)"
| "run_steps w g cfg opts prompt user step (Suc n) st =
     (case run_step w g cfg opts prompt user step st of
        (Some out, st1) \<Rightarrow> finish out st1
      | (None, st1) \<Rightarrow> run_steps w g cfg opts prompt user (Suc step) n st1)"

definition run_turn_with ::
  "world \<Rightarrow> registry \<Rightarrow> loop_config \<Rightarrow> turn_options \<Rightarrow> string \<Rightarrow> loop_state \<Rightarrow> run_outcome \<times> loop_state" where
  "run_turn_with w g cfg opts user st =
     run_steps w g cfg opts (turn_system_prompt cfg opts user (ls_history st)) user 1 (lc_max_steps cfg)
       (push_message (user_message user) st)"

definition default_options :: turn_options where
  "default_options = \<lparr>to_max_tools = None, to_budget = None, to_pinned = [], to_context = [],
     to_selector = None, to_max_total = None, to_tools_json = (\<lambda>_. [])\<rparr>"

definition run_turn ::
  "world \<Rightarrow> registry \<Rightarrow> loop_config \<Rightarrow> string \<Rightarrow> loop_state \<Rightarrow> run_outcome \<times> loop_state" where
  "run_turn w g cfg = run_turn_with w g cfg default_options"

end
