(* ===== verification/Workflow.thy ===== *)
theory Workflow
  imports Turn
begin

text \<open>
  Workflows judged by verifiers (\<open>agent-loop/src/lib.rs\<close>): the tool records of an attempt, the
  verifiers, the self-review recorded as an opinion, and \<open>run_workflow_reviewed\<close>. A verifier, a probe
  and a reviewer answer with a function of the trace. The verifiers that need Unicode case folding or
  a JSON pointer (\<open>AnswerContains\<close>, \<open>JsonFieldEquals\<close>) are instances left to the caller.
\<close>

section \<open>Records and verifiers\<close>

record tool_record =
  rec_name :: string
  rec_args :: string
  rec_content :: string
  rec_status :: status

record verify_context =
  vc_step :: string
  vc_answer :: string
  vc_tools :: "tool_record list"

datatype verdict = Pass | Fail string

record verifier =
  vf_name :: string
  vf_verify :: "trace \<Rightarrow> verify_context \<Rightarrow> verdict"

definition tool_succeeded :: "string \<Rightarrow> verifier" where
  "tool_succeeded n =
     \<lparr>vf_name = n @ '' succeeded'',
      vf_verify = (\<lambda>_ ctx.
        if list_ex (\<lambda>t. rec_name t = n \<and> rec_status t = StOk) (vc_tools ctx) then Pass
        else if list_ex (\<lambda>t. rec_name t = n) (vc_tools ctx)
          then Fail (n @ '' was called but did not succeed'')
        else Fail (n @ '' was never called''))\<rparr>"

definition tool_not_called :: "string \<Rightarrow> verifier" where
  "tool_not_called n =
     \<lparr>vf_name = n @ '' not called'',
      vf_verify = (\<lambda>_ ctx.
        if list_ex (\<lambda>t. rec_name t = n) (vc_tools ctx)
        then Fail (n @ '' must not be called in this step'') else Pass)\<rparr>"

definition HTTP_VERIFIER_MAX_TIMEOUT :: nat where "HTTP_VERIFIER_MAX_TIMEOUT = 10000"
definition HTTP_VERIFIER_DEFAULT_TIMEOUT :: nat where "HTTP_VERIFIER_DEFAULT_TIMEOUT = 5000"

record http_check =
  hc_url :: string
  hc_status :: nat
  hc_timeout :: nat

definition http_check_new :: "string \<Rightarrow> nat \<Rightarrow> http_check" where
  "http_check_new url s = \<lparr>hc_url = url, hc_status = s, hc_timeout = HTTP_VERIFIER_DEFAULT_TIMEOUT\<rparr>"

definition with_timeout :: "nat \<Rightarrow> http_check \<Rightarrow> http_check" where
  "with_timeout ms c = c\<lparr>hc_timeout := min ms HTTP_VERIFIER_MAX_TIMEOUT\<rparr>"

definition http_status_is :: "(trace \<Rightarrow> string \<Rightarrow> nat \<Rightarrow> string + nat) \<Rightarrow> http_check \<Rightarrow> verifier" where
  "http_status_is probe c =
     \<lparr>vf_name = ''GET '' @ hc_url c @ '' is '' @ dec (hc_status c),
      vf_verify = (\<lambda>tr _.
        case probe tr (hc_url c) (hc_timeout c) of
          Inr got \<Rightarrow>
            if got = hc_status c then Pass
            else Fail (''GET '' @ hc_url c @ '' answered '' @ dec got @ '', expected '' @ dec (hc_status c))
        | Inl why \<Rightarrow> Fail (''GET '' @ hc_url c @ '' could not be checked: '' @ why))\<rparr>"

definition sha256_equals :: "(trace \<Rightarrow> string \<Rightarrow> string + string) \<Rightarrow> string \<Rightarrow> string \<Rightarrow> verifier" where
  "sha256_equals digest path hex =
     (let want = map lower_char hex
      in \<lparr>vf_name = ''sha256 of '' @ path @ '' is '' @ want,
          vf_verify = (\<lambda>tr _.
            case digest tr path of
              Inr got \<Rightarrow>
                if map lower_char got = map lower_char want then Pass
                else Fail (''the sha256 of '' @ path @ '' is '' @ map lower_char got @
                           '', which does not match '' @ want)
            | Inl why \<Rightarrow> Fail (path @ '' could not be hashed: '' @ why))\<rparr>)"

text \<open>The calls of the attempt by their id, and the records of the results.\<close>

definition status_of :: "string \<Rightarrow> status" where
  "status_of content =
     (if starts_with ''declined:'' content then StDenied
      else if starts_with ''tool error:'' content then StError else StOk)"

definition note_calls ::
  "tool_call list \<Rightarrow> (string \<Rightarrow> (string \<times> string) option) \<Rightarrow> string \<Rightarrow> (string \<times> string) option" where
  "note_calls cs calls = fold (\<lambda>c m. m(call_id c \<mapsto> (call_name c, call_args c))) cs calls"

fun records_from ::
  "(string \<Rightarrow> (string \<times> string) option) \<Rightarrow> message list \<Rightarrow> tool_record list" where
  "records_from calls [] = []"
| "records_from calls (m # ms) =
     (let calls' = note_calls (msg_calls m) calls
      in (if msg_role m = Tool
          then (case Option.bind (msg_call_id m) calls' of
                  Some (n, a) \<Rightarrow>
                    [\<lparr>rec_name = n, rec_args = a, rec_content = msg_content m, rec_status = status_of (msg_content m)\<rparr>]
                | None \<Rightarrow> [])
          else []) @ records_from calls' ms)"

definition records_since :: "message list \<Rightarrow> tool_record list" where
  "records_since history = records_from Map.empty history"

section \<open>The opinion\<close>

definition SELF_REVIEW_MAX_CHARS :: nat where "SELF_REVIEW_MAX_CHARS = 600"

fun take_chars :: "nat \<Rightarrow> string \<Rightarrow> string" where
  "take_chars n [] = []"
| "take_chars n (c # s) =
     (if 128 \<le> (of_char c :: nat) \<and> (of_char c :: nat) < 192 then c # take_chars n s
      else case n of 0 \<Rightarrow> [] | Suc k \<Rightarrow> c # take_chars k s)"

definition bounded_opinion :: "string \<Rightarrow> string" where
  "bounded_opinion text =
     (let t = trim text
      in if char_count t \<le> SELF_REVIEW_MAX_CHARS then t
         else take_chars (SELF_REVIEW_MAX_CHARS - 1) t @ [CHR 0xE2, CHR 0x80, CHR 0xA6])"

type_synonym reviewer = "trace \<Rightarrow> review_request \<Rightarrow> message list \<Rightarrow> string + string"

text \<open>
  The session's own model as reviewer: one model call, no tools, and the transcript is only read.
  The review itself is an act of the trace, \<open>AskReviewer\<close>, made in \<open>review_attempt\<close>.
\<close>

definition review_prompt :: "review_request \<Rightarrow> string" where
  "review_prompt rq =
     ''Before any check runs, give a short self-assessment of your last answer to step '' @ [CHR 0x22] @ rv_step rq @
     [CHR 0x22] @ '' (attempt '' @ dec (rv_attempt rq) @ ''). Start with PASS or FAIL, then one or two sentences. '' @
     ''This is recorded as your opinion only; it does not decide whether the step passed.'' @ [CHR 10, CHR 10] @
     ''Step: '' @ rv_instruction rq @ [CHR 10] @ ''Your answer: '' @ rv_answer rq"

definition llm_self_reviewer ::
  "(trace \<Rightarrow> completion_request \<Rightarrow> llm_error + assistant_turn) \<Rightarrow> string \<Rightarrow> u32 \<Rightarrow> reviewer" where
  "llm_self_reviewer complete model max_tokens tr rq history =
     (case complete tr \<lparr>rq_model = model, rq_messages = history @ [user_message (review_prompt rq)], rq_tools = [],
                         rq_max_tokens = max_tokens\<rparr> of
        Inl e \<Rightarrow> Inl (show_llm_error e)
      | Inr t \<Rightarrow> Inr (at_content t))"

section \<open>Workflows\<close>

record wf_step =
  ws_id :: string
  ws_instruction :: string
  ws_verifiers :: "verifier list"
  ws_max_attempts :: nat

record workflow =
  wf_id :: string
  wf_steps :: "wf_step list"

datatype workflow_error = NoSteps string | NoVerifier string | BadAttempts string

fun check_steps :: "wf_step list \<Rightarrow> workflow_error + unit" where
  "check_steps [] = Inr ()"
| "check_steps (s # ss) =
     (if ws_verifiers s = [] then Inl (NoVerifier (ws_id s))
      else if \<not> (1 \<le> ws_max_attempts s \<and> ws_max_attempts s \<le> 5) then Inl (BadAttempts (ws_id s))
      else check_steps ss)"

definition workflow_new :: "string \<Rightarrow> wf_step list \<Rightarrow> workflow_error + workflow" where
  "workflow_new i ss =
     (if ss = [] then Inl (NoSteps i)
      else bind_result (check_steps ss) (\<lambda>_. Inr \<lparr>wf_id = i, wf_steps = ss\<rparr>))"

datatype workflow_outcome = Succeeded "string list" | WfFailed string string | WfStopped

text \<open>\<open>xs.join(sep)\<close>.\<close>

fun join :: "string \<Rightarrow> string list \<Rightarrow> string" where
  "join sep [] = []"
| "join sep [x] = x"
| "join sep (x # y # ys) = x @ sep @ join sep (y # ys)"

definition attempt_prompt :: "wf_step \<Rightarrow> string list \<Rightarrow> string" where
  "attempt_prompt s feedback =
     (if feedback = [] then ws_instruction s
      else ws_instruction s @ [CHR 10, CHR 10] @ ''The previous attempt did not pass these checks:'' @ [CHR 10] @
           join [CHR 10] (map (\<lambda>f. ''- '' @ f) feedback) @ [CHR 10] @ ''Fix that, then answer again.'')"

text \<open>The opinion is asked for before the verifiers judge, unless the session was stopped.\<close>

definition review_attempt ::
  "world \<Rightarrow> reviewer option \<Rightarrow> wf_step \<Rightarrow> nat \<Rightarrow> string \<Rightarrow> loop_state \<Rightarrow> loop_state" where
  "review_attempt w rw s attempt answer st =
     (case rw of
        None \<Rightarrow> st
      | Some r \<Rightarrow>
          (case read_stop w st of (stopped, st1) \<Rightarrow>
             if stopped then st1
             else
               (let rq = \<lparr>rv_step = ws_id s, rv_attempt = attempt,
                          rv_instruction = ws_instruction s, rv_answer = answer\<rparr>
                in emit (SelfReview (ws_id s) attempt
                      (bounded_opinion
                         (case r (ls_trace st1) rq (ls_history st1) of
                            Inr t \<Rightarrow> t
                          | Inl why \<Rightarrow> ''no opinion: '' @ why))) (act (AskReviewer rq) st1))))"

fun judge :: "verifier list \<Rightarrow> verify_context \<Rightarrow> loop_state \<Rightarrow> string list \<times> loop_state" where
  "judge [] ctx st = ([], st)"
| "judge (v # vs) ctx st =
     (let verdict = vf_verify v (ls_trace st) ctx;
          ok = (verdict = Pass);
          detail = (case verdict of Pass \<Rightarrow> [] | Fail why \<Rightarrow> why);
          (feedback, st') = judge vs ctx (emit (VerifierEvent (vc_step ctx) (vf_name v) ok detail) st)
      in ((if ok then [] else [vf_name v @ '': '' @ detail]) @ feedback, st'))"

datatype attempt_result = AttemptStopped | AttemptPassed string | AttemptsOut "string list"

text \<open>\<open>n\<close> attempts are left, the next is number \<open>k\<close>.\<close>

fun run_attempts ::
  "world \<Rightarrow> registry \<Rightarrow> loop_config \<Rightarrow> turn_options \<Rightarrow> reviewer option \<Rightarrow> wf_step \<Rightarrow> nat \<Rightarrow> nat \<Rightarrow> string list \<Rightarrow>
   loop_state \<Rightarrow> attempt_result \<times> loop_state" where
  "run_attempts w g cfg opts rw s k 0 feedback st = (AttemptsOut feedback, st)"
| "run_attempts w g cfg opts rw s k (Suc n) feedback st =
     (case read_stop w st of (stopped, st1) \<Rightarrow>
        if stopped then (AttemptStopped, st1)
        else
          (case run_turn_with w g cfg opts (attempt_prompt s feedback) st1 of
             (Stopped, st2) \<Rightarrow> (AttemptStopped, st2)
           | (StepLimit, st2) \<Rightarrow>
               run_attempts w g cfg opts rw s (Suc k) n [''the step ran out of tool steps before finishing''] st2
           | (Failed m, st2) \<Rightarrow>
               run_attempts w g cfg opts rw s (Suc k) n [''the attempt failed: '' @ m] st2
           | (Answered a, st2) \<Rightarrow>
               (let st3 = review_attempt w rw s k a st2;
                    recs = records_since (drop (length (ls_history st1)) (ls_history st3));
                    (feedback', st4) =
                      judge (ws_verifiers s) \<lparr>vc_step = ws_id s, vc_answer = a, vc_tools = recs\<rparr> st3
                in if feedback' = [] then (AttemptPassed a, st4)
                   else run_attempts w g cfg opts rw s (Suc k) n feedback' st4)))"

fun run_wf_steps ::
  "world \<Rightarrow> registry \<Rightarrow> loop_config \<Rightarrow> turn_options \<Rightarrow> reviewer option \<Rightarrow> string list \<Rightarrow> wf_step list \<Rightarrow>
   loop_state \<Rightarrow> workflow_outcome \<times> loop_state" where
  "run_wf_steps w g cfg opts rw answers [] st = (Succeeded answers, st)"
| "run_wf_steps w g cfg opts rw answers (s # ss) st =
     (case run_attempts w g cfg opts rw s 1 (ws_max_attempts s) [] st of
        (AttemptStopped, st1) \<Rightarrow> (WfStopped, st1)
      | (AttemptsOut feedback, st1) \<Rightarrow> (WfFailed (ws_id s) (join ''; '' feedback), st1)
      | (AttemptPassed a, st1) \<Rightarrow> run_wf_steps w g cfg opts rw (answers @ [a]) ss st1)"

definition run_workflow_reviewed ::
  "world \<Rightarrow> registry \<Rightarrow> loop_config \<Rightarrow> turn_options \<Rightarrow> reviewer option \<Rightarrow> workflow \<Rightarrow> loop_state \<Rightarrow>
   workflow_outcome \<times> loop_state" where
  "run_workflow_reviewed w g cfg opts rw wk st =
     run_wf_steps w g cfg opts rw [] (wf_steps wk) (emit (Plan (map ws_id (wf_steps wk))) st)"

definition run_workflow ::
  "world \<Rightarrow> registry \<Rightarrow> loop_config \<Rightarrow> turn_options \<Rightarrow> workflow \<Rightarrow> loop_state \<Rightarrow> workflow_outcome \<times> loop_state" where
  "run_workflow w g cfg opts wk st = run_workflow_reviewed w g cfg opts None wk st"

end
