(* ===== verification/TurnOrder.thy ===== *)
theory TurnOrder
  imports Turn
begin

text \<open>
  How the turn loop extends its trace: a locale for preorders on states that every primitive of the
  loop respects (a turn then respects it too), the shape of what one tool call adds to the trace, and
  the two preorders the safety properties rest on.
\<close>

section \<open>Preorders a turn respects\<close>

definition plain :: "event \<Rightarrow> bool" where
  "plain ev \<longleftrightarrow> (case ev of ToolCallEvent _ _ _ _ _ \<Rightarrow> False | _ \<Rightarrow> True)"

lemma plain_simps [simp]:
  "plain (StepStart n)" "plain (ToolResultEvent n i st c)" "plain (StepEnd n)" "plain (TaintedEvent n s v)"
  "plain (AssistantDelta n s)" "plain (Final s)" "plain (Usage n u)" "plain (Plan ss)" "plain (ErrorEvent s)"
  "plain (Done s)" "plain (VerifierEvent s v p d)" "plain (SelfReview s n v)"
  by (simp_all add: plain_def)

locale turn_order =
  fixes w :: world and g :: registry and cfg :: loop_config and ok :: "loop_state \<Rightarrow> loop_state \<Rightarrow> bool"
  assumes refl: "ok st st"
    and trans: "ok st1 st2 \<Longrightarrow> ok st2 st3 \<Longrightarrow> ok st1 st3"
    and emit: "plain ev \<Longrightarrow> ok st (emit ev st)"
    and stop: "ok st (act ReadStop st)"
    and ask: "\<not> world_stopped w (ls_trace st) \<Longrightarrow>
      ok st (act (AskModel rq) (emit (StepStart step) (act ReadStop st)))"
    and ask_review: "\<not> world_stopped w (ls_trace st) \<Longrightarrow> ok st (act (AskReviewer rv) (act ReadStop st))"
    and push: "ok st (push_message m st)"
    and call: "\<not> world_stopped w (ls_trace st) \<Longrightarrow> ok st (one_call w g cfg step i c (act ReadStop st))"
begin

lemma flush: "ok st (snd (flush_delta step buf st))"
  by (auto simp: flush_delta_def refl intro: emit)

lemma deltas: "ok st (snd (fold (push_delta step) ds (buf, st)))"
proof (induction ds arbitrary: buf st)
  case (Cons d ds)
  obtain buf1 st1 where p: "push_delta step d (buf, st) = (buf1, st1)" by (cases "push_delta step d (buf, st)")
  then have "ok st st1"
    using flush [of st step "buf @ fst d"]
    by (cases d) (auto simp: push_delta_def refl split: if_splits)
  then show ?case using Cons [of st1 buf1] p by (auto intro: trans)
qed (simp add: refl)

lemma stream: "ok st (stream_deltas step ds st)"
proof -
  obtain buf st1 where "fold (push_delta step) ds ([], st) = (buf, st1)" by (cases "fold (push_delta step) ds ([], st)")
  then show ?thesis using deltas [of st step ds "[]"] flush [of st1 step buf]
    by (auto simp: stream_deltas_def intro: trans)
qed

lemma calls: "ok st (snd (run_calls w g cfg step i cs st))"
proof (induction cs arbitrary: i st)
  case (Cons c cs)
  show ?case
    using trans [OF call [of st step i c] Cons [of "one_call w g cfg step i c (act ReadStop st)" "Suc i"]]
    by (auto simp: read_stop_def stop)
qed (simp add: refl)

lemma step: "ok st (snd (run_step w g cfg opts prompt user step st))"
proof (cases "world_stopped w (ls_trace st)")
  case True
  then show ?thesis by (simp add: run_step_def read_stop_def stop)
next
  case False
  define st2 where "st2 = emit (StepStart step) (act ReadStop st)"
  define offered where "offered = offer g opts user (ls_history st2)"
  have st2: "ok st st2" unfolding st2_def by (rule trans [OF stop emit]) simp
  note unf = run_step_def read_stop_def False st2_def [symmetric] offered_def [symmetric]
  show ?thesis
  proof (cases "request_messages opts offered (system_message prompt # ls_history st2)")
    case (Inl e)
    then show ?thesis using trans [OF st2 emit [of "ErrorEvent e"]] by (simp add: unf Let_def)
  next
    case (Inr ms)
    define rq where "rq = \<lparr>rq_model = lc_model cfg, rq_messages = ms, rq_tools = offered,
      rq_max_tokens = lc_max_tokens cfg\<rparr>"
    obtain ds reply where m: "world_model w (ls_trace st2) rq = (ds, reply)"
      by (cases "world_model w (ls_trace st2) rq")
    define st3 where "st3 = stream_deltas step ds (act (AskModel rq) st2)"
    have st3: "ok st st3" unfolding st3_def st2_def by (rule trans [OF ask [OF False] stream])
    note unf = unf Inr rq_def [symmetric] m st3_def [symmetric]
    show ?thesis
    proof (cases reply)
      case (Inl e)
      then show ?thesis using trans [OF st3 emit [of "ErrorEvent (show_llm_error e)"]] by (simp add: unf Let_def)
    next
      case (Inr r)
      obtain t usage where r: "r = (t, usage)" by (cases r)
      define st4 where "st4 = emit_usage step usage st3"
      define st5 where "st5 = push_message (assistant_message t) st4"
      have "ok st3 st4" unfolding st4_def emit_usage_def by (auto split: option.split intro: refl emit)
      then have st5: "ok st st5" unfolding st5_def by (rule trans [OF st3 trans [OF _ push]])
      note unf = unf Inr r st4_def [symmetric] st5_def [symmetric]
      show ?thesis
      proof (cases "at_calls t = []")
        case True
        then show ?thesis using trans [OF st5 emit [of "Final (at_content t)"]] by (simp add: unf Let_def)
      next
        case False
        obtain b st6 where c: "run_calls w g cfg step 0 (at_calls t) st5 = (b, st6)"
          by (cases "run_calls w g cfg step 0 (at_calls t) st5")
        have "ok st st6" using trans [OF st5 calls [of st5 step 0 "at_calls t"]] c by simp
        then show ?thesis using trans [OF _ emit [of "StepEnd step" st6]] False c
          by (cases b) (simp_all add: unf Let_def)
      qed
    qed
  qed
qed

lemma steps: "ok st (snd (run_steps w g cfg opts prompt user s n st))"
proof (induction n arbitrary: s st)
  case 0
  show ?case by (auto simp: finish_def intro: trans [OF emit emit])
next
  case (Suc n)
  obtain r st1 where r: "run_step w g cfg opts prompt user s st = (r, st1)"
    by (cases "run_step w g cfg opts prompt user s st")
  then have "ok st st1" using step [of st opts prompt user s] by simp
  then show ?case using r Suc [of st1 "Suc s"]
    by (cases r) (auto simp: finish_def intro: trans [OF _ emit] trans)
qed

lemma turn: "ok st (snd (run_turn_with w g cfg opts user st))"
  unfolding run_turn_with_def by (rule trans [OF push steps])

end

section \<open>What one call adds\<close>

lemma is_tainted_iff: "is_tainted t \<longleftrightarrow> t_poisoned t \<or> t_record t \<noteq> None"
  by (simp add: is_tainted_def)

lemma decide_call_dispatch:
  assumes "cd_dispatch (decide_call w g cfg i c tr t) = Some (k, h)"
  shows "\<exists>s. find_spec g (call_name c) = Some s \<and> spec_host s = k \<and> rg_hosts g k = Some h \<and> i < lc_max_calls cfg \<and>
    world_json w (if trim (call_args c) = [] then ''{}'' else call_args c) \<and> declined g tr c = None \<and>
    (cd_hic (decide_call w g cfg i c tr t) \<noteq> None \<longrightarrow> honors_explicit h) \<and>
    (cd_hic (decide_call w g cfg i c tr t) = None \<longrightarrow> is_tainted t \<longrightarrow> \<not> is_effectful (spec_annotations s))"
  using assms
  by (auto simp: decide_call_def Let_def refusal_def host_of_def refused_hic_def hic_reason_def is_tainted_def
      taint_record_of_def not_le split: option.splits if_splits)

definition dispatch_act :: "tool_call \<Rightarrow> host_kind \<Rightarrow> string option \<Rightarrow> act" where
  "dispatch_act c k hic = (case hic of Some r \<Rightarrow> ExecuteExplicit k c r | None \<Rightarrow> Execute k c)"

definition answer :: "host \<Rightarrow> trace \<Rightarrow> tool_call \<Rightarrow> string option \<Rightarrow> tool_outcome" where
  "answer h tr c hic = (case hic of Some r \<Rightarrow> host_explicit h tr c r | None \<Rightarrow> host_execute h tr c)"

text \<open>The two shapes of a call's part of the trace: dispatched, and answered by the loop.\<close>

definition head_acts :: "nat \<Rightarrow> tool_call \<Rightarrow> call_decision \<Rightarrow> trace" where
  "head_acts step c cd =
     (case cd_dispatch cd of
        Some (k, h) \<Rightarrow> [BeforeAnnounce c, Emit (ToolCallEvent step c (Some k) (cd_hic cd \<noteq> None) (cd_hic cd)),
                        dispatch_act c k (cd_hic cd)]
      | None \<Rightarrow> [Emit (ToolCallEvent step c None (cd_hic cd \<noteq> None) (cd_hic cd))])"

lemma one_call_shape:
  assumes "cd = decide_call w g cfg i c (ls_trace st) (world_taint w (ls_trace st) (ls_taint st))"
  obtains out tl where
    "ls_trace (one_call w g cfg step i c st) = ls_trace st @ head_acts step c cd @
       Emit (ToolResultEvent step (call_id c) (out_status out) (to_content out)) # tl"
    "tl = [] \<or> (\<exists>s r. tl = [Emit (TaintedEvent step s r)])"
    "ls_history (one_call w g cfg step i c st) = ls_history st @ [tool_result (call_id c) (to_content out)]"
    "case cd_dispatch cd of Some (k, h) \<Rightarrow> out = answer h (ls_trace st @ butlast (head_acts step c cd)) c (cd_hic cd)
     | None \<Rightarrow> (\<exists>e. out = OutError e \<or> out = OutDenied e)"
    "cd_dispatch cd \<noteq> None \<and> ingests (find_spec g (call_name c)) out \<longrightarrow> is_tainted (ls_taint (one_call w g cfg step i c st))"
    "(\<forall>tr t. is_tainted t \<longrightarrow> is_tainted (world_taint w tr t)) \<longrightarrow> is_tainted (ls_taint st) \<longrightarrow>
       is_tainted (ls_taint (one_call w g cfg step i c st))"
proof -
  define st2 where "st2 = announce step c cd (others_taint w st)"
  obtain out did st3 where p: "perform g c cd (world_taint w (ls_trace st2) (ls_taint st2)) st2 = (out, did, st3)"
    by (metis prod_cases3)
  define st4 where "st4 = emit (ToolResultEvent step (call_id c) (out_status out) (to_content out)) (others_taint w st3)"
  define st5 where "st5 = taint_after step (find_spec g (call_name c)) c did out st4"
  have one: "one_call w g cfg step i c st = push_message (tool_result (call_id c) (to_content out)) st5"
    using p assms by (simp add: one_call_def Let_def st2_def st4_def st5_def others_taint_def)
  have p3: "ls_trace st3 = ls_trace st @ head_acts step c cd" "ls_history st3 = ls_history st"
    "ls_taint st3 = ls_taint (others_taint w st)" "did \<longleftrightarrow> cd_dispatch cd \<noteq> None"
    "case cd_dispatch cd of Some (k, h) \<Rightarrow> out = answer h (ls_trace st @ butlast (head_acts step c cd)) c (cd_hic cd)
     | None \<Rightarrow> (\<exists>e. out = OutError e \<or> out = OutDenied e)"
    using p by (auto simp: perform_def st2_def announce_def head_acts_def dispatch_act_def answer_def emit_def act_def
        others_taint_def split: option.splits if_splits)
  have "ls_trace st5 = ls_trace st4 \<or> (\<exists>s r. ls_trace st5 = ls_trace st4 @ [Emit (TaintedEvent step s r)])"
    by (simp add: st5_def taint_after_def taint_by_def Let_def emit_def act_def)
  then obtain tl where tl: "ls_trace st5 = ls_trace st4 @ tl" "tl = [] \<or> (\<exists>s r. tl = [Emit (TaintedEvent step s r)])"
    by (metis append_Nil2)
  have hist: "ls_history st5 = ls_history st"
    using p3(2) by (auto simp: st5_def st4_def taint_after_def Let_def emit_def act_def others_taint_def split: prod.split)
  have keep: "is_tainted (ls_taint st4) \<Longrightarrow> is_tainted (ls_taint st5)"
    by (auto simp: st5_def taint_after_def taint_by_def is_tainted_iff Let_def emit_def act_def)
  have grow: "did \<Longrightarrow> ingests (find_spec g (call_name c)) out \<longrightarrow> is_tainted (ls_taint st5)"
    by (auto simp: st5_def taint_after_def taint_by_def is_tainted_iff Let_def emit_def act_def)
  have "ls_taint st4 = world_taint w (ls_trace st3) (ls_taint st3)"
    by (simp add: st4_def emit_def act_def others_taint_def)
  then have "(\<forall>tr t. is_tainted t \<longrightarrow> is_tainted (world_taint w tr t)) \<Longrightarrow> is_tainted (ls_taint st) \<Longrightarrow> is_tainted (ls_taint st5)"
    using keep p3(3) by (simp add: others_taint_def)
  moreover have "ls_trace st4 = ls_trace st @ head_acts step c cd @
      [Emit (ToolResultEvent step (call_id c) (out_status out) (to_content out))]"
    using p3(1) by (simp add: st4_def emit_def act_def others_taint_def)
  ultimately show thesis
    using that [of out tl] tl hist p3 grow by (simp add: one push_message_def)
qed

end
