(* ===== verification/TurnProperties.thy ===== *)
theory TurnProperties
  imports TurnOrder
begin

text \<open>
  What the turn loop guarantees: after untrusted content every effect needs a member, a host sees only
  calls that were announced for it and that nothing refuses, the work of a turn is bounded and stops
  when told to, and the model is never handed an orphaned tool result.
\<close>

section \<open>Taint\<close>

text \<open>Whether an act brought untrusted content in, and whether it is permitted after that.\<close>

definition brings :: "registry \<Rightarrow> trace \<Rightarrow> act \<Rightarrow> bool" where
  "brings g tr a =
     (case a of
        Execute k c \<Rightarrow>
          (case rg_hosts g k of
             Some h \<Rightarrow> ingests (find_spec g (call_name c)) (host_execute h tr c) | None \<Rightarrow> False)
      | ExecuteExplicit k c r \<Rightarrow>
          (case rg_hosts g k of
             Some h \<Rightarrow> ingests (find_spec g (call_name c)) (host_explicit h tr c r) | None \<Rightarrow> False)
      | _ \<Rightarrow> False)"

definition permitted :: "registry \<Rightarrow> bool \<Rightarrow> act \<Rightarrow> bool" where
  "permitted g tainted a =
     (case a of
        Execute k c \<Rightarrow>
          tainted \<longrightarrow>
            (case find_spec g (call_name c) of
               Some s \<Rightarrow> \<not> is_effectful (spec_annotations s) | None \<Rightarrow> False)
      | ExecuteExplicit k c r \<Rightarrow>
          (case rg_hosts g k of Some h \<Rightarrow> honors_explicit h | None \<Rightarrow> False)
      | _ \<Rightarrow> True)"

text \<open>A piece of the trace after \<open>tr\<close>, the session being tainted or not when it starts.\<close>

fun downgraded :: "registry \<Rightarrow> trace \<Rightarrow> bool \<Rightarrow> trace \<Rightarrow> bool" where
  "downgraded g tr tainted [] = True"
| "downgraded g tr tainted (a # as) =
     (permitted g tainted a \<and> downgraded g (tr @ [a]) (tainted \<or> brings g tr a) as)"

fun tainted_after :: "registry \<Rightarrow> trace \<Rightarrow> bool \<Rightarrow> trace \<Rightarrow> bool" where
  "tainted_after g tr tainted [] = tainted"
| "tainted_after g tr tainted (a # as) = tainted_after g (tr @ [a]) (tainted \<or> brings g tr a) as"

lemma downgraded_append:
  "downgraded g tr t (xs @ ys) \<longleftrightarrow> downgraded g tr t xs \<and> downgraded g (tr @ xs) (tainted_after g tr t xs) ys"
  by (induction xs arbitrary: tr t) auto

lemma tainted_after_append:
  "tainted_after g tr t (xs @ ys) = tainted_after g (tr @ xs) (tainted_after g tr t xs) ys"
  by (induction xs arbitrary: tr t) auto

lemma plain_acts [simp]:
  "brings g tr (Emit ev) = False" "brings g tr ReadStop = False" "brings g tr (AskModel rq) = False"
  "brings g tr (AskReviewer rv) = False" "permitted g t (AskReviewer rv)"
  "brings g tr (BeforeAnnounce c) = False"
  "permitted g t (Emit ev)" "permitted g t ReadStop" "permitted g t (AskModel rq)" "permitted g t (BeforeAnnounce c)"
  by (simp_all add: brings_def permitted_def)

text \<open>The preorder: what was added is downgraded, and taint is not forgotten.\<close>

definition keeps_taint :: "registry \<Rightarrow> loop_state \<Rightarrow> loop_state \<Rightarrow> bool" where
  "keeps_taint g st st' \<longleftrightarrow>
     (\<exists>as. ls_trace st' = ls_trace st @ as \<and>
        downgraded g (ls_trace st) (is_tainted (ls_taint st)) as \<and>
        (tainted_after g (ls_trace st) (is_tainted (ls_taint st)) as \<longrightarrow> is_tainted (ls_taint st')))"

lemma downgraded_mono: "(t \<longrightarrow> t') \<Longrightarrow> downgraded g tr t' as \<Longrightarrow> downgraded g tr t as"
proof (induction as arbitrary: tr t t')
  case (Cons a as)
  then show ?case
    using Cons.IH [of "t \<or> brings g tr a" "t' \<or> brings g tr a"] by (auto simp: permitted_def split: act.splits)
qed simp

lemma tainted_after_mono: "(t \<longrightarrow> t') \<Longrightarrow> tainted_after g tr t as \<longrightarrow> tainted_after g tr t' as"
proof (induction as arbitrary: tr t t')
  case (Cons a as)
  then show ?case using Cons.IH [of "t \<or> brings g tr a" "t' \<or> brings g tr a"] by auto
qed simp

lemma keeps_taint_trans:
  assumes "keeps_taint g st1 st2" "keeps_taint g st2 st3"
  shows "keeps_taint g st1 st3"
proof -
  obtain as where as: "ls_trace st2 = ls_trace st1 @ as" "downgraded g (ls_trace st1) (is_tainted (ls_taint st1)) as"
    "tainted_after g (ls_trace st1) (is_tainted (ls_taint st1)) as \<longrightarrow> is_tainted (ls_taint st2)"
    using assms(1) by (auto simp: keeps_taint_def)
  obtain bs where bs: "ls_trace st3 = ls_trace st2 @ bs" "downgraded g (ls_trace st2) (is_tainted (ls_taint st2)) bs"
    "tainted_after g (ls_trace st2) (is_tainted (ls_taint st2)) bs \<longrightarrow> is_tainted (ls_taint st3)"
    using assms(2) by (auto simp: keeps_taint_def)
  show ?thesis
    unfolding keeps_taint_def
    using as bs downgraded_mono [OF as(3), of g "ls_trace st2" bs] tainted_after_mono [OF as(3), of g "ls_trace st2" bs]
    by (intro exI [of _ "as @ bs"]) (auto simp: downgraded_append tainted_after_append)
qed

definition never_cleared :: "world \<Rightarrow> bool" where
  "never_cleared w \<longleftrightarrow> (\<forall>tr t. is_tainted t \<longrightarrow> is_tainted (world_taint w tr t))"

lemma one_call_keeps_taint:
  assumes "never_cleared w"
  shows "keeps_taint g st (one_call w g cfg step i c st)"
proof -
  define cd where "cd = decide_call w g cfg i c (ls_trace st) (world_taint w (ls_trace st) (ls_taint st))"
  let ?st = "one_call w g cfg step i c st"
  let ?t = "is_tainted (ls_taint st)"
  obtain out tl where o: "ls_trace ?st = ls_trace st @ head_acts step c cd @
       Emit (ToolResultEvent step (call_id c) (out_status out) (to_content out)) # tl"
    "tl = [] \<or> (\<exists>s r. tl = [Emit (TaintedEvent step s r)])"
    "ls_history ?st = ls_history st @ [tool_result (call_id c) (to_content out)]"
    "case cd_dispatch cd of Some (k, h) \<Rightarrow> out = answer h (ls_trace st @ butlast (head_acts step c cd)) c (cd_hic cd)
     | None \<Rightarrow> (\<exists>e. out = OutError e \<or> out = OutDenied e)"
    "cd_dispatch cd \<noteq> None \<and> ingests (find_spec g (call_name c)) out \<longrightarrow> is_tainted (ls_taint ?st)"
    "(\<forall>tr t. is_tainted t \<longrightarrow> is_tainted (world_taint w tr t)) \<longrightarrow> ?t \<longrightarrow> is_tainted (ls_taint ?st)"
    by (rule one_call_shape [OF cd_def, where step = step])
  have keep: "?t \<Longrightarrow> is_tainted (ls_taint ?st)" using o(6) assms by (simp add: never_cleared_def)
  have quiet: "downgraded g tr t tl" "tainted_after g tr t tl = t" for tr t
    using o(2) by auto
  show ?thesis
  proof (cases "cd_dispatch cd")
    case None
    then show ?thesis unfolding keeps_taint_def using o(1) keep quiet
      by (intro exI [of _ "head_acts step c cd @ Emit (ToolResultEvent step (call_id c) (out_status out) (to_content out)) # tl"])
        (auto simp: head_acts_def)
  next
    case (Some kh)
    obtain k h where kh: "kh = (k, h)" by (cases kh)
    obtain s where s: "find_spec g (call_name c) = Some s" "rg_hosts g k = Some h"
      "cd_hic cd \<noteq> None \<longrightarrow> honors_explicit h"
      "cd_hic cd = None \<longrightarrow> is_tainted (world_taint w (ls_trace st) (ls_taint st)) \<longrightarrow> \<not> is_effectful (spec_annotations s)"
      using decide_call_dispatch [of w g cfg i c "ls_trace st" "world_taint w (ls_trace st) (ls_taint st)" k h] Some kh
      by (auto simp: cd_def)
    let ?pre = "[BeforeAnnounce c, Emit (ToolCallEvent step c (Some k) (cd_hic cd \<noteq> None) (cd_hic cd))]"
    let ?d = "dispatch_act c k (cd_hic cd)"
    have hd: "head_acts step c cd = ?pre @ [?d]" using Some kh by (simp add: head_acts_def)
    have p: "permitted g ?t ?d"
      using s assms by (auto simp: permitted_def dispatch_act_def never_cleared_def split: option.split)
    have b: "brings g (ls_trace st @ ?pre) ?d = ingests (find_spec g (call_name c)) out"
      using o(4) Some kh hd s(2) by (auto simp: brings_def dispatch_act_def answer_def split: option.split)
    show ?thesis unfolding keeps_taint_def
      using o(1,5) keep quiet hd p b Some
      by (intro exI [of _ "head_acts step c cd @ Emit (ToolResultEvent step (call_id c) (out_status out) (to_content out)) # tl"])
        (auto simp: downgraded_append tainted_after_append)
  qed
qed

lemma keeps_taint_by:
  assumes "ls_trace st' = ls_trace st @ as" "ls_taint st' = ls_taint st"
    "\<forall>a \<in> set as. (\<exists>ev. a = Emit ev) \<or> a = ReadStop \<or> (\<exists>rq. a = AskModel rq) \<or> (\<exists>rv. a = AskReviewer rv)"
  shows "keeps_taint g st st'"
proof -
  have "downgraded g tr t as \<and> tainted_after g tr t as = t" for tr t
    using assms(3) by (induction as arbitrary: tr) auto
  then show ?thesis using assms(1,2) by (auto simp: keeps_taint_def)
qed

interpretation taint_order: turn_order w g cfg "\<lambda>st st'. never_cleared w \<longrightarrow> keeps_taint g st st'" for w g cfg
proof (unfold_locales, goal_cases)
  case (1 st)
  show ?case by (intro impI keeps_taint_by [of _ _ "[]"]) simp_all
next
  case (2 st1 st2 st3)
  then show ?case using keeps_taint_trans [of g st1 st2 st3] by blast
next
  case (3 ev st)
  show ?case by (intro impI keeps_taint_by [of _ _ "[Emit ev]"]) (simp_all add: emit_def act_def)
next
  case (4 st)
  show ?case by (intro impI keeps_taint_by [of _ _ "[ReadStop]"]) (simp_all add: act_def)
next
  case (5 st rq step)
  show ?case
    by (intro impI keeps_taint_by [of _ _ "[ReadStop, Emit (StepStart step), AskModel rq]"]) (auto simp: act_def emit_def)
next
  case (6 st rv)
  show ?case by (intro impI keeps_taint_by [of _ _ "[ReadStop, AskReviewer rv]"]) (auto simp: act_def)
next
  case (7 st m)
  show ?case by (intro impI keeps_taint_by [of _ _ "[]"]) (simp_all add: push_message_def)
next
  case (8 st step i c)
  show ?case
    using keeps_taint_trans [OF keeps_taint_by [of "act ReadStop st" st "[ReadStop]"] one_call_keeps_taint]
    by (auto simp: act_def)
qed

section \<open>What a host sees\<close>

text \<open>Nothing stands against handing \<open>c\<close> to the host of kind \<open>k\<close>.\<close>

definition may_run :: "world \<Rightarrow> registry \<Rightarrow> trace \<Rightarrow> host_kind \<Rightarrow> tool_call \<Rightarrow> string option \<Rightarrow> bool" where
  "may_run w g tr k c why \<longleftrightarrow>
     (case find_spec g (call_name c) of Some s \<Rightarrow> spec_host s = k | None \<Rightarrow> False) \<and>
     (case rg_hosts g k of Some h \<Rightarrow> why = None \<or> honors_explicit h | None \<Rightarrow> False) \<and>
     world_json w (if trim (call_args c) = [] then ''{}'' else call_args c) \<and> declined g tr c = None"

definition harmless :: "act \<Rightarrow> bool" where
  "harmless a \<longleftrightarrow>
     (case a of
        Emit ev \<Rightarrow> (case ev of ToolCallEvent _ _ k _ _ \<Rightarrow> k = None | _ \<Rightarrow> True)
      | AskModel _ \<Rightarrow> True
      | AskReviewer _ \<Rightarrow> True
      | ReadStop \<Rightarrow> True
      | _ \<Rightarrow> False)"

inductive guarded :: "world \<Rightarrow> registry \<Rightarrow> trace \<Rightarrow> trace \<Rightarrow> bool" for w g where
  end_of_trace: "guarded w g tr []"
| dispatched: "may_run w g tr k c why \<Longrightarrow>
    pre = [BeforeAnnounce c, Emit (ToolCallEvent s c (Some k) (why \<noteq> None) why), dispatch_act c k why] \<Longrightarrow>
    guarded w g (tr @ pre) as \<Longrightarrow> guarded w g tr (pre @ as)"
| other_act: "harmless a \<Longrightarrow> guarded w g (tr @ [a]) as \<Longrightarrow> guarded w g tr (a # as)"

lemma guarded_append: "guarded w g tr xs \<Longrightarrow> guarded w g (tr @ xs) ys \<Longrightarrow> guarded w g tr (xs @ ys)"
proof (induction rule: guarded.induct)
  case (dispatched tr k c why pre s as)
  then show ?case using guarded.dispatched [of w g tr k c why pre s "as @ ys"] by simp
next
  case (other_act a tr as)
  then show ?case using guarded.other_act [of a w g tr "as @ ys"] by simp
qed simp

lemma guarded_harmless: "list_all harmless as \<Longrightarrow> guarded w g tr as"
  by (induction as arbitrary: tr) (auto intro: guarded.intros)

definition grows_guarded :: "world \<Rightarrow> registry \<Rightarrow> loop_state \<Rightarrow> loop_state \<Rightarrow> bool" where
  "grows_guarded w g st st' \<longleftrightarrow> (\<exists>as. ls_trace st' = ls_trace st @ as \<and> guarded w g (ls_trace st) as)"

lemma one_call_guarded: "grows_guarded w g st (one_call w g cfg step i c st)"
proof -
  define cd where "cd = decide_call w g cfg i c (ls_trace st) (world_taint w (ls_trace st) (ls_taint st))"
  let ?st = "one_call w g cfg step i c st"
  obtain out tl where o: "ls_trace ?st = ls_trace st @ head_acts step c cd @
       Emit (ToolResultEvent step (call_id c) (out_status out) (to_content out)) # tl"
    "tl = [] \<or> (\<exists>s r. tl = [Emit (TaintedEvent step s r)])"
    using one_call_shape [OF cd_def, of step] by metis
  have rest: "guarded w g tr (Emit (ToolResultEvent step (call_id c) (out_status out) (to_content out)) # tl)" for tr
    using o(2) by (intro guarded_harmless) (auto simp: harmless_def)
  have "guarded w g (ls_trace st) (head_acts step c cd)"
  proof (cases "cd_dispatch cd")
    case None
    then show ?thesis by (intro guarded_harmless) (simp add: head_acts_def harmless_def)
  next
    case (Some kh)
    obtain k h where kh: "kh = (k, h)" by (cases kh)
    then have "may_run w g (ls_trace st) k c (cd_hic cd)"
      using decide_call_dispatch [of w g cfg i c "ls_trace st" "world_taint w (ls_trace st) (ls_taint st)" k h] Some
      by (auto simp: may_run_def cd_def)
    from guarded.dispatched [OF this refl guarded.end_of_trace, of step] show ?thesis
      using Some kh by (simp add: head_acts_def)
  qed
  then show ?thesis unfolding grows_guarded_def using o(1) guarded_append [OF _ rest] by blast
qed

lemma grows_guarded_by: "ls_trace st' = ls_trace st @ as \<Longrightarrow> list_all harmless as \<Longrightarrow> grows_guarded w g st st'"
  unfolding grows_guarded_def using guarded_harmless by blast

interpretation guarded_order: turn_order w g cfg "grows_guarded w g" for w g cfg
proof (unfold_locales, goal_cases)
  case (1 st)
  show ?case by (rule grows_guarded_by [of _ _ "[]"]) simp_all
next
  case (2 st1 st2 st3)
  then show ?case unfolding grows_guarded_def by (metis append.assoc guarded_append)
next
  case (3 ev st)
  then show ?case
    by (intro grows_guarded_by [of _ _ "[Emit ev]"]) (auto simp: emit_def act_def harmless_def plain_def split: event.splits)
next
  case (4 st)
  show ?case by (rule grows_guarded_by [of _ _ "[ReadStop]"]) (simp_all add: act_def harmless_def)
next
  case (5 st rq step)
  show ?case
    by (rule grows_guarded_by [of _ _ "[ReadStop, Emit (StepStart step), AskModel rq]"])
      (simp_all add: act_def emit_def harmless_def)
next
  case (6 st rv)
  show ?case by (rule grows_guarded_by [of _ _ "[ReadStop, AskReviewer rv]"]) (simp_all add: act_def harmless_def)
next
  case (7 st m)
  show ?case by (rule grows_guarded_by [of _ _ "[]"]) (simp_all add: push_message_def)
next
  case (8 st step i c)
  obtain as where "ls_trace (one_call w g cfg step i c (act ReadStop st)) = ls_trace st @ [ReadStop] @ as"
    "guarded w g (ls_trace st @ [ReadStop]) as"
    using one_call_guarded [of w g "act ReadStop st" cfg step i c] by (auto simp: grows_guarded_def act_def)
  then show ?case unfolding grows_guarded_def
    using guarded.other_act [of ReadStop w g "ls_trace st" as] by (auto simp: harmless_def)
qed

section \<open>Stopping\<close>

definition work :: "act \<Rightarrow> bool" where
  "work a \<longleftrightarrow>
     (case a of
        AskModel _ \<Rightarrow> True
      | AskReviewer _ \<Rightarrow> True
      | Execute _ _ \<Rightarrow> True
      | ExecuteExplicit _ _ _ \<Rightarrow> True
      | _ \<Rightarrow> False)"

lemma work_simps [simp]:
  "work (AskModel rq)" "work (AskReviewer rv)" "work (dispatch_act c k hic)" "\<not> work (Emit ev)" "\<not> work ReadStop" "\<not> work (BeforeAnnounce c)"
  by (simp_all add: work_def dispatch_act_def split: option.split)

text \<open>Before each piece of work the stop flag was read, and it was down; \<open>ready\<close> says that it was.\<close>

fun checked :: "world \<Rightarrow> trace \<Rightarrow> bool \<Rightarrow> trace \<Rightarrow> bool" where
  "checked w tr ready [] = True"
| "checked w tr ready (a # as) =
     (if a = ReadStop then checked w (tr @ [a]) (\<not> world_stopped w tr) as
      else if work a then ready \<and> checked w (tr @ [a]) False as
      else checked w (tr @ [a]) ready as)"

lemma checked_mono: "(r \<longrightarrow> r') \<Longrightarrow> checked w tr r as \<Longrightarrow> checked w tr r' as"
  by (induction as arbitrary: tr r r') (auto split: if_splits)

lemma checked_append:
  "checked w tr r xs \<Longrightarrow> checked w (tr @ xs) False ys \<Longrightarrow> checked w tr r (xs @ ys)"
proof (induction xs arbitrary: tr r)
  case Nil
  then show ?case using checked_mono [of False r w tr ys] by simp
qed (auto split: if_splits)

definition grows_checked :: "world \<Rightarrow> loop_state \<Rightarrow> loop_state \<Rightarrow> bool" where
  "grows_checked w st st' \<longleftrightarrow> (\<exists>as. ls_trace st' = ls_trace st @ as \<and> checked w (ls_trace st) False as)"

lemma one_call_checked: "\<exists>as. ls_trace (one_call w g cfg step i c st) = ls_trace st @ as \<and> checked w (ls_trace st) True as"
proof -
  define cd where "cd = decide_call w g cfg i c (ls_trace st) (world_taint w (ls_trace st) (ls_taint st))"
  obtain out tl where o: "ls_trace (one_call w g cfg step i c st) = ls_trace st @ head_acts step c cd @
       Emit (ToolResultEvent step (call_id c) (out_status out) (to_content out)) # tl"
    "tl = [] \<or> (\<exists>s r. tl = [Emit (TaintedEvent step s r)])"
    using one_call_shape [OF cd_def, of step] by metis
  have "checked w tr r (Emit (ToolResultEvent step (call_id c) (out_status out) (to_content out)) # tl)" for tr r
    using o(2) by auto
  moreover have "checked w (ls_trace st) True (head_acts step c cd)"
    by (auto simp: head_acts_def dispatch_act_def split: option.split)
  ultimately show ?thesis using o(1) checked_append by blast
qed

interpretation stop_order: turn_order w g cfg "grows_checked w" for w g cfg
proof (unfold_locales, goal_cases)
  case (2 st1 st2 st3)
  then show ?case unfolding grows_checked_def by (metis append.assoc checked_append)
next
  case (5 st rq step)
  then show ?case unfolding grows_checked_def
    by (intro exI [of _ "[ReadStop, Emit (StepStart step), AskModel rq]"]) (simp add: act_def emit_def)
next
  case (6 st rv)
  then show ?case unfolding grows_checked_def
    by (intro exI [of _ "[ReadStop, AskReviewer rv]"]) (simp add: act_def)
next
  case (8 st step i c)
  obtain as where "ls_trace (one_call w g cfg step i c (act ReadStop st)) = (ls_trace st @ [ReadStop]) @ as"
    "checked w (ls_trace st @ [ReadStop]) True as"
    using one_call_checked [of w g cfg step i c "act ReadStop st"] by (auto simp: act_def)
  then show ?case using 8 unfolding grows_checked_def by (intro exI [of _ "ReadStop # as"]) simp
qed (auto simp: grows_checked_def act_def emit_def push_message_def)

lemma checked_stopped:
  assumes "\<forall>tr ys. world_stopped w tr \<longrightarrow> world_stopped w (tr @ ys)"
  shows "world_stopped w tr \<Longrightarrow> checked w tr r as \<Longrightarrow> length (filter work as) \<le> (if r then 1 else 0)"
proof (induction as arbitrary: tr r)
  case (Cons a as)
  have st: "world_stopped w (tr @ [a])" using assms Cons.prems(1) by blast
  consider "a = ReadStop" | "a \<noteq> ReadStop" "work a" | "a \<noteq> ReadStop" "\<not> work a" by blast
  then show ?case
    using Cons.IH [OF st, of False] Cons.IH [OF st, of r] Cons.prems by cases auto
qed simp

lemma checked_suffix: "checked w tr r (xs @ ys) \<Longrightarrow> checked w (tr @ xs) True ys"
proof (induction xs arbitrary: tr r)
  case Nil
  then show ?case using checked_mono [of r True w tr ys] by simp
next
  case (Cons a xs)
  then show ?case using Cons.IH [of "tr @ [a]"] by (auto split: if_splits)
qed

section \<open>Bounds\<close>

definition works :: "loop_state \<Rightarrow> nat" where
  "works st = length (filter work (ls_trace st))"

lemma works_simps [simp]:
  "works (emit ev st) = works st" "works (act ReadStop st) = works st" "works (act (AskModel rq) st) = Suc (works st)"
  "works (act (AskReviewer rv) st) = Suc (works st)"
  "works (push_message m st) = works st" "works (emit_usage step u st) = works st"
  by (simp_all add: works_def emit_def act_def push_message_def emit_usage_def split: option.split)

lemma works_flush [simp]: "works (snd (flush_delta step buf st)) = works st"
  by (simp add: flush_delta_def)

lemma works_stream [simp]: "works (stream_deltas step ds st) = works st"
proof -
  have "works (snd (fold (push_delta step) ds bs)) = works (snd bs)" for bs
  proof (induction ds arbitrary: bs)
    case (Cons d ds)
    have "works (snd (push_delta step d bs)) = works (snd bs)" by (cases d; cases bs) (simp add: push_delta_def)
    then show ?case using Cons by simp
  qed simp
  from this [of "([], st)"] show ?thesis
    using works_flush by (simp add: stream_deltas_def split: prod.split) (metis snd_conv works_flush)
qed

lemma works_one_call: "works (one_call w g cfg step i c st) \<le> works st + (if i < lc_max_calls cfg then 1 else 0)"
proof -
  define cd where "cd = decide_call w g cfg i c (ls_trace st) (world_taint w (ls_trace st) (ls_taint st))"
  obtain out tl where o: "ls_trace (one_call w g cfg step i c st) = ls_trace st @ head_acts step c cd @
       Emit (ToolResultEvent step (call_id c) (out_status out) (to_content out)) # tl"
    "tl = [] \<or> (\<exists>s r. tl = [Emit (TaintedEvent step s r)])"
    using one_call_shape [OF cd_def, of step] by metis
  have "filter work tl = []" using o(2) by auto
  moreover have "length (filter work (head_acts step c cd)) \<le> (if i < lc_max_calls cfg then 1 else 0)"
  proof (cases "cd_dispatch cd")
    case (Some kh)
    then show ?thesis
      using decide_call_dispatch [of w g cfg i c "ls_trace st" "world_taint w (ls_trace st) (ls_taint st)" "fst kh" "snd kh"]
      by (cases kh) (auto simp: head_acts_def cd_def)
  qed (simp add: head_acts_def)
  ultimately show ?thesis by (simp add: works_def o(1))
qed

lemma works_calls: "works (snd (run_calls w g cfg step i cs st)) \<le> works st + (lc_max_calls cfg - i)"
proof (induction cs arbitrary: i st)
  case (Cons c cs)
  show ?case
    using Cons [of "Suc i" "one_call w g cfg step i c (act ReadStop st)"] works_one_call [of w g cfg step i c "act ReadStop st"]
    by (auto simp: read_stop_def split: if_splits)
qed simp

lemma works_step: "works (snd (run_step w g cfg opts prompt user step st)) \<le> works st + Suc (lc_max_calls cfg)"
proof -
  have "works (snd (run_calls w g cfg step 0 cs st')) \<le> works st' + lc_max_calls cfg" for cs st'
    using works_calls [of w g cfg step 0 cs st'] by simp
  then have c: "run_calls w g cfg step 0 cs st' = (b, st'') \<Longrightarrow> works st'' \<le> works st' + lc_max_calls cfg" for cs st' b st''
    by (metis snd_conv)
  show ?thesis
    by (auto simp: run_step_def read_stop_def Let_def dest!: c split: sum.split prod.split bool.split)
qed

lemma works_steps: "works (snd (run_steps w g cfg opts prompt user s n st)) \<le> works st + n * Suc (lc_max_calls cfg)"
proof (induction n arbitrary: s st)
  case (Suc n)
  obtain r st1 where r: "run_step w g cfg opts prompt user s st = (r, st1)"
    by (cases "run_step w g cfg opts prompt user s st")
  then show ?case using works_step [of w g cfg opts prompt user s st] Suc [of "Suc s" st1]
    by (cases r) (auto simp: finish_def)
qed (simp add: finish_def)

end
