(* ===== verification/ContextProperties.thy ===== *)
theory ContextProperties
  imports Context
begin

text \<open>
  The tools offered come from the registry and respect the ceiling, whatever the selector, and
  compaction drops and elides only what is old: the system prompt and everything from the latest user
  message on stay as they are, and no tool result loses the call it answers.
\<close>

section \<open>Tools\<close>

text \<open>A selector returns tools it was given.\<close>

locale tool_selector =
  fixes select :: "string \<Rightarrow> tool_spec list \<Rightarrow> nat \<Rightarrow> tool_spec list"
  assumes selects: "set (select q ss k) \<subseteq> set ss"

lemma keyword_scores_length [simp]: "length (keyword_scores q ss) = length ss"
  by (simp add: keyword_scores_def Let_def)

interpretation keyword: tool_selector keyword_select
proof
  fix q ss k
  let ?scored = "zip [0..<length ss] (keyword_scores q ss)"
  have "fst p < length ss" if "p \<in> set ?scored" for p
  proof -
    have "fst p \<in> set [0..<length ss]" using that by (metis prod.collapse set_zip_leftD)
    then show ?thesis by simp
  qed
  then have pick: "ss ! fst p \<in> set ss"
    if "p \<in> set (take k (filter (\<lambda>(_, sc). 0 < sc) (sort_key (\<lambda>(_, sc). - int sc) ?scored)))" for p
    using that by (auto dest!: in_set_takeD)
  show "set (keyword_select q ss k) \<subseteq> set ss"
  proof (cases "list_all (\<lambda>(_, sc). sc = 0) ?scored")
    case True
    then show ?thesis by (auto simp: keyword_select_def Let_def dest: in_set_takeD)
  next
    case False
    then show ?thesis using pick by (fastforce simp: keyword_select_def Let_def)
  qed
qed

definition under_cap :: "nat option \<Rightarrow> nat \<Rightarrow> bool" where
  "under_cap cap n \<longleftrightarrow> (case cap of Some c \<Rightarrow> n \<le> c | None \<Rightarrow> True)"

lemma push_in_use_ok:
  "set out \<subseteq> S \<Longrightarrow> set rest \<subseteq> S \<Longrightarrow> under_cap cap (length out) \<Longrightarrow>
     set (push_in_use cap rest out ns) \<subseteq> S \<and> under_cap cap (length (push_in_use cap rest out ns)) \<and>
     prefix out (push_in_use cap rest out ns)"
proof (induction ns arbitrary: out)
  case (Cons n ns)
  let ?out = "case find (\<lambda>s. spec_name s = n) rest of Some s \<Rightarrow> out @ [s] | None \<Rightarrow> out"
  show ?case
  proof (cases "case cap of Some c \<Rightarrow> c \<le> length out | None \<Rightarrow> False")
    case False
    then have "set ?out \<subseteq> S" "under_cap cap (length ?out)" "prefix out ?out"
      using Cons.prems by (auto simp: under_cap_def find_Some_iff split: option.splits)
    then show ?thesis using Cons.IH [of ?out] Cons.prems(2) False by (auto intro: prefix_order.trans)
  qed (use Cons.prems in auto)
qed simp

lemma push_selected_ok:
  "set out \<subseteq> S \<Longrightarrow> set ss \<subseteq> S \<Longrightarrow> under_cap cap (length out) \<Longrightarrow>
     set (push_selected cap base room out ss) \<subseteq> S \<and> under_cap cap (length (push_selected cap base room out ss)) \<and>
     prefix out (push_selected cap base room out ss)"
proof (induction ss arbitrary: out)
  case (Cons s ss)
  let ?out = "if spec_name s \<notin> spec_name ` set out then out @ [s] else out"
  show ?case
  proof (cases "room \<le> length out - base \<or> (case cap of Some c \<Rightarrow> c \<le> length out | None \<Rightarrow> False)")
    case False
    then have "set ?out \<subseteq> S" "under_cap cap (length ?out)" "prefix out ?out"
      using Cons.prems by (auto simp: under_cap_def split: option.splits)
    then show ?thesis using Cons.IH [of ?out] Cons.prems(2) False by (auto intro: prefix_order.trans)
  qed (use Cons.prems in auto)
qed simp

context tool_selector
begin

lemma offers:
  assumes "k0 \<noteq> None \<or> most \<noteq> None"
  shows "set (offered_tools specs history user k0 pinned select most) \<subseteq> set specs \<and>
    under_cap most (length (offered_tools specs history user k0 pinned select most)) \<and>
    prefix (take_cap most (filter (\<lambda>s. spec_name s \<in> set pinned) specs))
      (offered_tools specs history user k0 pinned select most)"
proof -
  obtain k where k: "(case k0 of Some k \<Rightarrow> Some k | None \<Rightarrow> most) = Some k" using assms by (cases k0) auto
  define out where "out = take_cap most (filter (\<lambda>s. spec_name s \<in> set pinned) specs)"
  define rest where "rest = filter (\<lambda>s. spec_name s \<notin> set pinned) specs"
  define used where "used = in_use rest [] (called_names history)"
  have o: "set out \<subseteq> set specs" "under_cap most (length out)"
    by (auto simp: out_def take_cap_def under_cap_def split: option.split dest: in_set_takeD)
  have r: "set rest \<subseteq> set specs" by (auto simp: rest_def)
  then have s: "set (select user rest k) \<subseteq> set specs" using selects [of user rest k] by blast
  show ?thesis
    using push_in_use_ok [OF o(1) r o(2), of used] s
      push_selected_ok [of "push_in_use most rest out used" "set specs" "select user rest k" most "length out" "max k (length used)"]
    unfolding offered_tools_def k
    by (auto simp: Let_def used_def [symmetric] rest_def [symmetric] out_def [symmetric] intro: prefix_order.trans)
qed

end

section \<open>Compaction\<close>

text \<open>Every tool result answers a call of the assistant message it follows.\<close>

fun no_orphans :: "string set \<Rightarrow> message list \<Rightarrow> bool" where
  "no_orphans ids [] = True"
| "no_orphans ids (m # ms) =
     (case msg_role m of
        Tool \<Rightarrow> (case msg_call_id m of Some i \<Rightarrow> i \<in> ids | None \<Rightarrow> False) \<and> no_orphans ids ms
      | Assistant \<Rightarrow> no_orphans (call_id ` set (msg_calls m)) ms
      | _ \<Rightarrow> no_orphans {} ms)"

text \<open>A message as it was, or tool output elided.\<close>

definition kept_message :: "message \<Rightarrow> message \<Rightarrow> bool" where
  "kept_message m m' \<longleftrightarrow> m' = m \<or> msg_role m = Tool \<and> m' = elided m"

lemma kept_message_same [simp]: "kept_message m m" by (simp add: kept_message_def)

lemma elided_simps [simp]:
  "msg_role (elided m) = msg_role m" "msg_call_id (elided m) = msg_call_id m" "msg_calls (elided m) = msg_calls m"
  by (simp_all add: elided_def)

lemma elided_starts: "starts_with ''[elided'' (msg_content (elided m))"
  by (simp add: elided_def)

lemma kept_no_orphans: "list_all2 kept_message ms ms' \<Longrightarrow> no_orphans ids ms' = no_orphans ids ms"
proof (induction arbitrary: ids rule: list_all2_induct)
  case (Cons m ms m' ms')
  have "msg_role m' = msg_role m" "msg_call_id m' = msg_call_id m" "msg_calls m' = msg_calls m"
    using Cons.hyps(1) by (auto simp: kept_message_def)
  then show ?case using Cons.IH by (auto split: role.split)
qed simp

lemma elide_from_kept:
  "i + n \<le> length ms \<Longrightarrow>
     list_all2 kept_message ms (elide_from fits i n ms) \<and>
     (\<forall>j. j < i \<or> i + n \<le> j \<longrightarrow> j < length ms \<longrightarrow> elide_from fits i n ms ! j = ms ! j)"
proof (induction n arbitrary: i ms)
  case 0
  then show ?case by (simp add: list.rel_refl)
next
  case (Suc n)
  let ?ms = "if msg_role (ms ! i) = Tool \<and> \<not> starts_with ''[elided'' (msg_content (ms ! i))
    then ms[i := elided (ms ! i)] else ms"
  have k: "list_all2 kept_message ms ?ms"
  proof -
    have "kept_message (ms ! j) (?ms ! j)" if "j < length ms" for j
      using that by (cases "j = i") (simp_all add: kept_message_def)
    then show ?thesis by (simp add: list_all2_conv_all_nth)
  qed
  have IH: "list_all2 kept_message ?ms (elide_from fits (Suc i) n ?ms)"
    "\<forall>j. j < Suc i \<or> Suc i + n \<le> j \<longrightarrow> j < length ?ms \<longrightarrow> elide_from fits (Suc i) n ?ms ! j = ?ms ! j"
    using Suc.IH [of "Suc i" ?ms] Suc.prems by (auto split: if_splits)
  have one: "kept_message a c" if ab: "kept_message a b" and bc: "kept_message b c" and
    fresh: "b = a \<or> c = b" for a b c :: message
    using that by auto
  show ?case
  proof (cases "fits ?ms \<and> ?ms \<noteq> ms")
    case True
    then show ?thesis using k by (auto simp: Let_def split: if_splits)
  next
    case False
    have e: "elide_from fits i (Suc n) ms = elide_from fits (Suc i) n ?ms \<or>
        elide_from fits i (Suc n) ms = ?ms" by (auto simp: Let_def)
    have "kept_message (ms ! j) (elide_from fits (Suc i) n ?ms ! j)" if "j < length ms" for j
    proof (cases "j = i")
      case True
      then show ?thesis using IH(2) that k by (auto simp: list_all2_conv_all_nth split: if_splits)
    next
      case other: False
      then have "?ms ! j = ms ! j" by simp
      then show ?thesis using IH(1) that by (auto simp: list_all2_conv_all_nth split: if_splits)
    qed
    moreover have "length (elide_from fits (Suc i) n ?ms) = length ms" using IH(1) by (auto dest: list_all2_lengthD split: if_splits)
    ultimately have "list_all2 kept_message ms (elide_from fits (Suc i) n ?ms)" by (simp add: list_all2_conv_all_nth)
    moreover have "elide_from fits (Suc i) n ?ms ! j = ms ! j" if "j < i \<or> i + Suc n \<le> j" "j < length ms" for j
      using IH(2) that by auto
    ultimately show ?thesis using e k by (auto split: if_splits)
  qed
qed

lemma last_user_split:
  assumes "msg_role u = User" "\<forall>m \<in> set rest. msg_role m \<noteq> User"
  shows "last_user (pre @ u # rest) = Some (length pre)"
proof -
  have "last_user rest = None" using assms(2) by (induction rest) auto
  then show ?thesis using assms(1) by (induction pre) auto
qed

lemma drop_results_split:
  "msg_role u = User \<Longrightarrow>
     drop_results (s # xs @ u # rest) = s # dropWhile (\<lambda>m. msg_role m = Tool) xs @ u # rest"
proof (induction xs)
  case Nil
  then show ?case by (cases rest) auto
qed auto

text \<open>Dropping leaves an end of the old messages that does not start with a tool result.\<close>

lemma drop_oldest_split:
  assumes "msg_role u = User" "\<forall>m \<in> set rest. msg_role m \<noteq> User"
  shows "\<exists>k. drop_oldest_until fits (s # pre @ u # rest) = s # drop k pre @ u # rest \<and>
    (k = 0 \<or> drop k pre = [] \<or> msg_role (hd (drop k pre)) \<noteq> Tool)"
proof (induction "length pre" arbitrary: pre rule: less_induct)
  case less
  have lu: "last_user (s # pre @ u # rest) = Some (Suc (length pre))"
    using last_user_split [OF assms, of "s # pre"] by simp
  show ?case
  proof (cases "fits (s # pre @ u # rest) \<or> pre = []")
    case True
    then have "drop_oldest_until fits (s # pre @ u # rest) = s # pre @ u # rest"
      by (subst drop_oldest_until.simps) (use lu in auto)
    then show ?thesis by (intro exI [of _ 0]) simp
  next
    case False
    then obtain p ps where pre: "pre = p # ps" by (cases pre) auto
    define ds where "ds = dropWhile (\<lambda>m. msg_role m = Tool) ps"
    have "drop_results (hd (s # pre @ u # rest) # tl (tl (s # pre @ u # rest))) = s # ds @ u # rest"
      using drop_results_split [OF assms(1), of s ps rest] pre by (simp add: ds_def)
    then have d: "drop_oldest_until fits (s # pre @ u # rest) = drop_oldest_until fits (s # ds @ u # rest)"
      by (subst drop_oldest_until.simps) (use False lu pre in auto)
    obtain n where n: "ds = drop n ps" unfolding ds_def by (metis dropWhile_eq_drop)
    have "length ds < length pre" using pre n by simp
    then obtain k where k: "drop_oldest_until fits (s # ds @ u # rest) = s # drop k ds @ u # rest"
      "k = 0 \<or> drop k ds = [] \<or> msg_role (hd (drop k ds)) \<noteq> Tool" using less by blast
    have "ds = [] \<or> msg_role (hd ds) \<noteq> Tool" unfolding ds_def using hd_dropWhile by blast
    then have "drop k ds = [] \<or> msg_role (hd (drop k ds)) \<noteq> Tool" using k(2) by (cases "k = 0") auto
    moreover have "drop k ds = drop (k + n + 1) pre" using n pre by (simp add: add.commute)
    ultimately show ?thesis using d k(1) by (metis add_is_0)
  qed
qed

lemma no_orphans_head: "ms = [] \<or> msg_role (hd ms) \<noteq> Tool \<Longrightarrow> no_orphans ids ms = no_orphans ids' ms"
  by (cases ms) (auto split: role.split)

lemma no_orphans_appendD: "no_orphans ids (xs @ ys) \<Longrightarrow> \<exists>ids'. no_orphans ids' ys"
  by (induction xs arbitrary: ids) (auto split: role.splits)

lemma no_orphans_drop:
  assumes "no_orphans {} (s # pre @ u # rest)" "msg_role s \<noteq> Tool" "msg_role u = User"
    "k = 0 \<or> drop k pre = [] \<or> msg_role (hd (drop k pre)) \<noteq> Tool"
  shows "no_orphans {} (s # drop k pre @ u # rest)"
proof (cases "k = 0")
  case False
  have h: "msg_role (hd (drop k pre @ u # rest)) \<noteq> Tool" using assms(3,4) False by (cases "drop k pre") auto
  have "no_orphans {} ((s # take k pre) @ drop k pre @ u # rest)" using assms(1) by (simp flip: append_assoc)
  from no_orphans_appendD [OF this] obtain ids where ids: "no_orphans ids (drop k pre @ u # rest)" by blast
  have "no_orphans ids' (drop k pre @ u # rest)" for ids'
    using ids no_orphans_head [of "drop k pre @ u # rest" ids ids'] h by simp
  then show ?thesis using assms(2) by (auto split: role.split)
qed (use assms(1) in simp)

text \<open>What compaction gives: \<open>s\<close> is the system prompt, \<open>u\<close> the latest user message.\<close>

lemma compact_split:
  assumes "compact_to_budget (s # pre @ u # rest) budget count = Inr out"
    "msg_role s \<noteq> Tool" "msg_role u = User" "\<forall>m \<in> set rest. msg_role m \<noteq> User"
  shows "\<exists>k pre'. out = s # pre' @ u # rest \<and> list_all2 kept_message (drop k pre) pre' \<and>
    count_messages count out \<le> max_context_tokens budget - reserve_for_output budget \<and>
    (out = s # pre @ u # rest \<or> count_messages count out < count_messages count (s # pre @ u # rest)) \<and>
    (no_orphans {} (s # pre @ u # rest) \<longrightarrow> no_orphans {} out)"
proof -
  let ?ms = "s # pre @ u # rest"
  let ?limit = "max_context_tokens budget - reserve_for_output budget"
  let ?fits = "\<lambda>m. count_messages count m \<le> ?limit"
  show ?thesis
  proof (cases "?fits ?ms")
    case True
    then have "out = ?ms" using assms(1) by (simp add: compact_to_budget_def Let_def)
    then show ?thesis using True by (intro exI [of _ 0] exI [of _ pre]) (simp add: list.rel_refl)
  next
    case False
    define el where "el = elide_from ?fits 0 (Suc (length pre)) ?ms"
    have lu: "last_user ?ms = Some (Suc (length pre))" using last_user_split [OF assms(3,4), of "s # pre"] by simp
    then have out: "out = drop_oldest_until ?fits el" "?fits out" "count_messages count out < count_messages count ?ms"
      using assms(1) False by (auto simp: compact_to_budget_def Let_def el_def split: if_splits)
    have el: "list_all2 kept_message ?ms el"
      "\<forall>j. Suc (length pre) \<le> j \<longrightarrow> j < length ?ms \<longrightarrow> el ! j = ?ms ! j"
      using elide_from_kept [of 0 "Suc (length pre)" ?ms ?fits] by (auto simp: el_def)
    then obtain s1 pre1 u1 rest1 where e: "el = s1 # pre1 @ u1 # rest1" "kept_message s s1"
      "list_all2 kept_message pre pre1" "length rest1 = length rest"
      by (auto simp: list_all2_Cons1 list_all2_append1 dest: list_all2_lengthD)
    have "drop (Suc (length pre)) el = drop (Suc (length pre)) ?ms"
      using el(2) list_all2_lengthD [OF el(1)] by (intro nth_equalityI) auto
    then have tail: "u1 # rest1 = u # rest" using e(1) list_all2_lengthD [OF e(3)] by simp
    have s1: "s1 = s" using e(2) assms(2) by (auto simp: kept_message_def)
    obtain k where k: "out = s # drop k pre1 @ u # rest" "k = 0 \<or> drop k pre1 = [] \<or> msg_role (hd (drop k pre1)) \<noteq> Tool"
      using drop_oldest_split [OF assms(3,4), of ?fits s pre1] out(1) e(1) tail s1 by auto
    have "no_orphans {} el" if "no_orphans {} ?ms" using kept_no_orphans [OF el(1)] that by simp
    then have "no_orphans {} out" if "no_orphans {} ?ms"
      using that no_orphans_drop [OF _ assms(2,3) k(2)] e(1) tail s1 k(1) by simp
    moreover have "list_all2 kept_message (drop k pre) (drop k pre1)" using e(3) by (rule list_all2_dropI)
    ultimately show ?thesis using k(1) out(2,3) by blast
  qed
qed

end
