(* ===== verification/RequestProperties.thy ===== *)
theory RequestProperties
  imports TurnProperties ContextProperties
begin

text \<open>
  What the model is asked in a turn: every request a turn makes has the turn's system prompt, the
  user's message in full, no tool result without its call, tools of the registry only, and fits the
  budget together with its tools and the room for the answer.
\<close>

section \<open>Transcripts\<close>

text \<open>The ids a tool result may answer at the end of a transcript.\<close>

definition open_after_message :: "string set \<Rightarrow> message \<Rightarrow> string set" where
  "open_after_message ids m =
     (case msg_role m of Tool \<Rightarrow> ids | Assistant \<Rightarrow> call_id ` set (msg_calls m) | _ \<Rightarrow> {})"

fun open_ids :: "string set \<Rightarrow> message list \<Rightarrow> string set" where
  "open_ids ids [] = ids"
| "open_ids ids (m # ms) = open_ids (open_after_message ids m) ms"

lemma open_ids_append [simp]: "open_ids ids (xs @ ys) = open_ids (open_ids ids xs) ys"
  by (induction xs arbitrary: ids) auto

lemma no_orphans_append:
  "no_orphans ids (xs @ ys) \<longleftrightarrow> no_orphans ids xs \<and> no_orphans (open_ids ids xs) ys"
  by (induction xs arbitrary: ids) (auto simp: open_after_message_def split: role.split)

text \<open>A transcript in the middle of a turn of \<open>user\<close>: nothing but replies and results follow its message.\<close>

definition in_turn :: "string \<Rightarrow> message list \<Rightarrow> bool" where
  "in_turn user h \<longleftrightarrow>
     no_orphans {} h \<and>
     (\<exists>pre rest. h = pre @ user_message user # rest \<and> (\<forall>m \<in> set rest. msg_role m \<noteq> User))"

lemma in_turn_start: "no_orphans {} h \<Longrightarrow> in_turn user (h @ [user_message user])"
  unfolding in_turn_def
  by (intro conjI exI [of _ h] exI [of _ "[]"]) (simp_all add: no_orphans_append user_message_def)

lemma in_turn_push:
  assumes "in_turn user h" "msg_role m \<noteq> User" "no_orphans (open_ids {} h) [m]"
  shows "in_turn user (h @ [m])"
  unfolding in_turn_def
proof
  show "no_orphans {} (h @ [m])" using assms by (simp add: in_turn_def no_orphans_append)
  obtain pre rest where "h = pre @ user_message user # rest" "\<forall>m \<in> set rest. msg_role m \<noteq> User"
    using assms(1) by (auto simp: in_turn_def)
  then show "\<exists>pre rest. h @ [m] = pre @ user_message user # rest \<and> (\<forall>m\<in>set rest. msg_role m \<noteq> User)"
    using assms(2) by (intro exI [of _ pre] exI [of _ "rest @ [m]"]) auto
qed

lemma history_keep:
  "ls_history (emit ev st) = ls_history st" "ls_history (act a st) = ls_history st"
  "ls_history (emit_usage step u st) = ls_history st" "ls_history (push_message m st) = ls_history st @ [m]"
  by (simp_all add: emit_def act_def emit_usage_def push_message_def split: option.split)

lemma history_stream: "ls_history (stream_deltas step ds st) = ls_history st"
proof -
  have "ls_history (snd (fold (push_delta step) ds bs)) = ls_history (snd bs)" for bs
  proof (induction ds arbitrary: bs)
    case (Cons d ds)
    have "ls_history (snd (push_delta step d bs)) = ls_history (snd bs)"
      by (cases d; cases bs) (simp add: push_delta_def flush_delta_def history_keep)
    then show ?case using Cons by simp
  qed simp
  from this [of "([], st)"] show ?thesis
    by (auto simp: stream_deltas_def flush_delta_def history_keep split: prod.splits)
qed

lemma calls_in_turn:
  assumes "in_turn user (ls_history st)" "call_id ` set cs \<subseteq> open_ids {} (ls_history st)"
  shows "in_turn user (ls_history (snd (run_calls w g cfg step i cs st)))"
  using assms
proof (induction cs arbitrary: i st)
  case (Cons c cs)
  define cd where "cd = decide_call w g cfg i c (ls_trace (act ReadStop st))
    (world_taint w (ls_trace (act ReadStop st)) (ls_taint (act ReadStop st)))"
  define st1 where "st1 = one_call w g cfg step i c (act ReadStop st)"
  obtain s where h: "ls_history st1 = ls_history st @ [tool_result (call_id c) s]"
    using one_call_shape [OF cd_def, of step] unfolding st1_def by (metis history_keep(2))
  have "in_turn user (ls_history st1)" unfolding h
    by (rule in_turn_push [OF Cons.prems(1)]) (use Cons.prems(2) in \<open>simp_all add: tool_result_def\<close>)
  moreover have "open_ids {} (ls_history st1) = open_ids {} (ls_history st)"
    by (simp add: h open_after_message_def tool_result_def)
  ultimately show ?case using Cons.IH [of st1 "Suc i"] Cons.prems by (simp add: read_stop_def st1_def history_keep)
qed simp

section \<open>Requests\<close>

definition tools_ok :: "registry \<Rightarrow> turn_options \<Rightarrow> tool_spec list \<Rightarrow> bool" where
  "tools_ok g opts ts \<longleftrightarrow>
     set ts \<subseteq> set (rg_specs g) \<and> under_cap (to_max_total opts) (length ts) \<and>
     (\<forall>s \<in> set (rg_specs g). spec_name s \<in> set (to_pinned opts) \<longrightarrow> to_max_total opts = None \<longrightarrow> s \<in> set ts)"

text \<open>A custom selector chooses among the tools it is shown.\<close>

definition selector_ok :: "turn_options \<Rightarrow> bool" where
  "selector_ok opts \<longleftrightarrow>
     (case to_selector opts of Some f \<Rightarrow> tool_selector f | None \<Rightarrow> True)"

lemma offer_ok:
  assumes "selector_ok opts"
  shows "tools_ok g opts (offer g opts user h)"
proof -
  define f where "f = (case to_selector opts of Some s \<Rightarrow> s | None \<Rightarrow> keyword_select)"
  have f: "tool_selector f"
    using assms keyword.tool_selector_axioms by (auto simp: f_def selector_ok_def split: option.splits)
  show ?thesis
  proof (cases "to_max_tools opts \<noteq> None \<or> to_max_total opts \<noteq> None")
    case True
    let ?out = "offer g opts user h"
    let ?pins = "filter (\<lambda>s. spec_name s \<in> set (to_pinned opts)) (rg_specs g)"
    have o: "set ?out \<subseteq> set (rg_specs g) \<and> under_cap (to_max_total opts) (length ?out) \<and>
        prefix (take_cap (to_max_total opts) ?pins) ?out"
      using tool_selector.offers [OF f True, of "rg_specs g" h user "to_pinned opts"] by (simp add: offer_def f_def)
    then have "set (take_cap (to_max_total opts) ?pins) \<subseteq> set ?out" by (blast dest: set_mono_prefix)
    then show ?thesis using o by (auto simp: tools_ok_def take_cap_def)
  next
    case False
    then show ?thesis by (simp add: offer_def offered_tools_def tools_ok_def under_cap_def)
  qed
qed

definition fits_budget :: "turn_options \<Rightarrow> completion_request \<Rightarrow> bool" where
  "fits_budget opts rq \<longleftrightarrow>
     (case to_budget opts of
        None \<Rightarrow> True
      | Some (b, count) \<Rightarrow>
          count_messages count (rq_messages rq) + count (to_tools_json opts (rq_tools rq)) + reserve_for_output b
            \<le> max_context_tokens b)"

definition messages_ok :: "string \<Rightarrow> string \<Rightarrow> message list \<Rightarrow> bool" where
  "messages_ok prompt user ms \<longleftrightarrow>
     no_orphans {} ms \<and>
     (\<exists>pre rest. ms = system_message prompt # pre @ user_message user # rest \<and> (\<forall>m \<in> set rest. msg_role m \<noteq> User))"

lemma request_messages_ok:
  assumes "in_turn user h" "request_messages opts ts (system_message prompt # h) = Inr ms"
    "rq_messages rq = ms" "rq_tools rq = ts"
  shows "messages_ok prompt user ms \<and> fits_budget opts rq"
proof -
  obtain pre rest where h: "h = pre @ user_message user # rest" "\<forall>m \<in> set rest. msg_role m \<noteq> User"
    using assms(1) by (auto simp: in_turn_def)
  have n: "no_orphans {} (system_message prompt # pre @ user_message user # rest)"
    using assms(1) h(1) by (simp add: in_turn_def system_message_def)
  show ?thesis
  proof (cases "to_budget opts")
    case None
    then show ?thesis using assms(2-4) h n by (auto simp: request_messages_def messages_ok_def fits_budget_def)
  next
    case (Some bc)
    obtain b count where bc: "bc = (b, count)" by (cases bc)
    let ?b = "\<lparr>max_context_tokens = max_context_tokens b - count (to_tools_json opts ts), reserve_for_output = reserve_for_output b\<rparr>"
    have c: "compact_to_budget (system_message prompt # pre @ user_message user # rest) ?b count = Inr ms"
      using assms(2) Some bc h(1) by (simp add: request_messages_def)
    obtain k pre' where k: "ms = system_message prompt # pre' @ user_message user # rest"
      "count_messages count ms \<le> max_context_tokens ?b - reserve_for_output ?b" "no_orphans {} ms"
      using compact_split [OF c] n h(2) by (auto simp: system_message_def user_message_def)
    have "4 \<le> count_messages count ms" using k(1) by (simp add: count_messages_def)
    then have "fits_budget opts rq" using k(2) Some bc assms(3,4) by (simp add: fits_budget_def)
    then show ?thesis using k(1,3) h(2) by (auto simp: messages_ok_def)
  qed
qed

definition request_ok ::
  "registry \<Rightarrow> loop_config \<Rightarrow> turn_options \<Rightarrow> string \<Rightarrow> string \<Rightarrow> completion_request \<Rightarrow> bool" where
  "request_ok g cfg opts prompt user rq \<longleftrightarrow>
     rq_model rq = lc_model cfg \<and> rq_max_tokens rq = lc_max_tokens cfg \<and> tools_ok g opts (rq_tools rq) \<and>
     messages_ok prompt user (rq_messages rq) \<and> fits_budget opts rq"

definition requests_ok ::
  "registry \<Rightarrow> loop_config \<Rightarrow> turn_options \<Rightarrow> string \<Rightarrow> string \<Rightarrow> trace \<Rightarrow> bool" where
  "requests_ok g cfg opts prompt user as \<longleftrightarrow>
     list_all (\<lambda>a. case a of AskModel rq \<Rightarrow> request_ok g cfg opts prompt user rq | _ \<Rightarrow> True) as"

definition asks_well ::
  "registry \<Rightarrow> loop_config \<Rightarrow> turn_options \<Rightarrow> string \<Rightarrow> string \<Rightarrow> loop_state \<Rightarrow> loop_state \<Rightarrow> bool" where
  "asks_well g cfg opts prompt user st st' \<longleftrightarrow>
     (\<exists>as. ls_trace st' = ls_trace st @ as \<and> requests_ok g cfg opts prompt user as)"

lemma asks_well_refl [simp]: "asks_well g cfg opts prompt user st st"
  by (auto simp: asks_well_def requests_ok_def)

lemma asks_well_trans:
  "asks_well g cfg opts prompt user st1 st2 \<Longrightarrow> asks_well g cfg opts prompt user st2 st3 \<Longrightarrow> asks_well g cfg opts prompt user st1 st3"
  by (auto simp: asks_well_def requests_ok_def)

lemma asks_well_act:
  "(\<And>rq. a = AskModel rq \<Longrightarrow> request_ok g cfg opts prompt user rq) \<Longrightarrow> asks_well g cfg opts prompt user st (act a st)"
  by (auto simp: asks_well_def requests_ok_def act_def split: act.split)

lemma asks_well_emit [simp]: "asks_well g cfg opts prompt user st (emit ev st)"
  unfolding emit_def by (rule asks_well_act) simp

lemma asks_well_push [simp]: "asks_well g cfg opts prompt user st (push_message m st)"
  by (auto simp: asks_well_def requests_ok_def push_message_def)

lemma asks_well_one_call: "asks_well g cfg opts prompt user st (one_call w g cfg step i c st)"
proof -
  define cd where "cd = decide_call w g cfg i c (ls_trace st) (world_taint w (ls_trace st) (ls_taint st))"
  obtain out tl where o: "ls_trace (one_call w g cfg step i c st) = ls_trace st @ head_acts step c cd @
       Emit (ToolResultEvent step (call_id c) (out_status out) (to_content out)) # tl"
    "tl = [] \<or> (\<exists>s r. tl = [Emit (TaintedEvent step s r)])"
    using one_call_shape [OF cd_def, of step] by metis
  have "requests_ok g cfg opts prompt user (head_acts step c cd)"
    by (auto simp: requests_ok_def head_acts_def dispatch_act_def split: option.split)
  then show ?thesis using o by (auto simp: asks_well_def requests_ok_def)
qed

lemma asks_well_calls: "asks_well g cfg opts prompt user st (snd (run_calls w g cfg step i cs st))"
proof (induction cs arbitrary: i st)
  case (Cons c cs)
  have "asks_well g cfg opts prompt user st (act ReadStop st)" by (rule asks_well_act) simp
  then show ?case
    using asks_well_trans [OF asks_well_trans [OF _ asks_well_one_call] Cons.IH] by (auto simp: read_stop_def)
qed simp

lemma asks_well_stream: "asks_well g cfg opts prompt user st (stream_deltas step ds st)"
proof -
  have flush: "asks_well g cfg opts prompt user st (snd (flush_delta step buf st))" for buf st
    by (simp add: flush_delta_def)
  have "asks_well g cfg opts prompt user st (snd (fold (push_delta step) ds (buf, st)))" for buf
  proof (induction ds arbitrary: buf st)
    case (Cons d ds)
    obtain buf1 st1 where p: "push_delta step d (buf, st) = (buf1, st1)" by (cases "push_delta step d (buf, st)")
    then have "asks_well g cfg opts prompt user st st1"
      using flush [of st "buf @ fst d"] by (cases d) (auto simp: push_delta_def split: if_splits)
    then show ?case using Cons [of st1 buf1] p by (auto intro: asks_well_trans)
  qed simp
  from this [of "[]"] show ?thesis
    by (auto simp: stream_deltas_def split: prod.split intro: asks_well_trans [OF _ flush])
qed

lemma step_requests:
  assumes "selector_ok opts" "in_turn user (ls_history st)" "run_step w g cfg opts prompt user step st = (r, st')"
  shows "asks_well g cfg opts prompt user st st' \<and> in_turn user (ls_history st')"
proof (cases "world_stopped w (ls_trace st)")
  case True
  then show ?thesis using assms by (auto simp: run_step_def read_stop_def history_keep intro: asks_well_act)
next
  case False
  define st2 where "st2 = emit (StepStart step) (act ReadStop st)"
  define offered where "offered = offer g opts user (ls_history st2)"
  have st2: "asks_well g cfg opts prompt user st st2" unfolding st2_def
    by (rule asks_well_trans [OF asks_well_act asks_well_emit]) simp
  have h2: "in_turn user (ls_history st2)" using assms(2) by (simp add: st2_def history_keep)
  note unf = run_step_def read_stop_def False st2_def [symmetric] offered_def [symmetric]
  show ?thesis
  proof (cases "request_messages opts offered (system_message prompt # ls_history st2)")
    case (Inl e)
    then have "st' = emit (ErrorEvent e) st2" using assms(3) by (auto simp: unf Let_def)
    then show ?thesis using st2 h2 by (auto simp: history_keep intro: asks_well_trans)
  next
    case (Inr ms)
    define rq where "rq = \<lparr>rq_model = lc_model cfg, rq_messages = ms, rq_tools = offered,
      rq_max_tokens = lc_max_tokens cfg\<rparr>"
    have "request_ok g cfg opts prompt user rq"
      using request_messages_ok [OF h2 Inr, of rq] offer_ok [OF assms(1)] by (simp add: rq_def request_ok_def offered_def)
    then have "asks_well g cfg opts prompt user st2 (act (AskModel rq) st2)" by (auto intro: asks_well_act)
    obtain ds reply where m: "world_model w (ls_trace st2) rq = (ds, reply)"
      by (cases "world_model w (ls_trace st2) rq")
    define st3 where "st3 = stream_deltas step ds (act (AskModel rq) st2)"
    have st3: "asks_well g cfg opts prompt user st st3" unfolding st3_def
      by (rule asks_well_trans [OF st2 asks_well_trans [OF \<open>asks_well g cfg opts prompt user st2 _\<close> asks_well_stream]])
    have h3: "in_turn user (ls_history st3)" using h2 by (simp add: st3_def history_keep history_stream)
    note unf = unf Inr rq_def [symmetric] m st3_def [symmetric]
    show ?thesis
    proof (cases reply)
      case (Inl e)
      then have "st' = emit (ErrorEvent (show_llm_error e)) st3" using assms(3) by (auto simp: unf Let_def)
      then show ?thesis using st3 h3 by (auto simp: history_keep intro: asks_well_trans)
    next
      case (Inr rr)
      obtain t usage where r: "rr = (t, usage)" by (cases rr)
      define st5 where "st5 = push_message (assistant_message t) (emit_usage step usage st3)"
      have st5: "asks_well g cfg opts prompt user st st5" unfolding st5_def
        by (rule asks_well_trans [OF st3 asks_well_trans [OF _ asks_well_push]])
          (auto simp: emit_usage_def split: option.split)
      have h5: "in_turn user (ls_history st5)" unfolding st5_def history_keep
        by (rule in_turn_push [OF h3]) (simp_all add: assistant_message_def)
      have o5: "open_ids {} (ls_history st5) = call_id ` set (at_calls t)"
        by (simp add: st5_def open_after_message_def assistant_message_def history_keep)
      note unf = unf Inr r st5_def [symmetric]
      show ?thesis
      proof (cases "at_calls t = []")
        case True
        then have "st' = emit (Final (at_content t)) st5" using assms(3) by (auto simp: unf Let_def)
        then show ?thesis using st5 h5 by (auto simp: history_keep intro: asks_well_trans)
      next
        case False
        obtain b st6 where c: "run_calls w g cfg step 0 (at_calls t) st5 = (b, st6)"
          by (cases "run_calls w g cfg step 0 (at_calls t) st5")
        have "asks_well g cfg opts prompt user st st6" "in_turn user (ls_history st6)"
          using asks_well_trans [OF st5 asks_well_calls [of g cfg opts prompt user st5 w step 0 "at_calls t"]]
            calls_in_turn [OF h5, of "at_calls t" w g cfg step 0] c o5 by simp_all
        moreover have "st' = (if b then emit (StepEnd step) st6 else st6)"
          using assms(3) False c by (cases b) (auto simp: unf Let_def)
        ultimately show ?thesis by (auto simp: history_keep intro: asks_well_trans)
      qed
    qed
  qed
qed

lemma steps_requests:
  "selector_ok opts \<Longrightarrow> in_turn user (ls_history st) \<Longrightarrow>
     asks_well g cfg opts prompt user st (snd (run_steps w g cfg opts prompt user s n st)) \<and>
     in_turn user (ls_history (snd (run_steps w g cfg opts prompt user s n st)))"
proof (induction n arbitrary: s st)
  case 0
  then show ?case by (simp add: finish_def history_keep asks_well_trans [OF asks_well_emit asks_well_emit])
next
  case (Suc n)
  obtain r st1 where r: "run_step w g cfg opts prompt user s st = (r, st1)"
    by (cases "run_step w g cfg opts prompt user s st")
  note st1 = step_requests [OF Suc.prems r]
  show ?case using r st1 Suc.IH [OF Suc.prems(1), of st1 "Suc s"]
    by (cases r) (auto simp: finish_def history_keep intro: asks_well_trans)
qed

text \<open>
  C26. Every request of a turn on a transcript without orphaned tool results is well formed: the
  configured model, the turn's system prompt, the user's message in full with everything after it, no
  tool result without the call it answers, registered tools only and no more than the ceiling, and,
  with a budget, messages, tools and the room for the answer that fit it together. The transcript it
  leaves is without orphans again, so the next turn's requests are well formed too.
\<close>

theorem requests_well_formed:
  assumes "no_orphans {} (ls_history st)"
    and "selector_ok opts"
    and "run_turn_with w g cfg opts user st = (out, st')"
  shows "\<exists>as. ls_trace st' = ls_trace st @ as \<and> no_orphans {} (ls_history st') \<and>
    requests_ok g cfg opts (turn_system_prompt cfg opts user (ls_history st)) user as"
proof -
  have "in_turn user (ls_history (push_message (user_message user) st))"
    using in_turn_start [OF assms(1)] by (simp add: history_keep)
  from steps_requests [OF assms(2) this] show ?thesis
    using assms(3) unfolding run_turn_with_def
    by (auto simp: asks_well_def in_turn_def push_message_def) (metis snd_conv)
qed

end
