(* ===== verification/WorkflowProperties.thy ===== *)
theory WorkflowProperties
  imports Workflow RequestProperties
begin

text \<open>
  Workflows extend the guarantees of turns, succeed only on the verdicts of every verifier, and read
  the right records when the calls of a message have distinct ids. What compaction keeps carries over
  to every request a turn makes.
\<close>

section \<open>Workflows respect what turns respect\<close>

context turn_order
begin

lemma review: "ok st (review_attempt w rw s k a st)"
proof (cases rw)
  case (Some r)
  then show ?thesis
    by (auto simp: review_attempt_def read_stop_def Let_def intro: stop trans [OF ask_review emit])
qed (simp add: review_attempt_def refl)

lemma judged: "ok st (snd (judge vs ctx st))"
proof (induction vs arbitrary: st)
  case (Cons v vs)
  show ?case
    using trans [OF emit Cons] by (simp add: Let_def split: prod.split) (metis plain_simps(11) snd_conv trans emit Cons)
qed (simp add: refl)

lemma attempts: "ok st (snd (run_attempts w g cfg opts rw s k n feedback st))"
proof (induction n arbitrary: k feedback st)
  case (Suc n)
  show ?case
  proof (cases "world_stopped w (ls_trace st)")
    case True
    then show ?thesis by (simp add: read_stop_def stop)
  next
    case False
    obtain out st2 where t: "run_turn_with w g cfg opts (attempt_prompt s feedback) (act ReadStop st) = (out, st2)"
      by (cases "run_turn_with w g cfg opts (attempt_prompt s feedback) (act ReadStop st)")
    have st2: "ok st st2"
      using trans [OF stop turn [of "act ReadStop st" opts "attempt_prompt s feedback"]] t by simp
    show ?thesis
    proof (cases out)
      case (Answered a)
      define st3 where "st3 = review_attempt w rw s k a st2"
      define ctx where "ctx = \<lparr>vc_step = ws_id s, vc_answer = a,
        vc_tools = records_since (drop (length (ls_history (act ReadStop st))) (ls_history st3))\<rparr>"
      obtain fb st4 where j: "judge (ws_verifiers s) ctx st3 = (fb, st4)" by (cases "judge (ws_verifiers s) ctx st3")
      have "ok st st3" unfolding st3_def by (rule trans [OF st2 review])
      then have "ok st st4" using trans [OF _ judged [of st3 "ws_verifiers s" ctx]] j by simp
      then show ?thesis
        using False t Answered j Suc [of st4 "Suc k" fb]
        by (auto simp: read_stop_def Let_def st3_def [symmetric] ctx_def [symmetric] intro: trans)
    qed (use False t st2 Suc trans in \<open>auto simp: read_stop_def\<close>)
  qed
qed (simp add: refl)

lemma wf_steps_ok: "ok st (snd (run_wf_steps w g cfg opts rw answers ss st))"
proof (induction ss arbitrary: answers st)
  case (Cons s ss)
  obtain r st1 where r: "run_attempts w g cfg opts rw s 1 (ws_max_attempts s) [] st = (r, st1)"
    by (cases "run_attempts w g cfg opts rw s 1 (ws_max_attempts s) [] st")
  then have "ok st st1" using attempts [of st opts rw s 1 "ws_max_attempts s" "[]"] by simp
  then show ?case using r Cons by (cases r) (auto intro: trans)
qed (simp add: refl)

lemma workflow: "ok st (snd (run_workflow_reviewed w g cfg opts rw wk st))"
  unfolding run_workflow_reviewed_def by (rule trans [OF emit wf_steps_ok]) simp

end

lemma downgraded_split:
  "downgraded g tr t (xs @ Execute k c # ys) \<Longrightarrow> tainted_after g tr t xs \<Longrightarrow>
     \<exists>s. find_spec g (call_name c) = Some s \<and> \<not> is_effectful (spec_annotations s)"
  by (auto simp: downgraded_append permitted_def split: option.splits)

lemma tainted_after_brings:
  "t \<Longrightarrow> tainted_after g tr t xs" "brings g (tr @ xs) a \<Longrightarrow> tainted_after g tr t (xs @ a # ys)"
proof -
  have keep: "t \<Longrightarrow> tainted_after g tr t xs" for tr t xs by (induction xs arbitrary: tr t) auto
  then show "t \<Longrightarrow> tainted_after g tr t xs" .
  show "brings g (tr @ xs) a \<Longrightarrow> tainted_after g tr t (xs @ a # ys)" by (simp add: tainted_after_append keep)
qed

text \<open>
  C24. In a workflow, whose attempts are turns, a session that is tainted, or to which some host
  brought untrusted content since the workflow began, hands no tool with an effect to a host without
  asking the member: what runs without an explicit approval after that is a tool declared to have none.
\<close>

theorem untrusted_content_downgrades:
  assumes "never_cleared w"
    and "run_workflow_reviewed w g cfg opts rw wk st = (out, st')"
    and "ls_trace st' = ls_trace st @ xs @ Execute k c # ys"
    and "is_tainted (ls_taint st) \<or> (\<exists>us a vs. xs = us @ a # vs \<and> brings g (ls_trace st @ us) a)"
  shows "\<exists>s. find_spec g (call_name c) = Some s \<and> \<not> is_effectful (spec_annotations s)"
proof -
  have "keeps_taint g st st'"
    using taint_order.workflow [where w = w and g = g and cfg = cfg and st = st and opts = opts and rw = rw and wk = wk]
      assms(1,2) by simp
  then have "downgraded g (ls_trace st) (is_tainted (ls_taint st)) (xs @ Execute k c # ys)"
    using assms(3) by (auto simp: keeps_taint_def)
  then show ?thesis
    using assms(4) by (elim downgraded_split) (auto intro: tainted_after_brings)
qed

lemma guarded_dispatch:
  assumes "guarded w g tr as" "as = xs @ dispatch_act c k why # ys"
  shows "\<exists>pre s. xs = pre @ [BeforeAnnounce c, Emit (ToolCallEvent s c (Some k) (why \<noteq> None) why)] \<and>
    may_run w g (tr @ pre) k c why"
  using assms
proof (induction arbitrary: xs rule: guarded.induct)
  case (dispatched tr k0 c0 why0 pre s0 as)
  have d: "dispatch_act c0 k0 why0 = dispatch_act c k why \<longleftrightarrow> c0 = c \<and> k0 = k \<and> why0 = why"
    by (auto simp: dispatch_act_def split: option.splits)
  have e: "pre @ as = xs @ dispatch_act c k why # ys" by fact
  consider (head) "xs = butlast pre" "c0 = c" "k0 = k" "why0 = why"
    | (later) us where "xs = pre @ us" "as = us @ dispatch_act c k why # ys"
    using e dispatched.hyps(2) d
    by (cases xs rule: list.exhaust; cases "tl xs" rule: list.exhaust; cases "tl (tl xs)" rule: list.exhaust)
      (auto simp: dispatch_act_def split: option.splits)
  then show ?case
  proof cases
    case head
    then show ?thesis using dispatched.hyps(1,2) by (intro exI [of _ "[]"] exI [of _ s0]) simp
  next
    case later
    obtain p s where "us = p @ [BeforeAnnounce c, Emit (ToolCallEvent s c (Some k) (why \<noteq> None) why)]"
      "may_run w g ((tr @ pre) @ p) k c why"
      using dispatched.IH [OF later(2)] by blast
    then show ?thesis using later(1) by (intro exI [of _ "pre @ p"] exI [of _ s]) simp
  qed
next
  case (other_act a tr as)
  then obtain us where us: "xs = a # us" "as = us @ dispatch_act c k why # ys"
    by (cases xs) (auto simp: harmless_def dispatch_act_def split: option.splits)
  obtain p s where "us = p @ [BeforeAnnounce c, Emit (ToolCallEvent s c (Some k) (why \<noteq> None) why)]"
    "may_run w g ((tr @ [a]) @ p) k c why"
    using other_act.IH [OF us(2)] by blast
  then show ?case using us(1) by (intro exI [of _ "a # p"] exI [of _ s]) simp
qed simp

text \<open>
  A host sees a call only right after it was announced as going to that host, with the reason for
  the explicit approval it carries; and before the announcement the tool was registered for that host,
  the host was there (and can ask, when a reason is given), the arguments were JSON and no policy
  declined.
\<close>

lemma hosts_see_announced_calls:
  assumes "run_workflow_reviewed w g cfg opts rw wk st = (out, st')"
    and "ls_trace st' = ls_trace st @ xs @ dispatch_act c k why # ys"
  shows "\<exists>pre s. xs = pre @ [BeforeAnnounce c, Emit (ToolCallEvent s c (Some k) (why \<noteq> None) why)] \<and>
    may_run w g (ls_trace st @ pre) k c why"
proof -
  have "grows_guarded w g st st'"
    using guarded_order.workflow [where w = w and g = g and cfg = cfg and st = st and opts = opts and rw = rw and wk = wk]
      assms(1) by simp
  then have "guarded w g (ls_trace st) (xs @ dispatch_act c k why # ys)"
    using assms(2) by (auto simp: grows_guarded_def)
  then show ?thesis by (rule guarded_dispatch) simp
qed

text \<open>
  C27. Stopping works: once the stop flag is up and stays up, whatever the moment, a workflow starts at
  most one more piece of work (a model call, a self-review or a tool call handed to a host), the one
  whose check had already passed.
\<close>

theorem stop_is_obeyed:
  assumes "\<forall>tr zs. world_stopped w tr \<longrightarrow> world_stopped w (tr @ zs)"
    and "run_workflow_reviewed w g cfg opts rw wk st = (out, st')"
    and "ls_trace st' = ls_trace st @ xs @ ys"
    and "world_stopped w (ls_trace st @ xs)"
  shows "length (filter work ys) \<le> 1"
proof -
  have "grows_checked w st st'"
    using stop_order.workflow [where w = w and g = g and cfg = cfg and st = st and opts = opts and rw = rw and wk = wk]
      assms(2) by simp
  then have "checked w (ls_trace st) False (xs @ ys)" using assms(3) by (auto simp: grows_checked_def)
  from checked_suffix [OF this] show ?thesis using checked_stopped [OF assms(1,4)] by fastforce
qed

section \<open>The work of a workflow\<close>

text \<open>What the self-review of an attempt may cost.\<close>

definition reviews :: "reviewer option \<Rightarrow> nat" where
  "reviews rw = (case rw of None \<Rightarrow> 0 | Some _ \<Rightarrow> 1)"

lemma works_review: "works (review_attempt w rw s k a st) \<le> works st + reviews rw"
  by (simp add: review_attempt_def reviews_def read_stop_def Let_def split: option.split)

lemma works_judge [simp]: "works (snd (judge vs ctx st)) = works st"
  by (induction vs arbitrary: st) (simp_all add: Let_def split: prod.split, metis snd_conv works_simps(1))

lemma works_turn: "works (snd (run_turn_with w g cfg opts user st)) \<le> works st + lc_max_steps cfg * Suc (lc_max_calls cfg)"
  using works_steps [of w g cfg opts _ user 1 "lc_max_steps cfg" "push_message (user_message user) st"]
  by (simp add: run_turn_with_def)

lemma works_attempts:
  "works (snd (run_attempts w g cfg opts rw s k n fb st)) \<le>
     works st + n * (lc_max_steps cfg * Suc (lc_max_calls cfg) + reviews rw)"
proof (induction n arbitrary: k fb st)
  case (Suc n)
  obtain out st2 where u: "run_turn_with w g cfg opts (attempt_prompt s fb) (act ReadStop st) = (out, st2)"
    by (cases "run_turn_with w g cfg opts (attempt_prompt s fb) (act ReadStop st)")
  have t: "works st2 \<le> works st + lc_max_steps cfg * Suc (lc_max_calls cfg)"
    using works_turn [of w g cfg opts "attempt_prompt s fb" "act ReadStop st"] u by simp
  have again: "works (snd (run_attempts w g cfg opts rw s k' n fb' st')) \<le>
      works st + Suc n * (lc_max_steps cfg * Suc (lc_max_calls cfg) + reviews rw)"
    if "works st' \<le> works st2 + reviews rw" for k' fb' st'
    using Suc [of k' fb' st'] t that by simp
  show ?case
  proof (cases "world_stopped w (ls_trace st)")
    case False
    show ?thesis
    proof (cases out)
      case (Answered a)
      define st3 where "st3 = review_attempt w rw s k a st2"
      define ctx where "ctx = \<lparr>vc_step = ws_id s, vc_answer = a,
        vc_tools = records_since (drop (length (ls_history (act ReadStop st))) (ls_history st3))\<rparr>"
      obtain fb' st4 where j: "judge (ws_verifiers s) ctx st3 = (fb', st4)" by (cases "judge (ws_verifiers s) ctx st3")
      have "works st4 = works st3" using works_judge [of "ws_verifiers s" ctx st3] j by simp
      then have w4: "works st4 \<le> works st2 + reviews rw"
        using works_review [of w rw s k a st2] by (simp add: st3_def)
      then show ?thesis using False u Answered j again [of st4] t
        by (simp add: read_stop_def Let_def st3_def [symmetric] ctx_def [symmetric])
    qed (use False u t again [of st2] in \<open>auto simp: read_stop_def\<close>)
  qed (simp add: read_stop_def)
qed simp

lemma works_wf_steps:
  "works (snd (run_wf_steps w g cfg opts rw as ss st)) \<le>
     works st + sum_list (map ws_max_attempts ss) * (lc_max_steps cfg * Suc (lc_max_calls cfg) + reviews rw)"
proof (induction ss arbitrary: as st)
  case (Cons s ss)
  obtain r st1 where r: "run_attempts w g cfg opts rw s 1 (ws_max_attempts s) [] st = (r, st1)"
    by (cases "run_attempts w g cfg opts rw s 1 (ws_max_attempts s) [] st")
  have "works st1 \<le> works st + ws_max_attempts s * (lc_max_steps cfg * Suc (lc_max_calls cfg) + reviews rw)"
    using works_attempts [of w g cfg opts rw s 1 "ws_max_attempts s" "[]" st] r by simp
  then show ?case
  proof (cases r)
    case (AttemptPassed a)
    then show ?thesis
      using Cons [of "as @ [a]" st1] r \<open>works st1 \<le> _\<close> by (simp add: add_mult_distrib)
  qed (use r in \<open>simp_all add: add_mult_distrib\<close>)
qed simp

lemma checked_attempts: "check_steps ss = Inr u \<Longrightarrow> sum_list (map ws_max_attempts ss) \<le> 5 * length ss"
  by (induction ss) (auto split: if_splits)

lemma workflow_new_checked: "workflow_new i ss = Inr wk \<Longrightarrow> wf_steps wk = ss \<and> ss \<noteq> [] \<and> check_steps ss = Inr ()"
  by (cases "check_steps ss") (auto simp: workflow_new_def split: if_splits)

text \<open>
  C28. The work of a workflow that \<open>Workflow::new\<close> accepted is bounded, whatever the model, the hosts
  and the verifiers do: its model calls, self-reviews and dispatched tool calls are at most five
  attempts per step, each of at most the configured number of steps of one model call and the
  configured tool calls, and one self-review (itself one model call) when the workflow is run with a
  reviewer.
\<close>

theorem workflow_work_bounded:
  assumes "workflow_new i ss = Inr wk"
  shows "works (snd (run_workflow_reviewed w g cfg opts rw wk st)) \<le>
    works st + 5 * length ss *
      (lc_max_steps cfg * Suc (lc_max_calls cfg) + (case rw of None \<Rightarrow> 0 | Some _ \<Rightarrow> 1))"
proof -
  have "wf_steps wk = ss" "sum_list (map ws_max_attempts ss) \<le> 5 * length ss"
    using workflow_new_checked [OF assms] checked_attempts by auto
  then show ?thesis
    using works_wf_steps [of w g cfg opts rw "[]" ss "emit (Plan (map ws_id ss)) st"]
    by (simp add: run_workflow_reviewed_def flip: reviews_def) (meson add_left_mono le_trans mult_le_mono1)
qed

section \<open>Only verifiers say done\<close>

definition grows :: "loop_state \<Rightarrow> loop_state \<Rightarrow> bool" where
  "grows st st' \<longleftrightarrow> prefix (ls_history st) (ls_history st') \<and> prefix (ls_trace st) (ls_trace st')"

lemma grows_trans: "grows st1 st2 \<Longrightarrow> grows st2 st3 \<Longrightarrow> grows st1 st3"
  unfolding grows_def by (meson prefix_order.trans)

lemma one_call_grows: "grows st (one_call w g cfg step i c st)"
proof -
  define cd where "cd = decide_call w g cfg i c (ls_trace st) (world_taint w (ls_trace st) (ls_taint st))"
  obtain out tl where "ls_trace (one_call w g cfg step i c st) = ls_trace st @ head_acts step c cd @
       Emit (ToolResultEvent step (call_id c) (out_status out) (to_content out)) # tl"
    "ls_history (one_call w g cfg step i c st) = ls_history st @ [tool_result (call_id c) (to_content out)]"
    using one_call_shape [OF cd_def, of step] by metis
  then show ?thesis by (simp add: grows_def)
qed

interpretation grow_order: turn_order w g cfg grows for w g cfg
proof (unfold_locales, goal_cases)
  case (8 st step i c)
  show ?case using grows_trans [OF _ one_call_grows [of "act ReadStop st" w g cfg step i c], of st] by (simp add: grows_def act_def)
qed (auto simp: grows_def act_def emit_def push_message_def intro: prefix_order.trans)

text \<open>The message an answer without calls leaves at the end of the transcript.\<close>

abbreviation answer_message :: "string \<Rightarrow> message" where
  "answer_message a \<equiv> assistant_message \<lparr>at_content = a, at_calls = []\<rparr>"

lemma step_answered:
  assumes "run_step w g cfg opts prompt user step st = (Some (Answered a), st')"
  shows "\<exists>h. ls_history st' = h @ [answer_message a]"
  using assms
  by (auto simp: run_step_def read_stop_def Let_def history_keep assistant_message_def
      split: sum.splits prod.splits bool.splits if_splits)

lemma turn_answered:
  assumes "run_turn_with w g cfg opts user st = (Answered a, st')"
  shows "\<exists>h. ls_history st' = ls_history st @ user_message user # h @ [answer_message a]"
proof -
  have last: "run_steps w g cfg opts prompt user s n st = (Answered a, st') \<Longrightarrow>
      \<exists>h. ls_history st' = h @ [answer_message a]" for prompt s n st
  proof (induction n arbitrary: s st)
    case (Suc n)
    obtain r st1 where r: "run_step w g cfg opts prompt user s st = (r, st1)"
      by (cases "run_step w g cfg opts prompt user s st")
    show ?case
    proof (cases r)
      case None
      then show ?thesis using Suc r by simp
    next
      case (Some o1)
      then have "o1 = Answered a" "ls_history st' = ls_history st1" using Suc.prems r
        by (auto simp: finish_def history_keep)
      then show ?thesis using step_answered [of w g cfg opts prompt user s st a st1] r Some by simp
    qed
  qed (simp add: finish_def)
  obtain h where h: "ls_history st' = h @ [answer_message a]"
    using last assms unfolding run_turn_with_def by blast
  let ?st = "push_message (user_message user) st"
  have "grows ?st st'"
    using grow_order.steps [of ?st w g cfg opts "turn_system_prompt cfg opts user (ls_history st)" user 1 "lc_max_steps cfg"]
      assms by (simp add: run_turn_with_def)
  then obtain t where t: "ls_history st' = ls_history st @ user_message user # t"
    by (auto simp: grows_def prefix_def history_keep)
  have "t \<noteq> []" using h t by (auto simp: assistant_message_def user_message_def dest: arg_cong [where f = last])
  then obtain t' m where "t = t' @ [m]" by (cases t rule: rev_cases) auto
  then show ?thesis using h t by (metis append.assoc append_Cons last_snoc)
qed

text \<open>
  The attempt with transcript \<open>h\<close> ended in the answer \<open>a\<close>, and the trace shows every verifier of the
  step passing it.
\<close>

definition passed :: "wf_step \<Rightarrow> string \<Rightarrow> message list \<Rightarrow> trace \<Rightarrow> bool" where
  "passed s a h tr \<longleftrightarrow>
     (\<forall>v \<in> set (ws_verifiers s). \<exists>as bs. tr = as @ Emit (VerifierEvent (ws_id s) (vf_name v) True []) # bs \<and>
        vf_verify v as \<lparr>vc_step = ws_id s, vc_answer = a, vc_tools = records_since h\<rparr> = Pass)"

definition done_by :: "loop_state \<Rightarrow> wf_step \<Rightarrow> string \<Rightarrow> bool" where
  "done_by st s a \<longleftrightarrow>
     (\<exists>pre feedback h post.
        ls_history st = pre @ (user_message (attempt_prompt s feedback) # h @ [answer_message a]) @ post \<and>
        passed s a (user_message (attempt_prompt s feedback) # h @ [answer_message a]) (ls_trace st))"

lemma done_by_grows: "done_by st s a \<Longrightarrow> grows st st' \<Longrightarrow> done_by st' s a"
proof -
  assume d: "done_by st s a" and g: "grows st st'"
  obtain x y where x: "ls_history st' = ls_history st @ x" "ls_trace st' = ls_trace st @ y"
    using g by (auto simp: grows_def prefix_def)
  obtain pre fb h post where h: "ls_history st = pre @ (user_message (attempt_prompt s fb) # h @ [answer_message a]) @ post"
    "passed s a (user_message (attempt_prompt s fb) # h @ [answer_message a]) (ls_trace st)"
    using d unfolding done_by_def by blast
  have "passed s a (user_message (attempt_prompt s fb) # h @ [answer_message a]) (ls_trace st @ y)"
    using h(2) unfolding passed_def by (metis append.assoc append_Cons)
  then show ?thesis unfolding done_by_def using h(1) x by (metis append.assoc)
qed

lemma judge_passed:
  "judge vs ctx st = ([], st') \<Longrightarrow>
     \<forall>v \<in> set vs. \<exists>as bs. ls_trace st' = as @ Emit (VerifierEvent (vc_step ctx) (vf_name v) True []) # bs \<and>
       vf_verify v as ctx = Pass"
proof (induction vs arbitrary: st)
  case (Cons v vs)
  let ?st1 = "emit (VerifierEvent (vc_step ctx) (vf_name v) True []) st"
  have p: "vf_verify v (ls_trace st) ctx = Pass" "judge vs ctx ?st1 = ([], st')"
    using Cons.prems by (auto simp: Let_def split: prod.splits if_splits)
  have "grows ?st1 st'" using grow_order.judged [of ?st1 vs ctx] p(2) by simp
  then obtain bs where "ls_trace st' = ls_trace st @ Emit (VerifierEvent (vc_step ctx) (vf_name v) True []) # bs"
    by (auto simp: grows_def prefix_def emit_def act_def)
  then show ?case using Cons.IH [OF p(2)] p(1) by auto
qed simp

lemma attempt_passed:
  "run_attempts w g cfg opts rw s k n fb st = (AttemptPassed a, st') \<Longrightarrow> done_by st' s a"
proof (induction n arbitrary: k fb st)
  case (Suc n)
  obtain out st2 where t: "run_turn_with w g cfg opts (attempt_prompt s fb) (act ReadStop st) = (out, st2)"
    by (cases "run_turn_with w g cfg opts (attempt_prompt s fb) (act ReadStop st)")
  have run: "\<not> world_stopped w (ls_trace st)" using Suc.prems by (auto simp: read_stop_def)
  show ?case
  proof (cases out)
    case (Answered b)
    define st3 where "st3 = review_attempt w rw s k b st2"
    define seg where "seg = drop (length (ls_history (act ReadStop st))) (ls_history st3)"
    define ctx where "ctx = \<lparr>vc_step = ws_id s, vc_answer = b, vc_tools = records_since seg\<rparr>"
    obtain fb' st4 where j: "judge (ws_verifiers s) ctx st3 = (fb', st4)" by (cases "judge (ws_verifiers s) ctx st3")
    have r: "(if fb' = [] then (AttemptPassed b, st4) else run_attempts w g cfg opts rw s (Suc k) n fb' st4)
        = (AttemptPassed a, st')"
      using Suc.prems run t Answered j by (simp add: read_stop_def Let_def st3_def [symmetric] seg_def [symmetric] ctx_def [symmetric])
    show ?thesis
    proof (cases "fb' = []")
      case True
      then have e: "b = a" "st4 = st'" using r by auto
      obtain h where h: "ls_history st2 = ls_history st @ user_message (attempt_prompt s fb) # h @ [answer_message b]"
        using turn_answered t Answered by (metis history_keep(2))
      have h3: "ls_history st3 = ls_history st2"
        by (simp add: st3_def review_attempt_def read_stop_def history_keep Let_def split: option.split)
      then have seg: "seg = user_message (attempt_prompt s fb) # h @ [answer_message b]" using h by (simp add: seg_def history_keep)
      have "grows st3 st4" using grow_order.judged [of st3 "ws_verifiers s" ctx] j by simp
      then obtain post where "ls_history st4 = ls_history st2 @ post" by (auto simp: grows_def prefix_def h3)
      moreover have "passed s b seg (ls_trace st4)"
        using judge_passed [of "ws_verifiers s" ctx st3 st4] j True by (simp add: passed_def ctx_def)
      ultimately show ?thesis unfolding done_by_def using e h seg by (metis append.assoc)
    next
      case False
      then show ?thesis using Suc.IH r by simp
    qed
  qed (use Suc run t in \<open>auto simp: read_stop_def\<close>)
qed simp

lemma wf_steps_done:
  "run_wf_steps w g cfg opts rw as ss st = (Succeeded bs, st') \<Longrightarrow>
     \<exists>cs. bs = as @ cs \<and> list_all2 (done_by st') ss cs"
proof (induction ss arbitrary: as st)
  case (Cons s ss)
  obtain r st1 where r: "run_attempts w g cfg opts rw s 1 (ws_max_attempts s) [] st = (r, st1)"
    by (cases "run_attempts w g cfg opts rw s 1 (ws_max_attempts s) [] st")
  then obtain a where a: "r = AttemptPassed a" using Cons.prems by (cases r) auto
  then have rest: "run_wf_steps w g cfg opts rw (as @ [a]) ss st1 = (Succeeded bs, st')" using Cons.prems r by simp
  obtain cs where cs: "bs = (as @ [a]) @ cs" "list_all2 (done_by st') ss cs" using Cons.IH [OF rest] by blast
  have "grows st1 st'" using grow_order.wf_steps_ok [of st1 w g cfg opts rw "as @ [a]" ss] rest by simp
  then have "done_by st' s a" using attempt_passed r a done_by_grows by blast
  then show ?case using cs by (intro exI [of _ "a # cs"]) simp
qed simp

text \<open>
  C25. A workflow succeeds only on the word of its verifiers: for every step, in order, the transcript
  holds an attempt that starts with the step's prompt and ends with the answer reported, and every
  verifier of the step judged that answer and the tool records of that very attempt and passed, as the
  trace shows. The model's own opinion decides nothing.
\<close>

theorem success_needs_every_verifier:
  assumes "run_workflow_reviewed w g cfg opts rw wk st = (Succeeded answers, st')"
  shows "list_all2 (done_by st') (wf_steps wk) answers"
  using wf_steps_done [OF assms [unfolded run_workflow_reviewed_def]] by simp

section \<open>The records verifiers read\<close>

text \<open>Reference: a result belongs to the call of the assistant message it follows.\<close>

definition record_of :: "tool_call \<Rightarrow> message \<Rightarrow> tool_record" where
  "record_of c m =
     \<lparr>rec_name = call_name c, rec_args = call_args c, rec_content = msg_content m, rec_status = status_of (msg_content m)\<rparr>"

fun own_records :: "tool_call list \<Rightarrow> message list \<Rightarrow> tool_record list" where
  "own_records cs [] = []"
| "own_records cs (m # ms) =
     (case msg_role m of
        Assistant \<Rightarrow> own_records (msg_calls m) ms
      | Tool \<Rightarrow>
          (case find (\<lambda>c. msg_call_id m = Some (call_id c)) cs of
             Some c \<Rightarrow> [record_of c m] | None \<Rightarrow> []) @ own_records cs ms
      | _ \<Rightarrow> own_records [] ms)"

text \<open>Only assistants call, and the ids within one message are distinct (across messages they may repeat).\<close>

definition distinct_ids :: "message list \<Rightarrow> bool" where
  "distinct_ids = list_all (\<lambda>m. distinct (map call_id (msg_calls m)) \<and> (msg_role m \<noteq> Assistant \<longrightarrow> msg_calls m = []))"

lemma note_calls_other: "i \<notin> call_id ` set cs \<Longrightarrow> note_calls cs m i = m i"
  unfolding note_calls_def by (induction cs arbitrary: m) auto

lemma note_calls_find:
  "distinct (map call_id cs) \<Longrightarrow> c \<in> set cs \<Longrightarrow> note_calls cs m (call_id c) = Some (call_name c, call_args c)"
proof (induction cs arbitrary: m)
  case (Cons d cs)
  have n: "note_calls (d # cs) m = note_calls cs (m(call_id d \<mapsto> (call_name d, call_args d)))"
    by (simp add: note_calls_def)
  show ?case
  proof (cases "c = d")
    case True
    then show ?thesis using Cons.prems note_calls_other [of "call_id d" cs] by (simp add: n)
  next
    case False
    then show ?thesis using Cons n by simp
  qed
qed simp

lemma records_from_own:
  "no_orphans (call_id ` set cs) h \<Longrightarrow> distinct_ids h \<Longrightarrow>
     \<forall>c \<in> set cs. calls (call_id c) = Some (call_name c, call_args c) \<Longrightarrow> distinct (map call_id cs) \<Longrightarrow>
     records_from calls h = own_records cs h"
proof (induction h arbitrary: calls cs)
  case (Cons m h)
  have ids: "distinct (map call_id (msg_calls m))" "distinct_ids h" "msg_role m \<noteq> Assistant \<Longrightarrow> msg_calls m = []"
    using Cons.prems(2) by (auto simp: distinct_ids_def)
  show ?case
  proof (cases "msg_role m")
    case Assistant
    have "\<forall>c \<in> set (msg_calls m). note_calls (msg_calls m) calls (call_id c) = Some (call_name c, call_args c)"
      using note_calls_find [OF ids(1)] by blast
    then show ?thesis using Cons.IH [of "msg_calls m" "note_calls (msg_calls m) calls"] Cons.prems(1) ids(1,2) Assistant
      by simp
  next
    case Tool
    then obtain i where i: "msg_call_id m = Some i" "i \<in> call_id ` set cs" "no_orphans (call_id ` set cs) h"
      using Cons.prems(1) by (auto split: option.splits)
    obtain c where c: "find (\<lambda>c. msg_call_id m = Some (call_id c)) cs = Some c"
      using i by (cases "find (\<lambda>c. msg_call_id m = Some (call_id c)) cs") (auto simp: find_None_iff)
    then have "c \<in> set cs" "call_id c = i" using i(1) by (auto simp: find_Some_iff)
    then have "calls i = Some (call_name c, call_args c)" using Cons.prems(3) by blast
    then show ?thesis
      using Cons.IH [OF i(3) ids(2) Cons.prems(3,4)] Tool ids(3) c i(1) by (simp add: note_calls_def record_of_def)
  next
    case System
    then show ?thesis using Cons.IH [of "[]"] Cons.prems(1) ids by (simp add: note_calls_def)
  next
    case User
    then show ?thesis using Cons.IH [of "[]"] Cons.prems(1) ids by (simp add: note_calls_def)
  qed
qed simp

text \<open>
  On a transcript without orphans whose assistant messages give each of their calls an id of its
  own, the records handed to the verifiers are the reference's: every tool result, in order, under the
  name and arguments of the call it answers, even when later messages use the same ids again.
\<close>

lemma records_are_own:
  assumes "no_orphans {} h" and "distinct_ids h"
  shows "records_since h = own_records [] h"
  unfolding records_since_def using assms by (intro records_from_own) auto

text \<open>
  Without that the records mislead: two calls of one message with one id are both recorded under the
  second, so a tool whose call was declined counts as succeeded, and one that ran as never called.
\<close>

lemma shared_id_misleads:
  assumes "call_id a = i" "call_id b = i" "call_name a \<noteq> call_name b" "status_of ok = StOk"
  shows "\<exists>ctx. vc_tools ctx = records_since
      [assistant_message \<lparr>at_content = [], at_calls = [a, b]\<rparr>, tool_result i ok, tool_result i (to_content (OutDenied why))] \<and>
    vf_verify (tool_succeeded (call_name b)) tr ctx = Pass \<and> vf_verify (tool_not_called (call_name a)) tr ctx = Pass"
  using assms
  by (intro exI [of _ "\<lparr>vc_step = [], vc_answer = [], vc_tools = records_since
      [assistant_message \<lparr>at_content = [], at_calls = [a, b]\<rparr>, tool_result i ok, tool_result i (to_content (OutDenied why))]\<rparr>"])
    (simp add: records_since_def assistant_message_def tool_result_def note_calls_def tool_succeeded_def tool_not_called_def)

section \<open>A session\<close>

text \<open>
  A small session for the witnesses: the model calls a tool that only reads twice, then answers; the
  flag goes up once the trace has \<open>n\<close> entries.
\<close>

definition demo_spec :: tool_spec where
  "demo_spec = \<lparr>spec_name = ''read'', spec_description = [], spec_parameters = [], spec_host = Core,
     spec_annotations = \<lparr>ann_read_only = True, ann_destructive = False, ann_idempotent = True, ann_open_world = True,
       ann_effect = Some NoEffect, ann_trust = None\<rparr>\<rparr>"

definition demo_registry :: registry where
  "demo_registry = \<lparr>rg_specs = [demo_spec],
     rg_hosts = (\<lambda>k. if k = Core then Some \<lparr>honors_explicit = False, host_execute = (\<lambda>_ _. OutOk ''page''),
       host_explicit = (\<lambda>_ _ _. OutError [])\<rparr> else None), rg_policies = []\<rparr>"

definition demo_call :: "string \<Rightarrow> tool_call" where
  "demo_call i = \<lparr>call_id = i, call_name = ''read'', call_args = []\<rparr>"

definition demo_world :: "nat \<Rightarrow> world" where
  "demo_world n = \<lparr>world_json = (\<lambda>_. True),
     world_model = (\<lambda>tr _. ([], Inr (if list_ex (\<lambda>a. case a of Execute _ _ \<Rightarrow> True | _ \<Rightarrow> False) tr
        then \<lparr>at_content = ''ok'', at_calls = []\<rparr>
        else \<lparr>at_content = [], at_calls = [demo_call ''1'', demo_call ''2'']\<rparr>, None))),
     world_stopped = (\<lambda>tr. n \<le> length tr), world_taint = (\<lambda>_ t. t)\<rparr>"

definition demo_config :: loop_config where
  "demo_config = \<lparr>lc_model = [], lc_system_prompt = [], lc_max_steps = 2, lc_max_calls = 4, lc_max_tokens = 9\<rparr>"

definition demo_step :: wf_step where
  "demo_step = \<lparr>ws_id = ''s'', ws_instruction = ''go'', ws_verifiers = [tool_succeeded ''read''], ws_max_attempts = 1\<rparr>"

definition demo_start :: loop_state where
  "demo_start = \<lparr>ls_history = [], ls_taint = untainted, ls_trace = []\<rparr>"

definition demo_run :: "nat \<Rightarrow> workflow_outcome \<times> loop_state" where
  "demo_run n = run_workflow_reviewed (demo_world n) demo_registry demo_config default_options None
     \<lparr>wf_id = ''w'', wf_steps = [demo_step]\<rparr> demo_start"

lemmas loop_defs =
  run_workflow_reviewed_def run_turn_with_def run_step_def read_stop_def finish_def emit_def act_def push_message_def
  stream_deltas_def flush_delta_def offer_def offered_tools_def request_messages_def default_options_def emit_usage_def
  assistant_message_def one_call_def others_taint_def decide_call_def perform_def announce_def taint_after_def taint_by_def
  refusal_def host_of_def find_spec_def hic_reason_def refused_hic_def ingests_def declined_def is_tainted_def
  taint_record_of_def untainted_def review_attempt_def records_since_def note_calls_def status_of_def tool_succeeded_def
  is_effectful_def output_untrusted_def tool_result_def user_message_def attempt_prompt_def

lemmas demo_defs =
  demo_run_def demo_world_def demo_registry_def demo_config_def demo_spec_def demo_step_def demo_start_def demo_call_def

lemma demo_done: "fst (demo_run 100) = Succeeded [''ok'']"
  by (simp add: loop_defs demo_defs Let_def eval_nat_numeral)

lemma demo_trace:
  "length (ls_trace (snd (demo_run 100))) = 23 \<and> ls_trace (snd (demo_run 100)) ! 8 = Execute Core (demo_call ''1'') \<and>
     ls_trace (snd (demo_run 100)) ! 14 = Execute Core (demo_call ''2'')"
  by (simp add: loop_defs demo_defs Let_def eval_nat_numeral)

lemma demo_stopped_trace: "9 < length (ls_trace (snd (demo_run 8)))"
  by (simp add: loop_defs demo_defs Let_def eval_nat_numeral)

lemma demo_run_eq:
  "run_workflow_reviewed (demo_world n) demo_registry demo_config default_options None
     \<lparr>wf_id = ''w'', wf_steps = [demo_step]\<rparr> demo_start = (fst (demo_run n), snd (demo_run n))"
  by (simp add: demo_run_def)

lemma demo_never_cleared: "never_cleared (demo_world n)"
  by (simp add: never_cleared_def demo_world_def)

theorem untrusted_content_downgrades_witness:
  "\<exists>s. find_spec demo_registry (call_name (demo_call ''2'')) = Some s \<and> \<not> is_effectful (spec_annotations s)"
proof (rule untrusted_content_downgrades [OF demo_never_cleared demo_run_eq [of 100], where k = Core])
  let ?tr = "ls_trace (snd (demo_run 100))"
  show "?tr = ls_trace demo_start @ take 14 ?tr @ Execute Core (demo_call ''2'') # drop 15 ?tr"
    using id_take_nth_drop [of 14 "?tr"] demo_trace by (simp add: demo_start_def eval_nat_numeral)
  have "take 14 ?tr = take 8 ?tr @ Execute Core (demo_call ''1'') # drop 9 (take 14 ?tr)"
    using id_take_nth_drop [of 8 "take 14 ?tr"] demo_trace by (simp add: min_def)
  moreover have "brings demo_registry tr (Execute Core (demo_call ''1''))" for tr
    by (simp add: brings_def demo_registry_def demo_call_def find_spec_def demo_spec_def ingests_def output_untrusted_def)
  ultimately show "is_tainted (ls_taint demo_start) \<or> (\<exists>us a vs. take 14 ?tr = us @ a # vs \<and>
      brings demo_registry (ls_trace demo_start @ us) a)"
    by blast
qed

theorem stop_is_obeyed_witness: "length (filter work (drop 8 (ls_trace (snd (demo_run 8))))) \<le> 1"
proof (rule stop_is_obeyed [OF _ demo_run_eq [of 8]])
  let ?tr = "ls_trace (snd (demo_run 8))"
  show "\<forall>tr zs. world_stopped (demo_world 8) tr \<longrightarrow> world_stopped (demo_world 8) (tr @ zs)"
    by (simp add: demo_world_def)
  show "?tr = ls_trace demo_start @ take 8 ?tr @ drop 8 ?tr" by (simp add: demo_start_def)
  show "world_stopped (demo_world 8) (ls_trace demo_start @ take 8 ?tr)"
    using demo_stopped_trace by (simp add: demo_world_def demo_start_def)
qed

theorem workflow_work_bounded_witness: "works (snd (demo_run 100)) \<le> 50"
proof -
  have "workflow_new ''w'' [demo_step] = Inr \<lparr>wf_id = ''w'', wf_steps = [demo_step]\<rparr>"
    by (simp add: workflow_new_def bind_result_def demo_step_def)
  from workflow_work_bounded [OF this, of "demo_world 100" demo_registry demo_config default_options None demo_start]
  show ?thesis by (simp add: demo_run_def demo_start_def demo_config_def works_def)
qed

theorem requests_well_formed_witness:
  "\<exists>as. requests_ok demo_registry demo_config default_options [] ''go'' as \<and> as \<noteq> []"
proof -
  define r where "r = run_turn_with (demo_world 100) demo_registry demo_config default_options ''go'' demo_start"
  have "r = (fst r, snd r)" by simp
  then obtain as where "ls_trace (snd r) = ls_trace demo_start @ as"
    "requests_ok demo_registry demo_config default_options (turn_system_prompt demo_config default_options ''go'' []) ''go'' as"
    using requests_well_formed [of demo_start default_options "demo_world 100" demo_registry demo_config "''go''" "fst r" "snd r"]
    by (auto simp: r_def demo_start_def selector_ok_def default_options_def)
  moreover have "ls_trace (snd r) \<noteq> []"
    by (simp add: r_def loop_defs demo_defs Let_def eval_nat_numeral)
  ultimately show ?thesis
    by (auto simp: turn_system_prompt_def demo_config_def default_options_def demo_start_def)
qed

theorem success_needs_every_verifier_witness: "list_all2 (done_by (snd (demo_run 100))) [demo_step] [''ok'']"
  using success_needs_every_verifier [OF demo_run_eq [of 100, unfolded demo_done]] by simp

end
