(* ===== verification/Text.thy ===== *)
theory Text
  imports PathGuard
begin

text \<open>Text routines of the Rust standard library that several components share.\<close>

text \<open>\<open>str::split_once\<close> of one character.\<close>

fun split_once :: "char \<Rightarrow> string \<Rightarrow> (string \<times> string) option" where
  "split_once d [] = None"
| "split_once d (c # s) =
     (if c = d then Some ([], s) else map_option (\<lambda>(a, b). (c # a, b)) (split_once d s))"

text \<open>\<open>str::lines\<close>: a line ends with a line feed, with or without a carriage return before it.\<close>

definition strip_cr :: "string \<Rightarrow> string" where
  "strip_cr l = (if l \<noteq> [] \<and> last l = CHR 13 then butlast l else l)"

definition lines_of :: "string \<Rightarrow> string list" where
  "lines_of s =
     (let ps = split_on CHR 10 s
      in map strip_cr (butlast ps) @ (if last ps = [] then [] else [last ps]))"

text \<open>A line has no line feed.\<close>

lemma lines_no_feed: "l \<in> set (lines_of s) \<Longrightarrow> CHR 10 \<notin> set l"
proof -
  have p: "\<forall>p \<in> set (split_on CHR 10 s). CHR 10 \<notin> set p" by (induction s) (auto split: list.splits)
  have b: "p \<in> set (split_on CHR 10 s)" if "p \<in> set (butlast (split_on CHR 10 s)) \<or> p = last (split_on CHR 10 s)" for p
  proof -
    have "split_on CHR 10 s \<noteq> []" by (induction s) (auto split: list.split)
    then show ?thesis using that by (auto dest: in_set_butlastD)
  qed
  assume "l \<in> set (lines_of s)"
  then obtain q where "q \<in> set (split_on CHR 10 s)" "set l \<subseteq> set q"
    using b by (auto simp: lines_of_def Let_def strip_cr_def dest: in_set_butlastD split: if_splits)
  then show ?thesis using p by blast
qed

text \<open>\<open>split_once(char::is_whitespace)\<close>, and the first word of \<open>split_whitespace\<close>.\<close>

fun split_white :: "string \<Rightarrow> (string \<times> string) option" where
  "split_white [] = None"
| "split_white (c # s) =
     (case find (\<lambda>w. starts_with w (c # s)) unicode_ws of
        Some w \<Rightarrow> Some ([], drop (length w) (c # s))
      | None \<Rightarrow> map_option (\<lambda>(a, b). (c # a, b)) (split_white s))"

definition first_word :: "string \<Rightarrow> string" where
  "first_word s = (let t = strip_any unicode_ws s in case split_white t of Some (w, _) \<Rightarrow> w | None \<Rightarrow> t)"

text \<open>\<open>s.split(sep).next()\<close>: the text before the first separator.\<close>

fun before_first :: "string \<Rightarrow> string \<Rightarrow> string" where
  "before_first sep [] = []"
| "before_first sep (c # s) = (if starts_with sep (c # s) then [] else c # before_first sep s)"

text \<open>\<open>iter().map(f).collect::<Result<Vec<_>, _>>()\<close>: the first error, or all results.\<close>

fun collect_results :: "('a \<Rightarrow> 'e + 'b) \<Rightarrow> 'a list \<Rightarrow> 'e + 'b list" where
  "collect_results f [] = Inr []"
| "collect_results f (x # xs) =
     bind_result (f x) (\<lambda>y. bind_result (collect_results f xs) (\<lambda>ys. Inr (y # ys)))"

lemma collect_results_Inr_iff [result_iff]:
  "collect_results f xs = Inr ys \<longleftrightarrow> list_all2 (\<lambda>x y. f x = Inr y) xs ys"
  by (induction xs arbitrary: ys) (auto simp: result_iff list_all2_Cons1)

lemma collect_results_mem: "collect_results f xs = Inr ys \<Longrightarrow> y \<in> set ys \<Longrightarrow> \<exists>x \<in> set xs. f x = Inr y"
  unfolding collect_results_Inr_iff by (induction rule: list_all2_induct) auto

text \<open>\<open>std::str::from_utf8\<close>: whether bytes are well-formed UTF-8.\<close>

definition is_cont :: "u8 \<Rightarrow> bool" where
  "is_cont b \<longleftrightarrow> 128 \<le> unat b \<and> unat b < 192"

text \<open>How many continuation bytes a first byte asks for, with the range of the first of them.\<close>

definition utf8_lead :: "u8 \<Rightarrow> (nat \<times> nat \<times> nat) option" where
  "utf8_lead b =
     (let n = unat b
      in if n < 128 then Some (0, 128, 191)
         else if 194 \<le> n \<and> n \<le> 223 then Some (1, 128, 191)
         else if n = 224 then Some (2, 160, 191)
         else if n = 237 then Some (2, 128, 159)
         else if 225 \<le> n \<and> n \<le> 239 then Some (2, 128, 191)
         else if n = 240 then Some (3, 144, 191)
         else if 241 \<le> n \<and> n \<le> 243 then Some (3, 128, 191)
         else if n = 244 then Some (3, 128, 143)
         else None)"

function utf8_ok :: "bytes \<Rightarrow> bool" where
  "utf8_ok [] = True"
| "utf8_ok (b # bs) =
     (case utf8_lead b of
        None \<Rightarrow> False
      | Some (k, lo, hi) \<Rightarrow>
          k \<le> length bs \<and> list_all is_cont (take k bs) \<and>
          (k = 0 \<or> lo \<le> unat (hd bs) \<and> unat (hd bs) \<le> hi) \<and> utf8_ok (drop k bs))"
  by pat_completeness auto
termination
  by (relation "measure length") auto

text \<open>The text of valid bytes.\<close>

definition text_of :: "bytes \<Rightarrow> string" where
  "text_of = map (\<lambda>b. char_of (unat b))"

definition from_utf8 :: "bytes \<Rightarrow> string option" where
  "from_utf8 bs = (if utf8_ok bs then Some (text_of bs) else None)"


text \<open>
  \<open>String::from_utf8_lossy\<close>: a first byte and the continuation bytes that still fit it, cut short of a
  character, become one replacement character (U+FFFD).
\<close>

definition good_conts :: "nat \<Rightarrow> nat \<Rightarrow> nat \<Rightarrow> bytes \<Rightarrow> nat" where
  "good_conts k lo hi bs =
     (if k = 0 \<or> bs = [] \<or> unat (hd bs) < lo \<or> hi < unat (hd bs) then 0
      else 1 + length (takeWhile is_cont (take (k - 1) (tl bs))))"

definition REPLACEMENT :: string where "REPLACEMENT = [CHR 239, CHR 191, CHR 189]"

function text_lossy :: "bytes \<Rightarrow> string" where
  "text_lossy [] = []"
| "text_lossy (b # bs) =
     (case utf8_lead b of
        None \<Rightarrow> REPLACEMENT @ text_lossy bs
      | Some (k, lo, hi) \<Rightarrow>
          let n = good_conts k lo hi bs
          in (if n = k then text_of (b # take k bs) else REPLACEMENT) @ text_lossy (drop n bs))"
  by pat_completeness auto
termination
  by (relation "measure length") auto

lemma good_conts_all:
  assumes "k \<le> length bs" "list_all is_cont (take k bs)" "k = 0 \<or> lo \<le> unat (hd bs) \<and> unat (hd bs) \<le> hi"
  shows "good_conts k lo hi bs = k"
proof (cases k)
  case (Suc j)
  then obtain c cs where bs: "bs = c # cs" using assms(1) by (cases bs) auto
  have "takeWhile is_cont (take j cs) = take j cs"
    using assms(2) Suc bs by (auto simp: list_all_iff intro: takeWhile_eq_all_conv [THEN iffD2])
  then have "length (takeWhile is_cont (take j cs)) = length (take j cs)" by (rule arg_cong)
  then show ?thesis using assms(1,3) Suc bs by (simp add: good_conts_def)
qed (simp add: good_conts_def)

lemma text_lossy_valid: "utf8_ok bs \<Longrightarrow> text_lossy bs = text_of bs"
proof (induction bs rule: utf8_ok.induct)
  case (2 b bs)
  then obtain k lo hi where k: "utf8_lead b = Some (k, lo, hi)" by (cases "utf8_lead b") auto
  have ok: "k \<le> length bs" "list_all is_cont (take k bs)" "k = 0 \<or> lo \<le> unat (hd bs) \<and> unat (hd bs) \<le> hi" "utf8_ok (drop k bs)"
    using 2(2) k by auto
  have "text_lossy (drop k bs) = text_of (drop k bs)" using 2(1) k ok(4) by auto
  moreover have "text_of (b # bs) = text_of (b # take k bs) @ text_of (drop k bs)"
    by (simp add: text_of_def flip: map_append)
  ultimately show ?case using k good_conts_all [OF ok(1-3)] by (simp add: Let_def)
qed (simp add: text_of_def)

end
