(* ===== verification/AutoApprove.thy ===== *)
theory AutoApprove
  imports Text
begin

text \<open>
  The auto-approve list of \<open>shell_run\<close> (\<open>agent-sidecar/src/auto_approve.rs\<close>) and the bare program names
  of the shell gate (\<open>agent-shell/src/lib.rs\<close>): rules over argument vectors, the checks on a list, the
  shipped list (\<open>agent-sidecar/policy/auto_approve.toml\<close>). Reading TOML is the parameter \<open>toml\<close>.
\<close>

section \<open>Program names\<close>

definition is_ascii_alphanumeric :: "char \<Rightarrow> bool" where
  "is_ascii_alphanumeric c \<longleftrightarrow>
     (let n = of_char c :: nat in 48 \<le> n \<and> n \<le> 57 \<or> 65 \<le> n \<and> n \<le> 90 \<or> 97 \<le> n \<and> n \<le> 122)"

text \<open>Why a program name is refused.\<close>

datatype name_error = EmptyName | LongName | NotBare | BadStart | BadCharacter char

definition validate_program_name :: "string \<Rightarrow> name_error + unit" where
  "validate_program_name program =
     (if program = [] then Inl EmptyName
      else if 64 < length program then Inl LongName
      else if CHR ''/'' \<in> set program \<or> CHR 0x5C \<in> set program then Inl NotBare
      else if starts_with ''-'' program \<or> starts_with ''.'' program then Inl BadStart
      else case find (\<lambda>c. \<not> (is_ascii_alphanumeric c \<or> c \<in> set ''._+-'')) program of
             Some c \<Rightarrow> Inl (BadCharacter c)
           | None \<Rightarrow> Inr ())"

section \<open>Arguments\<close>

definition MAX_SCRIPT_NAME :: nat where "MAX_SCRIPT_NAME = 64"
definition MAX_PATTERN :: nat where "MAX_PATTERN = 256"
definition MAX_TEXT :: nat where "MAX_TEXT = 4096"

datatype kind = RelativePath | ScriptName | Name | Pattern | Text | Count | NoArg

definition relative_path :: "string \<Rightarrow> bool" where
  "relative_path v \<longleftrightarrow>
     \<not> (v = [] \<or> starts_with ''-'' v \<or> starts_with ''~'' v) \<and>
     list_all (\<lambda>c. case c of Normal _ \<Rightarrow> True | CurDir \<Rightarrow> True | _ \<Rightarrow> False) (components v)"

definition accepts :: "kind \<Rightarrow> string \<Rightarrow> bool" where
  "accepts k v \<longleftrightarrow>
     CHR 0x00 \<notin> set v \<and>
     (case k of
        RelativePath \<Rightarrow> relative_path v
      | ScriptName \<Rightarrow> v \<noteq> [] \<and> length v \<le> MAX_SCRIPT_NAME \<and> \<not> starts_with ''-'' v \<and>
          list_all (\<lambda>c. is_ascii_alphanumeric c \<or> c \<in> set '':._-'') v
      | Name \<Rightarrow> v \<noteq> [] \<and> length v \<le> MAX_SCRIPT_NAME \<and> \<not> starts_with ''-'' v \<and>
          list_all (\<lambda>c. is_ascii_alphanumeric c \<or> c \<in> set ''._-'') v
      | Pattern \<Rightarrow> v \<noteq> [] \<and> length v \<le> MAX_PATTERN \<and> \<not> starts_with ''-'' v
      | Text \<Rightarrow> length v \<le> MAX_TEXT
      | Count \<Rightarrow> v \<noteq> [] \<and> length v \<le> 9 \<and> list_all is_digit v
      | NoArg \<Rightarrow> False)"

section \<open>Rules\<close>

record auto_rule =
  ar_id :: string
  ar_program :: string
  ar_subcommands :: "string list"
  ar_flags :: "string list"
  ar_value_flags :: "(string \<times> kind) list"
  ar_require_one_of :: "string list"
  ar_operands :: kind
  ar_operand_values :: "string list"
  ar_min_operands :: nat
  ar_max_operands :: nat

definition is_option :: "string \<Rightarrow> bool" where
  "is_option a \<longleftrightarrow> starts_with ''-'' a \<and> 1 < length a"

definition operand_ok :: "auto_rule \<Rightarrow> string \<Rightarrow> bool" where
  "operand_ok r a \<longleftrightarrow>
     accepts (ar_operands r) a \<and> (ar_operand_values r = [] \<or> a \<in> set (ar_operand_values r))"

text \<open>The loop over the arguments: the number of operands and the flags seen.\<close>

fun scan_args :: "auto_rule \<Rightarrow> string list \<Rightarrow> nat \<Rightarrow> string list \<Rightarrow> (nat \<times> string list) option" where
  "scan_args r [] n seen = Some (n, seen)"
| "scan_args r (a # as) n seen =
     (if a = ''--'' then None
      else if is_option a then
        if a \<in> set (ar_flags r) then scan_args r as n (seen @ [a])
        else (case map_of (ar_value_flags r) a of
                Some k \<Rightarrow>
                  (case as of
                     v # vs \<Rightarrow> if accepts k v then scan_args r vs n (seen @ [a]) else None
                   | [] \<Rightarrow> None)
              | None \<Rightarrow>
                  (case split_once CHR ''='' a of
                     Some (f, v) \<Rightarrow>
                       (case map_of (ar_value_flags r) f of
                          Some k \<Rightarrow> if accepts k v then scan_args r as n (seen @ [f]) else None
                        | None \<Rightarrow> None)
                   | None \<Rightarrow> None))
      else if operand_ok r a then scan_args r as (Suc n) seen
      else None)"

definition matches :: "auto_rule \<Rightarrow> string list \<Rightarrow> bool" where
  "matches r argv =
     (case argv of
        [] \<Rightarrow> False
      | p # as \<Rightarrow>
          p = ar_program r \<and>
          (case (if ar_subcommands r = [] then Some as
                 else case as of s # ss \<Rightarrow> if s \<in> set (ar_subcommands r) then Some ss else None | [] \<Rightarrow> None) of
             None \<Rightarrow> False
           | Some rest \<Rightarrow>
               (case scan_args r rest 0 [] of
                  None \<Rightarrow> False
                | Some (n, seen) \<Rightarrow>
                    ar_min_operands r \<le> n \<and> n \<le> ar_max_operands r \<and>
                    (ar_require_one_of r = [] \<or> list_ex (\<lambda>f. f \<in> set seen) (ar_require_one_of r)))))"

section \<open>The list\<close>

record auto_list =
  al_version :: nat
  al_rules :: "auto_rule list"

datatype list_error = NotToml | BadVersion nat | BadId string | BadProgram string | NoneOperands string | MoreThanAllowed string
  | NoneValue string

fun check_rules :: "string list \<Rightarrow> auto_rule list \<Rightarrow> list_error + unit" where
  "check_rules ids [] = Inr ()"
| "check_rules ids (r # rs) =
     (if ar_id r = [] \<or> ar_id r \<in> set ids then Inl (BadId (ar_id r))
      else if \<not> is_ok (validate_program_name (ar_program r)) then Inl (BadProgram (ar_id r))
      else if ar_operands r = NoArg \<and> (0 < ar_min_operands r \<or> 0 < ar_max_operands r) then Inl (NoneOperands (ar_id r))
      else if ar_max_operands r < ar_min_operands r then Inl (MoreThanAllowed (ar_id r))
      else if list_ex (\<lambda>(_, k). k = NoArg) (ar_value_flags r) then Inl (NoneValue (ar_id r))
      else check_rules (ar_id r # ids) rs)"

definition parse_list :: "(string \<Rightarrow> auto_list option) \<Rightarrow> string \<Rightarrow> list_error + auto_list" where
  "parse_list toml text =
     (case toml text of
        None \<Rightarrow> Inl NotToml
      | Some l \<Rightarrow>
          if al_version l \<noteq> 1 then Inl (BadVersion (al_version l))
          else bind_result (check_rules [] (al_rules l)) (\<lambda>_. Inr l))"

definition matching :: "auto_list \<Rightarrow> string list \<Rightarrow> string option" where
  "matching l argv = map_option ar_id (find (\<lambda>r. matches r argv) (al_rules l))"

text \<open>The value of the environment variable: off, the shipped list, a file, or an error.\<close>

datatype env_error = BadList list_error | UnreadableList | NotAPath string

definition from_env_value ::
  "(string \<Rightarrow> auto_list option) \<Rightarrow> string \<Rightarrow> (string \<Rightarrow> string option) \<Rightarrow> string option \<Rightarrow> env_error + auto_list option" where
  "from_env_value toml shipped read v =
     (let parse = (\<lambda>text. case parse_list toml text of Inl e \<Rightarrow> Inl (BadList e) | Inr l \<Rightarrow> Inr (Some l))
      in case map_option trim v of
           None \<Rightarrow> parse shipped
         | Some p \<Rightarrow>
             if p = [] then parse shipped
             else if p = ''0'' then Inr None
             else if starts_with ''/'' p
               then (case read p of None \<Rightarrow> Inl UnreadableList | Some text \<Rightarrow> parse text)
             else Inl (NotAPath p))"

text \<open>The shipped list.\<close>

definition shipped ::
  "string \<Rightarrow> string \<Rightarrow> string list \<Rightarrow> string list \<Rightarrow> (string \<times> kind) list \<Rightarrow> string list \<Rightarrow> kind \<Rightarrow> string list \<Rightarrow>
   nat \<Rightarrow> nat \<Rightarrow> auto_rule" where
  "shipped i p subs flags vflags req ops vals lo hi =
     \<lparr>ar_id = i, ar_program = p, ar_subcommands = subs, ar_flags = flags, ar_value_flags = vflags,
      ar_require_one_of = req, ar_operands = ops, ar_operand_values = vals, ar_min_operands = lo, ar_max_operands = hi\<rparr>"

definition DEFAULT_LIST :: auto_list where
  "DEFAULT_LIST = \<lparr>al_version = 1, al_rules = [
     shipped ''ls'' ''ls'' [] [''-1'', ''-a'', ''-A'', ''-l'', ''-la'', ''-al'', ''-lh'', ''-lah'', ''-alh'', ''-R'', ''-F''] []
       [] RelativePath [] 0 16,
     shipped ''pwd'' ''pwd'' [] [] []
       [] NoArg [] 0 0,
     shipped ''cat'' ''cat'' [] [''-n''] []
       [] RelativePath [] 1 16,
     shipped ''head'' ''head'' [] [] [(''-n'', Count), (''-c'', Count)]
       [] RelativePath [] 1 16,
     shipped ''tail'' ''tail'' [] [] [(''-n'', Count), (''-c'', Count)]
       [] RelativePath [] 1 16,
     shipped ''wc'' ''wc'' [] [''-l'', ''-w'', ''-c''] []
       [] RelativePath [] 1 16,
     shipped ''node-script'' ''node'' [] [] []
       [] RelativePath [] 1 1,
     shipped ''npm-run'' ''npm'' [''run'', ''run-script''] [''--silent'', ''-s''] []
       [] ScriptName [''build'', ''test'', ''lint'', ''typecheck''] 1 1,
     shipped ''npm-test'' ''npm'' [''test'', ''t''] [''--silent'', ''-s''] []
       [] NoArg [] 0 0,
     shipped ''npx-tsc'' ''npx'' [''tsc''] [''--noEmit'', ''--pretty''] [(''-p'', RelativePath), (''--project'', RelativePath)]
       [] NoArg [] 0 0,
     shipped ''forge-build-test'' ''forge'' [''build'', ''test''] [''--offline'', ''--force'', ''--json'', ''--summary'', ''--gas-report'', ''-vv'', ''-vvv'', ''-vvvv''] [(''--match-test'', Pattern), (''--mt'', Pattern), (''--match-contract'', Pattern), (''--mc'', Pattern)]
       [] NoArg [] 0 0,
     shipped ''cargo-offline'' ''cargo'' [''build'', ''test'', ''check''] [''--offline'', ''--frozen'', ''--locked'', ''--release'', ''--all-targets'', ''--workspace'', ''--lib'', ''--bins'', ''--tests'', ''-q'', ''--quiet''] [(''-p'', Name), (''--package'', Name), (''--test'', Name), (''--bin'', Name)]
       [''--offline'', ''--frozen''] Pattern [] 0 1,
     shipped ''git-init'' ''git'' [''init''] [''-q'', ''--quiet''] []
       [] NoArg [] 0 0,
     shipped ''git-status'' ''git'' [''status''] [''-s'', ''--short'', ''-b'', ''--branch'', ''--porcelain''] []
       [] RelativePath [] 0 16,
     shipped ''git-diff'' ''git'' [''diff''] [''--stat'', ''--cached'', ''--staged'', ''--name-only'', ''--no-color''] []
       [] RelativePath [] 0 16,
     shipped ''git-add'' ''git'' [''add''] [''-A'', ''--all'', ''-u''] []
       [] RelativePath [] 0 64,
     shipped ''git-commit'' ''git'' [''commit''] [''-a'', ''--all'', ''-q'', ''--quiet''] [(''-m'', Text), (''--message'', Text)]
       [''-m'', ''--message''] NoArg [] 0 0]\<rparr>"

end
