(* ===== verification/AutoApproveProperties.thy ===== *)
theory AutoApproveProperties
  imports AutoApprove
begin

text \<open>
  A rule means what its fields say: it matches exactly the argument vectors made of its program, one of
  its subcommands, its flags, flags with values of their kind, and operands, in any order. The
  shipped list passes its own checks, and every path it accepts stays inside the folder.
\<close>

section \<open>The language of a rule\<close>

datatype arg_item = Flag string | Valued string string | Inline string string | Operand string

fun item_words :: "arg_item \<Rightarrow> string list" where
  "item_words (Flag f) = [f]"
| "item_words (Valued f v) = [f, v]"
| "item_words (Inline f v) = [f @ ''='' @ v]"
| "item_words (Operand v) = [v]"

fun item_flag :: "arg_item \<Rightarrow> string option" where
  "item_flag (Flag f) = Some f"
| "item_flag (Valued f v) = Some f"
| "item_flag (Inline f v) = Some f"
| "item_flag (Operand v) = None"

fun item_ok :: "auto_rule \<Rightarrow> arg_item \<Rightarrow> bool" where
  "item_ok r (Flag f) = (f \<in> set (ar_flags r))"
| "item_ok r (Valued f v) = (\<exists>k. (f, k) \<in> set (ar_value_flags r) \<and> accepts k v)"
| "item_ok r (Inline f v) = (\<exists>k. (f, k) \<in> set (ar_value_flags r) \<and> accepts k v)"
| "item_ok r (Operand v) = (operand_ok r v \<and> \<not> is_option v)"

definition operand_count :: "arg_item list \<Rightarrow> nat" where
  "operand_count items = length (filter (\<lambda>i. item_flag i = None) items)"

definition flags_of :: "arg_item list \<Rightarrow> string list" where
  "flags_of items = List.map_filter item_flag items"

text \<open>Flags look like flags, and a flag with a value is not also one without.\<close>

definition plain_flag :: "string \<Rightarrow> bool" where
  "plain_flag f \<longleftrightarrow> is_option f \<and> f \<noteq> ''--'' \<and> CHR ''='' \<notin> set f"

definition wf_rule :: "auto_rule \<Rightarrow> bool" where
  "wf_rule r \<longleftrightarrow>
     list_all plain_flag (ar_flags r) \<and> list_all (\<lambda>(f, _). plain_flag f) (ar_value_flags r) \<and>
     distinct (ar_flags r @ map fst (ar_value_flags r))"

lemma split_once_Some: "split_once d s = Some (a, b) \<longleftrightarrow> s = a @ d # b \<and> d \<notin> set a"
proof (induction s arbitrary: a)
  case (Cons c s)
  show ?case
  proof (cases "c = d")
    case True
    then show ?thesis by (cases a) auto
  next
    case False
    then show ?thesis using Cons by (cases a) auto
  qed
qed simp

lemma scan_sound:
  "scan_args r as n seen = Some (m, fs) \<Longrightarrow>
     \<exists>items. as = concat (map item_words items) \<and> list_all (item_ok r) items \<and>
       m = n + operand_count items \<and> fs = seen @ flags_of items"
proof (induction r as n seen rule: scan_args.induct)
  case (1 r n seen)
  then show ?case by (intro exI [of _ "[]"]) (simp add: operand_count_def flags_of_def List.map_filter_simps)
next
  case (2 r a as n seen)
  have a: "a \<noteq> ''--''" using "2.prems" by auto
  have add: "\<exists>items. a # as = concat (map item_words items) \<and> list_all (item_ok r) items \<and>
      m = n + operand_count items \<and> fs = seen @ flags_of items"
    if i: "item_ok r i" "a # as = item_words i @ bs" "as0 = bs"
      and found: "\<exists>items. as0 = concat (map item_words items) \<and> list_all (item_ok r) items \<and>
        m = n0 + operand_count items \<and> fs = seen0 @ flags_of items"
      and n: "n0 = n + (if item_flag i = None then 1 else 0)"
      "seen0 = seen @ (case item_flag i of Some f \<Rightarrow> [f] | None \<Rightarrow> [])" for i bs as0 n0 seen0
  proof -
    obtain items where "as0 = concat (map item_words items)" "list_all (item_ok r) items"
      "m = n0 + operand_count items" "fs = seen0 @ flags_of items" using found by blast
    then show ?thesis using i n
      by (intro exI [of _ "i # items"])
        (auto simp: operand_count_def flags_of_def List.map_filter_simps split: option.split)
  qed
  show ?case
  proof (cases "is_option a")
    case opt: True
    show ?thesis
    proof (cases "a \<in> set (ar_flags r)")
      case True
      then have "scan_args r as n (seen @ [a]) = Some (m, fs)" using "2.prems" a opt by simp
      then show ?thesis using "2.IH"(1) [OF a opt True] by (intro add [of "Flag a" as as n "seen @ [a]"]) (simp_all add: True)
    next
      case nf: False
      show ?thesis
      proof (cases "map_of (ar_value_flags r) a")
        case (Some k)
        then obtain v vs where v: "as = v # vs" "accepts k v" "scan_args r vs n (seen @ [a]) = Some (m, fs)"
          using "2.prems" a opt nf by (auto split: list.splits if_splits)
        show ?thesis using "2.IH"(3) [OF a opt nf Some v(1) v(2) v(3)] v Some
          by (intro add [of "Valued a v" vs vs n "seen @ [a]"]) (auto dest: map_of_SomeD)
      next
        case None
        then obtain f v k where v: "split_once CHR ''='' a = Some (f, v)" "map_of (ar_value_flags r) f = Some k"
          "accepts k v" "scan_args r as n (seen @ [f]) = Some (m, fs)"
          using "2.prems" a opt nf by (auto split: option.splits if_splits prod.splits)
        have "a = f @ ''='' @ v" using v(1) by (simp add: split_once_Some)
        then show ?thesis using "2.IH"(2) [OF a opt nf None v(1) refl v(2) v(3) v(4)] v
          by (intro add [of "Inline f v" as as n "seen @ [f]"]) (auto dest: map_of_SomeD)
      qed
    qed
  next
    case False
    then have o: "operand_ok r a" "scan_args r as (Suc n) seen = Some (m, fs)"
      using "2.prems" a by (auto split: if_splits)
    then show ?thesis using "2.IH"(4) [OF a False o(1) o(2)] False
      by (intro add [of "Operand a" as as "Suc n" seen]) simp_all
  qed
qed

lemma wf_rule_flag:
  assumes "wf_rule r" "(f, k) \<in> set (ar_value_flags r)"
  shows "map_of (ar_value_flags r) f = Some k \<and> f \<notin> set (ar_flags r) \<and> plain_flag f"
proof -
  have "f \<in> fst ` set (ar_value_flags r)" using assms(2) by force
  then show ?thesis using assms by (auto simp: wf_rule_def list_all_iff intro: map_of_is_SomeI)
qed

lemma no_inline_flag:
  assumes "wf_rule r" "CHR ''='' \<in> set a"
  shows "a \<notin> set (ar_flags r) \<and> map_of (ar_value_flags r) a = None"
  using assms by (auto simp: wf_rule_def list_all_iff plain_flag_def map_of_eq_None_iff)

lemma is_option_iff: "is_option a \<longleftrightarrow> (\<exists>c r. a = CHR ''-'' # c # r)"
  by (cases a; cases "tl a") (auto simp: is_option_def starts_with_iff)

lemma scan_complete:
  assumes "wf_rule r"
  shows "list_all (item_ok r) items \<Longrightarrow>
    scan_args r (concat (map item_words items)) n seen = Some (n + operand_count items, seen @ flags_of items)"
proof (induction items arbitrary: n seen)
  case Nil
  then show ?case by (simp add: operand_count_def flags_of_def List.map_filter_simps)
next
  case (Cons i items)
  note more = operand_count_def flags_of_def List.map_filter_simps
  have rest: "scan_args r (concat (map item_words items)) n' seen' = Some (n' + operand_count items, seen' @ flags_of items)"
    for n' seen' using Cons by simp
  show ?case
  proof (cases i)
    case (Flag f)
    then have "plain_flag f" "f \<in> set (ar_flags r)" using Cons.prems assms by (auto simp: wf_rule_def list_all_iff)
    then show ?thesis using rest Flag by (simp add: plain_flag_def more)
  next
    case (Valued f v)
    then obtain k where "(f, k) \<in> set (ar_value_flags r)" "accepts k v" using Cons.prems by auto
    then show ?thesis using wf_rule_flag [OF assms, of f k] rest Valued by (simp add: plain_flag_def more)
  next
    case (Inline f v)
    then obtain k where k: "(f, k) \<in> set (ar_value_flags r)" "accepts k v" using Cons.prems by auto
    then have f: "map_of (ar_value_flags r) f = Some k" "is_option f" "CHR ''='' \<notin> set f"
      using wf_rule_flag [OF assms] by (auto simp: plain_flag_def)
    let ?a = "f @ ''='' @ v"
    have "?a \<notin> set (ar_flags r)" "map_of (ar_value_flags r) ?a = None" using no_inline_flag [OF assms, of ?a] by simp_all
    moreover have "is_option ?a" using f(2) by (auto simp: is_option_iff)
    moreover have "?a \<noteq> ''--''"
    proof
      assume "?a = ''--''"
      moreover have "CHR ''='' \<in> set ?a" by simp
      ultimately have "CHR ''='' \<in> set ''--''" by (simp only:)
      then show False by simp
    qed
    moreover have "split_once CHR ''='' ?a = Some (f, v)" using f(3) by (simp add: split_once_Some)
    ultimately show ?thesis using k(2) f(1) rest Inline by (simp add: more)
  next
    case (Operand v)
    then have v: "operand_ok r v" "\<not> is_option v" using Cons.prems by auto
    then have "v \<noteq> ''--''" by (auto simp: is_option_def)
    then show ?thesis using v rest Operand by (simp add: more)
  qed
qed

definition in_language :: "auto_rule \<Rightarrow> string list \<Rightarrow> bool" where
  "in_language r argv \<longleftrightarrow>
     (\<exists>sub items. argv = ar_program r # sub @ concat (map item_words items) \<and>
        (if ar_subcommands r = [] then sub = [] else \<exists>s \<in> set (ar_subcommands r). sub = [s]) \<and>
        list_all (item_ok r) items \<and>
        ar_min_operands r \<le> operand_count items \<and> operand_count items \<le> ar_max_operands r \<and>
        (ar_require_one_of r = [] \<or> set (flags_of items) \<inter> set (ar_require_one_of r) \<noteq> {}))"

lemma matches_sound: "matches r argv \<Longrightarrow> in_language r argv"
proof -
  assume m: "matches r argv"
  then obtain as where as: "argv = ar_program r # as" by (auto simp: matches_def split: list.splits)
  obtain sub rest n seen where rest: "as = sub @ rest" "scan_args r rest 0 [] = Some (n, seen)"
    "if ar_subcommands r = [] then sub = [] else \<exists>s \<in> set (ar_subcommands r). sub = [s]"
    "ar_min_operands r \<le> n \<and> n \<le> ar_max_operands r \<and>
      (ar_require_one_of r = [] \<or> list_ex (\<lambda>f. f \<in> set seen) (ar_require_one_of r))"
  proof (cases "ar_subcommands r = []")
    case True
    then show thesis using m that [of "[]" as] by (auto simp: matches_def as split: option.splits)
  next
    case False
    then obtain s ss where s: "as = s # ss" "s \<in> set (ar_subcommands r)"
      using m by (auto simp: matches_def as split: list.splits if_splits)
    then show thesis using False m that [of "[s]" ss] by (auto simp: matches_def as split: option.splits)
  qed
  obtain items where "rest = concat (map item_words items)" "list_all (item_ok r) items" "n = operand_count items"
    "seen = flags_of items"
    using scan_sound [OF rest(2)] by auto
  then show ?thesis unfolding in_language_def using rest as
    by (intro exI [of _ sub] exI [of _ items]) (auto simp: list_ex_iff)
qed

text \<open>
  C33. A rule whose flags look like flags matches exactly the argument vectors its fields describe: the
  program, a subcommand when it has any, then in any order flags of the rule, flags with a value of
  their kind (apart or after an equals sign) and operands of the operand kind, within the operand
  bounds and with a required flag; nothing after a double dash, nothing else.
\<close>

theorem rule_matches_its_language:
  assumes "wf_rule r"
  shows "matches r argv \<longleftrightarrow> in_language r argv"
proof
  show "matches r argv \<Longrightarrow> in_language r argv" by (rule matches_sound)
next
  assume "in_language r argv"
  then obtain sub items where s: "argv = ar_program r # sub @ concat (map item_words items)"
    "if ar_subcommands r = [] then sub = [] else \<exists>s \<in> set (ar_subcommands r). sub = [s]"
    "list_all (item_ok r) items" "ar_min_operands r \<le> operand_count items" "operand_count items \<le> ar_max_operands r"
    "ar_require_one_of r = [] \<or> set (flags_of items) \<inter> set (ar_require_one_of r) \<noteq> {}"
    unfolding in_language_def by blast
  have "scan_args r (concat (map item_words items)) 0 [] = Some (operand_count items, flags_of items)"
    using scan_complete [OF assms s(3), of 0 "[]"] by simp
  then show "matches r argv" using s by (auto simp: matches_def list_ex_iff split: if_splits)
qed

text \<open>The shipped rules are of this kind, and the list loads.\<close>

lemma shipped_rules_wf: "list_all wf_rule (al_rules DEFAULT_LIST)"
  by code_simp

lemma shipped_list_loads: "check_rules [] (al_rules DEFAULT_LIST) = Inr ()"
  by code_simp

theorem rule_matches_its_language_witness:
  "matches (hd (al_rules DEFAULT_LIST)) [''ls'', ''-la'', ''src''] \<and>
   in_language (hd (al_rules DEFAULT_LIST)) [''ls'', ''-la'', ''src'']"
proof -
  have "wf_rule (hd (al_rules DEFAULT_LIST))" using shipped_rules_wf by (simp add: DEFAULT_LIST_def)
  moreover have "matches (hd (al_rules DEFAULT_LIST)) [''ls'', ''-la'', ''src'']" by code_simp
  ultimately show ?thesis using rule_matches_its_language by blast
qed

section \<open>Paths stay inside\<close>

text \<open>Joined to the folder and read component by component, the path never leaves it.\<close>

lemma relative_path_inside:
  assumes "relative_path v"
  shows "\<exists>q. join folder (components v) = folder @ q \<and> ParentDir \<notin> set q \<and> RootDir \<notin> set q \<or> folder = []"
proof (cases "folder = []")
  case False
  have c: "\<forall>c \<in> set (components v). c \<noteq> ParentDir \<and> c \<noteq> RootDir"
    using assms by (auto simp: relative_path_def list_all_iff split: comp.splits)
  then have "\<not> has_root (components v)" by (cases "components v") (auto simp: has_root_def split: comp.splits)
  then show ?thesis using False c
    by (auto simp: join_def split: list.splits comp.splits intro!: exI [of _ "case components v of CurDir # r \<Rightarrow> r | _ \<Rightarrow> components v"])
qed simp

end
