(* ===== verification/GitArgs.thy ===== *)
theory GitArgs
  imports AutoApprove
begin

text \<open>
  Who a commit made through \<open>shell_run\<close> names, and the trailer it carries
  (\<open>agent-sidecar/src/git_identity.rs\<close>), with the read-only git policy of the shell gate
  (\<open>agent-shell/src/lib.rs\<close>). Reading the member's git configuration is a parameter.
\<close>

section \<open>Identity\<close>

definition GIT_AGENT_NAME :: string where "GIT_AGENT_NAME = ''Hermes''"
definition GIT_AGENT_EMAIL :: string where "GIT_AGENT_EMAIL = ''hermes@citrate.invalid''"
definition HERMES_CO_AUTHOR_TRAILER :: string where
  "HERMES_CO_AUTHOR_TRAILER = ''Co-authored-by: Hermes <hermes@citrate.invalid>''"
definition MAX_IDENTITY_BYTES :: nat where "MAX_IDENTITY_BYTES = 256"

datatype identity_source = FromApp | MemberGitConfig | FromHermes

record git_identity =
  gi_name :: string
  gi_email :: string
  gi_source :: identity_source

datatype identity_error = BadUserName | BadUserEmail

definition plain_text :: "string \<Rightarrow> bool" where
  "plain_text s \<longleftrightarrow> \<not> has_control s \<and> CHR ''<'' \<notin> set s \<and> CHR ''>'' \<notin> set s"

definition has_white :: "string \<Rightarrow> bool" where
  "has_white s \<longleftrightarrow> list_ex (\<lambda>w. str_contains w s) unicode_ws"

definition identity_new :: "string \<Rightarrow> string \<Rightarrow> identity_source \<Rightarrow> identity_error + git_identity" where
  "identity_new name0 email0 src =
     (let name = trim name0; email = trim email0;
          address = (case split_once CHR ''@'' email of Some (l, d) \<Rightarrow> l \<noteq> [] \<and> d \<noteq> [] | None \<Rightarrow> False)
      in if name = [] \<or> MAX_IDENTITY_BYTES < length name \<or> \<not> plain_text name then Inl BadUserName
         else if MAX_IDENTITY_BYTES < length email \<or> \<not> address \<or> \<not> plain_text email \<or> has_white email
           then Inl BadUserEmail
         else Inr \<lparr>gi_name = name, gi_email = email, gi_source = src\<rparr>)"

definition hermes_identity :: git_identity where
  "hermes_identity = \<lparr>gi_name = GIT_AGENT_NAME, gi_email = GIT_AGENT_EMAIL, gi_source = FromHermes\<rparr>"

definition resolve_identity :: "(string \<times> string) option \<Rightarrow> (string \<times> string) option \<Rightarrow> git_identity" where
  "resolve_identity app member =
     (case Option.bind app (\<lambda>(n, e). case identity_new n e FromApp of Inr i \<Rightarrow> Some i | Inl _ \<Rightarrow> None) of
        Some i \<Rightarrow> i
      | None \<Rightarrow>
          (case Option.bind member (\<lambda>(n, e). case identity_new n e MemberGitConfig of Inr i \<Rightarrow> Some i | Inl _ \<Rightarrow> None) of
             Some i \<Rightarrow> i
           | None \<Rightarrow> hermes_identity))"

definition identity_env :: "git_identity \<Rightarrow> (string \<times> string) list" where
  "identity_env i =
     [(''GIT_AUTHOR_NAME'', gi_name i), (''GIT_AUTHOR_EMAIL'', gi_email i),
      (''GIT_COMMITTER_NAME'', gi_name i), (''GIT_COMMITTER_EMAIL'', gi_email i)]"

definition GIT_COMMAND_CONFIG :: "(string \<times> string) list" where
  "GIT_COMMAND_CONFIG =
     [(''core.hooksPath'', ''/dev/null''), (''core.fsmonitor'', ''false''), (''core.commentChar'', ''#''),
      (''trailer.ifmissing'', ''add''), (''trailer.ifexists'', ''addIfDifferent''),
      (''trailer.co-authored-by.ifmissing'', ''add''), (''trailer.co-authored-by.ifexists'', ''addIfDifferent'')]"

definition GIT_REQUEST_ENV :: "string list" where
  "GIT_REQUEST_ENV =
     [''GIT_AUTHOR_NAME'', ''GIT_AUTHOR_EMAIL'', ''GIT_COMMITTER_NAME'', ''GIT_COMMITTER_EMAIL'', ''GIT_CONFIG_COUNT'',
      ''GIT_CONFIG_KEY_0'', ''GIT_CONFIG_VALUE_0'', ''GIT_CONFIG_KEY_1'', ''GIT_CONFIG_VALUE_1'',
      ''GIT_CONFIG_KEY_2'', ''GIT_CONFIG_VALUE_2'', ''GIT_CONFIG_KEY_3'', ''GIT_CONFIG_VALUE_3'',
      ''GIT_CONFIG_KEY_4'', ''GIT_CONFIG_VALUE_4'', ''GIT_CONFIG_KEY_5'', ''GIT_CONFIG_VALUE_5'',
      ''GIT_CONFIG_KEY_6'', ''GIT_CONFIG_VALUE_6'']"

definition command_config_env :: "(string \<times> string) list" where
  "command_config_env =
     (''GIT_CONFIG_COUNT'', dec (length GIT_COMMAND_CONFIG)) #
     concat (map (\<lambda>(i, k, v). [(''GIT_CONFIG_KEY_'' @ dec i, k), (''GIT_CONFIG_VALUE_'' @ dec i, v)])
       (zip [0..<length GIT_COMMAND_CONFIG] GIT_COMMAND_CONFIG))"

section \<open>The arguments of a git run\<close>

definition GLOBAL_VALUE_OPTIONS :: "string list" where
  "GLOBAL_VALUE_OPTIONS =
     [''-C'', ''-c'', ''--git-dir'', ''--work-tree'', ''--namespace'', ''--super-prefix'', ''--config-env'', ''--attr-source'']"

definition COMMIT_VALUE_OPTIONS :: "string list" where
  "COMMIT_VALUE_OPTIONS =
     [''--message'', ''--file'', ''--author'', ''--date'', ''--template'', ''--reuse-message'', ''--reedit-message'',
      ''--fixup'', ''--squash'', ''--cleanup'', ''--trailer'', ''--pathspec-from-file'']"

definition COMMIT_REFUSED :: "string list" where
  "COMMIT_REFUSED = [''--author'', ''--cleanup'', ''--reuse-message'', ''--reedit-message'']"

definition refusal_text :: "string \<Rightarrow> string" where
  "refusal_text what =
     ''the commit'' @ [CHR 0x27] @ ''s author (the member'' @ [CHR 0x27] @ ''s identity) and its '' @ [CHR 0x22] @
     HERMES_CO_AUTHOR_TRAILER @ [CHR 0x22] @ '' trailer are set by Citrate, so '' @ what @
     '' is not accepted; run the command without it''"

definition ascii_lower :: "char \<Rightarrow> char" where
  "ascii_lower c = (let n = of_char c :: nat in if 65 \<le> n \<and> n \<le> 90 then char_of (n + 32) else c)"

definition refused_config_key :: "string \<Rightarrow> bool" where
  "refused_config_key spec \<longleftrightarrow>
     (let key = map ascii_lower (takeWhile (\<lambda>c. c \<noteq> CHR ''='') spec)
      in list_ex (\<lambda>p. starts_with p key) [''user.'', ''author.'', ''committer.'', ''trailer.'', ''include.''] \<or>
         starts_with ''includeif.'' key \<or>
         key \<in> set [''core.commentchar'', ''core.commentstring'', ''commit.cleanup''])"

definition long_option :: "string \<Rightarrow> string list \<Rightarrow> string option" where
  "long_option name opts =
     (if length name \<le> 2 then None
      else case filter (starts_with name) opts of
             [one] \<Rightarrow> Some one
           | _ \<Rightarrow> find (\<lambda>o'. o' = name) opts)"

text \<open>The global options, the subcommand and what follows it; no subcommand leaves the arguments alone.\<close>

fun git_sub :: "string list \<Rightarrow> string + (string list \<times> string \<times> string list) option" where
  "git_sub [] = Inr None"
| "git_sub (a # as) =
     (if a = ''-c'' \<or> a = ''--config-env'' then
        (case as of
           [] \<Rightarrow> Inr None
         | spec # rest \<Rightarrow>
             if refused_config_key spec then Inl (a @ '' '' @ spec)
             else bind_result (git_sub rest)
               (\<lambda>r. Inr (map_option (\<lambda>(gl, s, tl). (a # spec # gl, s, tl)) r)))
      else
        (case strip_prefix ''--config-env='' a of
           Some spec \<Rightarrow>
             if refused_config_key spec then Inl a
             else bind_result (git_sub as) (\<lambda>r. Inr (map_option (\<lambda>(gl, s, tl). (a # gl, s, tl)) r))
         | None \<Rightarrow>
             if a \<in> set GLOBAL_VALUE_OPTIONS then
               (case as of
                  [] \<Rightarrow> Inr None
                | v # rest \<Rightarrow>
                    bind_result (git_sub rest) (\<lambda>r. Inr (map_option (\<lambda>(gl, s, tl). (a # v # gl, s, tl)) r)))
             else if starts_with ''-'' a then
               bind_result (git_sub as) (\<lambda>r. Inr (map_option (\<lambda>(gl, s, tl). (a # gl, s, tl)) r))
             else Inr (Some ([], a, as))))"

datatype short_options = Reuses char | TakesNext | NoValue

fun short_bundle :: "string \<Rightarrow> short_options" where
  "short_bundle [] = NoValue"
| "short_bundle (c # cs) =
     (if c = CHR ''C'' \<or> c = CHR ''c'' then Reuses c
      else if c \<in> set ''mFt'' then (if cs = [] then TakesNext else NoValue)
      else short_bundle cs)"

text \<open>What of the arguments of \<open>git commit\<close> is refused, if anything.\<close>

fun commit_refusal :: "string list \<Rightarrow> string option" where
  "commit_refusal [] = None"
| "commit_refusal (a # as) =
     (if a = ''--'' then None
      else if starts_with ''--'' a then
        (let name = (case split_once CHR ''='' a of Some (n, _) \<Rightarrow> n | None \<Rightarrow> a);
             inline = (CHR ''='' \<in> set a)
         in case long_option name COMMIT_REFUSED of
              Some o' \<Rightarrow> Some (a @ '' ('' @ o' @ '')'')
            | None \<Rightarrow>
                if \<not> inline \<and> long_option name COMMIT_VALUE_OPTIONS \<noteq> None
                then (case as of [] \<Rightarrow> None | _ # rest \<Rightarrow> commit_refusal rest)
                else commit_refusal as)
      else if starts_with ''-'' a \<and> a \<noteq> ''-'' then
        (case short_bundle (tl a) of
           Reuses c \<Rightarrow> Some (a @ '' (-'' @ [c] @ '' reuses another commit'' @ [CHR 0x27] @ ''s author)'')
         | TakesNext \<Rightarrow> (case as of [] \<Rightarrow> None | _ # rest \<Rightarrow> commit_refusal rest)
         | NoValue \<Rightarrow> commit_refusal as)
      else commit_refusal as)"

definition git_args :: "string list \<Rightarrow> string + string list" where
  "git_args args =
     (case git_sub args of
        Inl what \<Rightarrow> Inl (refusal_text what)
      | Inr None \<Rightarrow> Inr args
      | Inr (Some (gl, s, rest)) \<Rightarrow>
          if s = ''commit-tree'' then Inl (refusal_text ''git commit-tree (make commits with git commit)'')
          else if s = ''commit'' then
            (case commit_refusal rest of
               Some what \<Rightarrow> Inl (refusal_text what)
             | None \<Rightarrow> Inr (gl @ [s, ''--trailer'', HERMES_CO_AUTHOR_TRAILER] @ rest))
          else Inr args)"

section \<open>Read-only git\<close>

definition GIT_READ_ONLY_SUBCOMMANDS :: "string list" where
  "GIT_READ_ONLY_SUBCOMMANDS =
     [''status'', ''diff'', ''log'', ''show'', ''rev-parse'', ''ls-files'', ''ls-tree'', ''blame'', ''describe'',
      ''shortlog'', ''merge-base'']"

definition GIT_DENIED_ARG_PREFIXES :: "string list" where
  "GIT_DENIED_ARG_PREFIXES =
     [''--output'', ''--ext-diff'', ''--textconv'', ''--no-index'', ''--exec'', ''--upload-pack'', ''--receive-pack'',
      ''--git-dir'', ''--work-tree'', ''--namespace'', ''--super-prefix'', ''--config-env'', ''--contents'',
      ''--ignore-revs-file'']"

definition GIT_EXACT_OPTIONS_NOT_ABBREVIATIONS :: "string list" where
  "GIT_EXACT_OPTIONS_NOT_ABBREVIATIONS = [''--text'']"

definition GIT_DIFF_RENDERING :: "string list" where "GIT_DIFF_RENDERING = [''diff'', ''log'', ''show'']"
definition GIT_TEXTCONV_ONLY :: "string list" where "GIT_TEXTCONV_ONLY = [''blame'']"

definition denied_git_option :: "string \<Rightarrow> string \<Rightarrow> string option" where
  "denied_git_option sub arg =
     (case find (\<lambda>p. starts_with p arg) GIT_DENIED_ARG_PREFIXES of
        Some p \<Rightarrow> Some p
      | None \<Rightarrow>
          (let name = (case split_once CHR ''='' arg of Some (n, _) \<Rightarrow> n | None \<Rightarrow> arg)
           in case (if starts_with ''--'' arg \<and> 2 < length name \<and> name \<notin> set GIT_EXACT_OPTIONS_NOT_ABBREVIATIONS
                    then find (\<lambda>p. starts_with name p) GIT_DENIED_ARG_PREFIXES else None) of
                Some p \<Rightarrow> Some p
              | None \<Rightarrow>
                  if sub = ''blame'' \<and> starts_with ''-'' arg \<and> \<not> starts_with ''--'' arg \<and> CHR ''S'' \<in> set arg
                  then Some ''-S'' else None))"

datatype arg_policy = AnyArgs | GitReadOnly

datatype arg_error = NulByte string | NoSubcommand | BadSubcommand string | DeniedOption string string

fun first_denied :: "string \<Rightarrow> string list \<Rightarrow> arg_error + unit" where
  "first_denied sub [] = Inr ()"
| "first_denied sub (a # as) =
     (case denied_git_option sub a of Some p \<Rightarrow> Inl (DeniedOption a p) | None \<Rightarrow> first_denied sub as)"

definition check_args :: "arg_policy \<Rightarrow> string list \<Rightarrow> arg_error + unit" where
  "check_args policy args =
     (case find (\<lambda>a. CHR 0x00 \<in> set a) args of
        Some a \<Rightarrow> Inl (NulByte a)
      | None \<Rightarrow>
          (case policy of
             AnyArgs \<Rightarrow> Inr ()
           | GitReadOnly \<Rightarrow>
               (case args of
                  [] \<Rightarrow> Inl NoSubcommand
                | sub # _ \<Rightarrow>
                    if sub \<notin> set GIT_READ_ONLY_SUBCOMMANDS then Inl (BadSubcommand sub)
                    else first_denied sub args)))"

definition effective_args :: "arg_policy \<Rightarrow> string list \<Rightarrow> string list" where
  "effective_args policy args =
     (case policy of
        AnyArgs \<Rightarrow> args
      | GitReadOnly \<Rightarrow>
          (case args of
             [] \<Rightarrow> []
           | sub # rest \<Rightarrow>
               sub # (if sub \<in> set GIT_DIFF_RENDERING then [''--no-ext-diff'', ''--no-textconv'']
                      else if sub \<in> set GIT_TEXTCONV_ONLY then [''--no-textconv''] else []) @ rest))"

definition policy_env :: "arg_policy \<Rightarrow> (string \<times> string) list" where
  "policy_env policy =
     (case policy of
        AnyArgs \<Rightarrow> []
      | GitReadOnly \<Rightarrow>
          [(''GIT_CONFIG_NOSYSTEM'', ''1''), (''GIT_CONFIG_GLOBAL'', ''/dev/null''), (''GIT_TERMINAL_PROMPT'', ''0''),
           (''GIT_OPTIONAL_LOCKS'', ''0''), (''GIT_PAGER'', ''cat''), (''GIT_CONFIG_COUNT'', ''2''),
           (''GIT_CONFIG_KEY_0'', ''core.fsmonitor''), (''GIT_CONFIG_VALUE_0'', ''false''),
           (''GIT_CONFIG_KEY_1'', ''core.hooksPath''), (''GIT_CONFIG_VALUE_1'', ''/dev/null'')])"

end
