(* ===== verification/Sandbox.thy ===== *)
theory Sandbox
  imports PathGuard
begin

text \<open>
  The OS sandbox of a shell run (\<open>agent-shell/src/sandbox.rs\<close>): the policy and its backend, what the
  approval card shows, and the argument vectors handed to Seatbelt and bubblewrap. An argument is text
  or a path; probing the machine is the parameter \<open>detect\<close>, and \<open>show_path\<close> displays a path.
\<close>

section \<open>Policy\<close>

datatype sandbox_mode = Off | Preferred | Required

definition ascii_lowercase :: "string \<Rightarrow> string" where
  "ascii_lowercase = map (\<lambda>c. let n = of_char c :: nat in if 65 \<le> n \<and> n \<le> 90 then char_of (n + 32) else c)"

definition mode_parse :: "string \<Rightarrow> sandbox_mode option" where
  "mode_parse s =
     (let t = ascii_lowercase (trim s)
      in if t = ''required'' then Some Required
         else if t = ''preferred'' then Some Preferred
         else if t = ''off'' then Some Off else None)"

datatype backend = Seatbelt path | Bwrap path

fun backend_name :: "backend \<Rightarrow> string" where
  "backend_name (Seatbelt _) = ''seatbelt''"
| "backend_name (Bwrap _) = ''bwrap''"

fun backend_label :: "backend \<Rightarrow> string" where
  "backend_label (Seatbelt _) = ''macOS Seatbelt''"
| "backend_label (Bwrap _) = ''Linux bubblewrap''"

record sandbox_policy =
  sp_mode :: sandbox_mode
  sp_extra_read_roots :: "path list"
  sp_backend :: "(string + backend) option"

definition sandbox_new :: "sandbox_mode \<Rightarrow> sandbox_policy" where
  "sandbox_new m = \<lparr>sp_mode = m, sp_extra_read_roots = [], sp_backend = None\<rparr>"

definition with_extra_read_roots :: "path list \<Rightarrow> sandbox_policy \<Rightarrow> sandbox_policy" where
  "with_extra_read_roots roots p = p\<lparr>sp_extra_read_roots := filter has_root roots\<rparr>"

definition policy_backend :: "(string + backend) \<Rightarrow> sandbox_policy \<Rightarrow> string + backend" where
  "policy_backend detect p =
     (if sp_mode p = Off then Inl ''the OS sandbox is off by configuration''
      else case sp_backend p of Some b \<Rightarrow> b | None \<Rightarrow> detect)"

section \<open>What the card shows\<close>

record sandbox_summary =
  ss_backend :: string
  ss_enforced :: bool
  ss_network :: string
  ss_writable :: "string list"
  ss_readable_extra :: "string list"
  ss_summary :: string

definition SCRATCH_LABEL :: string where "SCRATCH_LABEL = ''scratch HOME (deleted after the run)''"

fun join_texts :: "string \<Rightarrow> string list \<Rightarrow> string" where
  "join_texts sep [] = []"
| "join_texts sep [x] = x"
| "join_texts sep (x # y # ys) = x @ sep @ join_texts sep (y # ys)"

definition enforced_summary :: "(path \<Rightarrow> string) \<Rightarrow> backend \<Rightarrow> path list \<Rightarrow> path list \<Rightarrow> sandbox_summary" where
  "enforced_summary show_path b writable extra =
     \<lparr>ss_backend = backend_name b, ss_enforced = True, ss_network = ''denied'',
      ss_writable = map show_path writable @ [SCRATCH_LABEL], ss_readable_extra = map show_path extra,
      ss_summary = backend_label b @ '': no network; writes only in '' @ join_texts '', '' (map show_path writable) @
        '' and a scratch HOME; reads limited to these folders, the system and the toolchain directories''\<rparr>"

definition not_enforced_summary :: "(path \<Rightarrow> string) \<Rightarrow> string \<Rightarrow> path list \<Rightarrow> sandbox_summary" where
  "not_enforced_summary show_path reason writable =
     \<lparr>ss_backend = ''none'', ss_enforced = False, ss_network = ''allowed'',
      ss_writable = map show_path writable @ [SCRATCH_LABEL], ss_readable_extra = [],
      ss_summary = ''no OS sandbox ('' @ reason @
        ''); the run is not isolated from the network or other folders''\<rparr>"

section \<open>Seatbelt\<close>

record sandbox_spec =
  sb_write_roots :: "path list"
  sb_read_roots :: "path list"
  sb_scratch :: path
  sb_cwd :: path
  sb_masked_files :: "path list"

datatype arg = Lit string | PathArg path | Param string path

definition MACOS_SYSTEM_READ :: "string list" where
  "MACOS_SYSTEM_READ =
     [''/usr'', ''/bin'', ''/sbin'', ''/System'', ''/Library/Frameworks'', ''/Library/Developer/CommandLineTools'',
      ''/Applications/Xcode.app/Contents/Developer'', ''/private/etc'', ''/private/var/db/timezone'',
      ''/private/var/db/dyld'', ''/private/var/select'', ''/dev'', ''/opt/homebrew'', ''/usr/local'']"

definition subpath_params :: "string \<Rightarrow> nat \<Rightarrow> string" where
  "subpath_params k n =
     concat (map (\<lambda>i. '' (subpath (param '' @ [CHR 0x22] @ k @ dec i @ [CHR 0x22] @ ''))'') [0..<n])"

definition quote :: "string \<Rightarrow> string" where "quote s = [CHR 0x22] @ s @ [CHR 0x22]"

definition line :: "string \<Rightarrow> string" where "line s = s @ [CHR 10]"

text \<open>The profile's text depends on the number of roots only.\<close>

definition seatbelt_profile :: "nat \<Rightarrow> nat \<Rightarrow> string" where
  "seatbelt_profile n_read n_write =
     line ''(version 1)'' @ line ''(deny default)'' @
     line ''(allow process-fork)'' @ line ''(allow process-exec)'' @
     line ''(allow signal (target same-sandbox))'' @ line ''(allow sysctl-read)'' @
     line ''(allow file-read-metadata)'' @
     line (''(allow mach-lookup (global-name '' @ quote ''com.apple.system.opendirectoryd.libinfo'' @
           '') (global-name '' @ quote ''com.apple.system.notification_center'' @
           '') (global-name '' @ quote ''com.apple.system.logger'' @ ''))'') @
     line (''(allow ipc-posix-shm-read-data (ipc-posix-name '' @ quote ''apple.shm.notification_center'' @ ''))'') @
     line (''(allow file-read* (literal '' @ quote ''/'' @ '')'' @ subpath_params ''Y'' (length MACOS_SYSTEM_READ) @ '')'') @
     line (''(allow file-read* (subpath (param '' @ quote ''S'' @ ''))'' @ subpath_params ''R'' n_read @
           subpath_params ''W'' n_write @ '')'') @
     line (''(allow file-write* (subpath (param '' @ quote ''S'' @ ''))'' @ subpath_params ''W'' n_write @ '')'') @
     line (''(allow file-write-data (literal '' @ quote ''/dev/null'' @ '') (literal '' @ quote ''/dev/zero'' @
           '') (literal '' @ quote ''/dev/dtracehelper'' @ ''))'') @
     line (''(allow file-ioctl (literal '' @ quote ''/dev/dtracehelper'' @ ''))'') @
     line (''(deny file-write* (require-all (regex #'' @ quote (''/'' @ [CHR 0x5C] @ ''.git/hooks/[^/]+$'') @
           '') (require-not (regex #'' @ quote ([CHR 0x5C] @ ''.sample$'') @ ''))))'') @
     line (''(deny file-write-unlink (regex #'' @ quote (''/'' @ [CHR 0x5C] @ ''.git/hooks$'') @ ''))'') @
     line (''(deny file-write-create (require-all (regex #'' @ quote (''/'' @ [CHR 0x5C] @ ''.git/hooks$'') @
           '') (vnode-type SYMLINK)))'') @
     line (''(deny file-read* file-write* (require-all (regex #'' @ quote (''/'' @ [CHR 0x5C] @ ''.env[^/]*$'') @
           '') (require-not (regex #'' @ quote (''/'' @ [CHR 0x5C] @ ''.env'' @ [CHR 0x5C] @ ''.(example|sample)$'') @
           ''))))'')"

definition params :: "string \<Rightarrow> path list \<Rightarrow> arg list" where
  "params k ps = concat (map (\<lambda>(i, p). [Lit ''-D'', Param (k @ dec i) p]) (zip [0..<length ps] ps))"

definition seatbelt_command :: "sandbox_spec \<Rightarrow> path \<Rightarrow> string list \<Rightarrow> arg list" where
  "seatbelt_command spec program args =
     [Lit ''-p'', Lit (seatbelt_profile (length (sb_read_roots spec)) (length (sb_write_roots spec)))] @
     params ''Y'' (map components MACOS_SYSTEM_READ) @ [Lit ''-D'', Param ''S'' (sb_scratch spec)] @
     params ''R'' (sb_read_roots spec) @ params ''W'' (sb_write_roots spec) @ [PathArg program] @ map Lit args"

section \<open>Bubblewrap\<close>

definition LINUX_SYSTEM_READ :: "string list" where
  "LINUX_SYSTEM_READ =
     [''/usr'', ''/bin'', ''/sbin'', ''/lib'', ''/lib32'', ''/lib64'', ''/libx32'', ''/etc'', ''/opt'']"

definition same :: "string \<Rightarrow> path \<Rightarrow> arg list" where
  "same o' p = [Lit o', PathArg p, PathArg p]"

definition hooks_of :: "path \<Rightarrow> path" where
  "hooks_of w = join w [Normal ''.git'', Normal ''hooks'']"

definition bwrap_command :: "sandbox_spec \<Rightarrow> path \<Rightarrow> string list \<Rightarrow> arg list" where
  "bwrap_command spec program args =
     [Lit ''--unshare-all'', Lit ''--die-with-parent'', Lit ''--dev'', PathArg (components ''/dev''),
      Lit ''--proc'', PathArg (components ''/proc''), Lit ''--tmpfs'', PathArg (components ''/tmp'')] @
     concat (map (\<lambda>y. same ''--ro-bind-try'' (components y)) LINUX_SYSTEM_READ) @
     concat (map (same ''--ro-bind-try'') (sb_read_roots spec)) @
     concat (map (same ''--bind'') (sb_write_roots spec)) @
     same ''--bind'' (sb_scratch spec) @
     concat (map (\<lambda>w. same ''--ro-bind-try'' (hooks_of w)) (sb_write_roots spec)) @
     concat (map (\<lambda>f. [Lit ''--ro-bind'', PathArg (components ''/dev/null''), PathArg f]) (sb_masked_files spec)) @
     [Lit ''--chdir'', PathArg (sb_cwd spec), Lit ''--'', PathArg program] @ map Lit args"

text \<open>
  The \<open>.env\<close> files at the top of the write roots: the directory lists its names, each with whether it
  is a regular file; the paths are sorted by \<open>sort_paths\<close>.
\<close>

definition is_env_file :: "string \<Rightarrow> bool \<Rightarrow> bool" where
  "is_env_file name is_file \<longleftrightarrow>
     (let n = ascii_lowercase name
      in is_file \<and> \<not> (n = ''.env.example'' \<or> n = ''.env.sample'') \<and> (n = ''.env'' \<or> starts_with ''.env.'' n))"

definition env_files :: "(path list \<Rightarrow> path list) \<Rightarrow> (path \<Rightarrow> (string \<times> bool) list option) \<Rightarrow> path list \<Rightarrow> path list" where
  "env_files sort_paths read_dir roots =
     sort_paths (concat (map (\<lambda>w. case read_dir w of
         None \<Rightarrow> []
       | Some es \<Rightarrow> map (\<lambda>(n, _). join w [Normal n]) (filter (\<lambda>(n, f). is_env_file n f) es)) roots))"

fun wrap :: "backend \<Rightarrow> sandbox_spec \<Rightarrow> path \<Rightarrow> string list \<Rightarrow> path \<times> arg list" where
  "wrap (Seatbelt exe) spec program args = (exe, seatbelt_command spec program args)"
| "wrap (Bwrap exe) spec program args = (exe, bwrap_command spec program args)"

end
