(* ===== verification/ShellGate.thy ===== *)
theory ShellGate
  imports GitArgs Sandbox
begin

unbundle bit_operations_syntax

text \<open>
  The shell gate (\<open>agent-shell/src/lib.rs\<close>) on Unix: the allowlist, the policy, the plan of a run, and the
  capture of its output. The file system is a record of what the standard library answers; the
  caller's check of the working directory is the field \<open>scope\<close>.
\<close>

section \<open>The allowlist\<close>

record allowlist =
  al_programs :: "(string \<times> arg_policy) list"
  al_any_program :: bool

definition empty_list :: allowlist where
  "empty_list = \<lparr>al_programs = [], al_any_program = False\<rparr>"

definition allow :: "string \<Rightarrow> arg_policy \<Rightarrow> allowlist \<Rightarrow> allowlist" where
  "allow p pol a = a\<lparr>al_programs := AList.update p pol (al_programs a)\<rparr>"

definition deny :: "string \<Rightarrow> allowlist \<Rightarrow> allowlist" where
  "deny p a = a\<lparr>al_programs := filter (\<lambda>(q, _). q \<noteq> p) (al_programs a)\<rparr>"

definition any_program :: allowlist where
  "any_program = \<lparr>al_programs = [], al_any_program = True\<rparr>"

definition hello_mint :: allowlist where
  "hello_mint =
     allow ''git'' GitReadOnly
       (fold (\<lambda>p. allow p AnyArgs)
          [''forge'', ''anvil'', ''cast'', ''slither'', ''aderyn'', ''medusa'', ''solc'', ''node'', ''npm'', ''npx'', ''pnpm'']
          empty_list)"

definition contains :: "allowlist \<Rightarrow> string \<Rightarrow> bool" where
  "contains a p \<longleftrightarrow> al_any_program a \<or> p \<in> fst ` set (al_programs a)"

definition policy_for :: "allowlist \<Rightarrow> string \<Rightarrow> arg_policy option" where
  "policy_for a p =
     (case map_of (al_programs a) p of
        Some pol \<Rightarrow> Some pol
      | None \<Rightarrow> if al_any_program a then Some AnyArgs else None)"

section \<open>The policy\<close>

definition RESERVED_ENV :: "string list" where
  "RESERVED_ENV = [''PATH'', ''HOME'', ''TMPDIR'', ''NO_COLOR'']"

definition DEFAULT_PASSTHROUGH_ENV :: "string list" where
  "DEFAULT_PASSTHROUGH_ENV = [''LANG'', ''LC_ALL'', ''LC_CTYPE'', ''TZ'']"

definition is_reserved_env :: "string \<Rightarrow> bool" where
  "is_reserved_env n \<longleftrightarrow> n \<in> set RESERVED_ENV"

definition DEFAULT_TIMEOUT_MS :: nat where "DEFAULT_TIMEOUT_MS = 120000"
definition DEFAULT_MAX_TIMEOUT_MS :: nat where "DEFAULT_MAX_TIMEOUT_MS = 900000"
definition DEFAULT_OUTPUT_CAP :: nat where "DEFAULT_OUTPUT_CAP = 65536"

datatype shell_error =
    InvalidProgramName name_error
  | ProgramNotAllowed string
  | ArgumentRefused arg_error
  | EnvNotAllowed string
  | EnvNul string
  | CwdNotAbsolute
  | CwdUnresolved
  | CwdNotDirectory
  | CwdRefused string
  | RootNotAbsolute path
  | RootUnresolved path
  | CwdOutside
  | ProgramNotFound string
  | EmptySearchPath
  | RelativeSearchPath path
  | SeparatorInSearchPath path
  | BadHomeLink path
  | SandboxUnavailable string
  | SpawnFailed string

record shell_policy =
  po_allowlist :: allowlist
  po_search_path :: "path list"
  po_passthrough_env :: "string list"
  po_request_env_allow :: "string list"
  po_default_timeout :: nat
  po_max_timeout :: nat
  po_stdout_cap :: nat
  po_stderr_cap :: nat
  po_sandbox :: sandbox_policy
  po_home_links :: "(path \<times> path) list"
  po_helper_programs :: "string list"

fun check_search_path :: "(path \<Rightarrow> string) \<Rightarrow> path list \<Rightarrow> shell_error + unit" where
  "check_search_path show_path [] = Inr ()"
| "check_search_path show_path (d # ds) =
     (if \<not> has_root d then Inl (RelativeSearchPath d)
      else if CHR '':'' \<in> set (show_path d) then Inl (SeparatorInSearchPath d)
      else check_search_path show_path ds)"

definition policy_new :: "(path \<Rightarrow> string) \<Rightarrow> allowlist \<Rightarrow> path list \<Rightarrow> shell_error + shell_policy" where
  "policy_new show_path al dirs =
     (if dirs = [] then Inl EmptySearchPath
      else bind_result (check_search_path show_path dirs) (\<lambda>_. Inr
        \<lparr>po_allowlist = al, po_search_path = dirs, po_passthrough_env = DEFAULT_PASSTHROUGH_ENV, po_request_env_allow = [],
         po_default_timeout = DEFAULT_TIMEOUT_MS, po_max_timeout = DEFAULT_MAX_TIMEOUT_MS, po_stdout_cap = DEFAULT_OUTPUT_CAP,
         po_stderr_cap = DEFAULT_OUTPUT_CAP, po_sandbox = sandbox_new Off, po_home_links = [], po_helper_programs = []\<rparr>))"

definition with_passthrough_env :: "string list \<Rightarrow> shell_policy \<Rightarrow> shell_policy" where
  "with_passthrough_env ns p = p\<lparr>po_passthrough_env := filter (\<lambda>n. \<not> is_reserved_env n) ns\<rparr>"

definition with_request_env_allow :: "string list \<Rightarrow> shell_policy \<Rightarrow> shell_policy" where
  "with_request_env_allow ns p = p\<lparr>po_request_env_allow := filter (\<lambda>n. \<not> is_reserved_env n) ns\<rparr>"

definition with_home_links :: "(path \<times> path) list \<Rightarrow> shell_policy \<Rightarrow> shell_error + shell_policy" where
  "with_home_links links p =
     (case find (\<lambda>(rel, target).
         \<not> (rel \<noteq> [] \<and> list_all (\<lambda>c. case c of Normal _ \<Rightarrow> True | _ \<Rightarrow> False) rel) \<or> \<not> has_root target) links of
        Some (rel, _) \<Rightarrow> Inl (BadHomeLink rel)
      | None \<Rightarrow> Inr (p\<lparr>po_home_links := links\<rparr>))"

definition effective_timeout :: "shell_policy \<Rightarrow> nat option \<Rightarrow> nat" where
  "effective_timeout p requested = min (case requested of Some t \<Rightarrow> t | None \<Rightarrow> po_default_timeout p) (po_max_timeout p)"

section \<open>Plans\<close>

text \<open>What the file system answers: canonical paths, folders, regular files, executable files.\<close>

record os =
  canonicalize :: "path \<Rightarrow> path option"
  is_folder :: "path \<Rightarrow> bool"
  is_regular :: "path \<Rightarrow> bool"
  is_executable :: "path \<Rightarrow> bool"
  show_path :: "path \<Rightarrow> string"
  detected :: "string + backend"

record run_request =
  rr_program :: string
  rr_args :: "string list"
  rr_cwd :: path
  rr_timeout :: "nat option"
  rr_env :: "(string \<times> string) list"

record run_plan =
  rp_resolved :: path
  rp_cwd :: path
  rp_args :: "string list"
  rp_policy :: arg_policy
  rp_timeout :: nat
  rp_write_roots :: "path list"
  rp_read_roots :: "path list"
  rp_backend :: "backend option"
  rp_sandbox :: sandbox_summary

record runner =
  ru_policy :: shell_policy
  ru_scope :: "path \<Rightarrow> string + path list"

definition resolve :: "os \<Rightarrow> shell_policy \<Rightarrow> string \<Rightarrow> shell_error + path" where
  "resolve os p program =
     (case find (\<lambda>c. is_regular os c \<and> is_executable os c) (map (\<lambda>d. join d (components program)) (po_search_path p)) of
        Some c \<Rightarrow> Inr c
      | None \<Rightarrow> Inl (ProgramNotFound program))"

fun check_env :: "string list \<Rightarrow> (string \<times> string) list \<Rightarrow> shell_error + unit" where
  "check_env allowed [] = Inr ()"
| "check_env allowed ((n, v) # env) =
     (if n \<notin> set allowed then Inl (EnvNotAllowed n)
      else if CHR 0x00 \<in> set v then Inl (EnvNul n)
      else check_env allowed env)"

fun canonical_roots :: "os \<Rightarrow> path list \<Rightarrow> path list \<Rightarrow> shell_error + path list" where
  "canonical_roots os acc [] = Inr acc"
| "canonical_roots os acc (r # rs) =
     (if \<not> has_root r then Inl (RootNotAbsolute r)
      else case canonicalize os r of
             None \<Rightarrow> Inl (RootUnresolved r)
           | Some c \<Rightarrow> canonical_roots os (if c \<in> set acc then acc else acc @ [c]) rs)"

definition check_cwd :: "os \<Rightarrow> runner \<Rightarrow> path \<Rightarrow> shell_error + path \<times> path list" where
  "check_cwd os ru folder =
     (if \<not> has_root folder then Inl CwdNotAbsolute
      else case canonicalize os folder of
             None \<Rightarrow> Inl CwdUnresolved
           | Some c \<Rightarrow>
               if \<not> is_folder os c then Inl CwdNotDirectory
               else (case ru_scope ru c of
                       Inl why \<Rightarrow> Inl (CwdRefused why)
                     | Inr roots \<Rightarrow>
                         bind_result (canonical_roots os [] roots) (\<lambda>ws.
                           if list_ex (\<lambda>r. starts_with r c) ws then Inr (c, ws) else Inl CwdOutside)))"

text \<open>Directories beyond the system set a sandboxed run may read, canonical and without repeats.\<close>

definition add_root :: "os \<Rightarrow> path \<Rightarrow> path list \<Rightarrow> path list" where
  "add_root os p out = (case canonicalize os p of Some c \<Rightarrow> if c \<in> set out then out else out @ [c] | None \<Rightarrow> out)"

definition parent_of :: "path \<Rightarrow> path option" where
  "parent_of p = (if p = [] \<or> last p = RootDir then None else Some (butlast p))"

definition add_program_dirs :: "os \<Rightarrow> path \<Rightarrow> path list \<Rightarrow> path list" where
  "add_program_dirs os prog out =
     (case Option.bind (canonicalize os prog) parent_of of
        None \<Rightarrow> out
      | Some dir \<Rightarrow>
          (let out1 = add_root os dir out
           in case parent_of dir of
                Some env \<Rightarrow> if is_regular os (join env [Normal ''pyvenv.cfg'']) then add_root os env out1 else out1
              | None \<Rightarrow> out1))"

definition read_roots :: "os \<Rightarrow> shell_policy \<Rightarrow> path \<Rightarrow> path list" where
  "read_roots os p program =
     (let helpers = List.map_filter (\<lambda>h. find (is_regular os) (map (\<lambda>d. join d (components h)) (po_search_path p)))
            (po_helper_programs p)
      in fold (add_program_dirs os) (program # helpers)
           (fold (add_root os) (po_search_path p @ sp_extra_read_roots (po_sandbox p)) []))"

definition run_sandbox ::
  "os \<Rightarrow> shell_policy \<Rightarrow> path list \<Rightarrow> path list \<Rightarrow> shell_error + backend option \<times> sandbox_summary" where
  "run_sandbox os p ws rs =
     (case policy_backend (detected os) (po_sandbox p) of
        Inr b \<Rightarrow> Inr (Some b, enforced_summary (show_path os) b ws rs)
      | Inl reason \<Rightarrow>
          if sp_mode (po_sandbox p) = Required then Inl (SandboxUnavailable reason)
          else Inr (None, not_enforced_summary (show_path os) reason ws))"

definition plan :: "os \<Rightarrow> runner \<Rightarrow> run_request \<Rightarrow> shell_error + run_plan" where
  "plan os ru req =
     (let p = ru_policy ru
      in case validate_program_name (rr_program req) of
           Inl e \<Rightarrow> Inl (InvalidProgramName e)
         | Inr _ \<Rightarrow>
             (case policy_for (po_allowlist p) (rr_program req) of
                None \<Rightarrow> Inl (ProgramNotAllowed (rr_program req))
              | Some pol \<Rightarrow>
                  (case check_args pol (rr_args req) of
                     Inl e \<Rightarrow> Inl (ArgumentRefused e)
                   | Inr _ \<Rightarrow>
                       bind_result (check_env (po_request_env_allow p) (rr_env req)) (\<lambda>_.
                       bind_result (check_cwd os ru (rr_cwd req)) (\<lambda>(folder, ws).
                       bind_result (resolve os p (rr_program req)) (\<lambda>resolved.
                         let rs = read_roots os p resolved
                         in bind_result (run_sandbox os p ws rs) (\<lambda>(b, summary). Inr
                              \<lparr>rp_resolved = resolved, rp_cwd = folder, rp_args = effective_args pol (rr_args req), rp_policy = pol,
                               rp_timeout = effective_timeout p (rr_timeout req), rp_write_roots = ws, rp_read_roots = rs,
                               rp_backend = b, rp_sandbox = summary\<rparr>)))))))"

text \<open>The command of a run: what is started, with which arguments and environment.\<close>

record command =
  cm_exe :: path
  cm_args :: "arg list"
  cm_cwd :: path
  cm_env :: "(string \<times> string) list"

text \<open>\<open>sort_paths\<close> and \<open>read_dir\<close> serve the masked files; \<open>host_env\<close> is the environment of the host.\<close>

definition path_list :: "os \<Rightarrow> path list \<Rightarrow> string" where
  "path_list os dirs = join_texts '':'' (map (show_path os) dirs)"

definition run_env :: "os \<Rightarrow> shell_policy \<Rightarrow> (string \<Rightarrow> string option) \<Rightarrow> path \<Rightarrow> arg_policy \<Rightarrow> (string \<times> string) list \<Rightarrow> (string \<times> string) list" where
  "run_env os p host_env scratch pol env =
     [(''PATH'', path_list os (po_search_path p)), (''HOME'', show_path os scratch), (''TMPDIR'', show_path os scratch),
      (''NO_COLOR'', ''1'')] @
     List.map_filter (\<lambda>n. map_option (Pair n) (host_env n)) (po_passthrough_env p) @ policy_env pol @ env"

definition command_of ::
  "(path list \<Rightarrow> path list) \<Rightarrow> (path \<Rightarrow> (string \<times> bool) list option) \<Rightarrow> (string \<Rightarrow> string option) \<Rightarrow> path \<Rightarrow> os \<Rightarrow> shell_policy \<Rightarrow>
   (string \<times> string) list \<Rightarrow> run_plan \<Rightarrow> command" where
  "command_of sort_paths read_dir host_env scratch os p env pl =
     (let (exe, args) =
            (case rp_backend pl of
               Some b \<Rightarrow>
                 wrap b \<lparr>sb_write_roots = rp_write_roots pl, sb_read_roots = rp_read_roots pl, sb_scratch = scratch,
                         sb_cwd = rp_cwd pl, sb_masked_files = env_files sort_paths read_dir (rp_write_roots pl)\<rparr>
                   (rp_resolved pl) (rp_args pl)
             | None \<Rightarrow> (rp_resolved pl, map Lit (rp_args pl)))
      in \<lparr>cm_exe = exe, cm_args = args, cm_cwd = rp_cwd pl,
          cm_env = run_env os p host_env scratch (rp_policy pl) env\<rparr>)"

section \<open>Output capture\<close>

text \<open>
  The first half of the cap is kept from the start of the stream and the second half from its end;
  \<open>feed\<close> is one read.
\<close>

record capture_state =
  cs_head :: bytes
  cs_tail :: bytes
  cs_total :: nat

definition capture_start :: capture_state where
  "capture_start = \<lparr>cs_head = [], cs_tail = [], cs_total = 0\<rparr>"

definition feed :: "nat \<Rightarrow> bytes \<Rightarrow> capture_state \<Rightarrow> capture_state" where
  "feed cap buf s =
     (let head_cap = (cap + 1) div 2;
          tail_cap = cap - head_cap;
          n = min (head_cap - length (cs_head s)) (length buf);
          tail = cs_tail s @ drop n buf
      in \<lparr>cs_head = cs_head s @ take n buf,
          cs_tail = (if 0 < tail_cap then drop (length tail - tail_cap) tail else cs_tail s),
          cs_total = cs_total s + length buf\<rparr>)"

definition capture :: "nat \<Rightarrow> bytes list \<Rightarrow> capture_state" where
  "capture cap chunks = fold (feed cap) chunks capture_start"

definition capture_truncated :: "capture_state \<Rightarrow> bool" where
  "capture_truncated s \<longleftrightarrow> length (cs_head s) + length (cs_tail s) < cs_total s"

text \<open>
  What was kept, as text: a character the cap cut in half is dropped. \<open>lossy\<close> is the standard library's
  lossy decoding.
\<close>

fun ends_before :: "bytes \<Rightarrow> nat \<Rightarrow> nat" where
  "ends_before rev_bytes 0 = 0"
| "ends_before [] n = 0"
| "ends_before (b # bs) (Suc n) = (if b AND 0xC0 = 0x80 then Suc (ends_before bs n) else 0)"

definition char_len :: "u8 \<Rightarrow> nat" where
  "char_len b = (if 0xF0 \<le> b then 4 else if 0xE0 \<le> b then 3 else if 0xC0 \<le> b then 2 else 1)"

definition lossy_prefix :: "(bytes \<Rightarrow> string) \<Rightarrow> bytes \<Rightarrow> string" where
  "lossy_prefix lossy bs =
     (let end = length bs; start = end - ends_before (List.rev bs) 3;
          keep = (if 0 < start \<and> 1 < char_len (bs ! (start - 1)) \<and> end - (start - 1) < char_len (bs ! (start - 1))
                  then start - 1 else end)
      in lossy (take keep bs))"

definition lossy_suffix :: "(bytes \<Rightarrow> string) \<Rightarrow> bytes \<Rightarrow> string" where
  "lossy_suffix lossy bs = lossy (drop (length (takeWhile (\<lambda>b. b AND 0xC0 = 0x80) (take 3 bs))) bs)"

record captured =
  ct_text :: string
  ct_total :: nat
  ct_truncated :: bool

definition captured_of :: "(bytes \<Rightarrow> string) \<Rightarrow> capture_state \<Rightarrow> captured" where
  "captured_of lossy s =
     (let kept = length (cs_head s) + length (cs_tail s)
      in \<lparr>ct_text =
            (if capture_truncated s
             then lossy_prefix lossy (cs_head s) @ [CHR 10] @ ''[truncated: '' @ dec (cs_total s - kept) @ '' bytes omitted]'' @
               (if cs_tail s = [] then [] else [CHR 10] @ lossy_suffix lossy (cs_tail s))
             else lossy (cs_head s @ cs_tail s)),
          ct_total = cs_total s, ct_truncated = capture_truncated s\<rparr>)"

section \<open>A run\<close>

text \<open>
  What one started process did, up to the deadline: its end, its two streams as they were read, and what
  the check of git state undid after it.
\<close>

record process =
  pr_exit :: "int option"
  pr_signal :: "int option"
  pr_timed_out :: bool
  pr_duration_ms :: nat
  pr_stdout :: "bytes list"
  pr_stderr :: "bytes list"
  pr_incomplete :: bool
  pr_cleanup_error :: "string option"
  pr_git_warnings :: "string list"

record run_report =
  re_program :: string
  re_resolved_path :: path
  re_args :: "string list"
  re_cwd :: path
  re_exit_code :: "int option"
  re_signal :: "int option"
  re_timed_out :: bool
  re_timeout_ms :: nat
  re_duration_ms :: nat
  re_stdout :: captured
  re_stderr :: captured
  re_output_incomplete :: bool
  re_cleanup_error :: "string option"
  re_sandbox :: sandbox_summary
  re_git_warnings :: "string list"

definition passed :: "run_report \<Rightarrow> bool" where
  "passed r \<longleftrightarrow> re_exit_code r = Some 0 \<and> \<not> re_timed_out r \<and> re_cleanup_error r = None"

text \<open>
  The host at the time of a run: \<open>hs_scratch\<close> is the fresh home, \<open>hs_start\<close> the operating system, which either
  does not start the command or runs it to its end.
\<close>

record host_side =
  hs_sort :: "path list \<Rightarrow> path list"
  hs_read_dir :: "path \<Rightarrow> (string \<times> bool) list option"
  hs_env :: "string \<Rightarrow> string option"
  hs_scratch :: path
  hs_lossy :: "bytes \<Rightarrow> string"
  hs_start :: "command \<Rightarrow> string + process"

definition command_on :: "host_side \<Rightarrow> os \<Rightarrow> runner \<Rightarrow> run_request \<Rightarrow> run_plan \<Rightarrow> command" where
  "command_on hs os ru req pl =
     command_of (hs_sort hs) (hs_read_dir hs) (hs_env hs) (hs_scratch hs) os (ru_policy ru) (rr_env req) pl"

definition report_of :: "host_side \<Rightarrow> runner \<Rightarrow> run_request \<Rightarrow> run_plan \<Rightarrow> process \<Rightarrow> run_report" where
  "report_of hs ru req pl pr =
     \<lparr>re_program = rr_program req, re_resolved_path = rp_resolved pl, re_args = rp_args pl, re_cwd = rp_cwd pl,
      re_exit_code = pr_exit pr, re_signal = pr_signal pr, re_timed_out = pr_timed_out pr,
      re_timeout_ms = rp_timeout pl, re_duration_ms = pr_duration_ms pr,
      re_stdout = captured_of (hs_lossy hs) (capture (po_stdout_cap (ru_policy ru)) (pr_stdout pr)),
      re_stderr = captured_of (hs_lossy hs) (capture (po_stderr_cap (ru_policy ru)) (pr_stderr pr)),
      re_output_incomplete = pr_incomplete pr, re_cleanup_error = pr_cleanup_error pr, re_sandbox = rp_sandbox pl,
      re_git_warnings = pr_git_warnings pr\<rparr>"

text \<open>A run plans again and then starts its command, which is the second result.\<close>

definition run :: "host_side \<Rightarrow> os \<Rightarrow> runner \<Rightarrow> run_request \<Rightarrow> (shell_error + run_report) \<times> command option" where
  "run hs os ru req =
     (case plan os ru req of
        Inl e \<Rightarrow> (Inl e, None)
      | Inr pl \<Rightarrow>
          (let cmd = command_on hs os ru req pl
           in (case hs_start hs cmd of Inl why \<Rightarrow> Inl (SpawnFailed why) | Inr pr \<Rightarrow> Inr (report_of hs ru req pl pr),
               Some cmd)))"

end
