(* ===== verification/CaptureProperties.thy ===== *)
theory CaptureProperties
  imports ShellGate
begin

text \<open>
  What is kept of an output stream does not depend on how the stream was cut into reads: it is the start
  and the end of the stream, and the whole stream while it fits.
\<close>

definition kept :: "nat \<Rightarrow> bytes \<Rightarrow> capture_state" where
  "kept cap stream =
     (let h = (cap + 1) div 2; rest = drop h stream
      in \<lparr>cs_head = take h stream, cs_tail = drop (length rest - (cap - h)) rest, cs_total = length stream\<rparr>)"

lemma drop_last_append:
  assumes "t = drop (length r - k) r"
  shows "drop (length (t @ b) - k) (t @ b) = drop (length (r @ b) - k) (r @ b)"
proof (cases "length r \<le> k")
  case True
  then show ?thesis using assms by simp
next
  case False
  then have l: "length t = k" using assms by simp
  define u where "u = take (length r - k) r"
  have r: "r = u @ t" using assms by (simp add: u_def)
  show ?thesis unfolding r using l by simp
qed

lemma upto_length: "take (min k (length b)) b = take k b" "drop (min k (length b)) b = drop k b"
  by (cases "k \<le> length b", simp_all)+

lemma feed_kept: "feed cap buf (kept cap s) = kept cap (s @ buf)"
proof -
  define h where "h = (cap + 1) div 2"
  define n where "n = min (h - length (take h s)) (length buf)"
  define R where "R = drop h s"
  define B where "B = drop n buf"
  have k: "kept cap s = \<lparr>cs_head = take h s, cs_tail = drop (length R - (cap - h)) R, cs_total = length s\<rparr>"
    by (simp add: kept_def Let_def h_def R_def)
  have "take h (s @ buf) = take h s @ take n buf" "drop h (s @ buf) = R @ B"
    unfolding n_def R_def B_def by (cases "length s \<le> h", simp_all add: upto_length)+
  then have k': "kept cap (s @ buf) =
      \<lparr>cs_head = take h s @ take n buf, cs_tail = drop (length (R @ B) - (cap - h)) (R @ B), cs_total = length s + length buf\<rparr>"
    unfolding kept_def Let_def h_def [symmetric] by simp
  define T where "T = drop (length R - (cap - h)) R"
  have t: "drop (length (T @ B) - (cap - h)) (T @ B) = drop (length (R @ B) - (cap - h)) (R @ B)"
    by (rule drop_last_append [OF T_def])
  have "feed cap buf (kept cap s) =
      \<lparr>cs_head = take h s @ take n buf, cs_tail = (if 0 < cap - h then drop (length (T @ B) - (cap - h)) (T @ B) else T),
       cs_total = length s + length buf\<rparr>"
    unfolding k T_def [symmetric] feed_def Let_def h_def [symmetric] B_def n_def by simp
  moreover have "T = drop (length (R @ B) - (cap - h)) (R @ B)" if "\<not> 0 < cap - h" using that by (simp add: T_def)
  ultimately show ?thesis unfolding k' t by simp
qed

lemma capture_kept: "fold (feed cap) chunks (kept cap s) = kept cap (s @ concat chunks)"
  by (induction chunks arbitrary: s) (simp_all add: feed_kept)

text \<open>
  The capture of an output stream is a function of the stream and the cap alone, however the reads
  cut it: the first half of the cap from the start and the rest from the end; it is marked truncated
  exactly when the stream is longer than the cap, and otherwise start and end together are the stream.
\<close>

lemma capture_is_of_the_stream:
  "capture cap chunks = kept cap (concat chunks) \<and>
   (capture_truncated (capture cap chunks) \<longleftrightarrow> cap < length (concat chunks)) \<and>
   (cs_head (capture cap chunks) @ cs_tail (capture cap chunks) = concat chunks \<longleftrightarrow> length (concat chunks) \<le> cap)"
proof -
  let ?h = "(cap + 1) div 2" and ?s = "concat chunks"
  have "capture_start = kept cap []" by (simp add: capture_start_def kept_def Let_def)
  then have c: "capture cap chunks = kept cap ?s" unfolding capture_def using capture_kept [of cap chunks "[]"] by simp
  have len: "length (cs_head (kept cap ?s)) + length (cs_tail (kept cap ?s)) = min cap (length ?s)"
    by (simp add: kept_def Let_def)
  have "cs_head (kept cap ?s) @ cs_tail (kept cap ?s) = ?s" if "length ?s \<le> cap"
    using that by (simp add: kept_def Let_def)
  moreover have "length ?s \<le> cap" if "cs_head (kept cap ?s) @ cs_tail (kept cap ?s) = ?s"
  proof -
    have "length (cs_head (kept cap ?s) @ cs_tail (kept cap ?s)) = length ?s" by (simp only: that)
    then show ?thesis using len by simp
  qed
  moreover have "capture_truncated (kept cap ?s) \<longleftrightarrow> cap < length ?s"
    using len by (auto simp: capture_truncated_def kept_def Let_def)
  ultimately show ?thesis unfolding c by blast
qed

end
