(* ===== verification/Cards.thy ===== *)
theory Cards
  imports Prelude
begin

text \<open>
  Approval cards: a call parks a card and waits until the member decides, it expires or the session
  stops (\<open>agent-sidecar/src/action_approvals.rs\<close> and the shell cards of
  \<open>agent-sidecar/src/shell_run.rs\<close>). One function per section of the mutex; a wait is any number of
  polls. The two queues differ in what a card shows, which ids they give and whether they are bounded.
  The card counter is a natural number; times are milliseconds.
\<close>

section \<open>A queue of cards\<close>

record 'v waiting =
  wa_id :: string
  wa_view :: 'v
  wa_deadline :: nat
  wa_answer :: "bool option"

record 'v cards =
  ca_next :: nat
  ca_waiting :: "'v waiting list"

definition no_cards :: "'v cards" where
  "no_cards = \<lparr>ca_next = 0, ca_waiting = []\<rparr>"

definition unanswered :: "'v cards \<Rightarrow> 'v waiting list" where
  "unanswered c = filter (\<lambda>w. wa_answer w = None) (ca_waiting c)"

datatype card_error = TooMany | NotWaiting | Mismatch | Declined | SessionStopped | NoDecision nat

text \<open>The first section of \<open>request\<close>: the card is queued; \<open>label\<close> writes the id and the time left into it.\<close>

definition queue_card :: "string \<Rightarrow> (string \<Rightarrow> nat \<Rightarrow> 'v \<Rightarrow> 'v) \<Rightarrow> nat \<Rightarrow> 'v \<Rightarrow> nat \<Rightarrow> 'v cards \<Rightarrow> string \<times> 'v cards" where
  "queue_card pre label timeout view now c =
     (let n = ca_next c + 1; i = pre @ dec n
      in (i, c\<lparr>ca_next := n,
               ca_waiting := ca_waiting c @ [\<lparr>wa_id = i, wa_view = label i (timeout div 1000) view, wa_deadline = now + timeout,
                 wa_answer = None\<rparr>]\<rparr>))"

text \<open>One turn of the waiting loop; an outcome removes the card in the same section.\<close>

definition poll_card :: "nat \<Rightarrow> string \<Rightarrow> bool \<Rightarrow> nat \<Rightarrow> nat \<Rightarrow> 'v cards \<Rightarrow> (card_error + unit) option \<times> 'v cards" where
  "poll_card timeout i stopped deadline now c =
     (let out =
        (case Option.bind (find (\<lambda>w. wa_id w = i) (ca_waiting c)) wa_answer of
           Some True \<Rightarrow> Some (Inr ())
         | Some False \<Rightarrow> Some (Inl Declined)
         | None \<Rightarrow>
             if stopped then Some (Inl SessionStopped)
             else if deadline \<le> now then Some (Inl (NoDecision (timeout div 1000)))
             else None)
      in (out, if out = None then c else c\<lparr>ca_waiting := filter (\<lambda>w. wa_id w \<noteq> i) (ca_waiting c)\<rparr>))"

fun answer_first :: "('v waiting \<Rightarrow> bool) \<Rightarrow> bool \<Rightarrow> 'v waiting list \<Rightarrow> 'v waiting list" where
  "answer_first P a [] = []"
| "answer_first P a (w # ws) = (if P w then w\<lparr>wa_answer := Some a\<rparr> # ws else w # answer_first P a ws)"

text \<open>The decision must name a waiting card and carry what it showed.\<close>

definition decide_card :: "('v \<Rightarrow> 'k) \<Rightarrow> string \<Rightarrow> bool \<Rightarrow> 'k \<Rightarrow> 'v cards \<Rightarrow> (card_error + unit) \<times> 'v cards" where
  "decide_card shown i allow k c =
     (let is_it = (\<lambda>w. wa_id w = i \<and> wa_answer w = None)
      in case find is_it (ca_waiting c) of
           None \<Rightarrow> (Inl NotWaiting, c)
         | Some w \<Rightarrow>
             if shown (wa_view w) \<noteq> k then (Inl Mismatch, c)
             else (Inr (), c\<lparr>ca_waiting := answer_first is_it allow (ca_waiting c)\<rparr>))"

section \<open>Action cards\<close>

definition ACTION_APPROVAL_TIMEOUT :: nat where "ACTION_APPROVAL_TIMEOUT = 300000"
definition MAX_WAITING :: nat where "MAX_WAITING = 8"
definition SUMMARY_MAX_CHARS :: nat where "SUMMARY_MAX_CHARS = 240"

record action_pending =
  ap_id :: string
  ap_call_id :: string
  ap_tool :: string
  ap_hic :: string
  ap_subject :: string
  ap_summary :: string
  ap_hic_reason :: string
  ap_taint_sources :: "string list"
  ap_expires_in_secs :: nat

definition action_label :: "string \<Rightarrow> nat \<Rightarrow> action_pending \<Rightarrow> action_pending" where
  "action_label i secs v = v\<lparr>ap_id := i, ap_expires_in_secs := secs\<rparr>"

definition action_park :: "nat \<Rightarrow> action_pending \<Rightarrow> nat \<Rightarrow> action_pending cards \<Rightarrow> (card_error + string) \<times> action_pending cards" where
  "action_park timeout view now c =
     (if MAX_WAITING \<le> length (unanswered c) then (Inl TooMany, c)
      else (case queue_card ''act-'' action_label timeout view now c of (i, c') \<Rightarrow> (Inr i, c')))"

definition action_decide :: "string \<Rightarrow> bool \<Rightarrow> string \<Rightarrow> action_pending cards \<Rightarrow> (card_error + unit) \<times> action_pending cards" where
  "action_decide = decide_card ap_subject"

definition action_pending_list :: "nat \<Rightarrow> action_pending cards \<Rightarrow> action_pending list" where
  "action_pending_list now c =
     map (\<lambda>w. (wa_view w)\<lparr>ap_expires_in_secs := (wa_deadline w - now) div 1000\<rparr>) (unanswered c)"

definition action_waiting :: "string \<Rightarrow> action_pending cards \<Rightarrow> action_pending option" where
  "action_waiting i c = map_option wa_view (find (\<lambda>w. wa_id w = i \<and> wa_answer w = None) (ca_waiting c))"

section \<open>Runs of a queue\<close>

text \<open>
  The queue seen by any number of callers and the member: parks, polls and decisions in any order.
  A parked card is polled with the timeout and deadline of its own request.
\<close>

datatype ('v, 'k) card_event = Park 'v nat nat | Poll string bool nat | Decide string bool 'k

datatype card_result = Queued string | Refused card_error | Pending | Outcome "card_error + unit" | Answered bool
  | NoSuchCard

definition is_outcome :: "card_result \<Rightarrow> bool" where
  "is_outcome r \<longleftrightarrow> (case r of Outcome _ \<Rightarrow> True | _ \<Rightarrow> False)"

text \<open>\<open>bound\<close> is the most unanswered cards, \<open>timeouts\<close> the timeout of each request by its id.\<close>

record 'v queue_state =
  qs_cards :: "'v cards"
  qs_timeouts :: "string \<Rightarrow> nat option"

definition card_step ::
  "nat option \<Rightarrow> string \<Rightarrow> (string \<Rightarrow> nat \<Rightarrow> 'v \<Rightarrow> 'v) \<Rightarrow> ('v \<Rightarrow> 'k) \<Rightarrow> ('v, 'k) card_event \<Rightarrow> 'v queue_state \<Rightarrow>
   card_result \<times> 'v queue_state" where
  "card_step bound pre label shown ev q =
     (case ev of
        Park v timeout now \<Rightarrow>
          if (case bound of Some b \<Rightarrow> b \<le> length (unanswered (qs_cards q)) | None \<Rightarrow> False) then (Refused TooMany, q)
          else (case queue_card pre label timeout v now (qs_cards q) of
                  (i, c) \<Rightarrow> (Queued i, \<lparr>qs_cards = c, qs_timeouts = (qs_timeouts q)(i \<mapsto> timeout)\<rparr>))
      | Poll i stopped now \<Rightarrow>
          (case (find (\<lambda>w. wa_id w = i) (ca_waiting (qs_cards q)), qs_timeouts q i) of
             (Some w, Some t) \<Rightarrow>
               (case poll_card t i stopped (wa_deadline w) now (qs_cards q) of
                  (None, c) \<Rightarrow> (Pending, q)
                | (Some out, c) \<Rightarrow> (Outcome out, q\<lparr>qs_cards := c\<rparr>))
           | _ \<Rightarrow> (NoSuchCard, q))
      | Decide i allow k \<Rightarrow>
          (case decide_card shown i allow k (qs_cards q) of
             (Inl e, c) \<Rightarrow> (Refused e, q)
           | (Inr _, c) \<Rightarrow> (Answered allow, q\<lparr>qs_cards := c\<rparr>)))"

fun run_cards ::
  "nat option \<Rightarrow> string \<Rightarrow> (string \<Rightarrow> nat \<Rightarrow> 'v \<Rightarrow> 'v) \<Rightarrow> ('v \<Rightarrow> 'k) \<Rightarrow> ('v, 'k) card_event list \<Rightarrow> 'v queue_state \<Rightarrow>
   (('v, 'k) card_event \<times> card_result) list \<times> 'v queue_state" where
  "run_cards bound pre label shown [] q = ([], q)"
| "run_cards bound pre label shown (ev # evs) q =
     (case card_step bound pre label shown ev q of
        (r, q1) \<Rightarrow> (case run_cards bound pre label shown evs q1 of (tr, q2) \<Rightarrow> ((ev, r) # tr, q2)))"

definition no_queue :: "'v queue_state" where
  "no_queue = \<lparr>qs_cards = no_cards, qs_timeouts = (\<lambda>_. None)\<rparr>"

end
