(* ===== verification/ShellRun.thy ===== *)
theory ShellRun
  imports FolderGrants Turn Cards ShellGate
begin

text \<open>
  The tool \<open>shell_run\<close> (\<open>agent-sidecar/src/shell_run.rs\<close>): its configuration, the proposal, the request
  built from it, the member's card, the auto-approve path, the runs and the result. Each plan reads the
  world anew, so the world is given per \<open>phase\<close> of a call. The folder a command may write is found with the
  folder grants of the session (\<open>agent-sidecar/src/grants.rs\<close>).
\<close>

section \<open>Configuration\<close>

definition SHELL_RUN_TOOL :: string where "SHELL_RUN_TOOL = ''shell_run''"
definition APPROVAL_TIMEOUT :: nat where "APPROVAL_TIMEOUT = 300000"
definition DEFAULT_TIMEOUT_SECS :: nat where "DEFAULT_TIMEOUT_SECS = 120"
definition MAX_TIMEOUT_SECS :: nat where "MAX_TIMEOUT_SECS = 600"
definition OUTPUT_CAP :: nat where "OUTPUT_CAP = 32768"
definition FAILURE_TAIL_BYTES :: nat where "FAILURE_TAIL_BYTES = 2048"
definition MAX_ARGV :: nat where "MAX_ARGV = 64"
definition MAX_ARG_BYTES :: nat where "MAX_ARG_BYTES = 4096"
definition MAX_ARGV_BYTES :: nat where "MAX_ARGV_BYTES = 32768"

record shell_run_config =
  sc_search_path :: "path list"
  sc_sandbox :: sandbox_policy
  sc_approval_timeout :: nat
  sc_auto_approve :: "auto_list option"
  sc_identity :: git_identity

definition default_search_path :: "path list" where
  "default_search_path = map components [''/opt/homebrew/bin'', ''/usr/local/bin'', ''/usr/bin'', ''/bin'']"

text \<open>
  \<open>get\<close> reads the environment, \<open>load\<close> the auto-approve list of its variable's value, \<open>member\<close> the member's own
  git configuration.
\<close>

definition from_env_vars ::
  "(string option \<Rightarrow> env_error + auto_list option) \<Rightarrow> (path list \<Rightarrow> path \<Rightarrow> (string \<times> string) option) \<Rightarrow>
   (string \<Rightarrow> string option) \<Rightarrow> shell_run_config option" where
  "from_env_vars load member get =
     (if get ''CITRATE_HERMES_SHELL_RUN'' \<noteq> Some ''1'' then None
      else case get ''HOME'' of
             None \<Rightarrow> None
           | Some h \<Rightarrow>
               if h = [] then None
               else
                 (let home = components h;
                      given = (case get ''CITRATE_HERMES_SHELL_PATH'' of
                          Some v \<Rightarrow> filter has_root (map components (PathGuard.split_on CHR '':'' v))
                        | None \<Rightarrow> []);
                      path = (if given \<noteq> [] then given
                        else default_search_path @
                          map (\<lambda>d. join home (components d)) [''.foundry/bin'', ''.local/bin'', ''.cargo/bin'', ''go/bin'']);
                      auto = (case load (get ''CITRATE_HERMES_AUTO_APPROVE'') of Inr l \<Rightarrow> l | Inl _ \<Rightarrow> None);
                      app = (case (get ''CITRATE_HERMES_GIT_USER_NAME'', get ''CITRATE_HERMES_GIT_USER_EMAIL'') of
                          (Some n, Some e) \<Rightarrow> Some (n, e) | _ \<Rightarrow> None)
                  in Some \<lparr>sc_search_path = path, sc_sandbox = sandbox_new Required, sc_approval_timeout = APPROVAL_TIMEOUT,
                       sc_auto_approve = auto, sc_identity = resolve_identity app (member path home)\<rparr>))"

section \<open>The folder a command may write\<close>

text \<open>What is read at one moment; \<open>None\<close> is a poisoned lock.\<close>

record moment =
  mo_os :: os
  mo_norm :: "string \<Rightarrow> string"
  mo_disk :: disk
  mo_grants :: "folder_grants option"
  mo_now :: u64
  mo_projects :: "path list option"
  mo_denied :: "denial_reason \<Rightarrow> string"

definition find_grant :: "folder_grants \<Rightarrow> string \<Rightarrow> string + grant" where
  "find_grant fg i =
     ok_or ''the covering grant could not be found'' (find (\<lambda>x. grant_id x = i) (grants (state fg)))"

definition subtree_folder :: "grant \<Rightarrow> string + unit" where
  "subtree_folder x =
     (if kind x \<noteq> Folder then Inl ''commands run only in a folder grant, never under full access''
      else if scope x \<noteq> Subtree
        then Inl ''commands need folder grants that cover everything below them, not only their direct entries''
      else Inr ())"

definition shell_scope :: "moment \<Rightarrow> path \<Rightarrow> string + path \<times> path" where
  "shell_scope m dir =
     (case mo_grants m of
        None \<Rightarrow> Inl ''the grant set could not be read, so nothing is allowed''
      | Some fg \<Rightarrow>
          (let ask = (\<lambda>p o'. check_op (mo_norm m) (mo_disk m) fg (Some (render_names p)) o' (mo_now m))
           in case ask dir OpWrite of
                Denied why \<Rightarrow> Inl (mo_denied m why)
              | Allowed canonical gid \<Rightarrow>
                  bind_result (find_grant fg gid) (\<lambda>g.
                  bind_result (subtree_folder g) (\<lambda>_.
                    case ask (root g) OpRead of
                      Denied why \<Rightarrow> Inl (''the whole folder '' @ render_names (root g) @ '' needs a read grant too: '' @ mo_denied m why)
                    | Allowed _ rid \<Rightarrow>
                        bind_result (find_grant fg rid) (\<lambda>r.
                        bind_result (subtree_folder r) (\<lambda>_. Inr (canonical, root g)))))))"

definition project_root_of :: "moment \<Rightarrow> path \<Rightarrow> path option" where
  "project_root_of m p =
     Option.bind (mo_projects m) (\<lambda>ps. max_by_key length (filter (\<lambda>r. starts_with r p) ps))"

section \<open>The session's runners\<close>

definition session_policy :: "(path \<Rightarrow> string) \<Rightarrow> shell_run_config \<Rightarrow> shell_error + shell_policy" where
  "session_policy sp cfg =
     bind_result (policy_new sp any_program (sc_search_path cfg)) (\<lambda>p. Inr
       (with_request_env_allow GIT_REQUEST_ENV
         (p\<lparr>po_default_timeout := DEFAULT_TIMEOUT_SECS * 1000, po_max_timeout := MAX_TIMEOUT_SECS * 1000,
            po_stdout_cap := OUTPUT_CAP, po_stderr_cap := OUTPUT_CAP, po_sandbox := sc_sandbox cfg\<rparr>)))"

definition member_runner :: "shell_policy \<Rightarrow> moment \<Rightarrow> runner" where
  "member_runner p m =
     \<lparr>ru_policy = p, ru_scope = (\<lambda>c. bind_result (shell_scope m c) (\<lambda>(_, r). Inr [r]))\<rparr>"

definition auto_runner :: "shell_policy \<Rightarrow> moment \<Rightarrow> runner" where
  "auto_runner p m =
     \<lparr>ru_policy = p, ru_scope = (\<lambda>c. bind_result (shell_scope m c) (\<lambda>(dir, _).
        ok_or ''the folder is not inside a project'' (map_option (\<lambda>r. [r]) (project_root_of m dir))))\<rparr>"

section \<open>The proposal\<close>

text \<open>A JSON value, as far as the arguments are read; \<open>parse_json\<close> reads an object.\<close>

datatype arg_value = VNull | VString string | VUnsigned nat | VArray "arg_value list" | VOther

record proposal =
  pp_argv :: "string list"
  pp_cwd :: path
  pp_timeout_secs :: nat

datatype proposal_error = NotAnObject | BadArgv | NoCwd | RelativeCwd | BadTimeout

definition as_str :: "arg_value \<Rightarrow> string option" where
  "as_str v = (case v of VString s \<Rightarrow> Some s | _ \<Rightarrow> None)"

definition parse_argv :: "arg_value option \<Rightarrow> proposal_error + string list" where
  "parse_argv v =
     (case v of
        Some (VArray items) \<Rightarrow>
          if items = [] \<or> MAX_ARGV < length items \<or> list_ex (\<lambda>i. as_str i = None) items then Inl BadArgv
          else (let argv = List.map_filter as_str items
                in if list_ex (\<lambda>a. MAX_ARG_BYTES < length a) argv \<or> MAX_ARGV_BYTES < sum_list (map length argv)
                   then Inl BadArgv else Inr argv)
      | _ \<Rightarrow> Inl BadArgv)"

definition parse_cwd :: "arg_value option \<Rightarrow> proposal_error + path" where
  "parse_cwd v =
     (case Option.bind v as_str of
        None \<Rightarrow> Inl NoCwd
      | Some c \<Rightarrow>
          if trim c = [] then Inl NoCwd else if \<not> has_root (components c) then Inl RelativeCwd else Inr (components c))"

definition parse_timeout :: "arg_value option \<Rightarrow> proposal_error + nat" where
  "parse_timeout v =
     (case v of
        None \<Rightarrow> Inr DEFAULT_TIMEOUT_SECS
      | Some VNull \<Rightarrow> Inr DEFAULT_TIMEOUT_SECS
      | Some (VUnsigned n) \<Rightarrow> if 1 \<le> n \<and> n \<le> MAX_TIMEOUT_SECS then Inr n else Inl BadTimeout
      | Some _ \<Rightarrow> Inl BadTimeout)"

definition parse :: "(string \<Rightarrow> (string \<rightharpoonup> arg_value) option) \<Rightarrow> string \<Rightarrow> proposal_error + proposal" where
  "parse parse_json raw =
     (case parse_json (if trim raw = [] then ''{}'' else raw) of
        None \<Rightarrow> Inl NotAnObject
      | Some a \<Rightarrow>
          bind_result (parse_argv (a ''argv'')) (\<lambda>argv.
          bind_result (parse_cwd (a ''cwd'')) (\<lambda>c.
          bind_result (parse_timeout (a ''timeout_secs'')) (\<lambda>t.
            Inr \<lparr>pp_argv = argv, pp_cwd = c, pp_timeout_secs = t\<rparr>))))"

definition request_of :: "proposal \<Rightarrow> git_identity \<Rightarrow> string + run_request" where
  "request_of p i =
     (case pp_argv p of
        [] \<Rightarrow> Inl ''argv is empty''
      | program # rest \<Rightarrow>
          bind_result (if program = ''git'' then git_args rest else Inr rest) (\<lambda>args. Inr
            \<lparr>rr_program = program, rr_args = args, rr_cwd = pp_cwd p, rr_timeout = Some (pp_timeout_secs p * 1000),
             rr_env = (if program = ''git'' then command_config_env @ identity_env i else [])\<rparr>))"

definition same_command :: "run_plan \<Rightarrow> run_plan \<Rightarrow> bool" where
  "same_command a b \<longleftrightarrow> rp_resolved a = rp_resolved b \<and> rp_args a = rp_args b \<and> rp_cwd a = rp_cwd b"

section \<open>The card\<close>

record shell_pending =
  sp_id :: string
  sp_call_id :: string
  sp_tool :: string
  sp_hic :: string
  sp_argv :: "string list"
  sp_resolved_program :: string
  sp_cwd :: string
  sp_timeout_secs :: nat
  sp_sandbox :: sandbox_summary
  sp_expires_in_secs :: nat
  sp_hic_reason :: "string option"
  sp_taint_sources :: "string set"

definition shell_label :: "string \<Rightarrow> nat \<Rightarrow> shell_pending \<Rightarrow> shell_pending" where
  "shell_label i secs v = v\<lparr>sp_id := i, sp_expires_in_secs := secs\<rparr>"

text \<open>What a decision on the card must carry.\<close>

definition shell_shown :: "shell_pending \<Rightarrow> string list \<times> string" where
  "shell_shown v = (sp_argv v, sp_cwd v)"

definition shell_decide :: "string \<Rightarrow> bool \<Rightarrow> string list \<Rightarrow> string \<Rightarrow> shell_pending cards \<Rightarrow> (card_error + unit) \<times> shell_pending cards" where
  "shell_decide i a argv c = decide_card shell_shown i a (argv, c)"

definition shell_pending_list :: "nat \<Rightarrow> shell_pending cards \<Rightarrow> shell_pending list" where
  "shell_pending_list now c =
     map (\<lambda>w. (wa_view w)\<lparr>sp_expires_in_secs := (wa_deadline w - now) div 1000\<rparr>) (unanswered c)"

section \<open>The result\<close>

datatype run_status = RsCompleted | RsNotInstalled | RsTimedOut | RsRefused | RsFailed

datatype released = ByMember | ByRule string path

record run_facts =
  rf_argv :: "string list"
  rf_report :: run_report
  rf_released :: released
  rf_tail :: "(string \<times> string) option"

record envelope =
  en_status :: run_status
  en_summary :: string
  en_run :: "run_facts option"

definition not_run :: "run_status \<Rightarrow> string \<Rightarrow> envelope" where
  "not_run st why = \<lparr>en_status = st, en_summary = why, en_run = None\<rparr>"

definition refusal_for :: "(shell_error \<Rightarrow> string) \<Rightarrow> shell_error \<Rightarrow> envelope" where
  "refusal_for show_error e =
     (case e of
        ProgramNotFound program \<Rightarrow> not_run RsNotInstalled (program @ '' is not installed on this machine'' @ [CHR 0x27] @ ''s search path'')
      | InvalidProgramName _ \<Rightarrow> not_run RsRefused (show_error e @ ''; the program must be a bare name such as npm, never a path'')
      | SpawnFailed _ \<Rightarrow> not_run RsFailed (show_error e)
      | _ \<Rightarrow> not_run RsRefused (show_error e))"

text \<open>The last \<open>max\<close> bytes, from a character boundary.\<close>

definition is_continuation :: "char \<Rightarrow> bool" where
  "is_continuation c \<longleftrightarrow> 128 \<le> (of_char c :: nat) \<and> (of_char c :: nat) < 192"

definition tail_of :: "string \<Rightarrow> nat \<Rightarrow> string" where
  "tail_of s m = (if length s \<le> m then s else dropWhile is_continuation (drop (length s - m) s))"

definition show_int :: "int \<Rightarrow> string" where
  "show_int n = (if n < 0 then ''-'' @ dec (nat (- n)) else dec (nat n))"

definition isolation :: "sandbox_summary \<Rightarrow> string" where
  "isolation s = (if ss_enforced s then ''in the '' @ ss_backend s @ '' sandbox, no network'' else ''without an OS sandbox'')"

definition auto_note :: "released \<Rightarrow> string" where
  "auto_note r =
     (case r of
        ByMember \<Rightarrow> []
      | ByRule rule project \<Rightarrow>
          ''Ran without a card under the auto-approve rule '' @ rule @ '' (sandboxed, no network, writing only the project '' @
            render_names project @ ''). '')"

definition git_note :: "string list \<Rightarrow> string" where
  "git_note ws =
     (if ws = [] then []
      else ''. After it ran, git changes that would run a program outside the sandbox were undone ('' @ join_texts ''; '' ws @
        ''); do not set them again'')"

definition ended :: "run_report \<Rightarrow> string" where
  "ended r =
     (case (re_exit_code r, re_signal r) of
        (Some c, _) \<Rightarrow> ''exited with code '' @ show_int c
      | (None, Some s) \<Rightarrow> ''was ended by signal '' @ show_int s
      | (None, None) \<Rightarrow> ''ended without a status'')"

text \<open>The end of a failing command's output: which stream and what of it.\<close>

definition failure_tail :: "run_report \<Rightarrow> (string \<times> string) option" where
  "failure_tail r =
     (if re_exit_code r = Some 0 then None
      else Some (if trim (ct_text (re_stderr r)) = []
                 then (''stdout'', tail_of (ct_text (re_stdout r)) FAILURE_TAIL_BYTES)
                 else (''stderr'', tail_of (ct_text (re_stderr r)) FAILURE_TAIL_BYTES)))"

definition failure_note :: "run_report \<Rightarrow> string" where
  "failure_note r =
     (case failure_tail r of
        None \<Rightarrow> []
      | Some (stream, t) \<Rightarrow>
          if trim t = [] then ''. It printed nothing'' else ''. The end of its '' @ stream @ '':'' @ [CHR 10] @ t)"

text \<open>An error result or an ordinary one.\<close>

definition report :: "string list \<Rightarrow> run_report \<Rightarrow> released \<Rightarrow> envelope + envelope" where
  "report argv r rel =
     (let facts = (\<lambda>t. Some \<lparr>rf_argv = argv, rf_report = r, rf_released = rel, rf_tail = t\<rparr>)
      in case re_cleanup_error r of
           Some e \<Rightarrow> Inl \<lparr>en_status = RsFailed, en_summary = re_program r @ '' ran but cleanup failed: '' @ e, en_run = facts None\<rparr>
         | None \<Rightarrow>
             if re_timed_out r
             then Inl \<lparr>en_status = RsTimedOut,
                    en_summary = re_program r @ '' did not finish within '' @ dec (re_timeout_ms r div 1000) @
                      ''s and was stopped ('' @ isolation (re_sandbox r) @ '')'', en_run = facts None\<rparr>
             else Inr \<lparr>en_status = RsCompleted,
                    en_summary = auto_note rel @ re_program r @ '' '' @ ended r @ '' after '' @ dec (re_duration_ms r) @ '' ms ('' @
                      isolation (re_sandbox r) @ '')'' @ git_note (re_git_warnings r) @ failure_note r,
                    en_run = facts (failure_tail r)\<rparr>)"

section \<open>A call\<close>

definition proposal_text :: "proposal_error \<Rightarrow> string" where
  "proposal_text e =
     (case e of
        NotAnObject \<Rightarrow> ''the arguments must be a JSON object''
      | BadArgv \<Rightarrow> ''argv must be a list of 1 to '' @ dec MAX_ARGV @ '' strings (each at most '' @ dec MAX_ARG_BYTES @
          '' bytes), program first''
      | NoCwd \<Rightarrow> ''cwd (the absolute path of the folder to run in) is required''
      | RelativeCwd \<Rightarrow> ''cwd must be an absolute path inside a granted folder''
      | BadTimeout \<Rightarrow> ''timeout_secs must be a whole number from 1 to '' @ dec MAX_TIMEOUT_SECS)"

definition shell_card_text :: "card_error \<Rightarrow> string" where
  "shell_card_text e =
     (case e of
        Declined \<Rightarrow> ''the member declined this command; ask the member what to do instead of retrying it''
      | SessionStopped \<Rightarrow> ''the session was stopped before the member decided''
      | NoDecision secs \<Rightarrow> ''no decision within '' @ dec secs @ ''s, so the command was declined''
      | NotWaiting \<Rightarrow> ''that command is no longer waiting for a decision''
      | Mismatch \<Rightarrow> ''the decision does not match the command and folder that are waiting; nothing was decided''
      | TooMany \<Rightarrow> [])"

text \<open>
  The moments of one call at which the world is read, and what the call did: the records it wrote, the card
  it asked with and the commands it started.
\<close>

datatype phase = AutoPlan | AutoRun | AskPlan | Recheck | MemberRun

datatype shell_act = ActRecord string string | ActAsk shell_pending | ActRun phase command | ActOutcome nat bool

record shell_host =
  sh_policy :: shell_policy
  sh_auto :: "auto_list option"
  sh_records :: bool
  sh_identity :: git_identity
  sh_hic_aware :: bool

text \<open>
  \<open>sw_ask\<close> is the outcome of the card, \<open>sw_record\<close> the sequence number of a written record, \<open>sw_render\<close> the JSON
  text of a result and \<open>sw_show_error\<close> the text of an error.
\<close>

record shell_world =
  sw_json :: "string \<Rightarrow> (string \<rightharpoonup> arg_value) option"
  sw_moment :: "phase \<Rightarrow> moment"
  sw_host :: "phase \<Rightarrow> host_side"
  sw_taint :: "phase \<Rightarrow> taint"
  sw_ask :: "shell_pending \<Rightarrow> card_error + unit"
  sw_stopped :: bool
  sw_record :: "string \<Rightarrow> string \<Rightarrow> nat option"
  sw_render :: "envelope \<Rightarrow> string"
  sw_show_error :: "shell_error \<Rightarrow> string"

definition refuse :: "shell_world \<Rightarrow> run_status \<Rightarrow> string \<Rightarrow> tool_outcome" where
  "refuse w st why = OutError (sw_render w (not_run st why))"

definition refused_for :: "shell_world \<Rightarrow> shell_error \<Rightarrow> tool_outcome" where
  "refused_for w e = OutError (sw_render w (refusal_for (sw_show_error w) e))"

definition reported :: "shell_world \<Rightarrow> (string \<Rightarrow> tool_outcome) \<Rightarrow> envelope + envelope \<Rightarrow> tool_outcome" where
  "reported w ok e = (case e of Inl x \<Rightarrow> OutError (sw_render w x) | Inr x \<Rightarrow> ok (sw_render w x))"

definition ran :: "phase \<Rightarrow> command option \<Rightarrow> shell_act list" where
  "ran ph c = (case c of Some cmd \<Rightarrow> [ActRun ph cmd] | None \<Rightarrow> [])"

definition record_subject :: "string list \<Rightarrow> run_plan \<Rightarrow> string" where
  "record_subject argv pl = join_texts '' '' argv @ '' (in '' @ render_names (rp_cwd pl) @ '')''"

definition record_reason :: "string \<Rightarrow> string list \<Rightarrow> path \<Rightarrow> string" where
  "record_reason rule argv project =
     ''auto-approve rule '' @ rule @ '': '' @ join_texts '' '' argv @
     '' runs in the OS sandbox with no network, writing only the project '' @ render_names project"

text \<open>The run of an auto-approved command; its record is closed with how it ended.\<close>

definition auto_run ::
  "shell_host \<Rightarrow> shell_world \<Rightarrow> string list \<Rightarrow> run_request \<Rightarrow> string \<Rightarrow> path \<Rightarrow> nat option \<Rightarrow> tool_outcome \<times> shell_act list" where
  "auto_run h w argv req rule project seq =
     (let m = sw_moment w AutoRun;
          (r, cmd) = run (sw_host w AutoRun) (mo_os m) (auto_runner (sh_policy h) m) req;
          out = (case r of
              Inl e \<Rightarrow> refused_for w e
            | Inr rep \<Rightarrow> reported w OutVouched (report argv rep (ByRule rule project)));
          acts = ran AutoRun cmd @
            (case seq of
               Some n \<Rightarrow> [ActOutcome n (case out of OutOk _ \<Rightarrow> True | OutVouched _ \<Rightarrow> True | _ \<Rightarrow> False)]
             | None \<Rightarrow> [])
      in (out, acts))"

definition try_auto ::
  "shell_host \<Rightarrow> shell_world \<Rightarrow> string list \<Rightarrow> run_request \<Rightarrow> (tool_outcome \<times> shell_act list) option" where
  "try_auto h w argv req =
     (if is_tainted (sw_taint w AutoPlan) then None
      else case Option.bind (sh_auto h) (\<lambda>l. matching l argv) of
             None \<Rightarrow> None
           | Some rule \<Rightarrow>
               (let m = sw_moment w AutoPlan
                in case plan (mo_os m) (auto_runner (sh_policy h) m) req of
                     Inl _ \<Rightarrow> None
                   | Inr pl \<Rightarrow>
                       if \<not> ss_enforced (rp_sandbox pl) then None
                       else (case rp_write_roots pl of
                               [] \<Rightarrow> None
                             | project # _ \<Rightarrow>
                                 if \<not> sh_records h then Some (auto_run h w argv req rule project None)
                                 else (let s = record_subject argv pl; why = record_reason rule argv project
                                       in case sw_record w s why of
                                            None \<Rightarrow> None
                                          | Some n \<Rightarrow>
                                              (case auto_run h w argv req rule project (Some n) of
                                                 (out, acts) \<Rightarrow> Some (out, ActRecord s why # acts))))))"

definition card_of :: "tool_call \<Rightarrow> string list \<Rightarrow> (path \<Rightarrow> string) \<Rightarrow> run_plan \<Rightarrow> string option \<Rightarrow> taint \<Rightarrow> shell_pending" where
  "card_of c argv sp pl hic t =
     \<lparr>sp_id = [], sp_call_id = call_id c, sp_tool = SHELL_RUN_TOOL, sp_hic = ''required'', sp_argv = argv,
      sp_resolved_program = sp (rp_resolved pl), sp_cwd = sp (rp_cwd pl), sp_timeout_secs = rp_timeout pl div 1000,
      sp_sandbox = rp_sandbox pl, sp_expires_in_secs = 0, sp_hic_reason = hic,
      sp_taint_sources = (if hic \<noteq> None then case taint_sources t of Some ss \<Rightarrow> ss | None \<Rightarrow> {} else {})\<rparr>"

text \<open>After an allow: the stop flag, the plan again, and the run.\<close>

definition member_run ::
  "shell_host \<Rightarrow> shell_world \<Rightarrow> string list \<Rightarrow> run_request \<Rightarrow> run_plan \<Rightarrow> tool_outcome \<times> shell_act list" where
  "member_run h w argv req pl =
     (if sw_stopped w then (OutDenied ''the session was stopped; nothing ran'', [])
      else
        (let m = sw_moment w Recheck
         in case plan (mo_os m) (member_runner (sh_policy h) m) req of
              Inl e \<Rightarrow> (refused_for w e, [])
            | Inr again \<Rightarrow>
                if \<not> same_command pl again
                then (refuse w RsRefused ''what would run changed after the member approved it, so nothing ran'', [])
                else
                  (let m = sw_moment w MemberRun;
                       (r, cmd) = run (sw_host w MemberRun) (mo_os m) (member_runner (sh_policy h) m) req
                   in (case r of
                         Inl e \<Rightarrow> refused_for w e
                       | Inr rep \<Rightarrow> reported w OutOk (report argv rep ByMember),
                       ran MemberRun cmd))))"

definition ask_and_run ::
  "shell_host \<Rightarrow> shell_world \<Rightarrow> tool_call \<Rightarrow> string option \<Rightarrow> tool_outcome \<times> shell_act list" where
  "ask_and_run h w c hic =
     (if call_name c \<noteq> SHELL_RUN_TOOL then (OutError (quoted (call_name c) @ '' is not shell_run''), [])
      else case parse (sw_json w) (call_args c) of
             Inl e \<Rightarrow> (refuse w RsRefused (proposal_text e), [])
           | Inr p \<Rightarrow>
               (case request_of p (sh_identity h) of
                  Inl e \<Rightarrow> (refuse w RsRefused e, [])
                | Inr req \<Rightarrow>
                    (case (if hic = None then try_auto h w (pp_argv p) req else None) of
                       Some done_auto \<Rightarrow> done_auto
                     | None \<Rightarrow>
                         (let m = sw_moment w AskPlan
                          in case plan (mo_os m) (member_runner (sh_policy h) m) req of
                               Inl e \<Rightarrow> (refused_for w e, [])
                             | Inr pl \<Rightarrow>
                                 (let card = card_of c (pp_argv p) (show_path (mo_os m)) pl hic (sw_taint w AskPlan)
                                  in case sw_ask w card of
                                       Inl e \<Rightarrow> (OutDenied (shell_card_text e), [ActAsk card])
                                     | Inr _ \<Rightarrow>
                                         (case member_run h w (pp_argv p) req pl of
                                            (out, acts) \<Rightarrow> (out, ActAsk card # acts)))))))"

definition execute_with_explicit_approval ::
  "shell_host \<Rightarrow> shell_world \<Rightarrow> taint \<Rightarrow> tool_call \<Rightarrow> string \<Rightarrow> tool_outcome \<times> shell_act list" where
  "execute_with_explicit_approval h w t c why =
     (if \<not> sh_hic_aware h then (OutDenied (cannot_ask_reason (map_option tr_source (taint_record_of t))), [])
      else ask_and_run h w c (Some why))"

definition execute :: "shell_host \<Rightarrow> shell_world \<Rightarrow> taint \<Rightarrow> tool_call \<Rightarrow> tool_outcome \<times> shell_act list" where
  "execute h w t c =
     (case taint_record_of t of
        Some r \<Rightarrow> execute_with_explicit_approval h w t c (approval_reason (tr_source r))
      | None \<Rightarrow> ask_and_run h w c None)"

end
