(* ===== verification/CardProperties.thy ===== *)
theory CardProperties
  imports Cards
begin

text \<open>
  An approval releases one call: a card is let go only by a member's decision that named it and carried
  what it showed, at most once, and a bounded queue stays bounded.
\<close>

type_synonym ('v, 'k) card_history = "(('v, 'k) card_event \<times> card_result) list"

text \<open>The history shows the card \<open>i\<close> parked with view \<open>v\<close> and then answered \<open>a\<close> with what it showed.\<close>

definition parked_as :: "('v, 'k) card_history \<Rightarrow> string \<Rightarrow> 'v \<Rightarrow> bool" where
  "parked_as h i v \<longleftrightarrow> (\<exists>xs ys t n. h = xs @ (Park v t n, Queued i) # ys)"

definition answered_as :: "('v \<Rightarrow> 'k) \<Rightarrow> ('v, 'k) card_history \<Rightarrow> string \<Rightarrow> bool \<Rightarrow> bool" where
  "answered_as shown h i a \<longleftrightarrow>
     (\<exists>v xs ys zs t n. h = xs @ (Park v t n, Queued i) # ys @ (Decide i a (shown v), Answered a) # zs)"

definition resolved :: "('v, 'k) card_history \<Rightarrow> string \<Rightarrow> bool" where
  "resolved h i \<longleftrightarrow> (\<exists>s now r. (Poll i s now, Outcome r) \<in> set h)"

lemma parked_as_snoc: "parked_as h i v \<Longrightarrow> parked_as (h @ [x]) i v"
  unfolding parked_as_def by (metis append.assoc append_Cons)

lemma parked_as_new: "parked_as (h @ [(Park v t n, Queued i)]) i v"
  unfolding parked_as_def by blast

lemma answered_as_snoc: "answered_as shown h i a \<Longrightarrow> answered_as shown (h @ [x]) i a"
  unfolding answered_as_def by (metis append.assoc append_Cons)

lemma answered_as_new: "parked_as h i v \<Longrightarrow> answered_as shown (h @ [(Decide i a (shown v), Answered a)]) i a"
  unfolding parked_as_def answered_as_def by (metis append.assoc append_Cons)

lemma resolved_snoc [simp]:
  "resolved (h @ [x]) i \<longleftrightarrow> resolved h i \<or> (\<exists>s now r. x = (Poll i s now, Outcome r))"
  by (auto simp: resolved_def)

text \<open>Every outcome is the card's first, and an allow answers a decision.\<close>

definition outcomes_ok :: "('v \<Rightarrow> 'k) \<Rightarrow> ('v, 'k) card_history \<Rightarrow> bool" where
  "outcomes_ok shown h \<longleftrightarrow>
     (\<forall>us i s now r vs. h = us @ (Poll i s now, Outcome r) # vs \<longrightarrow>
        \<not> resolved us i \<and> (r = Inr () \<longrightarrow> answered_as shown us i True))"

lemma outcomes_ok_snoc:
  assumes "outcomes_ok shown h"
    and "\<And>i s now r. x = (Poll i s now, Outcome r) \<Longrightarrow> \<not> resolved h i \<and> (r = Inr () \<longrightarrow> answered_as shown h i True)"
  shows "outcomes_ok shown (h @ [x])"
  unfolding outcomes_ok_def
proof (intro allI impI)
  fix us i s now r vs
  assume e: "h @ [x] = us @ (Poll i s now, Outcome r) # vs"
  show "\<not> resolved us i \<and> (r = Inr () \<longrightarrow> answered_as shown us i True)"
  proof (cases vs rule: rev_cases)
    case Nil
    then show ?thesis using e assms(2) by simp
  next
    case (snoc ws y)
    then have "h = us @ (Poll i s now, Outcome r) # ws" using e by (metis append.assoc append_Cons butlast_snoc)
    then show ?thesis using assms(1) unfolding outcomes_ok_def by blast
  qed
qed

definition old_id :: "string \<Rightarrow> nat \<Rightarrow> string \<Rightarrow> bool" where
  "old_id pre n i \<longleftrightarrow> (\<exists>m \<le> n. i = pre @ dec m)"

text \<open>What the history says of a waiting card.\<close>

definition card_ok :: "('v \<Rightarrow> 'k) \<Rightarrow> ('v, 'k) card_history \<Rightarrow> 'v waiting \<Rightarrow> bool" where
  "card_ok shown h w \<longleftrightarrow>
     \<not> resolved h (wa_id w) \<and> (\<exists>v. parked_as h (wa_id w) v \<and> shown (wa_view w) = shown v) \<and>
     (\<forall>a. wa_answer w = Some a \<longrightarrow> answered_as shown h (wa_id w) a)"

lemma card_ok_snoc:
  assumes "card_ok shown h w" "\<And>s now r. x \<noteq> (Poll (wa_id w) s now, Outcome r)"
  shows "card_ok shown (h @ [x]) w"
  using assms by (auto simp: card_ok_def intro: answered_as_snoc parked_as_snoc)

definition cards_inv ::
  "nat option \<Rightarrow> string \<Rightarrow> ('v \<Rightarrow> 'k) \<Rightarrow> ('v, 'k) card_history \<Rightarrow> 'v queue_state \<Rightarrow> bool" where
  "cards_inv bound pre shown h q \<longleftrightarrow>
     distinct (map wa_id (ca_waiting (qs_cards q))) \<and>
     (\<forall>w \<in> set (ca_waiting (qs_cards q)).
        old_id pre (ca_next (qs_cards q)) (wa_id w) \<and> card_ok shown h w) \<and>
     (\<forall>i. resolved h i \<longrightarrow> old_id pre (ca_next (qs_cards q)) i) \<and>
     (case bound of Some b \<Rightarrow> length (unanswered (qs_cards q)) \<le> b | None \<Rightarrow> True) \<and>
     outcomes_ok shown h"

lemma old_id_mono: "old_id pre n i \<Longrightarrow> n \<le> m \<Longrightarrow> old_id pre m i"
  unfolding old_id_def using le_trans by blast

lemma new_id_fresh: "\<not> old_id pre n (pre @ dec (Suc n))"
  by (auto simp: old_id_def)

lemma answer_first_ids [simp]: "map wa_id (answer_first P a ws) = map wa_id ws"
  by (induction ws) auto

lemma answer_first_mem:
  "w \<in> set (answer_first P a ws) \<Longrightarrow>
     w \<in> set ws \<or> (\<exists>w0 \<in> set ws. P w0 \<and> find P ws = Some w0 \<and> w = w0\<lparr>wa_answer := Some a\<rparr>)"
  by (induction ws) (auto split: if_splits)

lemma answer_first_unanswered:
  "length (filter (\<lambda>w. wa_answer w = None) (answer_first P a ws)) \<le> length (filter (\<lambda>w. wa_answer w = None) ws)"
  by (induction ws) auto

lemma filter_both_le: "length (filter (\<lambda>x. Q x \<and> P x) xs) \<le> length (filter P xs)"
  by (induction xs) auto

lemma empty_inv: "cards_inv bound pre shown [] no_queue"
  by (auto simp: cards_inv_def no_queue_def no_cards_def resolved_def outcomes_ok_def unanswered_def split: option.split)

text \<open>A queue whose label leaves alone what a decision must carry.\<close>

locale card_queue =
  fixes bound :: "nat option" and pre :: string and label :: "string \<Rightarrow> nat \<Rightarrow> 'v \<Rightarrow> 'v" and shown :: "'v \<Rightarrow> 'k"
  assumes shown_label: "shown (label i s v) = shown v"
begin

lemma step_keeps:
  assumes "cards_inv bound pre shown h q"
    and "card_step bound pre label shown ev q = (r, q')"
  shows "cards_inv bound pre shown (h @ [(ev, r)]) q'"
proof -
  let ?c = "qs_cards q"
  have d: "distinct (map wa_id (ca_waiting ?c))"
    and w: "\<And>w. w \<in> set (ca_waiting ?c) \<Longrightarrow>
        old_id pre (ca_next ?c) (wa_id w) \<and> card_ok shown h w"
    and res: "\<And>i. resolved h i \<Longrightarrow> old_id pre (ca_next ?c) i"
    and b: "case bound of Some b \<Rightarrow> length (unanswered ?c) \<le> b | None \<Rightarrow> True"
    and ok: "outcomes_ok shown h"
    using assms(1) unfolding cards_inv_def by blast+
  have quiet: "cards_inv bound pre shown (h @ [(ev, r)]) q'"
    if "q' = q" and no: "\<And>i s now o'. (ev, r) \<noteq> (Poll i s now, Outcome o')"
  proof -
    have nr: "resolved (h @ [(ev, r)]) i = resolved h i" for i unfolding resolved_snoc using no by blast
    have "outcomes_ok shown (h @ [(ev, r)])" using outcomes_ok_snoc [OF ok] no by blast
    then show ?thesis unfolding cards_inv_def \<open>q' = q\<close> nr
      using d w res b no card_ok_snoc [of shown h _ "(ev, r)"] by blast
  qed
  show ?thesis
  proof (cases ev)
    case (Park v t now)
    show ?thesis
    proof (cases "case bound of Some b \<Rightarrow> b \<le> length (unanswered ?c) | None \<Rightarrow> False")
      case True
      then show ?thesis using assms(2) Park by (intro quiet) (auto simp: card_step_def)
    next
      case False
      define i where "i = pre @ dec (ca_next ?c + 1)"
      define nw where "nw = \<lparr>wa_id = i, wa_view = label i (t div 1000) v, wa_deadline = now + t, wa_answer = None\<rparr>"
      have q: "r = Queued i" "ca_next (qs_cards q') = Suc (ca_next ?c)" "ca_waiting (qs_cards q') = ca_waiting ?c @ [nw]"
        using assms(2) Park False by (auto simp: card_step_def queue_card_def Let_def i_def nw_def)
      have fresh: "\<not> old_id pre (ca_next ?c) i" using new_id_fresh [of pre "ca_next ?c"] by (simp add: i_def)
      have new: "old_id pre (Suc (ca_next ?c)) i" by (auto simp: old_id_def i_def)
      let ?h = "h @ [(ev, r)]"
      have nr: "resolved ?h j = resolved h j" for j by (simp add: Park)
      have "outcomes_ok shown ?h" using outcomes_ok_snoc [OF ok] Park by blast
      moreover have "distinct (map wa_id (ca_waiting (qs_cards q')))"
        using d w fresh q(3) by (auto simp: nw_def)
      moreover have "old_id pre (ca_next (qs_cards q')) (wa_id x) \<and> card_ok shown ?h x"
        if "x \<in> set (ca_waiting (qs_cards q'))" for x
      proof (cases "x = nw")
        case True
        have "card_ok shown ?h nw"
          using fresh res [of i] q(1) Park shown_label parked_as_new [of h v t now i] nr
          by (auto simp: nw_def card_ok_def intro!: exI [of _ v])
        then show ?thesis using new q(2) True by (simp add: nw_def)
      next
        case False
        then have "x \<in> set (ca_waiting ?c)" using that q(3) by auto
        then have "old_id pre (Suc (ca_next ?c)) (wa_id x)" "card_ok shown ?h x"
          using w [of x] old_id_mono [of pre "ca_next ?c" "wa_id x"] card_ok_snoc [of shown h x "(ev, r)"] Park by auto
        then show ?thesis using q(2) by simp
      qed
      moreover have "case bound of Some b \<Rightarrow> length (unanswered (qs_cards q')) \<le> b | None \<Rightarrow> True"
        using False q(3) by (auto simp: unanswered_def nw_def split: option.splits)
      moreover have "old_id pre (ca_next (qs_cards q')) j" if "resolved ?h j" for j
        using res [of j] that nr q(2) old_id_mono [of pre "ca_next ?c" j] by simp
      ultimately show ?thesis unfolding cards_inv_def by blast
    qed
  next
    case (Poll i s now)
    show ?thesis
    proof (cases "r = Pending \<or> r = NoSuchCard")
      case True
      then have "q' = q" using assms(2) Poll by (auto simp: card_step_def split: option.splits prod.splits)
      then show ?thesis using True by (intro quiet) auto
    next
      case False
      then obtain x t out c where x: "find (\<lambda>w. wa_id w = i) (ca_waiting ?c) = Some x" "qs_timeouts q i = Some t"
        "poll_card t i s (wa_deadline x) now ?c = (Some out, c)" "r = Outcome out" "q' = q\<lparr>qs_cards := c\<rparr>"
        using assms(2) Poll by (auto simp: card_step_def split: option.splits prod.splits)
      have xi: "x \<in> set (ca_waiting ?c)" "wa_id x = i" using x(1) by (auto simp: find_Some_iff)
      have c: "c = ?c\<lparr>ca_waiting := filter (\<lambda>w. wa_id w \<noteq> i) (ca_waiting ?c)\<rparr>"
        using x(3) by (auto simp: poll_card_def Let_def split: if_splits)
      have "out = Inr () \<Longrightarrow> wa_answer x = Some True"
        using x(1,3) by (auto simp: poll_card_def Let_def split: option.splits bool.splits if_splits)
      then have "outcomes_ok shown (h @ [(ev, r)])"
        using outcomes_ok_snoc [OF ok, of "(ev, r)"] w [OF xi(1)] xi(2) Poll x(4) by (auto simp: card_ok_def)
      moreover have "length (unanswered c) \<le> length (unanswered ?c)"
        by (simp add: c unanswered_def filter_filter) (rule filter_both_le)
      moreover have "distinct (map wa_id (ca_waiting c))" using d by (simp add: c distinct_map_filter)
      moreover have "old_id pre (ca_next c) (wa_id y) \<and> card_ok shown (h @ [(ev, r)]) y"
        if "y \<in> set (ca_waiting c)" for y
      proof -
        have "y \<in> set (ca_waiting ?c)" "wa_id y \<noteq> i" using that by (auto simp: c)
        then show ?thesis using w [of y] Poll card_ok_snoc [of shown h y "(ev, r)"] by (simp add: c)
      qed
      moreover have "old_id pre (ca_next c) j" if "resolved (h @ [(ev, r)]) j" for j
        using that res [of j] w [OF xi(1)] xi(2) Poll by (auto simp: c)
      ultimately show ?thesis unfolding cards_inv_def x(5) using b by (auto split: option.splits)
    qed
  next
    case (Decide i a k)
    show ?thesis
    proof (cases "r = Answered a")
      case False
      then have "q' = q" using assms(2) Decide by (auto simp: card_step_def split: prod.splits sum.splits)
      then show ?thesis using Decide by (intro quiet) auto
    next
      case True
      let ?P = "\<lambda>w. wa_id w = i \<and> wa_answer w = None"
      obtain x where x: "find ?P (ca_waiting ?c) = Some x" "shown (wa_view x) = k"
        "q' = q\<lparr>qs_cards := ?c\<lparr>ca_waiting := answer_first ?P a (ca_waiting ?c)\<rparr>\<rparr>"
        using assms(2) Decide True by (auto simp: card_step_def decide_card_def Let_def split: option.splits if_splits prod.splits)
      have xi: "x \<in> set (ca_waiting ?c)" "wa_id x = i" using x(1) by (auto simp: find_Some_iff)
      let ?h = "h @ [(ev, r)]"
      have nr: "resolved ?h j = resolved h j" for j by (simp add: Decide)
      obtain v where v: "parked_as h i v" "shown (wa_view x) = shown v" using w [OF xi(1)] xi(2) by (auto simp: card_ok_def)
      have ans: "answered_as shown ?h i a" using answered_as_new [OF v(1)] v(2) x(2) Decide True by metis
      have "outcomes_ok shown ?h" using outcomes_ok_snoc [OF ok] Decide by blast
      moreover have "old_id pre (ca_next ?c) (wa_id y) \<and> card_ok shown ?h y"
        if y: "y \<in> set (answer_first ?P a (ca_waiting ?c))" for y
      proof (cases "y \<in> set (ca_waiting ?c)")
        case True
        then show ?thesis using w [of y] Decide card_ok_snoc [of shown h y "(ev, r)"] by simp
      next
        case False
        then have y: "y = x\<lparr>wa_answer := Some a\<rparr>" using answer_first_mem [OF y] x(1) by auto
        have "card_ok shown ?h x" using w [OF xi(1)] Decide card_ok_snoc [of shown h x "(ev, r)"] by simp
        then have "card_ok shown ?h y" using ans xi(2) by (simp add: y card_ok_def)
        then show ?thesis using w [OF xi(1)] by (simp add: y)
      qed
      moreover have "length (unanswered (qs_cards q')) \<le> length (unanswered ?c)"
        using answer_first_unanswered [of ?P a "ca_waiting ?c"] by (simp add: unanswered_def x(3))
      ultimately show ?thesis unfolding cards_inv_def
        using d res nr b x(3) by (auto split: option.splits)
    qed
  qed
qed

lemma run_keeps:
  "cards_inv bound pre shown h q \<Longrightarrow> run_cards bound pre label shown evs q = (tr, q') \<Longrightarrow>
    cards_inv bound pre shown (h @ tr) q'"
proof (induction evs arbitrary: h q tr)
  case (Cons ev evs)
  obtain r q1 where r: "card_step bound pre label shown ev q = (r, q1)" by (cases "card_step bound pre label shown ev q")
  obtain tr1 where tr: "run_cards bound pre label shown evs q1 = (tr1, q')" "tr = (ev, r) # tr1"
    using Cons.prems(2) r by (auto split: prod.splits)
  have "cards_inv bound pre shown (h @ [(ev, r)]) q1"
    by (rule step_keeps [OF Cons.prems(1) r])
  from Cons.IH [OF this tr(1)] show ?case using tr(2) by simp
qed simp

lemma releases:
  assumes "run_cards bound pre label shown evs no_queue = (tr, q)"
    and "tr = us @ (Poll i s now, Outcome (Inr ())) # vs"
  shows "answered_as shown us i True \<and> \<not> resolved us i \<and> \<not> resolved vs i"
proof -
  have "cards_inv bound pre shown ([] @ tr) q" by (rule run_keeps [OF empty_inv assms(1)])
  then have ok: "outcomes_ok shown tr" by (simp add: cards_inv_def)
  have "\<not> resolved vs i"
  proof
    assume "resolved vs i"
    then obtain xs ys s' now' r where "vs = xs @ (Poll i s' now', Outcome r) # ys"
      by (auto simp: resolved_def in_set_conv_decomp)
    then have "tr = (us @ (Poll i s now, Outcome (Inr ())) # xs) @ (Poll i s' now', Outcome r) # ys" using assms(2) by simp
    then have "\<not> resolved (us @ (Poll i s now, Outcome (Inr ())) # xs) i" using ok unfolding outcomes_ok_def by blast
    then show False by (auto simp: resolved_def)
  qed
  then show ?thesis using ok assms(2) unfolding outcomes_ok_def by blast
qed

lemma stays_bounded:
  assumes "run_cards (Some b) pre label shown evs no_queue = (tr, q)" "bound = Some b"
  shows "length (unanswered (qs_cards q)) \<le> b"
proof -
  have "cards_inv bound pre shown ([] @ tr) q" using run_keeps [OF empty_inv, of evs tr q] assms by simp
  then show ?thesis using assms(2) by (simp add: cards_inv_def)
qed

end

interpretation action: card_queue "Some MAX_WAITING" "''act-''" action_label ap_subject
  by unfold_locales (simp add: action_label_def)

text \<open>
  Whatever the order of requests, polls, stops and decisions on a session's action cards: a call is
  released only after the member's allow for its own card, given after it was parked and carrying the
  very subject it showed; and never more than eight cards wait.
\<close>

lemma released_by_its_own_decision:
  assumes "run_cards (Some MAX_WAITING) ''act-'' action_label ap_subject evs no_queue = (tr, q)"
    and "tr = us @ (Poll i s now, Outcome (Inr ())) # vs"
  shows "answered_as ap_subject us i True \<and> \<not> resolved us i \<and> \<not> resolved vs i"
  by (rule action.releases [OF assms])

lemma at_most_eight_wait:
  assumes "run_cards (Some MAX_WAITING) ''act-'' action_label ap_subject evs no_queue = (tr, q)"
  shows "length (unanswered (qs_cards q)) \<le> MAX_WAITING"
  by (rule action.stays_bounded [OF assms refl])

end
