(* ===== verification/ShellRunProperties.thy ===== *)
theory ShellRunProperties
  imports ShellRun CardProperties Sandbox FolderGrantProperties
begin

text \<open>
  What a \<open>shell_run\<close> call may do: no command is started without the member's allow for it or all the
  conditions of the auto-approve list, and whatever is started runs in the sandbox with the folder of a
  live grant as its only folder to write.
\<close>

section \<open>A concrete session\<close>

definition w_path :: path where "w_path = [RootDir, Normal ''w'']"
definition a_path :: path where "a_path = [RootDir, Normal ''w'', Normal ''a'']"

definition tree :: disk where
  "tree = \<lparr>files = \<lparr>lstat = (\<lambda>_. Present), read_link = (\<lambda>_. None)\<rparr>, canonicalize = Some, is_dir = (\<lambda>_. True)\<rparr>"

definition grant_on :: "string \<Rightarrow> path \<Rightarrow> access \<Rightarrow> grant" where
  "grant_on i p a = \<lparr>grant_id = i, kind = Folder, root = p, access_of = a, scope = Subtree, granted_at = 5,
     expires_at = None, granted_by = ''m'', reason = ''r'', revoked_at = None\<rparr>"

definition grants_on :: "path \<Rightarrow> folder_grants" where
  "grants_on p = \<lparr>state = \<lparr>version = 1, next_id = 3, grants = [grant_on ''g-1'' p access.Read, grant_on ''g-2'' p access.Write]\<rparr>,
     fg_home = [RootDir, Normal ''h''], fg_cwd = [RootDir]\<rparr>"

section \<open>What a call did\<close>

text \<open>The session's runner of a phase, and a command of that phase.\<close>

definition runner_of :: "shell_host \<Rightarrow> shell_world \<Rightarrow> phase \<Rightarrow> runner" where
  "runner_of h w ph =
     (if ph = AutoRun \<or> ph = AutoPlan then auto_runner (sh_policy h) (sw_moment w ph)
      else member_runner (sh_policy h) (sw_moment w ph))"

definition started :: "shell_host \<Rightarrow> shell_world \<Rightarrow> run_request \<Rightarrow> phase \<Rightarrow> command \<Rightarrow> bool" where
  "started h w req ph cmd \<longleftrightarrow>
     (\<exists>pl. plan (mo_os (sw_moment w ph)) (runner_of h w ph) req = Inr pl \<and>
       cmd = command_on (sw_host w ph) (mo_os (sw_moment w ph)) (runner_of h w ph) req pl)"

lemma run_started:
  assumes "run hs os ru req = (r, Some cmd)"
  obtains pl where "plan os ru req = Inr pl" "cmd = command_on hs os ru req pl"
  using assms that by (auto simp: run_def Let_def split: sum.splits)

lemma ran_mem [simp]: "ActRun ph' cmd \<in> set (ran ph c) \<longleftrightarrow> ph' = ph \<and> c = Some cmd"
  by (auto simp: ran_def split: option.splits)

text \<open>The conditions under which a command is released without a card.\<close>

definition auto_allowed :: "shell_host \<Rightarrow> shell_world \<Rightarrow> string list \<Rightarrow> run_request \<Rightarrow> bool" where
  "auto_allowed h w argv req \<longleftrightarrow>
     \<not> is_tainted (sw_taint w AutoPlan) \<and>
     (\<exists>l rule pl project.
        sh_auto h = Some l \<and> matching l argv = Some rule \<and>
        plan (mo_os (sw_moment w AutoPlan)) (runner_of h w AutoPlan) req = Inr pl \<and> ss_enforced (rp_sandbox pl) \<and>
        project \<in> set (rp_write_roots pl) \<and>
        (sh_records h \<longrightarrow> sw_record w (record_subject argv pl) (record_reason rule argv project) \<noteq> None))"

lemma auto_run_acts:
  assumes "auto_run h w argv req rule project seq = (out, acts)" "ActRun ph cmd \<in> set acts"
  shows "ph = AutoRun \<and> started h w req ph cmd \<and> length (filter (\<lambda>a. \<exists>p c. a = ActRun p c) acts) = 1"
proof -
  let ?m = "sw_moment w AutoRun"
  obtain r c where r: "run (sw_host w AutoRun) (mo_os ?m) (auto_runner (sh_policy h) ?m) req = (r, c)" by fastforce
  obtain os where acts: "acts = ran AutoRun c @ os" "os = [] \<or> (\<exists>n b. os = [ActOutcome n b])"
    using assms(1) r by (auto simp: auto_run_def Let_def split: option.splits)
  then have "ph = AutoRun" "c = Some cmd" using assms(2) by auto
  then show ?thesis using r acts
    by (auto simp: started_def runner_of_def ran_def elim!: run_started)
qed

lemma try_auto_acts:
  assumes "try_auto h w argv req = Some (out, acts)" "ActRun ph cmd \<in> set acts"
  shows "ph = AutoRun \<and> started h w req ph cmd \<and> length (filter (\<lambda>a. \<exists>p c. a = ActRun p c) acts) = 1 \<and>
    auto_allowed h w argv req"
proof -
  obtain l rule pl project ps where a: "\<not> is_tainted (sw_taint w AutoPlan)" "sh_auto h = Some l" "matching l argv = Some rule"
    "plan (mo_os (sw_moment w AutoPlan)) (auto_runner (sh_policy h) (sw_moment w AutoPlan)) req = Inr pl"
    "ss_enforced (rp_sandbox pl)" "rp_write_roots pl = project # ps"
    using assms(1)
    by (auto simp: try_auto_def Let_def bind_eq_Some_conv split: if_splits option.splits sum.splits list.splits)
  show ?thesis
  proof (cases "sh_records h")
    case False
    then have "auto_run h w argv req rule project None = (out, acts)" using assms(1) a by (simp add: try_auto_def Let_def)
    from auto_run_acts [OF this assms(2)] show ?thesis using a False by (auto simp: auto_allowed_def runner_of_def)
  next
    case True
    let ?s = "record_subject argv pl" and ?y = "record_reason rule argv project"
    obtain n acts1 where n: "sw_record w ?s ?y = Some n" "auto_run h w argv req rule project (Some n) = (out, acts1)"
      "acts = ActRecord ?s ?y # acts1"
      using assms(1) a True by (auto simp: try_auto_def Let_def split: option.splits prod.splits)
    then have "ActRun ph cmd \<in> set acts1" using assms(2) by simp
    from auto_run_acts [OF n(2) this] show ?thesis using a n(1,3) by (auto simp: auto_allowed_def runner_of_def)
  qed
qed

lemma member_run_acts:
  assumes "member_run h w argv req pl = (out, acts)" "ActRun ph cmd \<in> set acts"
  shows "ph = MemberRun \<and> started h w req ph cmd \<and> acts = [ActRun MemberRun cmd] \<and> \<not> sw_stopped w"
proof -
  let ?m = "sw_moment w MemberRun"
  obtain r c where r: "run (sw_host w MemberRun) (mo_os ?m) (member_runner (sh_policy h) ?m) req = (r, c)" by fastforce
  have "acts = ran MemberRun c" "\<not> sw_stopped w"
    using assms r by (auto simp: member_run_def Let_def split: if_splits sum.splits)
  then show ?thesis using assms(2) r by (auto simp: started_def runner_of_def ran_def elim!: run_started split: option.splits)
qed

text \<open>How a command of a call was released.\<close>

definition released_run :: "shell_host \<Rightarrow> shell_world \<Rightarrow> taint \<Rightarrow> tool_call \<Rightarrow> shell_act list \<Rightarrow> phase \<Rightarrow> command \<Rightarrow> bool" where
  "released_run h w t c acts ph cmd \<longleftrightarrow>
     (\<exists>p req. parse (sw_json w) (call_args c) = Inr p \<and> request_of p (sh_identity h) = Inr req \<and> started h w req ph cmd \<and>
        (ph = MemberRun \<and>
           (\<exists>card. acts = [ActAsk card, ActRun ph cmd] \<and> sp_argv card = pp_argv p \<and> sw_ask w card = Inr () \<and>
              \<not> sw_stopped w \<and> (taint_record_of t \<noteq> None \<longrightarrow> sh_hic_aware h \<and> sp_hic_reason card \<noteq> None)) \<or>
         ph = AutoRun \<and> taint_record_of t = None \<and> auto_allowed h w (pp_argv p) req \<and>
           length (filter (\<lambda>a. \<exists>p c. a = ActRun p c) acts) = 1))"

lemma ask_and_run_acts:
  assumes "ask_and_run h w c hic = (out, acts)" "ActRun ph cmd \<in> set acts"
    and "hic = None \<longleftrightarrow> taint_record_of t = None" "hic \<noteq> None \<longrightarrow> sh_hic_aware h"
  shows "released_run h w t c acts ph cmd"
proof -
  obtain p req where p: "parse (sw_json w) (call_args c) = Inr p" "request_of p (sh_identity h) = Inr req"
    and name: "call_name c = SHELL_RUN_TOOL"
    using assms(1,2) by (auto simp: ask_and_run_def split: if_splits sum.splits)
  show ?thesis
  proof (cases "if hic = None then try_auto h w (pp_argv p) req else None")
    case (Some r)
    then obtain o' as where r: "hic = None" "try_auto h w (pp_argv p) req = Some (o', as)"
      by (cases r) (auto split: if_splits)
    then have "acts = as" using assms(1) p name by (simp add: ask_and_run_def)
    then show ?thesis using try_auto_acts [OF r(2)] assms(2,3) p r(1) unfolding released_run_def by blast
  next
    case None
    let ?m = "sw_moment w AskPlan"
    obtain pl where pl: "plan (mo_os ?m) (member_runner (sh_policy h) ?m) req = Inr pl"
      using assms(1,2) p name None by (auto simp: ask_and_run_def Let_def split: sum.splits)
    define card where "card = card_of c (pp_argv p) (show_path (mo_os ?m)) pl hic (sw_taint w AskPlan)"
    have run: "ask_and_run h w c hic =
        (case sw_ask w card of Inl e \<Rightarrow> (OutDenied (shell_card_text e), [ActAsk card])
         | Inr _ \<Rightarrow> (case member_run h w (pp_argv p) req pl of (out, acts) \<Rightarrow> (out, ActAsk card # acts)))"
      using p name None pl by (simp add: ask_and_run_def Let_def card_def split: sum.split)
    obtain acts1 where m: "sw_ask w card = Inr ()" "member_run h w (pp_argv p) req pl = (out, acts1)" "acts = ActAsk card # acts1"
      using assms(1,2) unfolding run by (auto split: sum.splits prod.splits)
    have "sp_argv card = pp_argv p" "sp_hic_reason card = hic" by (simp_all add: card_def card_of_def)
    moreover have "ActRun ph cmd \<in> set acts1" using assms(2) m(3) by simp
    ultimately show ?thesis
      using member_run_acts [OF m(2)] m(1,3) p assms(3,4) unfolding released_run_def by blast
  qed
qed

lemma execute_acts:
  assumes "execute h w t c = (out, acts)" "ActRun ph cmd \<in> set acts"
  shows "released_run h w t c acts ph cmd"
proof (cases "taint_record_of t")
  case None
  then show ?thesis using assms by (intro ask_and_run_acts [of h w c None out]) (auto simp: execute_def)
next
  case (Some r)
  have aware: "sh_hic_aware h"
    and "ask_and_run h w c (Some (approval_reason (tr_source r))) = (out, acts)"
    using assms Some by (auto simp: execute_def execute_with_explicit_approval_def split: if_splits)
  then show ?thesis using assms(2) Some by (intro ask_and_run_acts [of h w c "Some (approval_reason (tr_source r))" out]) auto
qed

section \<open>Where a command may write\<close>

text \<open>The folder \<open>r\<close> has, at the moment, a live folder grant to write over its whole subtree, and all of it one to read.\<close>

definition writable_folder :: "moment \<Rightarrow> path \<Rightarrow> bool" where
  "writable_folder m r \<longleftrightarrow>
     (\<exists>fg g rd q. mo_grants m = Some fg \<and> {g, rd} \<subseteq> set (grants (state fg)) \<and>
        kind g = Folder \<and> scope g = Subtree \<and> access_of g = access.Write \<and> is_active g (mo_now m) \<and> root g = r \<and>
        kind rd = Folder \<and> scope rd = Subtree \<and> access_of rd = access.Read \<and> is_active rd (mo_now m) \<and>
        check_op (mo_norm m) (mo_disk m) fg (Some (render_names r)) OpRead (mo_now m) = Allowed q (grant_id rd) \<and> prefix (root rd) q)"

definition loaded :: "moment \<Rightarrow> bool" where
  "loaded m \<longleftrightarrow> (\<forall>fg. mo_grants m = Some fg \<longrightarrow> validate_state (mo_norm m) (files (mo_disk m)) fg = Inr ())"

lemma find_grant_Inr: "find_grant fg i = Inr g \<longleftrightarrow> find (\<lambda>x. grant_id x = i) (grants (state fg)) = Some g"
  by (simp add: find_grant_def result_iff)

lemma find_grant_id: "find_grant fg i = Inr g \<Longrightarrow> grant_id g = i"
  by (auto simp: find_grant_def result_iff find_Some_iff)

lemma shell_scope_sound:
  assumes "loaded m" "shell_scope m dir = Inr (c, r)"
  shows "writable_folder m r"
proof -
  obtain fg gid g q rid rd where fg: "mo_grants m = Some fg"
    and g: "check_op (mo_norm m) (mo_disk m) fg (Some (render_names dir)) OpWrite (mo_now m) = Allowed c gid"
      "find_grant fg gid = Inr g" "subtree_folder g = Inr ()" "r = root g"
    and rd: "check_op (mo_norm m) (mo_disk m) fg (Some (render_names (root g))) OpRead (mo_now m) = Allowed q rid"
      "find_grant fg rid = Inr rd" "subtree_folder rd = Inr ()"
    using assms(2)
    by (auto simp: shell_scope_def Let_def result_iff split: option.splits decision.splits) (metis decision.exhaust)
  have v: "validate_state (mo_norm m) (files (mo_disk m)) fg = Inr ()" using assms(1) fg by (simp add: loaded_def)
  have "g \<in> set (grants (state fg)) \<and> access_of g = access.Write \<and> is_active g (mo_now m)"
    "rd \<in> set (grants (state fg)) \<and> access_of rd = access.Read \<and> is_active rd (mo_now m) \<and> covers rd q"
    using allowed_grant [OF v g(1) g(2) [unfolded find_grant_Inr]]
      allowed_grant [OF v rd(1) rd(2) [unfolded find_grant_Inr]] by (simp_all add: op_access_def)
  moreover have "kind g = Folder" "scope g = Subtree" "kind rd = Folder" "scope rd = Subtree"
    using g(3) rd(3) by (auto simp: subtree_folder_def split: if_splits)
  ultimately show ?thesis
    using fg g(4) rd(1) find_grant_id [OF rd(2)] covers_prefix [of rd q] unfolding writable_folder_def
    by (intro exI [of _ fg] exI [of _ g] exI [of _ rd] exI [of _ q]) simp
qed

lemma max_by_key_mem: "max_by_key f xs = Some x \<Longrightarrow> x \<in> set xs"
  by (induction xs arbitrary: x) (auto split: option.splits if_splits)

text \<open>A plan under a scope of one folder.\<close>

lemma plan_one_root:
  assumes "plan os ru req = Inr pl" "\<And>c rs. ru_scope ru c = Inr rs \<Longrightarrow> \<exists>r. rs = [r] \<and> P r"
  shows "\<exists>r r'. P r \<and> os.canonicalize os r = Some r' \<and> rp_write_roots pl = [r'] \<and> prefix r' (rp_cwd pl)"
proof -
  obtain c ws where cw: "check_cwd os ru (rr_cwd req) = Inr (c, ws)" "rp_cwd pl = c" "rp_write_roots pl = ws"
    using assms(1) by (auto simp: plan_def Let_def result_iff split: sum.splits option.splits)
  then obtain rs where rs: "ru_scope ru c = Inr rs" "canonical_roots os [] rs = Inr ws" "list_ex (\<lambda>r. starts_with r c) ws"
    by (auto simp: check_cwd_def result_iff split: if_splits option.splits sum.splits)
  obtain r where r: "rs = [r]" "P r" using assms(2) [OF rs(1)] by blast
  then obtain r' where "os.canonicalize os r = Some r'" "ws = [r']"
    using rs(2) by (auto split: if_splits option.splits)
  then show ?thesis using r cw(2,3) rs(3) by (auto simp: starts_with_iff prefix_def)
qed

lemma plan_sandboxed:
  assumes "plan os ru req = Inr pl" "sp_mode (po_sandbox (ru_policy ru)) = Required"
  shows "\<exists>b. rp_backend pl = Some b \<and> ss_enforced (rp_sandbox pl) \<and> ss_network (rp_sandbox pl) = ''denied''"
proof -
  have "run_sandbox os (ru_policy ru) (rp_write_roots pl) (rp_read_roots pl) = Inr (rp_backend pl, rp_sandbox pl)"
    using assms(1) by (auto simp: plan_def Let_def result_iff split: sum.splits option.splits)
  then obtain b where "rp_backend pl = Some b"
    "rp_sandbox pl = enforced_summary (show_path os) b (rp_write_roots pl) (rp_read_roots pl)"
    using assms(2) by (auto simp: run_sandbox_def split: sum.splits if_splits) metis
  then show ?thesis by (simp add: enforced_summary_def)
qed

text \<open>A command inside a sandbox that lets it write the folder \<open>r\<close> and its scratch home only.\<close>

definition boxed_in :: "path \<Rightarrow> command \<Rightarrow> bool" where
  "boxed_in r cmd \<longleftrightarrow>
     (\<exists>b spec exe args. (cm_exe cmd, cm_args cmd) = wrap b spec exe args \<and> sb_write_roots spec = [r] \<and>
        sb_cwd spec = cm_cwd cmd \<and> prefix r (cm_cwd cmd))"

lemma command_boxed:
  assumes "rp_backend pl = Some b" "rp_write_roots pl = [r]" "prefix r (rp_cwd pl)"
  shows "boxed_in r (command_on hs os ru req pl)"
  using assms unfolding boxed_in_def
  by (intro exI [of _ b] exI [of _ "\<lparr>sb_write_roots = [r], sb_read_roots = rp_read_roots pl, sb_scratch = hs_scratch hs,
        sb_cwd = rp_cwd pl, sb_masked_files = env_files (hs_sort hs) (hs_read_dir hs) [r]\<rparr>"]
      exI [of _ "rp_resolved pl"] exI [of _ "rp_args pl"])
    (auto simp: command_on_def command_of_def Let_def split: prod.splits)

lemma session_policy_sandbox: "session_policy sp cfg = Inr p \<Longrightarrow> po_sandbox p = sc_sandbox cfg"
  by (auto simp: session_policy_def with_request_env_allow_def result_iff)

lemma config_requires_sandbox: "from_env_vars load member get = Some cfg \<Longrightarrow> sp_mode (sc_sandbox cfg) = Required"
  by (auto simp: from_env_vars_def Let_def sandbox_new_def split: if_splits option.splits)

lemma started_boxed:
  assumes "started h w req ph cmd" "sp_mode (po_sandbox (sh_policy h)) = Required"
    and "\<And>c rs. ru_scope (runner_of h w ph) c = Inr rs \<Longrightarrow> \<exists>r. rs = [r] \<and> P r"
  shows "\<exists>r r'. P r \<and> os.canonicalize (mo_os (sw_moment w ph)) r = Some r' \<and> boxed_in r' cmd"
proof -
  obtain pl where pl: "plan (mo_os (sw_moment w ph)) (runner_of h w ph) req = Inr pl"
    "cmd = command_on (sw_host w ph) (mo_os (sw_moment w ph)) (runner_of h w ph) req pl"
    using assms(1) by (auto simp: started_def)
  have "ru_policy (runner_of h w ph) = sh_policy h" by (simp add: runner_of_def auto_runner_def member_runner_def)
  then obtain b where "rp_backend pl = Some b" using plan_sandboxed [OF pl(1)] assms(2) by auto
  then show ?thesis using plan_one_root [OF pl(1), of P] assms(3) command_boxed pl(2) by metis
qed

section \<open>The demonstration\<close>

definition demo_os :: os where
  "demo_os = \<lparr>canonicalize = Some, is_folder = (\<lambda>_. True), is_regular = (\<lambda>_. True), is_executable = (\<lambda>_. True),
     show_path = render_names, detected = Inr (Bwrap [RootDir, Normal ''bwrap''])\<rparr>"

definition demo_moment :: "path \<Rightarrow> moment" where
  "demo_moment g = \<lparr>mo_os = demo_os, mo_norm = (\<lambda>s. s), mo_disk = tree, mo_grants = Some (grants_on g), mo_now = 7,
     mo_projects = Some [w_path], mo_denied = (\<lambda>_. [])\<rparr>"

definition demo_process :: process where
  "demo_process = \<lparr>pr_exit = Some 0, pr_signal = None, pr_timed_out = False, pr_duration_ms = 3, pr_stdout = [], pr_stderr = [],
     pr_incomplete = False, pr_cleanup_error = None, pr_git_warnings = []\<rparr>"

definition demo_side :: host_side where
  "demo_side = \<lparr>hs_sort = (\<lambda>ps. ps), hs_read_dir = (\<lambda>_. None), hs_env = (\<lambda>_. None), hs_scratch = [RootDir, Normal ''s''],
     hs_lossy = (\<lambda>_. []), hs_start = (\<lambda>_. Inr demo_process)\<rparr>"

definition demo_env :: "string \<Rightarrow> string option" where
  "demo_env = [''CITRATE_HERMES_SHELL_RUN'' \<mapsto> ''1'', ''HOME'' \<mapsto> ''/h'']"

definition demo_cfg :: "auto_list option \<Rightarrow> shell_run_config" where
  "demo_cfg l = the (from_env_vars (\<lambda>_. Inr l) (\<lambda>_ _. None) demo_env)"

definition demo_host :: "auto_list option \<Rightarrow> shell_host" where
  "demo_host l = \<lparr>sh_policy = (case session_policy render_names (demo_cfg l) of Inr p \<Rightarrow> p),
     sh_auto = sc_auto_approve (demo_cfg l), sh_records = False, sh_identity = sc_identity (demo_cfg l), sh_hic_aware = True\<rparr>"

definition demo_world :: "string list \<Rightarrow> (phase \<Rightarrow> path) \<Rightarrow> shell_world" where
  "demo_world argv g = \<lparr>sw_json = (\<lambda>_. Some [''argv'' \<mapsto> VArray (map VString argv), ''cwd'' \<mapsto> VString ''/w/a'']),
     sw_moment = (\<lambda>ph. demo_moment (g ph)), sw_host = (\<lambda>_. demo_side), sw_taint = (\<lambda>_. untainted), sw_ask = (\<lambda>_. Inr ()),
     sw_stopped = False, sw_record = (\<lambda>_ _. None), sw_render = en_summary, sw_show_error = (\<lambda>_. [])\<rparr>"

definition demo_call :: tool_call where
  "demo_call = \<lparr>call_id = ''c1'', call_name = SHELL_RUN_TOOL, call_args = ''{}''\<rparr>"

definition act_phases :: "shell_act list \<Rightarrow> phase list" where
  "act_phases acts = List.map_filter (\<lambda>a. case a of ActRun ph _ \<Rightarrow> Some ph | _ \<Rightarrow> None) acts"

lemma demo_allowed_paths:
  "location_check (\<lambda>s. s) rs [RootDir] = Inr ()" "location_check (\<lambda>s. s) rs w_path = Inr ()"
  "location_check (\<lambda>s. s) rs a_path = Inr ()"
proof -
  have "match_rules (\<lambda>s. s) [RootDir] = Inr ()" "match_rules (\<lambda>s. s) w_path = Inr ()" "match_rules (\<lambda>s. s) a_path = Inr ()"
    by code_simp+
  moreover have "match_dotenv (\<lambda>s. s) [RootDir] rs = Inr ()" "match_dotenv (\<lambda>s. s) w_path rs = Inr ()"
    "match_dotenv (\<lambda>s. s) a_path rs = Inr ()"
    by (simp_all add: match_dotenv_def file_name_def is_dotenv_def fold_comp_def w_path_def a_path_def)
  ultimately show "location_check (\<lambda>s. s) rs [RootDir] = Inr ()" "location_check (\<lambda>s. s) rs w_path = Inr ()"
    "location_check (\<lambda>s. s) rs a_path = Inr ()"
    by (simp_all add: location_check_def)
qed

lemma demo_resolves:
  assumes "p = w_path \<or> p = a_path"
  shows "resolve_checked (\<lambda>s. s) tree (Some (render_names p)) ctx = Inr p"
proof -
  let ?rs = "resolved_roots (files tree) ctx"
  have i: "interpret_path (render_names p) ctx = Inr p"
    using assms by (auto simp: interpret_path_def components_def comp_of_def has_root_def strip_prefix_def starts_with_def
        w_path_def a_path_def)
  have l: "lexical p = p" using assms by (auto simp: lexical_def push_def w_path_def a_path_def)
  have "walk_from (files tree) (location_check (\<lambda>s. s) ?rs) [] p MAX_SYMLINKS = (Inr p, MAX_SYMLINKS)"
    using assms demo_allowed_paths [of ?rs]
    by (auto simp: walk_from.simps arrive_def push_def tree_def Let_def w_path_def a_path_def)
  then have "check_path (\<lambda>s. s) (files tree) ctx (Some (render_names p)) = Inr p"
    using i l assms demo_allowed_paths [of ?rs] unfolding check_path_Inr_iff by metis
  moreover have "on_disk_spelling tree p = Inr p" by (simp add: on_disk_spelling_def spelling_from.simps tree_def)
  ultimately show ?thesis by (simp add: resolve_checked_def)
qed

lemma demo_check_op:
  assumes "p = w_path \<or> p = a_path" "g = w_path \<or> g = a_path" "prefix g p"
  shows "check_op (\<lambda>s. s) tree (grants_on g) (Some (render_names p)) OpWrite 7 = Allowed p ''g-2''"
    and "check_op (\<lambda>s. s) tree (grants_on g) (Some (render_names p)) OpRead 7 = Allowed p ''g-1''"
  using assms(3)
  by (simp_all add: check_op_def check_inner_def live_def grants_on_def grant_on_def is_active_def op_access_def
      most_specific_def covers_def demo_resolves [OF assms(1)])

lemma demo_scope:
  assumes "p = w_path \<or> p = a_path" "g = w_path \<or> g = a_path" "prefix g p"
  shows "shell_scope (demo_moment g) p = Inr (p, g)"
  using demo_check_op [OF assms] demo_check_op [OF assms(2) assms(2)]
  by (simp add: shell_scope_def demo_moment_def grants_on_def grant_on_def find_grant_def subtree_folder_def ok_or_def)

lemma demo_loaded: "g = w_path \<or> g = a_path \<Longrightarrow> loaded (demo_moment g)"
proof -
  assume g: "g = w_path \<or> g = a_path"
  have "parse_id ''g-1'' = Some 1" "parse_id ''g-2'' = Some 2"
    by (simp_all add: parse_id_def strip_prefix_def parse_u64_def parse_dec_def is_digit_def)
  moreover have "is_ok (check_path (\<lambda>s. s) (files tree) (guard_ctx (grants_on g)) (Some (render_names g)))"
    using resolve_checked_Inr [OF demo_resolves [OF g]] by simp
  ultimately show ?thesis using g
    by (auto simp: loaded_def demo_moment_def validate_state_Inr_iff sound_grant_def num_of_def grants_on_def grant_on_def
        STATE_VERSION_def has_root_def w_path_def a_path_def parent_def)
qed

lemma demo_config:
  "from_env_vars (\<lambda>_. Inr l) (\<lambda>_ _. None) demo_env = Some (demo_cfg l)" "sc_auto_approve (demo_cfg l) = l"
  "sc_identity (demo_cfg l) = hermes_identity" "sc_sandbox (demo_cfg l) = sandbox_new Required"
  by (simp_all add: demo_cfg_def from_env_vars_def demo_env_def Let_def resolve_identity_def)

lemma demo_policy:
  "session_policy render_names (demo_cfg l) = Inr (sh_policy (demo_host l)) \<and>
   po_allowlist (sh_policy (demo_host l)) = any_program \<and> po_home_links (sh_policy (demo_host l)) = [] \<and>
   po_request_env_allow (sh_policy (demo_host l)) = GIT_REQUEST_ENV \<and> po_search_path (sh_policy (demo_host l)) \<noteq> []"
proof -
  obtain p where "session_policy render_names (demo_cfg l) = Inr p" "po_allowlist p = any_program" "po_home_links p = []"
    "po_request_env_allow p = GIT_REQUEST_ENV" "po_search_path p \<noteq> []"
    by (simp add: session_policy_def demo_cfg_def from_env_vars_def demo_env_def Let_def policy_new_def default_search_path_def
        components_def comp_of_def has_root_def join_def with_request_env_allow_def GIT_REQUEST_ENV_def is_reserved_env_def
        RESERVED_ENV_def)
  then show ?thesis by (simp add: demo_host_def)
qed

text \<open>What the model proposes in the folder \<open>/w/a\<close>, and its plan when the scope answers one folder.\<close>

definition demo_proposal :: "string list \<Rightarrow> proposal" where
  "demo_proposal argv = \<lparr>pp_argv = argv, pp_cwd = a_path, pp_timeout_secs = 120\<rparr>"

lemma as_strings: "List.map_filter as_str (map VString xs) = xs" "\<not> list_ex (\<lambda>i. as_str i = None) (map VString xs)"
  by (induction xs) (simp_all add: List.map_filter_def as_str_def)

lemma demo_parse:
  assumes "argv \<noteq> []" "length argv \<le> 9" "\<And>a. a \<in> set argv \<Longrightarrow> length a \<le> 99"
  shows "parse (sw_json (demo_world argv g)) (call_args demo_call) = Inr (demo_proposal argv)"
proof -
  have "sum_list (map length argv) \<le> sum_list (map (\<lambda>_. 99) argv)" by (rule sum_list_mono) (rule assms(3))
  then have "sum_list (map length argv) \<le> 891" using assms(2) by (simp add: sum_list_triv)
  moreover have "\<not> list_ex (\<lambda>a. MAX_ARG_BYTES < length a) argv"
    using assms(3) by (fastforce simp: list_ex_iff MAX_ARG_BYTES_def)
  ultimately have "parse_argv (Some (VArray (map VString argv))) = Inr argv"
    using assms(1,2) as_strings by (simp add: parse_argv_def Let_def MAX_ARGV_def MAX_ARGV_BYTES_def)
  then show ?thesis
    by (simp add: parse_def demo_world_def demo_call_def parse_cwd_def parse_timeout_def as_str_def DEFAULT_TIMEOUT_SECS_def
        components_def comp_of_def has_root_def a_path_def demo_proposal_def trim_graphic is_graphic_def)
qed

text \<open>A request the shell gate has nothing against.\<close>

definition plain_request :: "run_request \<Rightarrow> bool" where
  "plain_request req \<longleftrightarrow>
     validate_program_name (rr_program req) = Inr () \<and> check_args AnyArgs (rr_args req) = Inr () \<and>
     check_env GIT_REQUEST_ENV (rr_env req) = Inr () \<and> rr_cwd req = a_path"

lemma demo_command_plan:
  assumes "plain_request req" "ru_policy ru = sh_policy (demo_host l)" "ru_scope ru a_path = Inr [r]"
    "r = w_path \<or> r = a_path"
  shows "\<exists>pl. plan demo_os ru req = Inr pl \<and> rp_write_roots pl = [r] \<and> rp_cwd pl = a_path \<and> rp_args pl = rr_args req \<and>
    rp_resolved pl = join (hd (po_search_path (sh_policy (demo_host l)))) (components (rr_program req)) \<and>
    ss_enforced (rp_sandbox pl) \<and> ss_writable (rp_sandbox pl) = [render_names r, SCRATCH_LABEL]"
proof -
  obtain d ds where d: "po_search_path (sh_policy (demo_host l)) = d # ds" using demo_policy by (metis list.exhaust)
  have "has_root a_path" "starts_with r a_path" using assms(4) by (auto simp: a_path_def w_path_def has_root_def)
  moreover have "check_cwd demo_os ru a_path = Inr (a_path, [r])"
    using assms(3,4) calculation by (auto simp: check_cwd_def demo_os_def a_path_def w_path_def has_root_def)
  moreover have "po_sandbox (sh_policy (demo_host l)) = sandbox_new Required"
    using session_policy_sandbox [of render_names "demo_cfg l"] demo_policy [of l] demo_config(4) [of l] by simp
  ultimately show ?thesis using assms(1,2) d demo_policy [of l]
    by (simp add: plan_def Let_def plain_request_def policy_for_def any_program_def effective_args_def resolve_def
        run_sandbox_def policy_backend_def demo_os_def enforced_summary_def sandbox_new_def)
qed

lemma demo_scopes:
  assumes "g = w_path \<or> g = a_path"
  shows "ru_scope (member_runner p (demo_moment g)) a_path = Inr [g]"
    and "ru_scope (auto_runner p (demo_moment g)) a_path = Inr [w_path]"
proof -
  have s: "shell_scope (demo_moment g) a_path = Inr (a_path, g)"
    using assms by (intro demo_scope) (auto simp: w_path_def a_path_def)
  then show "ru_scope (member_runner p (demo_moment g)) a_path = Inr [g]" by (simp add: member_runner_def)
  have "project_root_of (demo_moment g) a_path = Some w_path"
    by (simp add: project_root_of_def demo_moment_def w_path_def a_path_def)
  then show "ru_scope (auto_runner p (demo_moment g)) a_path = Inr [w_path]" using s by (simp add: auto_runner_def ok_or_def)
qed

text \<open>A run in the demonstration starts its command, in a box with the plan's folder.\<close>

lemma demo_run:
  assumes "plan demo_os ru req = Inr pl" "ss_enforced (rp_sandbox pl)"
    "sp_mode (po_sandbox (ru_policy ru)) = Required" "rp_write_roots pl = [r]" "prefix r (rp_cwd pl)"
  shows "\<exists>rep cmd. run demo_side demo_os ru req = (Inr rep, Some cmd) \<and> boxed_in r cmd"
proof -
  obtain b where "rp_backend pl = Some b" using plan_sandboxed [OF assms(1,3)] by blast
  then show ?thesis using command_boxed [of pl b r demo_side demo_os ru req] assms(1,4,5)
    by (simp add: run_def Let_def demo_side_def)
qed

lemma demo_required: "sp_mode (po_sandbox (sh_policy (demo_host l))) = Required"
  using session_policy_sandbox [of render_names "demo_cfg l"] demo_policy [of l] demo_config(4) [of l]
  by (simp add: sandbox_new_def)

lemma demo_member:
  assumes "\<And>ph. g ph = w_path \<or> g ph = a_path"
    and parse: "parse (sw_json (demo_world argv g)) (call_args demo_call) = Inr (demo_proposal argv)"
    and req: "request_of (demo_proposal argv) hermes_identity = Inr req" "plain_request req"
  shows "\<exists>out card cmd.
    execute (demo_host None) (demo_world argv g) untainted demo_call = (out, [ActAsk card, ActRun MemberRun cmd]) \<and>
    ss_writable (sp_sandbox card) = [render_names (g AskPlan), SCRATCH_LABEL] \<and> boxed_in (g MemberRun) cmd"
proof -
  let ?h = "demo_host None" and ?w = "demo_world argv g"
  let ?ru = "\<lambda>ph. member_runner (sh_policy ?h) (sw_moment ?w ph)"
  have m: "sw_moment ?w ph = demo_moment (g ph)" "mo_os (sw_moment ?w ph) = demo_os" for ph
    by (simp_all add: demo_world_def demo_moment_def)
  have "\<exists>pl. plan demo_os (?ru ph) req = Inr pl \<and> rp_write_roots pl = [g ph] \<and> rp_cwd pl = a_path \<and> rp_args pl = rr_args req \<and>
      rp_resolved pl = join (hd (po_search_path (sh_policy ?h))) (components (rr_program req)) \<and> ss_enforced (rp_sandbox pl) \<and>
      ss_writable (rp_sandbox pl) = [render_names (g ph), SCRATCH_LABEL]" for ph
    using assms(1) [of ph] demo_scopes(1) [of "g ph" "sh_policy ?h"]
    by (intro demo_command_plan) (simp_all add: m(1) member_runner_def req)
  then obtain pl where pl: "\<And>ph. plan demo_os (?ru ph) req = Inr (pl ph) \<and> rp_write_roots (pl ph) = [g ph] \<and>
      rp_cwd (pl ph) = a_path \<and> rp_args (pl ph) = rr_args req \<and>
      rp_resolved (pl ph) = join (hd (po_search_path (sh_policy ?h))) (components (rr_program req)) \<and> ss_enforced (rp_sandbox (pl ph)) \<and>
      ss_writable (rp_sandbox (pl ph)) = [render_names (g ph), SCRATCH_LABEL]" by metis
  have "prefix (g MemberRun) a_path" using assms(1) [of MemberRun] by (auto simp: w_path_def a_path_def)
  then obtain rep cmd where run: "run demo_side demo_os (?ru MemberRun) req = (Inr rep, Some cmd)" "boxed_in (g MemberRun) cmd"
    using demo_run [of "?ru MemberRun" req "pl MemberRun" "g MemberRun"] pl [of MemberRun] demo_required [of None]
    by (auto simp: member_runner_def)
  have same: "same_command (pl AskPlan) (pl Recheck)" using pl [of AskPlan] pl [of Recheck] by (simp add: same_command_def)
  have flat: "parse (sw_json ?w) (call_args demo_call) = Inr (demo_proposal argv)"
    "request_of (demo_proposal argv) (sh_identity ?h) = Inr req" "pp_argv (demo_proposal argv) = argv"
    "try_auto ?h ?w argv req = None" "call_name demo_call = SHELL_RUN_TOOL" "sw_ask ?w c = Inr ()" "\<not> sw_stopped ?w"
    "sw_host ?w ph = demo_side" "taint_record_of untainted = None" for c ph
    using parse req demo_config(2,3) [of None]
    by (simp_all add: demo_proposal_def try_auto_def demo_host_def demo_call_def demo_world_def taint_record_of_def untainted_def)
  define card where "card = ShellRun.card_of demo_call argv (show_path demo_os) (pl AskPlan) None (sw_taint ?w AskPlan)"
  have "member_run ?h ?w argv req (pl AskPlan) = (reported ?w OutOk (report argv rep ByMember), [ActRun MemberRun cmd])"
    using pl [of Recheck] run(1) same flat by (simp add: member_run_def Let_def m(2) ran_def)
  then have "execute ?h ?w untainted demo_call =
      (reported ?w OutOk (report argv rep ByMember), [ActAsk card, ActRun MemberRun cmd])"
    using pl [of AskPlan] flat by (simp add: execute_def ask_and_run_def Let_def m(2) card_def)
  moreover have "ss_writable (sp_sandbox card) = [render_names (g AskPlan), SCRATCH_LABEL]"
    using pl [of AskPlan] by (simp add: card_def card_of_def)
  ultimately show ?thesis using run(2) by blast
qed

text \<open>The command \<open>make\<close>, and a commit.\<close>

definition make_request :: run_request where
  "make_request = \<lparr>rr_program = ''make'', rr_args = [], rr_cwd = a_path, rr_timeout = Some 120000, rr_env = []\<rparr>"

lemma make_plain: "request_of (demo_proposal [''make'']) hermes_identity = Inr make_request \<and> plain_request make_request"
proof -
  have "validate_program_name ''make'' = Inr ()" by code_simp
  then show ?thesis by (simp add: make_request_def plain_request_def check_args_def request_of_def demo_proposal_def)
qed

lemma demo_make:
  assumes "\<And>ph. g ph = w_path \<or> g ph = a_path"
  shows "\<exists>out card cmd.
    execute (demo_host None) (demo_world [''make''] g) untainted demo_call = (out, [ActAsk card, ActRun MemberRun cmd]) \<and>
    ss_writable (sp_sandbox card) = [render_names (g AskPlan), SCRATCH_LABEL] \<and> boxed_in (g MemberRun) cmd"
  using make_plain by (intro demo_member [where req = make_request] assms demo_parse) simp_all

lemma demo_auto:
  assumes "\<And>ph. g ph = w_path \<or> g ph = a_path"
  shows "\<exists>out cmd. execute (demo_host (Some DEFAULT_LIST)) (demo_world [''pwd''] g) untainted demo_call = (out, [ActRun AutoRun cmd]) \<and>
    boxed_in w_path cmd"
proof -
  let ?h = "demo_host (Some DEFAULT_LIST)" and ?w = "demo_world [''pwd''] g"
  let ?ru = "\<lambda>ph. auto_runner (sh_policy ?h) (sw_moment ?w ph)"
  let ?req = "\<lparr>rr_program = ''pwd'', rr_args = [], rr_cwd = a_path, rr_timeout = Some 120000, rr_env = []\<rparr>"
  have "validate_program_name ''pwd'' = Inr ()" by code_simp
  then have plain: "plain_request ?req" by (simp add: plain_request_def check_args_def)
  have m: "sw_moment ?w ph = demo_moment (g ph)" "mo_os (sw_moment ?w ph) = demo_os" for ph
    by (simp_all add: demo_world_def demo_moment_def)
  have "\<exists>pl. plan demo_os (?ru ph) ?req = Inr pl \<and> rp_write_roots pl = [w_path] \<and> rp_cwd pl = a_path \<and>
      ss_enforced (rp_sandbox pl)" for ph
    using demo_command_plan [OF plain, of "?ru ph" "Some DEFAULT_LIST" w_path] demo_scopes(2) [of "g ph" "sh_policy ?h"] assms [of ph]
    by (auto simp: m(1) auto_runner_def)
  then obtain pl where pl: "\<And>ph. plan demo_os (?ru ph) ?req = Inr (pl ph) \<and> rp_write_roots (pl ph) = [w_path] \<and>
      rp_cwd (pl ph) = a_path \<and> ss_enforced (rp_sandbox (pl ph))" by metis
  have "prefix w_path a_path" by (simp add: w_path_def a_path_def)
  then obtain rep cmd where run: "run demo_side demo_os (?ru AutoRun) ?req = (Inr rep, Some cmd)" "boxed_in w_path cmd"
    using demo_run [of "?ru AutoRun" ?req "pl AutoRun" w_path] pl [of AutoRun] demo_required [of "Some DEFAULT_LIST"]
    by (auto simp: auto_runner_def)
  have "matching DEFAULT_LIST [''pwd''] = Some ''pwd''" by code_simp
  then have flat: "parse (sw_json ?w) (call_args demo_call) = Inr (demo_proposal [''pwd''])"
    "request_of (demo_proposal [''pwd'']) (sh_identity ?h) = Inr ?req" "pp_argv (demo_proposal [''pwd'']) = [''pwd'']"
    "Option.bind (sh_auto ?h) (\<lambda>l. matching l [''pwd'']) = Some ''pwd''" "call_name demo_call = SHELL_RUN_TOOL"
    "sw_host ?w ph = demo_side" "taint_record_of untainted = None" "\<not> is_tainted (sw_taint ?w AutoPlan)" "\<not> sh_records ?h" for ph
    using demo_parse [of "[''pwd'']" g] demo_config(2) [of "Some DEFAULT_LIST"]
    by (simp_all add: demo_proposal_def request_of_def demo_host_def demo_call_def demo_world_def taint_record_of_def untainted_def is_tainted_def)
  let ?out = "reported ?w OutVouched (report [''pwd''] rep (ByRule ''pwd'' w_path))"
  have "auto_run ?h ?w [''pwd''] ?req ''pwd'' w_path None = (?out, [ActRun AutoRun cmd])"
    using run(1) flat by (simp add: auto_run_def Let_def m(2) ran_def)
  then have "try_auto ?h ?w [''pwd''] ?req = Some (?out, [ActRun AutoRun cmd])"
    using pl [of AutoPlan] flat by (simp add: try_auto_def Let_def m(2))
  then have "execute ?h ?w untainted demo_call = (?out, [ActRun AutoRun cmd])"
    using flat by (simp add: execute_def ask_and_run_def)
  then show ?thesis using run(2) by blast
qed

section \<open>Two gaps\<close>

text \<open>
  A command released without a card writes the session's project even where no live grant reaches: the
  grants were narrowed to \<open>/w/a\<close> after \<open>/w\<close> became a project, and \<open>/w\<close> may no longer be written.
\<close>

lemma auto_run_outside_the_grants:
  "(\<exists>out cmd. execute (demo_host (Some DEFAULT_LIST)) (demo_world [''pwd''] (\<lambda>_. a_path)) untainted demo_call = (out, [ActRun AutoRun cmd]) \<and>
      boxed_in w_path cmd) \<and>
   check_op (\<lambda>s. s) tree (grants_on a_path) (Some (render_names w_path)) OpWrite 7 = Denied (NoGrant OpWrite w_path)"
proof
  show "\<exists>out cmd. execute (demo_host (Some DEFAULT_LIST)) (demo_world [''pwd''] (\<lambda>_. a_path)) untainted demo_call =
      (out, [ActRun AutoRun cmd]) \<and> boxed_in w_path cmd"
    by (rule demo_auto) simp
  show "check_op (\<lambda>s. s) tree (grants_on a_path) (Some (render_names w_path)) OpWrite 7 = Denied (NoGrant OpWrite w_path)"
    by (simp add: check_op_def check_inner_def live_def grants_on_def grant_on_def is_active_def op_access_def
        most_specific_def covers_def demo_resolves) (simp add: w_path_def a_path_def)
qed

text \<open>
  The recheck after the member's allow compares the program, its arguments and the folder it runs in, not
  the folder it may write: a card that showed \<open>/w/a\<close> as writable released a command that may write \<open>/w\<close>.
\<close>

lemma approved_folder_widens:
  "\<exists>out card cmd.
     execute (demo_host None) (demo_world [''make''] (\<lambda>ph. if ph = AskPlan then a_path else w_path)) untainted demo_call =
       (out, [ActAsk card, ActRun MemberRun cmd]) \<and>
     ss_writable (sp_sandbox card) = [render_names a_path, SCRATCH_LABEL] \<and> boxed_in w_path cmd"
  using demo_make [of "\<lambda>ph. if ph = AskPlan then a_path else w_path"] by simp

section \<open>The properties of a call\<close>

text \<open>
  C29. Whatever the model asks, the member answers and other sessions do meanwhile: a call that starts a
  command starts one, and either the member allowed a card that showed its argument vector (which, after
  taint, exists only in an app that puts cards before a person and carries the reason), the session not
  being stopped, or every condition of a run without a card held: no taint, a rule that matches the
  argument vector, a plan with the sandbox enforced in a project, and a written record where records are
  kept.
\<close>

theorem no_command_without_release:
  assumes "execute h w t c = (out, acts)" "ActRun ph cmd \<in> set acts"
  shows "released_run h w t c acts ph cmd"
  by (rule execute_acts [OF assms])

theorem no_command_without_release_witness:
  "\<exists>cmd acts. released_run (demo_host None) (demo_world [''make''] (\<lambda>_. w_path)) untainted demo_call acts MemberRun cmd"
proof -
  obtain out card cmd where "execute (demo_host None) (demo_world [''make''] (\<lambda>_. w_path)) untainted demo_call =
      (out, [ActAsk card, ActRun MemberRun cmd])"
    using demo_make [of "\<lambda>_. w_path"] by blast
  from no_command_without_release [OF this] show ?thesis by auto
qed

text \<open>
  C30. With the production configuration every command is started inside the sandbox, where the only
  folder of the machine it may write is, for a command the member allowed, a folder with a live grant to
  write and to read its whole subtree, and for one released without a card a root of the session's
  projects, while its own folder is in such a grant; and it runs in that folder.
\<close>

theorem commands_stay_in_their_folder:
  assumes "from_env_vars load member get = Some cfg" "session_policy sp cfg = Inr (sh_policy h)"
    and "execute h w t c = (out, acts)" "ActRun ph cmd \<in> set acts" "loaded (sw_moment w ph)"
  shows "\<exists>g r r'. writable_folder (sw_moment w ph) g \<and>
    (if ph = MemberRun then r = g else \<exists>ps. mo_projects (sw_moment w ph) = Some ps \<and> r \<in> set ps) \<and>
    os.canonicalize (mo_os (sw_moment w ph)) r = Some r' \<and> boxed_in r' cmd"
proof -
  let ?m = "sw_moment w ph"
  let ?P = "\<lambda>r. \<exists>g. writable_folder ?m g \<and> (if ph = MemberRun then r = g else \<exists>ps. mo_projects ?m = Some ps \<and> r \<in> set ps)"
  obtain p req where s: "started h w req ph cmd" and ph: "ph = MemberRun \<or> ph = AutoRun"
    using execute_acts [OF assms(3,4)] unfolding released_run_def by blast
  have req: "sp_mode (po_sandbox (sh_policy h)) = Required"
    using config_requires_sandbox [OF assms(1)] session_policy_sandbox [OF assms(2)] by simp
  have one: "\<exists>r. rs = [r] \<and> ?P r" if sc: "ru_scope (runner_of h w ph) c' = Inr rs" for c' rs
  proof (cases "ph = MemberRun")
    case True
    then obtain dir r where "shell_scope ?m c' = Inr (dir, r)" "rs = [r]"
      using sc by (auto simp: runner_of_def member_runner_def result_iff)
    then show ?thesis using shell_scope_sound [OF assms(5)] True by auto
  next
    case False
    then obtain dir g r where r: "shell_scope ?m c' = Inr (dir, g)" "project_root_of ?m dir = Some r" "rs = [r]"
      using sc ph by (auto simp: runner_of_def auto_runner_def result_iff)
    then obtain ps where "mo_projects ?m = Some ps" "r \<in> set ps"
      by (auto simp: project_root_of_def bind_eq_Some_conv dest: max_by_key_mem)
    then show ?thesis using shell_scope_sound [OF assms(5) r(1)] r(3) False by auto
  qed
  have "\<exists>r r'. ?P r \<and> os.canonicalize (mo_os ?m) r = Some r' \<and> boxed_in r' cmd"
    by (rule started_boxed [OF s req]) (rule one)
  then show ?thesis by blast
qed

theorem commands_stay_in_their_folder_witness: "\<exists>cmd. boxed_in w_path cmd \<and> writable_folder (demo_moment w_path) w_path"
proof -
  let ?h = "demo_host None" and ?w = "demo_world [''make''] (\<lambda>_. w_path)"
  obtain out card cmd where r: "execute ?h ?w untainted demo_call = (out, [ActAsk card, ActRun MemberRun cmd])"
    using demo_make [of "\<lambda>_. w_path"] by blast
  have m: "sw_moment ?w MemberRun = demo_moment w_path" by (simp add: demo_world_def)
  have "\<exists>g r r'. writable_folder (demo_moment w_path) g \<and> r = g \<and> Some r = Some r' \<and> boxed_in r' cmd"
    using commands_stay_in_their_folder [OF demo_config(1) conjunct1 [OF demo_policy] r, of MemberRun cmd] demo_loaded [of w_path]
    by (simp add: m demo_moment_def demo_os_def)
  then obtain g where g: "writable_folder (demo_moment w_path) g" "boxed_in g cmd" by blast
  then have "g = w_path" by (auto simp: writable_folder_def demo_moment_def grants_on_def grant_on_def)
  then show ?thesis using g by blast
qed

end
