(* ===== verification/CommitProperties.thy ===== *)
theory CommitProperties
  imports ShellRunProperties
begin

text \<open>
  The cards of \<open>shell_run\<close> and the commits made through it: a card lets one command go, and a commit names
  the member as author and Hermes as co-author.
\<close>

section \<open>The card\<close>

interpretation shell: card_queue None "''sh-''" shell_label shell_shown
  by unfold_locales (simp add: shell_label_def shell_shown_def)

text \<open>
  C32. Whatever the order of requests, polls, stops and decisions on a session's commands: a command is
  let go only after the member's allow for its own card, given after it was queued and carrying the
  argument vector and folder the card showed; its card is resolved once and never again.
\<close>

theorem command_released_by_its_own_decision:
  assumes "run_cards None ''sh-'' shell_label shell_shown evs no_queue = (tr, q)"
    and "tr = us @ (Poll i s now, Outcome (Inr ())) # vs"
  shows "answered_as shell_shown us i True \<and> \<not> resolved us i \<and> \<not> resolved vs i"
  by (rule shell.releases [OF assms])

theorem command_released_by_its_own_decision_witness:
  "\<exists>us. answered_as shell_shown us ''sh-1'' True"
proof -
  let ?v = "\<lparr>sp_id = [], sp_call_id = [], sp_tool = [], sp_hic = [], sp_argv = [''ls''], sp_resolved_program = [], sp_cwd = ''/w'',
    sp_timeout_secs = 120, sp_sandbox = not_enforced_summary (\<lambda>_. []) [] [], sp_expires_in_secs = 0, sp_hic_reason = None,
    sp_taint_sources = {}\<rparr>"
  let ?us = "[(Park ?v 9000 1, Queued ''sh-1''), (Decide ''sh-1'' True ([''rm''], ''/w''), Refused Mismatch),
    (Decide ''sh-1'' True ([''ls''], ''/w''), Answered True)]"
  let ?evs = "[Park ?v 9000 1, Decide ''sh-1'' True ([''rm''], ''/w''), Decide ''sh-1'' True ([''ls''], ''/w''), Poll ''sh-1'' False 3]"
  have d: "dec (Suc 0) = ''1''" by code_simp
  obtain q where "run_cards None ''sh-'' shell_label shell_shown ?evs no_queue =
      (?us @ (Poll ''sh-1'' False 3, Outcome (Inr ())) # [], q)"
    by (simp add: card_step_def queue_card_def poll_card_def decide_card_def no_queue_def no_cards_def
        shell_label_def shell_shown_def Let_def d)
  from command_released_by_its_own_decision [OF this refl] show ?thesis by blast
qed

section \<open>Commits\<close>





















text \<open>
  The subcommand is looked for by name only: an alias given on the command line makes the same commit
  without the trailer and with any author, and the arguments pass unchanged. Reading outside the
  repository without \<open>--no-index\<close> passes the read-only policy as well.
\<close>

lemma alias_commit_keeps_no_trailer:
  "git_args [''-c'', ''alias.x=commit'', ''x'', ''--author=A <a@b>'', ''-m'', ''y''] =
     Inr [''-c'', ''alias.x=commit'', ''x'', ''--author=A <a@b>'', ''-m'', ''y'']"
  by code_simp

lemma amend_passes:
  "git_args [''commit'', ''--amend'', ''--no-edit''] =
     Inr [''commit'', ''--trailer'', HERMES_CO_AUTHOR_TRAILER, ''--amend'', ''--no-edit'']"
  by code_simp

lemma implicit_no_index_accepted:
  "check_args GitReadOnly [''diff'', ''/dev/null'', ''/etc/passwd''] = Inr () \<and>
   \<not> is_ok (check_args GitReadOnly [''diff'', ''--no-index'', ''/dev/null'', ''/etc/passwd''])"
  by code_simp

end
