(* ===== verification/GitState.thy ===== *)
theory GitState
  imports GitArgs
begin

text \<open>
  Git state that would run a program later, outside the sandbox, and its revert after a run
  (\<open>agent-shell/src/git_state.rs\<close>): the reading of a git configuration, the list of risky keys, the snapshot
  of a repository and the revert of what a run added. The repositories a walk of the write roots finds
  are given; whether a removal or a write succeeds is a parameter.
\<close>

section \<open>Text\<close>

fun join_newline :: "string list \<Rightarrow> string" where
  "join_newline [] = []"
| "join_newline [l] = l"
| "join_newline (l # m # ls) = l @ CHR 10 # join_newline (m # ls)"

text \<open>\<open>trim_quotes\<close> is \<open>trim_matches\<close> of the double quote.\<close>

definition trim_quotes :: "string \<Rightarrow> string" where
  "trim_quotes s =
     (let q = (\<lambda>c. c = CHR 0x22) in rev (dropWhile q (rev (dropWhile q s))))"

definition lower :: "string \<Rightarrow> string" where
  "lower = map ascii_lower"

section \<open>Configuration\<close>

record config_entry =
  ce_key :: string
  ce_value :: string
  ce_start :: nat
  ce_end :: nat
  ce_inline :: bool
  ce_header :: "nat option"

definition section_name :: "string \<Rightarrow> string" where
  "section_name inner =
     (case split_white inner of
        Some (name, sub) \<Rightarrow> lower name @ ''.'' @ trim_quotes (trim sub)
      | None \<Rightarrow>
          (case split_once CHR ''.'' inner of
             Some (name, sub) \<Rightarrow> lower name @ ''.'' @ sub
           | None \<Rightarrow> lower inner))"

text \<open>The value up to a comment outside quotes, without its quotes.\<close>

fun unquote :: "bool \<Rightarrow> string \<Rightarrow> string" where
  "unquote quoted [] = []"
| "unquote quoted (c # s) =
     (if c = CHR 0x22 then unquote (\<not> quoted) s
      else if (c = CHR ''#'' \<or> c = CHR '';'') \<and> \<not> quoted then []
      else c # unquote quoted s)"

definition key_value :: "string \<Rightarrow> (string \<times> string) option" where
  "key_value l0 =
     (let l = trim l0
      in if l = [] \<or> hd l = CHR ''#'' \<or> hd l = CHR '';'' then None
         else (let (k, v) = (case split_once CHR ''='' l of Some (k, v) \<Rightarrow> (trim k, trim v) | None \<Rightarrow> (l, ''true''))
               in Some (lower k, trim (unquote False v))))"

text \<open>A line that ends with a backslash goes on with the next one; also how many were taken.\<close>

definition continues :: "string \<Rightarrow> bool" where
  "continues s \<longleftrightarrow> s \<noteq> [] \<and> last s = CHR 0x5C"

fun join_continued :: "string \<Rightarrow> string list \<Rightarrow> nat \<times> string \<times> string list" where
  "join_continued j [] = (0, j, [])"
| "join_continued j (l # ls) =
     (if continues j
      then (case join_continued (butlast j @ trim l) ls of (n, r, rest) \<Rightarrow> (Suc n, r, rest))
      else (0, j, l # ls))"

lemma join_continued_shorter: "join_continued j ls = (n, r, rest) \<Longrightarrow> length rest \<le> length ls"
  by (induction j ls arbitrary: n r rest rule: join_continued.induct) (fastforce split: if_splits prod.splits)+

text \<open>A line: nothing to read, a section header with what follows it, or a body.\<close>

datatype line_kind = Unclosed | Header string string | Body string

definition line_kind_of :: "string \<Rightarrow> line_kind" where
  "line_kind_of l =
     (case trim l of
        [] \<Rightarrow> Body []
      | c # rest \<Rightarrow>
          if c = CHR ''['' then
            (case split_once CHR '']'' rest of
               None \<Rightarrow> Unclosed
             | Some (inner, after) \<Rightarrow> Header (section_name (trim inner)) (trim after))
          else Body (c # rest))"

definition entry_of :: "string \<Rightarrow> nat \<Rightarrow> nat \<Rightarrow> bool \<Rightarrow> nat option \<Rightarrow> string \<Rightarrow> config_entry list" where
  "entry_of sec i e inl hdr body =
     (case key_value body of
        Some (k, v) \<Rightarrow> [\<lparr>ce_key = sec @ ''.'' @ k, ce_value = v, ce_start = i, ce_end = e, ce_inline = inl, ce_header = hdr\<rparr>]
      | None \<Rightarrow> [])"

function parse_from :: "string \<Rightarrow> nat option \<Rightarrow> nat \<Rightarrow> string list \<Rightarrow> config_entry list" where
  "parse_from sec hdr i [] = []"
| "parse_from sec hdr i (l # ls) =
     (case line_kind_of l of
        Unclosed \<Rightarrow> parse_from sec hdr (Suc i) ls
      | Header s body \<Rightarrow>
          (case join_continued body ls of
             (n, j, rest) \<Rightarrow> entry_of s i (i + Suc n) True (Some i) j @ parse_from s (Some i) (i + Suc n) rest)
      | Body body \<Rightarrow>
          (case join_continued body ls of
             (n, j, rest) \<Rightarrow> entry_of sec i (i + Suc n) False hdr j @ parse_from sec hdr (i + Suc n) rest))"
  by pat_completeness auto
termination
  by (relation "measure (\<lambda>(sec, hdr, i, ls). length ls)")
    (auto dest!: join_continued_shorter [OF sym] simp: less_Suc_eq_le)

declare parse_from.simps(2) [simp del]

definition parse_config :: "string \<Rightarrow> config_entry list" where
  "parse_config text = parse_from [] None 0 (lines_of text)"

section \<open>Risky keys\<close>

text \<open>The part after the last dot, and the parts around the last dot.\<close>

definition after_last_dot :: "string \<Rightarrow> string" where
  "after_last_dot s = rev (takeWhile (\<lambda>c. c \<noteq> CHR ''.'') (rev s))"

definition before_last_dot :: "string \<Rightarrow> string option" where
  "before_last_dot s =
     (if CHR ''.'' \<in> set s then Some (rev (tl (dropWhile (\<lambda>c. c \<noteq> CHR ''.'') (rev s)))) else None)"

definition is_risky :: "string \<Rightarrow> string \<Rightarrow> bool" where
  "is_risky key value =
     (let low = lower key;
          (sec, rest) = (case split_once CHR ''.'' low of Some p \<Rightarrow> p | None \<Rightarrow> (low, []));
          lst = after_last_dot rest
      in if sec = ''core'' then
           lst \<in> set [''hookspath'', ''fsmonitor'', ''sshcommand'', ''pager'', ''editor'', ''askpass'', ''gitproxy'', ''commentchar'',
             ''commentstring'', ''alternaterefscommand'', ''worktree'']
         else if sec \<in> set [''alias'', ''filter'', ''credential''] then True
         else if sec = ''diff'' then lst \<in> set [''external'', ''textconv'', ''command'']
         else if sec = ''interactive'' then lst = ''difffilter''
         else if sec = ''hook'' then True
         else if sec = ''tar'' then lst = ''command''
         else if sec = ''submodule'' then lst = ''update'' \<and> starts_with ''!'' (strip_any unicode_ws value)
         else if sec = ''sendemail'' then lst \<in> set [''sendmailcmd'', ''tocmd'', ''cccmd'', ''headercmd'', ''smtpserver'']
         else if sec = ''merge'' then lst = ''driver''
         else if sec = ''include'' \<or> sec = ''includeif'' then lst = ''path''
         else if sec = ''url'' then
           lst \<in> set [''insteadof'', ''pushinsteadof''] \<and>
           \<not> starts_with ''https://''
               (lower (case Option.bind (map_option snd (split_once CHR ''.'' key)) before_last_dot of Some b \<Rightarrow> b | None \<Rightarrow> []))
         else if sec = ''protocol'' then lst = ''allow'' \<and> lower value = ''always''
         else if sec = ''gpg'' then lst \<in> set [''program'', ''defaultkeycommand'']
         else if sec = ''sequence'' then lst = ''editor''
         else if sec = ''uploadpack'' then lst = ''packobjectshook''
         else if sec = ''remote'' then lst \<in> set [''uploadpack'', ''receivepack'']
         else if sec = ''pager'' then True
         else if sec \<in> set [''browser'', ''man'', ''difftool'', ''mergetool'', ''guitool''] then lst \<in> set [''cmd'', ''path'']
         else if sec = ''trailer'' then True
         else if sec = ''commit'' then lst = ''cleanup''
         else False)"

definition kv :: "config_entry \<Rightarrow> string \<times> string" where
  "kv e = (ce_key e, ce_value e)"

definition risky :: "config_entry \<Rightarrow> bool" where
  "risky e = is_risky (ce_key e) (ce_value e)"

definition risky_config :: "string \<Rightarrow> (string \<times> string) list" where
  "risky_config text = map kv (filter risky (parse_config text))"

section \<open>A repository before and after a run\<close>

definition MAX_CONFIG_BYTES :: nat where "MAX_CONFIG_BYTES = 262144"

definition CONFIG_FILES :: "string list" where "CONFIG_FILES = [''config'', ''config.worktree'']"

text \<open>
  A configuration file; a regular one with its bytes and whether they are valid text, a link with those of
  the regular file it leads to, if any. A hooks folder that is a link has the names it leads to.
\<close>

datatype conf_file = Missing | LinkFile "(string \<times> bool) option" | OtherKind | Regular string bool

datatype hooks_dir = NoHooks | HooksLink "string list" | Hooks "string list"

fun is_hooks_link :: "hooks_dir \<Rightarrow> bool" where
  "is_hooks_link (HooksLink _) = True"
| "is_hooks_link _ = False"

record git_repo =
  gr_config :: "string \<Rightarrow> conf_file"
  gr_hooks :: hooks_dir

record config_snap =
  cs_text :: "string option"
  cs_symlink :: bool
  cs_risky :: "(string \<times> string) list"

record repo_snap =
  rs_configs :: "string \<Rightarrow> config_snap"
  rs_hooks :: "string list"
  rs_hooks_symlink :: bool

definition snap_config :: "conf_file \<Rightarrow> config_snap" where
  "snap_config f =
     (let (text, link) =
        (case f of
           LinkFile _ \<Rightarrow> (None, True)
         | Regular s ok \<Rightarrow> (if length s \<le> MAX_CONFIG_BYTES \<and> ok then Some s else None, False)
         | _ \<Rightarrow> (None, False))
      in \<lparr>cs_text = text, cs_symlink = link, cs_risky = (case text of Some t \<Rightarrow> risky_config t | None \<Rightarrow> [])\<rparr>)"

definition snap_repo :: "git_repo \<Rightarrow> repo_snap" where
  "snap_repo r =
     \<lparr>rs_configs = (\<lambda>n. snap_config (gr_config r n)),
      rs_hooks = (case gr_hooks r of Hooks hs \<Rightarrow> hs | _ \<Rightarrow> []),
      rs_hooks_symlink = is_hooks_link (gr_hooks r)\<rparr>"

definition empty_snap :: repo_snap where
  "empty_snap = \<lparr>rs_configs = (\<lambda>_. \<lparr>cs_text = None, cs_symlink = False, cs_risky = []\<rparr>), rs_hooks = [], rs_hooks_symlink = False\<rparr>"

text \<open>What the report of a run says of one repository; the flag is whether the revert worked.\<close>

datatype undo =
    HooksLinkRemoved bool | HookRemoved string bool | ConfigLinkRestored string bool | ConfigTooLarge string
  | ConfigUnreadable string | EntryRemoved string string string bool

text \<open>New hooks go, samples and the hooks of before stay.\<close>

definition revert_hooks :: "(string \<Rightarrow> bool) \<Rightarrow> repo_snap \<Rightarrow> hooks_dir \<Rightarrow> hooks_dir \<times> undo list" where
  "revert_hooks remove b h =
     (case h of
        HooksLink _ \<Rightarrow>
          if rs_hooks_symlink b then (h, [])
          else (if remove ''hooks'' then NoHooks else h, [HooksLinkRemoved (remove ''hooks'')])
      | Hooks hs \<Rightarrow>
          (let new = (\<lambda>n. \<not> ends_with ''.sample'' n \<and> n \<notin> set (rs_hooks b))
           in (Hooks (filter (\<lambda>n. \<not> (new n \<and> remove n)) hs), map (\<lambda>n. HookRemoved n (remove n)) (filter new hs)))
      | NoHooks \<Rightarrow> (h, []))"

text \<open>The risky entries that were not there before, once per occurrence.\<close>

fun to_drop :: "(string \<times> string) list \<Rightarrow> config_entry list \<Rightarrow> config_entry list" where
  "to_drop kept [] = []"
| "to_drop kept (e # es) =
     (if \<not> risky e then to_drop kept es
      else if kv e \<in> set kept then to_drop (remove1 (kv e) kept) es
      else e # to_drop kept es)"

text \<open>A header all of whose entries are dropped goes too.\<close>

definition header_gone :: "config_entry list \<Rightarrow> config_entry list \<Rightarrow> nat \<Rightarrow> bool" where
  "header_gone entries gone h \<longleftrightarrow>
     list_ex (\<lambda>e. ce_header e = Some h) gone \<and> list_all (\<lambda>e. ce_header e = Some h \<longrightarrow> e \<in> set gone) entries"

definition upto_bracket :: "string \<Rightarrow> string" where
  "upto_bracket l = (case split_once CHR '']'' l of Some (a, _) \<Rightarrow> a @ '']'' | None \<Rightarrow> l)"

definition kept_line :: "config_entry list \<Rightarrow> config_entry list \<Rightarrow> nat \<Rightarrow> string \<Rightarrow> string option" where
  "kept_line entries gone i l =
     (if header_gone entries gone i then None
      else if list_ex (\<lambda>e. ce_start e \<le> i \<and> i < ce_end e \<and> \<not> (ce_inline e \<and> i = ce_start e)) gone then None
      else if list_ex (\<lambda>e. ce_start e \<le> i \<and> i < ce_end e) gone then Some (upto_bracket l)
      else Some l)"

fun keep_lines :: "(nat \<Rightarrow> string \<Rightarrow> string option) \<Rightarrow> nat \<Rightarrow> string list \<Rightarrow> string list" where
  "keep_lines f i [] = []"
| "keep_lines f i (l # ls) = (case f i l of Some l' \<Rightarrow> l' # keep_lines f (Suc i) ls | None \<Rightarrow> keep_lines f (Suc i) ls)"

definition rewritten :: "config_entry list \<Rightarrow> string \<Rightarrow> string" where
  "rewritten gone text =
     join_newline (keep_lines (kept_line (parse_config text) gone) 0 (lines_of text)) @
     (if text \<noteq> [] \<and> last text = CHR 10 then [CHR 10] else [])"

definition revert_config ::
  "(string \<Rightarrow> bool) \<Rightarrow> (string \<Rightarrow> bool) \<Rightarrow> string \<Rightarrow> config_snap \<Rightarrow> conf_file \<Rightarrow> conf_file \<times> undo list" where
  "revert_config remove write name b f =
     (case f of
        Missing \<Rightarrow> (f, [])
      | OtherKind \<Rightarrow> (f, [])
      | LinkFile _ \<Rightarrow>
          if cs_symlink b then (f, [])
          else if \<not> remove name then (f, [ConfigLinkRestored name False])
          else (case cs_text b of
                  None \<Rightarrow> (Missing, [ConfigLinkRestored name True])
                | Some t \<Rightarrow> if write name then (Regular t True, [ConfigLinkRestored name True]) else (Missing, [ConfigLinkRestored name False]))
      | Regular s ok \<Rightarrow>
          if MAX_CONFIG_BYTES < length s then (f, [ConfigTooLarge name])
          else if \<not> ok then (f, [ConfigUnreadable name])
          else (let gone = to_drop (cs_risky b) (parse_config s)
                in if gone = [] then (f, [])
                   else (if write name then Regular (rewritten gone s) True else f,
                         map (\<lambda>e. EntryRemoved (ce_key e) (ce_value e) name (write name)) gone)))"

text \<open>One repository: its hooks, then each configuration file.\<close>

definition revert_repo :: "(string \<Rightarrow> bool) \<Rightarrow> (string \<Rightarrow> bool) \<Rightarrow> repo_snap \<Rightarrow> git_repo \<Rightarrow> git_repo \<times> undo list" where
  "revert_repo remove write b r =
     (let (h, ns) = revert_hooks remove b (gr_hooks r);
          rc = (\<lambda>n. revert_config remove write n (rs_configs b n) (gr_config r n))
      in (\<lparr>gr_config = (\<lambda>n. if n \<in> set CONFIG_FILES then fst (rc n) else gr_config r n), gr_hooks = h\<rparr>,
          ns @ concat (map (\<lambda>n. snd (rc n)) CONFIG_FILES)))"

section \<open>All repositories of a run\<close>

text \<open>What a walk of the write roots found, and why it did not see everything.\<close>

record found =
  fo_git_dirs :: "path list"
  fo_pointers :: "(path \<times> path) list"
  fo_incomplete :: "string list"

record snapshot =
  sn_roots :: "path list"
  sn_repos :: "(path \<times> repo_snap) list"
  sn_pointers :: "(path \<times> path) list"
  sn_complete :: bool

definition snapshot_of :: "path list \<Rightarrow> found \<Rightarrow> (path \<Rightarrow> git_repo) \<Rightarrow> snapshot" where
  "snapshot_of roots fo repo =
     \<lparr>sn_roots = roots, sn_repos = map (\<lambda>g. (g, snap_repo (repo g))) (fo_git_dirs fo), sn_pointers = fo_pointers fo,
      sn_complete = (fo_incomplete fo = [])\<rparr>"

text \<open>What git would run in a folder: risky entries and hooks.\<close>

datatype risk = RiskEntry string string | RiskHook string

definition file_text :: "conf_file \<Rightarrow> string option" where
  "file_text f =
     (case (case f of Regular s ok \<Rightarrow> Some (s, ok) | LinkFile t \<Rightarrow> t | _ \<Rightarrow> None) of
        Some (s, ok) \<Rightarrow> if length s \<le> MAX_CONFIG_BYTES \<and> ok then Some s else None
      | None \<Rightarrow> None)"

fun hook_names :: "hooks_dir \<Rightarrow> string list" where
  "hook_names NoHooks = []"
| "hook_names (HooksLink hs) = hs"
| "hook_names (Hooks hs) = hs"

definition risky_state :: "git_repo \<Rightarrow> risk list" where
  "risky_state r =
     concat (map (\<lambda>n. case file_text (gr_config r n) of Some s \<Rightarrow> map (\<lambda>(k, v). RiskEntry k v) (risky_config s) | None \<Rightarrow> [])
       CONFIG_FILES) @
     map RiskHook (filter (\<lambda>n. \<not> ends_with ''.sample'' n) (hook_names (gr_hooks r)))"

datatype run_note = NotAllChecked string | NotReached path "risk list" | Reverted path undo | Pointer path path bool "risk list"

text \<open>A repository found after the run is reverted against its snapshot, or the empty one when it is surely new.\<close>

definition revert_at ::
  "(path \<Rightarrow> string \<Rightarrow> bool) \<Rightarrow> (path \<Rightarrow> string \<Rightarrow> bool) \<Rightarrow> snapshot \<Rightarrow> path \<Rightarrow> git_repo \<Rightarrow> git_repo \<times> run_note list" where
  "revert_at remove write sn g r =
     (case map_of (sn_repos sn) g of
        Some b \<Rightarrow> (case revert_repo (remove g) (write g) b r of (r', ns) \<Rightarrow> (r', map (Reverted g) ns))
      | None \<Rightarrow>
          if sn_complete sn then (case revert_repo (remove g) (write g) empty_snap r of (r', ns) \<Rightarrow> (r', map (Reverted g) ns))
          else (r, if risky_state r = [] then [] else [NotReached g (risky_state r)]))"

definition revert_new ::
  "(path \<Rightarrow> string \<Rightarrow> bool) \<Rightarrow> (path \<Rightarrow> string \<Rightarrow> bool) \<Rightarrow> snapshot \<Rightarrow> found \<Rightarrow> (path \<Rightarrow> git_repo) \<Rightarrow>
   (path \<Rightarrow> git_repo) \<times> run_note set" where
  "revert_new remove write sn fo repo =
     (let at = (\<lambda>g. revert_at remove write sn g (repo g));
          repo' = (\<lambda>g. if g \<in> set (fo_git_dirs fo) then fst (at g) else repo g)
      in (repo',
          NotAllChecked ` set (fo_incomplete fo) \<union> (\<Union>g \<in> set (fo_git_dirs fo). set (snd (at g))) \<union>
          {Pointer p t (list_ex (\<lambda>r. starts_with r t) (sn_roots sn)) (risky_state (repo' t)) | p t.
             (p, t) \<in> set (fo_pointers fo) \<and> map_of (sn_pointers sn) p \<noteq> Some t \<and> risky_state (repo' t) \<noteq> []}))"

end
