(* ===== verification/GitStateProperties.thy ===== *)
theory GitStateProperties
  imports GitState AutoApproveProperties "HOL-Library.Multiset"
begin

text \<open>
  What the revert of a run's git changes leaves: in a configuration without continued lines exactly the
  entries that were harmless or there before, and no new hook. Continued comments break this, in two ways.
\<close>

section \<open>Trimming around a section header\<close>

lemma starts_with_guard: "c \<notin> set w \<Longrightarrow> starts_with w (p @ c # y) \<longleftrightarrow> starts_with w p"
proof (induction w arbitrary: p)
  case (Cons a w)
  then show ?case by (cases p) (auto simp: starts_with_def)
qed simp

lemma strip_any_guard: "\<forall>w \<in> set ws. c \<notin> set w \<Longrightarrow> strip_any ws (p @ c # y) = strip_any ws p @ c # y"
proof (induction ws p rule: strip_any.induct)
  case (1 ws p)
  have f: "find (\<lambda>w. w \<noteq> [] \<and> starts_with w (p @ c # y)) ws = find (\<lambda>w. w \<noteq> [] \<and> starts_with w p) ws"
    using "1.prems" starts_with_guard [of c _ p y] by (intro find_cong) auto
  show ?case
  proof (cases "find (\<lambda>w. w \<noteq> [] \<and> starts_with w p) ws")
    case None
    then show ?thesis using f by (subst (1 2) strip_any.simps) simp
  next
    case (Some w)
    then have "starts_with w p" by (auto simp: find_Some_iff)
    then obtain r where r: "p = w @ r" by (auto simp: starts_with_iff)
    have "strip_any ws (r @ c # y) = strip_any ws r @ c # y" using "1.IH" [OF Some "1.prems"] r by simp
    then show ?thesis using f Some r by (subst (1 2) strip_any.simps) simp
  qed
qed

lemma strip_any_suffix: "\<exists>q. s = q @ strip_any ws s \<and> set q \<subseteq> \<Union> (set ` set ws)"
proof (induction ws s rule: strip_any.induct)
  case (1 ws s)
  show ?case
  proof (cases "find (\<lambda>w. w \<noteq> [] \<and> starts_with w s) ws")
    case None
    then show ?thesis by (subst strip_any.simps) (intro exI [of _ "[]"], simp)
  next
    case (Some w)
    then have "starts_with w s" "w \<in> set ws" by (auto simp: find_Some_iff)
    then obtain r where r: "s = w @ r" by (auto simp: starts_with_iff)
    obtain q where "r = q @ strip_any ws r" "set q \<subseteq> \<Union> (set ` set ws)" using "1.IH" [OF Some] r by auto
    moreover have "strip_any ws s = strip_any ws r" using Some r by (subst strip_any.simps) simp
    ultimately show ?thesis using r \<open>w \<in> set ws\<close> by (intro exI [of _ "w @ q"]) auto
  qed
qed

lemma strip_any_Nil [simp]: "strip_any ws [] = []"
  using strip_any_suffix [of "[]" ws] by auto

text \<open>For evaluation: on an open argument the equation above would unfold forever.\<close>

lemma strip_any_code [code]:
  "strip_any ws [] = []"
  "strip_any ws (c # s) =
     (case find (\<lambda>w. w \<noteq> [] \<and> starts_with w (c # s)) ws of None \<Rightarrow> c # s | Some w \<Rightarrow> strip_any ws (drop (length w) (c # s)))"
  by (rule strip_any_Nil, rule strip_any.simps)

lemma unicode_ws_code [code]:
  "unicode_ws =
     [[CHR 0x09], [CHR 0x0A], [CHR 0x0B], [CHR 0x0C], [CHR 0x0D],
      [CHR 0x20], [CHR 0xC2, CHR 0x85], [CHR 0xC2, CHR 0xA0], [CHR 0xE1, CHR 0x9A, CHR 0x80], [CHR 0xE2, CHR 0x80, CHR 0x80],
      [CHR 0xE2, CHR 0x80, CHR 0x81], [CHR 0xE2, CHR 0x80, CHR 0x82], [CHR 0xE2, CHR 0x80, CHR 0x83], [CHR 0xE2, CHR 0x80, CHR 0x84], [CHR 0xE2, CHR 0x80, CHR 0x85],
      [CHR 0xE2, CHR 0x80, CHR 0x86], [CHR 0xE2, CHR 0x80, CHR 0x87], [CHR 0xE2, CHR 0x80, CHR 0x88], [CHR 0xE2, CHR 0x80, CHR 0x89], [CHR 0xE2, CHR 0x80, CHR 0x8A],
      [CHR 0xE2, CHR 0x80, CHR 0xA8], [CHR 0xE2, CHR 0x80, CHR 0xA9], [CHR 0xE2, CHR 0x80, CHR 0xAF], [CHR 0xE2, CHR 0x81, CHR 0x9F], [CHR 0xE3, CHR 0x80, CHR 0x80]]"
  by (simp add: unicode_ws_def char_of_def bit_0)

lemma strip_any_set: "set (strip_any ws s) \<subseteq> set s"
proof -
  obtain q r where r: "s = q @ r" "strip_any ws s = r" using strip_any_suffix by blast
  show ?thesis unfolding r(2) unfolding r(1) by simp
qed

lemma brackets_stay:
  "\<forall>w \<in> set unicode_ws. CHR ''['' \<notin> set w \<and> CHR '']'' \<notin> set w"
  "\<forall>w \<in> set (map rev unicode_ws). CHR ''['' \<notin> set w \<and> CHR '']'' \<notin> set w"
proof -
  have "list_all (\<lambda>w. CHR ''['' \<notin> set w \<and> CHR '']'' \<notin> set w) unicode_ws" by code_simp
  then show "\<forall>w \<in> set unicode_ws. CHR ''['' \<notin> set w \<and> CHR '']'' \<notin> set w" by (simp add: list_all_iff)
  then show "\<forall>w \<in> set (map rev unicode_ws). CHR ''['' \<notin> set w \<and> CHR '']'' \<notin> set w" by simp
qed

lemma trim_at_bracket: "c = CHR ''['' \<or> c = CHR '']'' \<Longrightarrow>
  trim (p @ c # q) = strip_any unicode_ws p @ c # rev (strip_any (map rev unicode_ws) (rev q))"
  using brackets_stay by (auto simp: trim_def strip_any_guard [where p = "rev q" and y = "rev p'" for p'] strip_any_guard)

lemma trim_subset: "set (trim s) \<subseteq> set s"
  using strip_any_set [of "map rev unicode_ws" "rev (strip_any unicode_ws s)"] strip_any_set [of unicode_ws s]
  by (simp add: trim_def)

text \<open>A header line cut after its bracket is a header line with nothing after it.\<close>

lemma cut_header:
  assumes "trim l = CHR ''['' # rest" "split_once CHR '']'' rest = Some (inner, after)"
  shows "trim (upto_bracket l) = CHR ''['' # inner @ '']''"
proof -
  have "CHR ''['' \<in> set l" using assms(1) trim_subset [of l] by auto
  then obtain p q where l: "l = p @ CHR ''['' # q" "CHR ''['' \<notin> set p" by (meson split_list_first)
  let ?r = "rev (strip_any (map rev unicode_ws) (rev q))"
  have "trim l = strip_any unicode_ws p @ CHR ''['' # ?r" using l(1) by (simp add: trim_at_bracket)
  moreover have "CHR ''['' \<notin> set (strip_any unicode_ws p)" using strip_any_set [of unicode_ws p] l(2) by blast
  ultimately have p: "strip_any unicode_ws p = []" "rest = ?r" using assms(1) by (cases "strip_any unicode_ws p"; auto)+
  have a: "rest = inner @ CHR '']'' # after" "CHR '']'' \<notin> set inner" using assms(2) by (auto simp: split_once_Some)
  have "set rest \<subseteq> set q" using p(2) strip_any_set [of "map rev unicode_ws" "rev q"] by simp
  then have "CHR '']'' \<in> set q" using a(1) by auto
  then obtain i' b where q: "q = i' @ CHR '']'' # b" "CHR '']'' \<notin> set i'" by (meson split_list_first)
  have "rest = i' @ CHR '']'' # rev (strip_any (map rev unicode_ws) (rev b))"
    using p(2) q(1) brackets_stay(2) by (simp add: strip_any_guard)
  moreover have "split_once CHR '']'' rest = Some (i', b')" if "rest = i' @ CHR '']'' # b'" for b'
    using that q(2) by (simp add: split_once_Some)
  ultimately have i: "i' = inner" using assms(2) by auto
  have "CHR '']'' \<notin> set p"
    using strip_any_suffix [of p unicode_ws] p(1) brackets_stay(1) by fastforce
  then have "split_once CHR '']'' l = Some (p @ CHR ''['' # inner, b)"
    using l(1) q i a(2) by (simp add: split_once_Some)
  then have "upto_bracket l = p @ CHR ''['' # inner @ '']''" by (simp add: upto_bracket_def)
  then show ?thesis using p(1) brackets_stay(2) by (simp add: trim_at_bracket strip_any_guard [where p = "[]", simplified])
qed

section \<open>Lines that do not continue\<close>

definition body_of :: "string \<Rightarrow> string" where
  "body_of l = (case line_kind_of l of Unclosed \<Rightarrow> [] | Header s b \<Rightarrow> b | Body b \<Rightarrow> b)"

definition one_line :: "string \<Rightarrow> bool" where
  "one_line l \<longleftrightarrow> \<not> continues (body_of l)"

lemma join_continued_none: "\<not> continues j \<Longrightarrow> join_continued j ls = (0, j, ls)"
  by (cases ls) auto

lemma parse_line:
  assumes "one_line l"
  shows "parse_from sec hdr i (l # ls) =
    (case line_kind_of l of
       Unclosed \<Rightarrow> parse_from sec hdr (Suc i) ls
     | Header s b \<Rightarrow> entry_of s i (Suc i) True (Some i) b @ parse_from s (Some i) (Suc i) ls
     | Body b \<Rightarrow> entry_of sec i (Suc i) False hdr b @ parse_from sec hdr (Suc i) ls)"
  using assms by (auto simp: parse_from.simps(2) one_line_def body_of_def join_continued_none split: line_kind.splits)

lemma entry_of_mem:
  "e \<in> set (entry_of sec i n inl hdr b) \<longleftrightarrow>
     (\<exists>k v. key_value b = Some (k, v) \<and>
        e = \<lparr>ce_key = sec @ ''.'' @ k, ce_value = v, ce_start = i, ce_end = n, ce_inline = inl, ce_header = hdr\<rparr>)"
  by (auto simp: entry_of_def split: option.splits)

lemma kv_entry_of: "map kv (entry_of sec i n inl hdr b) = map kv (entry_of sec j m inl' hdr' b)"
  by (auto simp: entry_of_def kv_def split: option.splits)

lemma entry_facts:
  assumes "list_all one_line ls" "e \<in> set (parse_from sec hdr i ls)"
  shows "i \<le> ce_start e \<and> ce_end e = Suc (ce_start e) \<and>
    (ce_header e = hdr \<or> (\<exists>h \<ge> i. ce_header e = Some h \<and> h \<le> ce_start e))"
  using assms
proof (induction ls arbitrary: sec hdr i)
  case (Cons l ls)
  have one: "one_line l" "list_all one_line ls" using Cons.prems(1) by simp_all
  show ?case
  proof (cases "line_kind_of l")
    case Unclosed
    then show ?thesis using Cons.IH [OF one(2), of sec hdr "Suc i"] Cons.prems(2) parse_line [OF one(1)] by fastforce
  next
    case (Header s b)
    then consider "e \<in> set (entry_of s i (Suc i) True (Some i) b)" | "e \<in> set (parse_from s (Some i) (Suc i) ls)"
      using Cons.prems(2) by (auto simp: parse_line [OF one(1)])
    then show ?thesis
    proof cases
      case 2
      then show ?thesis using Cons.IH [OF one(2), of s "Some i" "Suc i"] by auto
    qed (auto simp: entry_of_mem)
  next
    case (Body b)
    then show ?thesis using Cons.IH [OF one(2), of sec hdr "Suc i"] Cons.prems(2) parse_line [OF one(1)]
      by (fastforce simp: entry_of_mem)
  qed
qed simp

text \<open>What becomes of one line, when the entries take one line each.\<close>

lemma kept_line_one:
  assumes "\<forall>e \<in> set gone. ce_end e = Suc (ce_start e)"
  shows "kept_line E gone i l =
    (if header_gone E gone i then None
     else if \<exists>e \<in> set gone. ce_start e = i \<and> \<not> ce_inline e then None
     else if \<exists>e \<in> set gone. ce_start e = i then Some (upto_bracket l)
     else Some l)"
proof -
  have "ce_start e \<le> i \<and> i < ce_end e \<longleftrightarrow> ce_start e = i" if "e \<in> set gone" for e
    using assms that by auto
  then show ?thesis unfolding kept_line_def list_ex_iff by (smt (verit, best))
qed

lemma cut_line_kind: "line_kind_of l = Header s b \<Longrightarrow> line_kind_of (upto_bracket l) = Header s []"
proof -
  assume "line_kind_of l = Header s b"
  then obtain rest inner after where r: "trim l = CHR ''['' # rest" "split_once CHR '']'' rest = Some (inner, after)"
    "s = section_name (trim inner)"
    by (auto simp: line_kind_of_def split: list.splits option.splits if_splits)
  have "split_once CHR '']'' (inner @ '']'') = Some (inner, [])" using r(2) by (simp add: split_once_Some)
  then show ?thesis using cut_header [OF r(1,2)] r(3) by (simp add: line_kind_of_def trim_def)
qed

section \<open>The revert keeps every other entry\<close>

text \<open>The entries of the lines still to come, when each starts where its line is.\<close>

definition entries_from :: "config_entry list \<Rightarrow> nat \<Rightarrow> config_entry set" where
  "entries_from E i = {e \<in> set E. i \<le> ce_start e}"

lemma entries_from_step:
  assumes "entries_from E i = set as \<union> set P" "\<And>e. e \<in> set as \<Longrightarrow> ce_start e = i" "\<And>e. e \<in> set P \<Longrightarrow> Suc i \<le> ce_start e"
  shows "entries_from E (Suc i) = set P" "{e \<in> set E. ce_start e = i} = set as"
proof -
  have m: "e \<in> set E \<and> i \<le> ce_start e \<longleftrightarrow> e \<in> set as \<or> e \<in> set P" for e
    using assms(1) by (auto simp: entries_from_def)
  have "e \<in> set E \<and> Suc i \<le> ce_start e \<longleftrightarrow> e \<in> set P" for e
    using m [of e] assms(2) [of e] assms(3) [of e] by linarith
  then show "entries_from E (Suc i) = set P" by (auto simp: entries_from_def)
  have "e \<in> set E \<and> ce_start e = i \<longleftrightarrow> e \<in> set as" for e
    using m [of e] assms(2) [of e] assms(3) [of e] by linarith
  then show "{e \<in> set E. ce_start e = i} = set as" by auto
qed

lemma entry_of_start: "e \<in> set (entry_of sec i n inl hdr b) \<Longrightarrow> ce_start e = i \<and> ce_inline e = inl \<and> ce_header e = hdr"
  by (auto simp: entry_of_mem)

lemma one_entry: "e \<in> set (entry_of sec i n inl hdr b) \<Longrightarrow> entry_of sec i n inl hdr b = [e]"
  by (cases "key_value b") (auto simp: entry_of_def)

lemma dropped_here:
  assumes "\<exists>e \<in> set gone. ce_start e = i" "set gone \<subseteq> set E" "{e \<in> set E. ce_start e = i} = set (entry_of s k n inl h b)"
  obtains e where "entry_of s k n inl h b = [e]" "e \<in> set gone" "ce_start e = i" "ce_inline e = inl"
proof -
  obtain e where e: "e \<in> set gone" "ce_start e = i" using assms(1) by blast
  then have m: "e \<in> set (entry_of s k n inl h b)" using assms(2,3) by blast
  then have "ce_inline e = inl" by (auto simp: entry_of_mem)
  then show thesis using that one_entry [OF m] e by blast
qed

lemma entry_of_blank [simp]: "entry_of sec i n inl hdr [] = []"
  by (simp add: entry_of_def key_value_def trim_def)

lemma blank_line: "one_line l \<Longrightarrow> line_kind_of l = Header s b \<Longrightarrow> one_line (upto_bracket l)"
  using cut_line_kind by (simp add: one_line_def body_of_def continues_def)

lemma keep_parse:
  assumes "list_all one_line ls" "set gone \<subseteq> set E" "entries_from E i = set (parse_from sec hdr i ls)"
    and "\<forall>e \<in> set E. \<forall>h. ce_header e = Some h \<longrightarrow> h \<le> ce_start e" "\<forall>e \<in> set E. ce_end e = Suc (ce_start e)"
    and "\<forall>h. hdr = Some h \<longrightarrow> h < i" "sec' = sec \<or> (\<exists>h. hdr = Some h \<and> header_gone E gone h)"
  shows "map kv (parse_from sec' hdr' j (keep_lines (kept_line E gone) i ls)) =
    map kv (filter (\<lambda>e. e \<notin> set gone) (parse_from sec hdr i ls))"
  using assms
proof (induction ls arbitrary: sec hdr i sec' hdr' j)
  case (Cons l ls)
  have one: "one_line l" "list_all one_line ls" using Cons.prems(1) by simp_all
  have kept: "kept_line E gone i l =
      (if header_gone E gone i then None
       else if \<exists>e \<in> set gone. ce_start e = i \<and> \<not> ce_inline e then None
       else if \<exists>e \<in> set gone. ce_start e = i then Some (upto_bracket l)
       else Some l)"
    by (rule kept_line_one) (use Cons.prems(2,5) in blast)
  have later: "e \<in> set (parse_from s h (Suc i) ls) \<Longrightarrow> Suc i \<le> ce_start e" for s h e
    using entry_facts [OF one(2)] by blast
  have stay: "\<not> header_gone E gone i" if "\<forall>e \<in> entries_from E i. ce_header e \<noteq> Some i"
  proof
    assume "header_gone E gone i"
    then obtain e where e: "e \<in> set gone" "ce_header e = Some i" by (auto simp: header_gone_def list_ex_iff)
    then have "e \<in> entries_from E i" using Cons.prems(2,4) by (auto simp: entries_from_def)
    then show False using that e(2) by blast
  qed
  have plain: "\<forall>e \<in> set (parse_from sec hdr (Suc i) ls). ce_header e \<noteq> Some i"
    using entry_facts [OF one(2), of _ sec hdr "Suc i"] Cons.prems(6) by fastforce
  show ?case
  proof (cases "line_kind_of l")
    case Unclosed
    then have P: "parse_from s h k (l # xs) = parse_from s h (Suc k) xs" for s h k xs by (simp add: parse_line [OF one(1)])
    have E: "entries_from E i = set [] \<union> set (parse_from sec hdr (Suc i) ls)" using Cons.prems(3) P by simp
    have none: "{e \<in> set E. ce_start e = i} = {}" "entries_from E (Suc i) = set (parse_from sec hdr (Suc i) ls)"
      using entries_from_step [OF E _ later] by simp_all
    have "\<not> header_gone E gone i" by (rule stay) (use plain E in auto)
    then have k: "kept_line E gone i l = Some l" using kept none(1) Cons.prems(2) by auto
    show ?thesis using Cons.IH [OF one(2) Cons.prems(2) none(2) Cons.prems(4,5) _ Cons.prems(7)] Cons.prems(6) by (auto simp: k P less_Suc_eq)
  next
    case (Header s b)
    let ?es = "entry_of s i (Suc i) True (Some i) b" and ?P = "parse_from s (Some i) (Suc i) ls"
    have P: "parse_from sec hdr i (l # ls) = ?es @ ?P" using Header by (simp add: parse_line [OF one(1)])
    have E: "entries_from E i = set ?es \<union> set ?P" using Cons.prems(3) P by simp
    have starts: "\<And>e. e \<in> set ?es \<Longrightarrow> ce_start e = i" using entry_of_start by blast
    have step: "entries_from E (Suc i) = set ?P" "{e \<in> set E. ce_start e = i} = set ?es"
      using entries_from_step [OF E starts later] by simp_all
    note IH = Cons.IH [OF one(2) Cons.prems(2) step(1) Cons.prems(4,5)]
    have inl: "\<not> (\<exists>e \<in> set gone. ce_start e = i \<and> \<not> ce_inline e)"
      using step(2) Cons.prems(2) entry_of_start by blast
    consider (gone) "header_gone E gone i"
      | (cut) "\<not> header_gone E gone i" "\<exists>e \<in> set gone. ce_start e = i"
      | (same) "\<not> header_gone E gone i" "\<not> (\<exists>e \<in> set gone. ce_start e = i)" by blast
    then show ?thesis
    proof cases
      case gone
      have "set ?es \<subseteq> set E" using step(2) by blast
      moreover have "ce_header e = Some i" if "e \<in> set ?es" for e using entry_of_start [OF that] by simp
      ultimately have "set ?es \<subseteq> set gone" using gone by (auto simp: header_gone_def list_all_iff)
      then have "filter (\<lambda>e. e \<notin> set gone) ?es = []" by (auto simp: filter_empty_conv)
      then show ?thesis using gone IH [of sec' hdr' j] by (simp add: kept P)
    next
      case cut
      then have k: "kept_line E gone i l = Some (upto_bracket l)" using kept inl by simp
      obtain e where e: "?es = [e]" "e \<in> set gone" by (rule dropped_here [OF cut(2) Cons.prems(2) step(2)])
      have "parse_from sec' hdr' j (upto_bracket l # xs) = parse_from s (Some j) (Suc j) xs" for xs
        using cut_line_kind [OF Header] blank_line [OF one(1) Header] by (simp add: parse_line)
      then show ?thesis using IH [of s "Some j" "Suc j"] e by (simp add: k P)
    next
      case same
      then have k: "kept_line E gone i l = Some l" using kept by auto
      have "set ?es \<inter> set gone = {}" using same(2) starts by blast
      then have f: "filter (\<lambda>e. e \<notin> set gone) ?es = ?es" by (auto simp: filter_id_conv)
      have "parse_from sec' hdr' j (l # xs) = entry_of s j (Suc j) True (Some j) b @ parse_from s (Some j) (Suc j) xs" for xs
        using Header by (simp add: parse_line [OF one(1)])
      then show ?thesis using IH [of s "Some j" "Suc j"] kv_entry_of [of s j "Suc j" True "Some j" b i "Suc i" True "Some i"]
        by (simp add: k P f)
    qed
  next
    case (Body b)
    let ?es = "entry_of sec i (Suc i) False hdr b" and ?P = "parse_from sec hdr (Suc i) ls"
    have P: "parse_from sec hdr i (l # ls) = ?es @ ?P" using Body by (simp add: parse_line [OF one(1)])
    have E: "entries_from E i = set ?es \<union> set ?P" using Cons.prems(3) P by simp
    have starts: "\<And>e. e \<in> set ?es \<Longrightarrow> ce_start e = i" using entry_of_start by blast
    have step: "entries_from E (Suc i) = set ?P" "{e \<in> set E. ce_start e = i} = set ?es"
      using entries_from_step [OF E starts later] by simp_all
    have IH: "map kv (parse_from sec' hdr' j' (keep_lines (kept_line E gone) (Suc i) ls)) =
        map kv (filter (\<lambda>e. e \<notin> set gone) ?P)" for hdr' j'
      by (rule Cons.IH [OF one(2) Cons.prems(2) step(1) Cons.prems(4,5) _ Cons.prems(7)]) (use Cons.prems(6) in auto)
    have "\<forall>e \<in> entries_from E i. ce_header e \<noteq> Some i"
      using Cons.prems(3,6) P plain entry_of_start [of _ sec i "Suc i" False hdr b] by fastforce
    then have nh: "\<not> header_gone E gone i" by (rule stay)
    show ?thesis
    proof (cases "\<exists>e \<in> set gone. ce_start e = i")
      case True
      obtain e where e: "?es = [e]" "e \<in> set gone" "ce_start e = i" "ce_inline e = False"
        by (rule dropped_here [OF True Cons.prems(2) step(2)])
      then have "kept_line E gone i l = None" using kept nh e by auto
      then show ?thesis using IH e by (simp add: P)
    next
      case False
      then have k: "kept_line E gone i l = Some l" using kept nh by auto
      have f: "set ?es \<inter> set gone = {}" using False starts by blast
      have "map kv (entry_of sec' j (Suc j) False hdr' b) = map kv ?es"
      proof (cases "?es = []")
        case True
        then show ?thesis by (auto simp: entry_of_def split: option.splits)
      next
        case ne: False
        then obtain e where e: "e \<in> set ?es" by (cases ?es) auto
        have "sec' = sec"
        proof (rule ccontr)
          assume "sec' \<noteq> sec"
          then obtain h where h: "hdr = Some h" "header_gone E gone h" using Cons.prems(7) by blast
          have "e \<in> set E" "ce_header e = Some h" using e step(2) entry_of_start [OF e] h(1) by blast+
          then have "e \<in> set gone" using h(2) by (auto simp: header_gone_def list_all_iff)
          then show False using f e by blast
        qed
        then show ?thesis using kv_entry_of by blast
      qed
      moreover have "filter (\<lambda>e. e \<notin> set gone) ?es = ?es" using f by (auto simp: filter_id_conv)
      moreover have "parse_from sec' hdr' j (l # xs) = entry_of sec' j (Suc j) False hdr' b @ parse_from sec' hdr' (Suc j) xs" for xs
        using Body by (simp add: parse_line [OF one(1)])
      ultimately show ?thesis using IH [of hdr' "Suc j"] by (simp add: k P)
    qed
  qed
qed simp

section \<open>The text the revert writes\<close>

text \<open>A configuration with one line per entry, whose lines do not end in a carriage return of their own.\<close>

definition plain_text :: "string \<Rightarrow> bool" where
  "plain_text s \<longleftrightarrow> list_all (\<lambda>l. one_line l \<and> strip_cr l = l) (lines_of s)"

lemma cut_one_line:
  assumes "one_line l" "strip_cr l = l"
  shows "one_line (upto_bracket l) \<and> strip_cr (upto_bracket l) = upto_bracket l"
proof (cases "split_once CHR '']'' l")
  case (Some p)
  then obtain a b where l: "split_once CHR '']'' l = Some (a, b)" by (cases p) auto
  have a: "CHR '']'' \<notin> set a" "upto_bracket l = a @ '']''"
    using l by (simp_all add: split_once_Some) (use l in \<open>simp add: upto_bracket_def\<close>)
  have "trim (a @ '']'') = strip_any unicode_ws a @ '']''" using trim_at_bracket [of "CHR '']''" a "[]"] by simp
  moreover have "CHR '']'' \<notin> set (strip_any unicode_ws a)" using a(1) strip_any_set [of unicode_ws a] by blast
  moreover have "split_once CHR '']'' (x @ '']'') = Some (x, [])" if "CHR '']'' \<notin> set x" for x
    using that by (simp add: split_once_Some)
  ultimately have "\<not> continues (body_of (a @ '']''))"
    by (cases "strip_any unicode_ws a") (auto simp: body_of_def line_kind_of_def continues_def trim_def)
  then show ?thesis using a(2) by (simp add: one_line_def strip_cr_def)
qed (simp add: upto_bracket_def assms)

lemma kept_lines:
  assumes "list_all (\<lambda>l. one_line l \<and> strip_cr l = l \<and> c \<notin> set l) ls"
  shows "list_all (\<lambda>l. one_line l \<and> strip_cr l = l \<and> c \<notin> set l) (keep_lines (kept_line E D) i ls)"
  using assms
proof (induction ls arbitrary: i)
  case (Cons l ls)
  have "set (upto_bracket l) \<subseteq> set l"
  proof (cases "split_once CHR '']'' l")
    case (Some p)
    obtain a b where "p = (a, b)" by (cases p)
    then have "split_once CHR '']'' l = Some (a, b)" "l = a @ CHR '']'' # b" using Some by (simp_all add: split_once_Some)
    then show ?thesis by (auto simp: upto_bracket_def)
  qed (simp add: upto_bracket_def)
  then show ?case using Cons cut_one_line [of l] by (auto simp: kept_line_def)
qed simp

lemma parse_blank_end: "list_all one_line ls \<Longrightarrow> parse_from sec hdr i (ls @ [[]]) = parse_from sec hdr i ls"
proof (induction ls arbitrary: sec hdr i)
  case Nil
  have "line_kind_of [] = Body []" by (simp add: line_kind_of_def trim_def)
  then show ?case by (simp add: parse_line one_line_def body_of_def continues_def)
qed (auto simp: parse_line split: line_kind.split)

lemma split_on_join:
  "\<lbrakk>ls \<noteq> []; \<forall>l \<in> set ls. CHR 10 \<notin> set l\<rbrakk> \<Longrightarrow> split_on CHR 10 (join_newline ls) = ls"
proof (induction ls rule: join_newline.induct)
  case (2 l)
  have "CHR 10 \<notin> set l \<Longrightarrow> split_on CHR 10 l = [l]" by (induction l) auto
  then show ?case using "2.prems" by simp
next
  case (3 l m ls)
  have "CHR 10 \<notin> set l \<Longrightarrow> split_on CHR 10 (l @ CHR 10 # x) = l # split_on CHR 10 x" for x by (induction l) auto
  then show ?case using 3 by simp
qed simp

lemma split_on_end: "split_on d (s @ [d]) = split_on d s @ [[]]"
proof (induction s)
  case (Cons c s)
  have "split_on d s \<noteq> []" by (induction s) (auto split: list.split)
  then show ?case using Cons by (auto split: list.split)
qed simp

lemma parse_joined:
  assumes "list_all (\<lambda>l. one_line l \<and> strip_cr l = l \<and> CHR 10 \<notin> set l) ls" "nl = [] \<or> nl = [CHR 10]"
  shows "parse_config (join_newline ls @ nl) = parse_from [] None 0 ls"
proof -
  have ok: "list_all one_line ls" "\<forall>l \<in> set ls. CHR 10 \<notin> set l" "\<forall>l \<in> set ls. strip_cr l = l"
    using assms(1) by (auto simp: list_all_iff)
  show ?thesis
  proof (cases "ls = []")
    case True
    then show ?thesis using assms(2) parse_blank_end [of "[]"] by (auto simp: parse_config_def lines_of_def strip_cr_def)
  next
    case False
    note sp = split_on_join [OF False ok(2)]
    have m: "map strip_cr ls = ls" "map strip_cr (butlast ls) = butlast ls"
      using ok(3) by (auto intro: map_idI dest: in_set_butlastD)
    consider "nl = [CHR 10]" | "nl = []" "last ls \<noteq> []" | "nl = []" "last ls = []" using assms(2) by blast
    then show ?thesis
    proof cases
      case 3
      have "list_all one_line (butlast ls)" using ok(1) by (auto simp: list_all_iff dest: in_set_butlastD)
      then have "parse_from [] None 0 (butlast ls) = parse_from [] None 0 (butlast ls @ [[]])"
        using parse_blank_end by simp
      also have "butlast ls @ [[]] = ls" using append_butlast_last_id [OF False] 3(2) by simp
      finally show ?thesis using 3 sp m by (simp add: parse_config_def lines_of_def Let_def)
    qed (use False sp m split_on_end [of "CHR 10" "join_newline ls"] in \<open>simp_all add: parse_config_def lines_of_def Let_def\<close>)
  qed
qed

section \<open>What stays\<close>

lemma to_drop_subset: "set (to_drop kept es) \<subseteq> {e \<in> set es. risky e}"
  by (induction kept es rule: to_drop.induct) auto

lemma kept_risky:
  "distinct es \<Longrightarrow> mset (map kv (filter (\<lambda>e. risky e \<and> e \<notin> set (to_drop kept es)) es)) = mset (map kv (filter risky es)) \<inter># mset kept"
proof (induction es arbitrary: kept)
  case (Cons e es)
  have no: "e \<notin> set (to_drop kept' es)" for kept' using to_drop_subset [of kept' es] Cons.prems by auto
  have same: "filter (\<lambda>x. risky x \<and> x \<noteq> e \<and> x \<notin> D) es = filter (\<lambda>x. risky x \<and> x \<notin> D) es" for D
    using Cons.prems by (intro filter_cong) auto
  show ?case
  proof (cases "risky e")
    case True
    show ?thesis
    proof (cases "kv e \<in> set kept")
      case True
      then show ?thesis using \<open>risky e\<close> Cons no by (simp add: inter_add_left2)
    next
      case False
      then show ?thesis using \<open>risky e\<close> Cons same by (simp add: inter_add_left1)
    qed
  qed (use Cons no in simp)
qed simp

lemma map_filter_same:
  "\<lbrakk>map f xs = map f ys; \<And>x y. f x = f y \<Longrightarrow> P x = P y\<rbrakk> \<Longrightarrow> map f (filter P xs) = map f (filter P ys)"
proof (induction xs arbitrary: ys)
  case (Cons x xs)
  obtain y ys' where y: "ys = y # ys'" "f x = f y" "map f xs = map f ys'" using Cons.prems(1) by (cases ys) auto
  have "map f (filter P xs) = map f (filter P ys')" by (rule Cons.IH [OF y(3) Cons.prems(2)])
  moreover have "P x = P y" by (rule Cons.prems(2) [OF y(2)])
  ultimately show ?case using y(1,2) by simp
qed simp

lemma parse_distinct: "list_all one_line ls \<Longrightarrow> distinct (parse_from sec hdr i ls)"
proof (induction ls arbitrary: sec hdr i)
  case (Cons l ls)
  have one: "one_line l" "list_all one_line ls" using Cons.prems by simp_all
  have "ce_start e \<noteq> i" if "e \<in> set (parse_from s h (Suc i) ls)" for e s h
    using entry_facts [OF one(2) that] by simp
  then have "set (entry_of s i n inl h b) \<inter> set (parse_from s' h' (Suc i) ls) = {}" for s n inl h b s' h'
    using entry_of_start by blast
  moreover have "distinct (entry_of s j n inl h b)" for s j n inl h b
    by (simp add: entry_of_def split: option.split)
  ultimately show ?case using Cons.IH [OF one(2)] by (simp add: parse_line [OF one(1)] split: line_kind.split)
qed simp

lemma parse_rewritten:
  assumes "plain_text s" "set D \<subseteq> set (parse_config s)"
  shows "map kv (parse_config (rewritten D s)) = map kv (filter (\<lambda>e. e \<notin> set D) (parse_config s))"
proof -
  let ?E = "parse_config s" and ?ls = "lines_of s"
  have ok: "list_all (\<lambda>l. one_line l \<and> strip_cr l = l \<and> CHR 10 \<notin> set l) ?ls" "list_all one_line ?ls"
    using assms(1) lines_no_feed by (auto simp: plain_text_def list_all_iff)
  have facts: "ce_end e = Suc (ce_start e) \<and> (\<forall>h. ce_header e = Some h \<longrightarrow> h \<le> ce_start e)" if "e \<in> set ?E" for e
    using entry_facts [OF ok(2), of e "[]" None 0] that by (auto simp: parse_config_def)
  have "parse_config (rewritten D s) = parse_from [] None 0 (keep_lines (kept_line ?E D) 0 ?ls)"
    unfolding rewritten_def by (rule parse_joined [OF kept_lines [OF ok(1)]]) simp
  moreover have "map kv (parse_from [] None 0 (keep_lines (kept_line ?E D) 0 ?ls)) =
      map kv (filter (\<lambda>e. e \<notin> set D) (parse_from [] None 0 ?ls))"
    by (rule keep_parse [OF ok(2) assms(2)]) (use facts in \<open>auto simp: entries_from_def parse_config_def\<close>)
  ultimately show ?thesis by (simp add: parse_config_def)
qed

text \<open>
  C34. When every entry of the configuration takes one line (no line's text goes on on the next one after
  a backslash, none ends in a carriage return of its own) and the file is small enough to be read, a
  revert that can write leaves it with exactly the risky entries that were there before the run, each
  as often as in both, and with every other entry in its place. With continued lines this fails
  (\<open>revert_exposes_an_entry\<close>).
\<close>

theorem revert_removes_what_the_run_added:
  assumes "plain_text s" "length s \<le> MAX_CONFIG_BYTES" "write name"
    and "revert_config remove write name b (Regular s True) = (f, ns)"
  shows "\<exists>t. f = Regular t True \<and> mset (risky_config t) = mset (risky_config s) \<inter># mset (cs_risky b) \<and>
    map kv (filter (\<lambda>e. \<not> risky e) (parse_config t)) = map kv (filter (\<lambda>e. \<not> risky e) (parse_config s))"
proof -
  let ?E = "parse_config s" and ?D = "to_drop (cs_risky b) (parse_config s)"
  have d: "distinct ?E" using assms(1) parse_distinct by (simp add: parse_config_def plain_text_def list_all_iff)
  have risky_kv: "risky e = risky e'" if "kv e = kv e'" for e e' using that by (simp add: risky_def kv_def)
  obtain t where t: "f = Regular t True" "map kv (parse_config t) = map kv (filter (\<lambda>e. e \<notin> set ?D) ?E)"
    using assms(2-4) parse_rewritten [OF assms(1), of ?D] to_drop_subset [of "cs_risky b" ?E]
    by (cases "?D = []") (auto simp: revert_config_def Let_def)
  have "mset (risky_config t) = mset (map kv (filter (\<lambda>e. risky e \<and> e \<notin> set ?D) ?E))"
    using map_filter_same [OF t(2), of risky, OF risky_kv] by (simp add: risky_config_def conj_commute)
  moreover have "map kv (filter (\<lambda>e. \<not> risky e) (parse_config t)) = map kv (filter (\<lambda>e. \<not> risky e) ?E)"
  proof -
    have "filter (\<lambda>e. \<not> risky e \<and> e \<notin> set ?D) ?E = filter (\<lambda>e. \<not> risky e) ?E"
      using to_drop_subset [of "cs_risky b" ?E] by (intro filter_cong) auto
    moreover have "map kv (filter (\<lambda>e. \<not> risky e) (parse_config t)) =
        map kv (filter (\<lambda>e. \<not> risky e) (filter (\<lambda>e. e \<notin> set ?D) ?E))"
      by (rule map_filter_same [OF t(2)]) (simp add: risky_def kv_def)
    ultimately show ?thesis by (simp add: conj_commute)
  qed
  ultimately show ?thesis using t(1) kept_risky [OF d, of "cs_risky b"] by (simp add: risky_config_def)
qed

theorem revert_removes_what_the_run_added_witness:
  "fst (revert_config (\<lambda>_. True) (\<lambda>_. True) ''config'' (snap_config (Regular ''[alias] a = b'' True))
      (Regular (''[core]'' @ [CHR 10] @ ''bare = true'' @ [CHR 10] @ ''pager = x'' @ [CHR 10] @ ''[alias] a = b'') True)) =
    Regular (''[core]'' @ [CHR 10] @ ''bare = true'' @ [CHR 10] @ ''[alias] a = b'') True"
proof -
  let ?s = "''[core]'' @ [CHR 10] @ ''bare = true'' @ [CHR 10] @ ''pager = x'' @ [CHR 10] @ ''[alias] a = b''"
  let ?b = "snap_config (Regular ''[alias] a = b'' True)"
  let ?D = "to_drop [(''alias.a'', ''b'')] (parse_config ?s)"
  have p: "plain_text ?s" by code_simp
  have l: "length ?s \<le> MAX_CONFIG_BYTES" by (simp add: MAX_CONFIG_BYTES_def)
  have "risky_config ''[alias] a = b'' = [(''alias.a'', ''b'')]" by code_simp
  then have b: "cs_risky ?b = [(''alias.a'', ''b'')]" by (simp add: snap_config_def MAX_CONFIG_BYTES_def)
  have "?D \<noteq> []" by code_simp
  moreover have "rewritten ?D ?s = ''[core]'' @ [CHR 10] @ ''bare = true'' @ [CHR 10] @ ''[alias] a = b''" by code_simp
  ultimately have r: "fst (revert_config (\<lambda>_. True) (\<lambda>_. True) ''config'' ?b (Regular ?s True)) =
      Regular (''[core]'' @ [CHR 10] @ ''bare = true'' @ [CHR 10] @ ''[alias] a = b'') True"
    using l unfolding revert_config_def b by (simp add: Let_def)
  show ?thesis
    using revert_removes_what_the_run_added [OF p l, of "\<lambda>_. True" "''config''" "\<lambda>_. True" ?b, OF _ surjective_pairing] r by blast
qed

section \<open>Where the reading and git part\<close>

text \<open>
  Dropping an entry whose section header stands on its own continued line takes the header's line along
  and leaves the next one, which was the end of a comment: the text written has a risky entry that
  this reading had not seen (git, which ends a comment with its line, had).
\<close>

lemma revert_exposes_an_entry:
  "let s = ''[core]'' @ [CHR 10] @ ''bare = true'' @ [CHR 10] @ ''[core] # c'' @ [CHR 0x5C, CHR 10] @ ''pager = x'' @ [CHR 10] @ ''editor = vi''
   in risky_config s = [(''core.editor'', ''vi'')] \<and>
      risky_config (rewritten (to_drop [] (parse_config s)) s) = [(''core.pager'', ''x'')]"
  by code_simp

text \<open>
  Git ends a comment with its line. The reading joins a line that ends in a backslash with the next one
  before it looks for comments: the hooks path after such a comment is no entry.
\<close>

lemma continued_comment_hides_a_key:
  "risky_config (''[core]'' @ [CHR 10] @ ''# '' @ [CHR 0x5C, CHR 10] @ ''hooksPath = /e'' @ [CHR 10]) = []"
  by code_simp

end
