(* ===== verification/Sockets.thy ===== *)
theory Sockets
  imports Net
begin

text \<open>
  Socket addresses and the parser behind \<open>str::parse::<SocketAddr>\<close>: an IPv4 address with a port, or an
  IPv6 address in brackets, with an optional scope, and a port.
\<close>

record socket_addr =
  sa_ip :: ip_addr
  sa_port :: u16
  sa_scope :: u32

definition to_digit :: "nat \<Rightarrow> char \<Rightarrow> nat option" where
  "to_digit radix c =
     (let n = of_char c :: nat;
          v = (if 48 \<le> n \<and> n \<le> 57 then Some (n - 48)
               else if 97 \<le> n \<and> n \<le> 122 then Some (n - 87)
               else if 65 \<le> n \<and> n \<le> 90 then Some (n - 55)
               else None)
      in case v of Some d \<Rightarrow> if d < radix then Some d else None | None \<Rightarrow> None)"

fun read_digits :: "nat \<Rightarrow> string \<Rightarrow> nat list \<times> string" where
  "read_digits radix [] = ([], [])"
| "read_digits radix (c # s) =
     (case to_digit radix c of
        Some d \<Rightarrow> (case read_digits radix s of (ds, r) \<Rightarrow> (d # ds, r))
      | None \<Rightarrow> ([], c # s))"

text \<open>\<open>read_number\<close>: at most so many digits, a leading zero where it is allowed, below the bound of the type.\<close>

definition read_number :: "nat \<Rightarrow> nat option \<Rightarrow> bool \<Rightarrow> nat \<Rightarrow> string \<Rightarrow> (nat \<times> string) option" where
  "read_number radix max_digits zero_ok bound s =
     (case read_digits radix s of (ds, r) \<Rightarrow>
        let v = foldl (\<lambda>a d. a * radix + d) 0 ds
        in if ds = [] \<or> (case max_digits of Some m \<Rightarrow> m < length ds | None \<Rightarrow> False) \<or>
              \<not> zero_ok \<and> hd ds = 0 \<and> 1 < length ds \<or> bound \<le> v
           then None else Some (v, r))"

definition read_char :: "char \<Rightarrow> string \<Rightarrow> string option" where
  "read_char c s = (case s of [] \<Rightarrow> None | x # r \<Rightarrow> if x = c then Some r else None)"

text \<open>\<open>read_separator\<close>: a separator before every part but the first.\<close>

definition read_sep :: "char \<Rightarrow> nat \<Rightarrow> (string \<Rightarrow> ('a \<times> string) option) \<Rightarrow> string \<Rightarrow> ('a \<times> string) option" where
  "read_sep c i f s = (if i = 0 then f s else Option.bind (read_char c s) f)"

fun read_octets :: "nat \<Rightarrow> nat \<Rightarrow> string \<Rightarrow> (u8 list \<times> string) option" where
  "read_octets i 0 s = Some ([], s)"
| "read_octets i (Suc n) s =
     (case read_sep CHR ''.'' i (read_number 10 (Some 3) False 256) s of
        None \<Rightarrow> None
      | Some (v, r) \<Rightarrow> map_option (\<lambda>(os, r'). (of_nat v # os, r')) (read_octets (Suc i) n r))"

definition read_ipv4 :: "string \<Rightarrow> (ipv4 \<times> string) option" where
  "read_ipv4 s =
     (case read_octets 0 4 s of
        Some ([a, b, c, d], r) \<Rightarrow> Some (V4 a b c d, r)
      | _ \<Rightarrow> None)"

text \<open>\<open>read_groups\<close>: the groups read, and whether they end with an embedded IPv4 address.\<close>

fun read_groups :: "nat \<Rightarrow> nat \<Rightarrow> string \<Rightarrow> u16 list \<times> bool \<times> string" where
  "read_groups i 0 s = ([], False, s)"
| "read_groups i (Suc n) s =
     (case (if 0 < n then read_sep CHR '':'' i read_ipv4 s else None) of
        Some (V4 a b c d, r) \<Rightarrow> ([push_bit 8 (ucast a) OR ucast b, push_bit 8 (ucast c) OR ucast d], True, r)
      | None \<Rightarrow>
          (case read_sep CHR '':'' i (read_number 16 (Some 4) True 65536) s of
             Some (g, r) \<Rightarrow> (case read_groups (Suc i) n r of (gs, v4, r') \<Rightarrow> (of_nat g # gs, v4, r'))
           | None \<Rightarrow> ([], False, s)))"

fun v6_of :: "u16 list \<Rightarrow> ipv6" where
  "v6_of [a, b, c, d, e, f, g, h] = V6 a b c d e f g h"
| "v6_of _ = V6 0 0 0 0 0 0 0 0"

definition read_ipv6 :: "string \<Rightarrow> (ipv6 \<times> string) option" where
  "read_ipv6 s =
     (case read_groups 0 8 s of (hs, v4, r) \<Rightarrow>
        if length hs = 8 then Some (v6_of hs, r)
        else if v4 then None
        else Option.bind (read_char CHR '':'' r) (\<lambda>r. Option.bind (read_char CHR '':'' r) (\<lambda>r.
          case read_groups 0 (8 - (length hs + 1)) r of (ts, _, r') \<Rightarrow>
            Some (v6_of (hs @ replicate (8 - length hs - length ts) 0 @ ts), r'))))"

definition read_port :: "string \<Rightarrow> (u16 \<times> string) option" where
  "read_port s = Option.bind (read_char CHR '':'' s) (\<lambda>r. map_option (\<lambda>(v, r'). (of_nat v, r')) (read_number 10 None True 65536 r))"

definition read_scope_id :: "string \<Rightarrow> (u32 \<times> string) option" where
  "read_scope_id s =
     Option.bind (read_char CHR ''%'' s) (\<lambda>r. map_option (\<lambda>(v, r'). (of_nat v, r')) (read_number 10 None True (2 ^ 32) r))"

definition read_v4_socket :: "string \<Rightarrow> (socket_addr \<times> string) option" where
  "read_v4_socket s =
     Option.bind (read_ipv4 s) (\<lambda>(ip, r). Option.bind (read_port r) (\<lambda>(p, r').
       Some (\<lparr>sa_ip = IpV4 ip, sa_port = p, sa_scope = 0\<rparr>, r')))"

definition read_v6_socket :: "string \<Rightarrow> (socket_addr \<times> string) option" where
  "read_v6_socket s =
     Option.bind (read_char CHR ''['' s) (\<lambda>r. Option.bind (read_ipv6 r) (\<lambda>(ip, r).
       let (sc, r) = (case read_scope_id r of Some (n, r') \<Rightarrow> (n, r') | None \<Rightarrow> (0, r))
       in Option.bind (read_char CHR '']'' r) (\<lambda>r. Option.bind (read_port r) (\<lambda>(p, r').
            Some (\<lparr>sa_ip = IpV6 ip, sa_port = p, sa_scope = sc\<rparr>, r')))))"

definition parse_socket :: "string \<Rightarrow> socket_addr option" where
  "parse_socket s =
     (case (case read_v4_socket s of Some x \<Rightarrow> Some x | None \<Rightarrow> read_v6_socket s) of
        Some (a, []) \<Rightarrow> Some a
      | _ \<Rightarrow> None)"

fun v6_unspecified :: "ipv6 \<Rightarrow> bool" where
  "v6_unspecified (V6 a b c d e f g h) \<longleftrightarrow> a = 0 \<and> b = 0 \<and> c = 0 \<and> d = 0 \<and> e = 0 \<and> f = 0 \<and> g = 0 \<and> h = 0"

definition ip_unspecified :: "ip_addr \<Rightarrow> bool" where
  "ip_unspecified ip = (case ip of IpV4 a \<Rightarrow> is_unspecified a | IpV6 a \<Rightarrow> v6_unspecified a)"

end
