(* ===== verification/CapsuleLoad.thy ===== *)
theory CapsuleLoad
  imports BreakGlass Text Sockets
begin

text \<open>
  How a capsule is loaded (\<open>agent/core/src/capsule/\<close>): the checks of its manifest (\<open>manifest.rs\<close>,
  \<open>filesystem.rs\<close>, the network list of \<open>sandbox.rs\<close>), the archive and its content hash (\<open>archive.rs\<close>),
  the publisher signature (\<open>tiers.rs\<close>), the cross-check of the interface (\<open>verify.rs\<close>) and the fleet
  allowlist (\<open>allowlist.rs\<close>). The TOML reader, the archive reader and the signature scheme are parameters.
\<close>

datatype capsule_error =
    BadFsEntry string | UnknownAccess string | RelativeMount string | ParentInMount string
  | NotAnAddress string | NotOneAddress string | NotPublic string
  | NameLength nat | NameCharset string | NameDash string
  | NotSemVer string | BadSegment string nat | NoHashPrefix string | HashLength nat | NotHex string
  | SubagentSpawn | ItarBreakGlass | EmptyNetworkAllow | StrayNetworkAllow | HighNeedsTwoRoles
  | ManifestParse | BadUtf8 string | UnexpectedEntry string | MissingPart string | ArchiveUnreadable
  | HashMismatch string string | NoPublisherSignature | SigningTierMismatch signing_tier
  | SignatureInvalid string | WitMismatch string string

section \<open>Declared mounts and addresses\<close>

datatype fs_access = FsRead | FsWrite | FsBoth

record fs_entry =
  fe_access :: fs_access
  fe_path :: path

definition parse_fs_entry :: "string \<Rightarrow> capsule_error + fs_entry" where
  "parse_fs_entry s =
     (case split_once CHR '':'' s of
        None \<Rightarrow> Inl (BadFsEntry s)
      | Some (a, p) \<Rightarrow>
          bind_result
            (if a = ''read'' then Inr FsRead else if a = ''write'' then Inr FsWrite
             else if a = ''both'' then Inr FsBoth else Inl (UnknownAccess a)) (\<lambda>acc.
          if \<not> starts_with ''/'' p then Inl (RelativeMount p)
          else if ParentDir \<in> set (components p) then Inl (ParentInMount p)
          else Inr \<lparr>fe_access = acc, fe_path = components p\<rparr>))"

definition parse_all :: "string list \<Rightarrow> capsule_error + fs_entry list" where
  "parse_all = collect_results parse_fs_entry"

definition parse_network_entry :: "string \<Rightarrow> capsule_error + socket_addr" where
  "parse_network_entry s =
     (case parse_socket s of
        None \<Rightarrow> Inl (NotAnAddress s)
      | Some a \<Rightarrow>
          if ip_unspecified (sa_ip a) \<or> sa_port a = 0 then Inl (NotOneAddress s)
          else if \<not> is_public_ip (sa_ip a) then Inl (NotPublic s)
          else Inr a)"

definition parse_network_allow :: "string list \<Rightarrow> capsule_error + socket_addr list" where
  "parse_network_allow = collect_results parse_network_entry"

section \<open>The manifest\<close>

definition is_dns_char :: "char \<Rightarrow> bool" where
  "is_dns_char c \<longleftrightarrow> (let n = of_char c :: nat in 97 \<le> n \<and> n \<le> 122 \<or> 48 \<le> n \<and> n \<le> 57 \<or> c = CHR ''-'')"

definition validate_dns_label :: "string \<Rightarrow> capsule_error + unit" where
  "validate_dns_label s =
     (if s = [] \<or> 63 < length s then Inl (NameLength (length s))
      else if \<not> list_all is_dns_char s then Inl (NameCharset s)
      else if hd s = CHR ''-'' \<or> last s = CHR ''-'' then Inl (NameDash s)
      else Inr ())"

definition segment_core :: "nat \<Rightarrow> string \<Rightarrow> string" where
  "segment_core i p = (if i = 2 then takeWhile (\<lambda>c. c \<noteq> CHR ''-'' \<and> c \<noteq> CHR ''+'') p else p)"

definition validate_semver :: "string \<Rightarrow> capsule_error + unit" where
  "validate_semver s =
     (let parts = split_on CHR ''.'' s
      in if length parts \<noteq> 3 then Inl (NotSemVer s)
         else case find (\<lambda>(i, p). parse_u64 (segment_core i p) = None) (enumerate 0 parts) of
                Some (i, p) \<Rightarrow> Inl (BadSegment s i)
              | None \<Rightarrow> Inr ())"

definition HASH_PREFIX :: string where "HASH_PREFIX = ''sha256:''"

definition validate_sha256_prefix :: "string \<Rightarrow> capsule_error + unit" where
  "validate_sha256_prefix s =
     (case strip_prefix HASH_PREFIX s of
        None \<Rightarrow> Inl (NoHashPrefix s)
      | Some hex \<Rightarrow>
          if length hex \<noteq> 64 then Inl (HashLength (length hex))
          else if \<not> list_all is_hex_digit hex then Inl (NotHex s)
          else Inr ())"

text \<open>The roles that count for a tier-high action.\<close>

definition approving_roles :: "manifest \<Rightarrow> role set" where
  "approving_roles m = set (filter (\<lambda>r. r \<noteq> Auditor) (required_roles (risk m)))"

definition validate :: "manifest \<Rightarrow> capsule_error + unit" where
  "validate m =
     bind_result (validate_dns_label (cm_name (capsule m))) (\<lambda>_.
     bind_result (validate_semver (cm_version (capsule m))) (\<lambda>_.
     bind_result (validate_sha256_prefix (content_hash (capsule m))) (\<lambda>_.
     if subagent_spawn (capability m) then Inl SubagentSpawn
     else if Itar \<in> set (reads (data_class m)) \<and> break_glass_eligible (risk m) then Inl ItarBreakGlass
     else
       bind_result (parse_all (CapsuleManifest.filesystem (capability m))) (\<lambda>_.
       bind_result (parse_network_allow (network_allow (capability m))) (\<lambda>allow.
       if network (capability m) = EgressAllowed \<and> allow = [] then Inl EmptyNetworkAllow
       else if network (capability m) \<noteq> EgressAllowed \<and> allow \<noteq> [] then Inl StrayNetworkAllow
       else if risk_tier (risk m) = HighTier \<and> card (approving_roles m) < 2 then Inl HighNeedsTwoRoles
       else Inr ())))))"

text \<open>\<open>toml\<close> stands for the TOML reader with the derived schema.\<close>

definition parse_manifest :: "(string \<Rightarrow> manifest option) \<Rightarrow> string \<Rightarrow> capsule_error + manifest" where
  "parse_manifest toml text =
     (case toml text of
        None \<Rightarrow> Inl ManifestParse
      | Some m \<Rightarrow> bind_result (validate m) (\<lambda>_. Inr m))"

section \<open>The archive\<close>

record archive =
  ar_manifest :: bytes
  ar_wit :: bytes
  ar_wasm :: bytes
  ar_procedure :: bytes
  ar_gherkin :: "(string \<times> bytes) list"
  ar_specs :: "(string \<times> bytes) list"
  ar_signatures :: "(string \<times> bytes) list"

definition empty_archive :: archive where
  "empty_archive =
     \<lparr>ar_manifest = [], ar_wit = [], ar_wasm = [], ar_procedure = [], ar_gherkin = [], ar_specs = [], ar_signatures = []\<rparr>"

definition MAX_DECOMPRESSED_BYTES :: nat where "MAX_DECOMPRESSED_BYTES = 268435456"

definition add_entry :: "archive \<Rightarrow> string \<times> bytes \<Rightarrow> capsule_error + archive" where
  "add_entry a e =
     (case e of (p, b) \<Rightarrow>
        if ends_with ''/'' p then Inr a
        else if p = ''manifest.toml'' then Inr (a\<lparr>ar_manifest := b\<rparr>)
        else if p = ''capsule.wit'' then Inr (a\<lparr>ar_wit := b\<rparr>)
        else if p = ''capsule.wasm'' then Inr (a\<lparr>ar_wasm := b\<rparr>)
        else if p = ''procedure.md'' then Inr (a\<lparr>ar_procedure := b\<rparr>)
        else if starts_with ''gherkin/'' p then Inr (a\<lparr>ar_gherkin := AList.update p b (ar_gherkin a)\<rparr>)
        else if starts_with ''specs/'' p then Inr (a\<lparr>ar_specs := AList.update p b (ar_specs a)\<rparr>)
        else case strip_prefix ''SIGNATURES/'' p of
               Some f \<Rightarrow> Inr (a\<lparr>ar_signatures := AList.update f b (ar_signatures a)\<rparr>)
             | None \<Rightarrow> Inl (UnexpectedEntry p))"

fun add_entries :: "archive \<Rightarrow> (string \<times> bytes) list \<Rightarrow> capsule_error + archive" where
  "add_entries a [] = Inr a"
| "add_entries a (e # es) = bind_result (add_entry a e) (\<lambda>a'. add_entries a' es)"

definition validate_structure :: "archive \<Rightarrow> capsule_error + unit" where
  "validate_structure a =
     (if ar_manifest a = [] then Inl (MissingPart ''manifest.toml'')
      else if ar_wit a = [] then Inl (MissingPart ''capsule.wit'')
      else if ar_wasm a = [] then Inl (MissingPart ''capsule.wasm'')
      else if ar_procedure a = [] then Inl (MissingPart ''procedure.md'')
      else if map_of (ar_signatures a) ''publisher.sig'' = None then Inl (MissingPart ''SIGNATURES/publisher.sig'')
      else Inr ())"

text \<open>\<open>untar\<close> stands for the Zstandard and tar readers, with the cap on what they decompress.\<close>

definition read_archive :: "(nat \<Rightarrow> bytes \<Rightarrow> (string \<times> bytes) list option) \<Rightarrow> bytes \<Rightarrow> capsule_error + archive" where
  "read_archive untar bs =
     (case untar MAX_DECOMPRESSED_BYTES bs of
        None \<Rightarrow> Inl ArchiveUnreadable
      | Some es \<Rightarrow>
          bind_result (add_entries empty_archive es) (\<lambda>a. bind_result (validate_structure a) (\<lambda>_. Inr a)))"

section \<open>The content hash\<close>

definition CONTENT_HASH_DOMAIN :: bytes where "CONTENT_HASH_DOMAIN = ascii ''CIT-AGENT-CAPSULE-CONTENT-HASH-v2''"

text \<open>The first \<open>content_hash\<close> line is replaced, with its indentation kept.\<close>

definition is_hash_line :: "string \<Rightarrow> bool" where
  "is_hash_line l \<longleftrightarrow> (let t = strip_any unicode_ws l in starts_with ''content_hash'' t \<and> CHR ''='' \<in> set t)"

definition blanked :: "string \<Rightarrow> string" where
  "blanked l = take (length l - length (strip_any unicode_ws l)) l @ ''content_hash = '' @ [CHR 0x22, CHR 0x22]"

fun blank_first :: "string list \<Rightarrow> string list" where
  "blank_first [] = []"
| "blank_first (l # ls) = (if is_hash_line l then blanked l # ls else l # blank_first ls)"

definition normalize_manifest :: "bytes \<Rightarrow> bytes" where
  "normalize_manifest m = ascii (concat (map (\<lambda>l. l @ [CHR 10]) (blank_first (lines_of (text_lossy m)))))"

text \<open>Paths in byte order.\<close>

fun str_le :: "string \<Rightarrow> string \<Rightarrow> bool" where
  "str_le [] t \<longleftrightarrow> True"
| "str_le (c # s) [] \<longleftrightarrow> False"
| "str_le (c # s) (d # t) \<longleftrightarrow> (of_char c :: nat) < of_char d \<or> c = d \<and> str_le s t"

fun insert_by_path :: "string \<times> 'a \<Rightarrow> (string \<times> 'a) list \<Rightarrow> (string \<times> 'a) list" where
  "insert_by_path x [] = [x]"
| "insert_by_path x (y # ys) = (if str_le (fst x) (fst y) then x # y # ys else y # insert_by_path x ys)"

definition sort_by_path :: "(string \<times> 'a) list \<Rightarrow> (string \<times> 'a) list" where
  "sort_by_path xs = foldr insert_by_path xs []"

definition hashed_entries :: "archive \<Rightarrow> (string \<times> bytes) list" where
  "hashed_entries a =
     sort_by_path
       ([(''manifest.toml'', normalize_manifest (ar_manifest a)), (''capsule.wit'', ar_wit a),
         (''capsule.wasm'', ar_wasm a), (''procedure.md'', ar_procedure a)] @ ar_gherkin a @ ar_specs a)"

definition bundle_bytes :: "crypto \<Rightarrow> archive \<Rightarrow> bytes" where
  "bundle_bytes cr a =
     CONTENT_HASH_DOMAIN @ concat (map (\<lambda>(p, b). sha256 cr b @ ascii p) (hashed_entries a))"

definition compute_content_hash :: "crypto \<Rightarrow> archive \<Rightarrow> string" where
  "compute_content_hash cr a = HASH_PREFIX @ hex_encode (sha256 cr (bundle_bytes cr a))"

section \<open>The signature\<close>

record key_registry =
  kr_bundled :: "bytes option"
  kr_managed :: "bytes option"

definition publisher_key_for :: "key_registry \<Rightarrow> signing_tier \<Rightarrow> bytes option" where
  "publisher_key_for r t = (case t of Bundled \<Rightarrow> kr_bundled r | Managed \<Rightarrow> kr_managed r | Workspace \<Rightarrow> None)"

definition verify_signature ::
  "crypto \<Rightarrow> string \<Rightarrow> bytes \<Rightarrow> signing_tier \<Rightarrow> key_registry \<Rightarrow> capsule_error + unit" where
  "verify_signature cr hash sig tier r =
     (case publisher_key_for r tier of
        None \<Rightarrow> Inl (SigningTierMismatch tier)
      | Some k \<Rightarrow>
          if \<not> vk_valid cr k then Inl (SignatureInvalid ''invalid publisher key'')
          else if length sig \<noteq> SIGNATURE_SIZE then Inl (SignatureInvalid ''signature length'')
          else if \<not> vk_verify cr k (sha256 cr (ascii hash)) sig then Inl (SignatureInvalid ''does not verify'')
          else Inr ())"

definition BUNDLED_PUBLISHER_KEY :: bytes where
  "BUNDLED_PUBLISHER_KEY =
     [0x4a, 0x4a, 0x0c, 0x85, 0x78, 0x3c, 0xae, 0x8b, 0x5b, 0x75, 0x2a, 0x83, 0xd9, 0x03, 0x65, 0x95,
      0x8e, 0xd1, 0x9d, 0xc1, 0xa6, 0xe1, 0x1f, 0xf6, 0xd9, 0xe2, 0x16, 0x78, 0x7e, 0x6a, 0xa7, 0x0a]"

definition bundled_registry :: key_registry where
  "bundled_registry = \<lparr>kr_bundled = Some BUNDLED_PUBLISHER_KEY, kr_managed = None\<rparr>"

section \<open>The interface\<close>

definition check_import :: "manifest \<Rightarrow> string \<Rightarrow> string \<Rightarrow> capsule_error + unit" where
  "check_import m ns name =
     (if ns = ''wasi'' \<and> name = ''sockets'' \<and> network (capability m) = NetNone then Inl (WitMismatch ns name)
      else if ns = ''wasi'' \<and> name = ''filesystem'' \<and> CapsuleManifest.filesystem (capability m) = []
      then Inl (WitMismatch ns name)
      else Inr ())"

text \<open>The package a line imports, if it is an import.\<close>

definition line_import :: "string \<Rightarrow> (string \<times> string) option" where
  "line_import l =
     (let stripped = trim (rev (dropWhile (\<lambda>c. c = CHR '';'') (rev (before_first ''//'' (trim l)))))
      in case strip_prefix ''import '' stripped of
           None \<Rightarrow> None
         | Some rest \<Rightarrow>
             map_option (\<lambda>(ns, after). (ns, takeWhile (\<lambda>c. c \<noteq> CHR ''/'' \<and> c \<noteq> CHR ''@'') after))
               (split_once CHR '':'' (first_word rest)))"

fun check_imports :: "manifest \<Rightarrow> string list \<Rightarrow> capsule_error + unit" where
  "check_imports m [] = Inr ()"
| "check_imports m (l # ls) =
     (case line_import l of
        None \<Rightarrow> check_imports m ls
      | Some (ns, name) \<Rightarrow> bind_result (check_import m ns name) (\<lambda>_. check_imports m ls))"

definition verify_capability_against_wit :: "manifest \<Rightarrow> string \<Rightarrow> capsule_error + unit" where
  "verify_capability_against_wit m wit = check_imports m (lines_of wit)"

section \<open>A capsule\<close>

record loaded_capsule =
  lc_manifest :: manifest
  lc_archive :: archive

definition from_archive ::
  "crypto \<Rightarrow> (string \<Rightarrow> manifest option) \<Rightarrow> (nat \<Rightarrow> bytes \<Rightarrow> (string \<times> bytes) list option) \<Rightarrow> bytes \<Rightarrow>
   capsule_error + loaded_capsule" where
  "from_archive cr toml untar bs =
     bind_result (read_archive untar bs) (\<lambda>a.
     bind_result (ok_or (BadUtf8 ''manifest.toml'') (from_utf8 (ar_manifest a))) (\<lambda>text.
     bind_result (parse_manifest toml text) (\<lambda>m.
       let computed = compute_content_hash cr a
       in if computed \<noteq> content_hash (capsule m) then Inl (HashMismatch (content_hash (capsule m)) computed)
          else Inr \<lparr>lc_manifest = m, lc_archive = a\<rparr>)))"

definition from_archive_verified ::
  "crypto \<Rightarrow> (string \<Rightarrow> manifest option) \<Rightarrow> (nat \<Rightarrow> bytes \<Rightarrow> (string \<times> bytes) list option) \<Rightarrow> key_registry \<Rightarrow> bytes \<Rightarrow>
   capsule_error + loaded_capsule" where
  "from_archive_verified cr toml untar r bs =
     bind_result (from_archive cr toml untar bs) (\<lambda>c.
     bind_result (ok_or NoPublisherSignature (map_of (ar_signatures (lc_archive c)) ''publisher.sig'')) (\<lambda>sig.
     bind_result (verify_signature cr (content_hash (capsule (lc_manifest c))) sig (sd_tier (signing (lc_manifest c))) r) (\<lambda>_.
     bind_result (ok_or (BadUtf8 ''capsule.wit'') (from_utf8 (ar_wit (lc_archive c)))) (\<lambda>wit.
     bind_result (verify_capability_against_wit (lc_manifest c) wit) (\<lambda>_. Inr c)))))"

section \<open>The fleet allowlist\<close>

record allow_entry =
  ae_name :: string
  ae_min_version :: string
  ae_hashes :: "string list"

datatype refusal =
    NotListed string | NotPlainVersion string string | MalformedFloor string
  | BelowFloor string string string | NotAllowedBuild string string

definition parse_version :: "string \<Rightarrow> (u64 \<times> u64 \<times> u64) option" where
  "parse_version v =
     (case split_on CHR ''.'' v of
        [a, b, c] \<Rightarrow>
          Option.bind (parse_u64 a) (\<lambda>x. Option.bind (parse_u64 b) (\<lambda>y. map_option (\<lambda>z. (x, y, z)) (parse_u64 c)))
      | _ \<Rightarrow> None)"

fun version_below :: "u64 \<times> u64 \<times> u64 \<Rightarrow> u64 \<times> u64 \<times> u64 \<Rightarrow> bool" where
  "version_below (a, b, c) (x, y, z) \<longleftrightarrow> a < x \<or> a = x \<and> (b < y \<or> b = y \<and> c < z)"

definition check_allowed :: "allow_entry list \<Rightarrow> manifest \<Rightarrow> refusal + unit" where
  "check_allowed es m =
     (let name = cm_name (capsule m)
      in bind_result (ok_or (NotListed name) (find (\<lambda>e. ae_name e = name) es)) (\<lambda>e.
         bind_result (ok_or (NotPlainVersion name (cm_version (capsule m))) (parse_version (cm_version (capsule m)))) (\<lambda>have.
         bind_result (ok_or (MalformedFloor name) (parse_version (ae_min_version e))) (\<lambda>floor.
           if version_below have floor then Inl (BelowFloor name (cm_version (capsule m)) (ae_min_version e))
           else if content_hash (capsule m) \<notin> set (ae_hashes e) then Inl (NotAllowedBuild name (content_hash (capsule m)))
           else Inr ()))))"

definition BUNDLED_FLEET :: "allow_entry list" where
  "BUNDLED_FLEET =
     map (\<lambda>(n, v, hs). \<lparr>ae_name = n, ae_min_version = v, ae_hashes = hs\<rparr>)
     [(''anchor-session'', ''0.1.0'', [''sha256:48c02c8c268c9383eb5b61b1d1ac0d78ba207876727ba3dbbe09d698ff4e5109'']),
      (''echo-chain'', ''0.1.0'', [''sha256:008f8bcbc66a444a604998f54757588071f59a950abf975465cdd3ca2c7b7631'']),
      (''hello'', ''0.1.0'', [''sha256:88c703080488b4852035a4007351a6d4cd63a065771881385cd2d3e2ffaf34f9'']),
      (''list-compliance-posture'', ''0.1.0'', [''sha256:926b604a825c2b1276a5378105373f0708d3544cbb98de76e27e9f69740b7761'']),
      (''provision-user'', ''0.1.0'', [''sha256:480b3983b412fc70f08aa6c6454dd85394c25e5935cd41a98bd6d55276e6655e'']),
      (''query-decisions-by-tenant'', ''0.1.0'', [''sha256:d6ecc92f9885a09b4b82bce78752dc9de256367d3b1a4339b3ce84a5128e938f'']),
      (''query-supplier-status'', ''0.1.0'', [''sha256:588cc912b846d7bd2662c90b3308a7c636a57c20ec5ee7fe814ebade5940965f'']),
      (''revoke-role'', ''0.1.0'', [''sha256:5cc97b788f8662e00b9dc44ca0c7d21ce45f1146c1b7b81e0f7deea5fcc79ad6'']),
      (''verify-provenance-chain'', ''0.1.0'', [''sha256:9288ebc24783ba64eaae602ea0c1ecf017fd5f2c47c4b7d2d124f4b9b467e0db''])]"

end
