(* ===== verification/CapsuleHost.thy ===== *)
theory CapsuleHost
  imports CapsuleLoad Approval
begin

text \<open>
  What a running capsule reaches of the chain (\<open>agent/core/src/capsule/\<close>): its declared addresses
  (\<open>mod.rs\<close>), the capabilities its linker gets and the two host functions (\<open>linker.rs\<close>), the host
  context and its memory budget (\<open>wasm.rs\<close>), and the approval gate over the approval queue
  (\<open>dispatcher.rs\<close>, \<open>prod_impls.rs\<close>). The remote chain, the hex and hash crates and the decision of
  the queue are parameters.
\<close>

section \<open>Declared addresses\<close>

datatype chain_error = BadTarget string string | BadHex string | BadAddress nat

text \<open>An address after \<open>eth_call:\<close> or \<open>eth_send:\<close>; \<open>unhex\<close> stands for \<open>hex::decode\<close>.\<close>

definition parse_address :: "(string \<Rightarrow> bytes option) \<Rightarrow> string \<Rightarrow> string \<Rightarrow> chain_error + bytes" where
  "parse_address unhex entry rest =
     (let hex = (case strip_prefix ''0x'' rest of Some h \<Rightarrow> h | None \<Rightarrow> rest)
      in if length hex \<noteq> 40 then Inl (BadTarget entry hex)
         else case unhex hex of
                None \<Rightarrow> Inl (BadHex entry)
              | Some b \<Rightarrow> if length b \<noteq> 20 then Inl (BadAddress (length b)) else Inr b)"

text \<open>The read list and the write list; other entries are skipped.\<close>

fun parse_chain_calls :: "(string \<Rightarrow> bytes option) \<Rightarrow> string list \<Rightarrow> chain_error + bytes list \<times> bytes list" where
  "parse_chain_calls unhex [] = Inr ([], [])"
| "parse_chain_calls unhex (e # es) =
     (case strip_prefix ''eth_call:'' e of
        Some r \<Rightarrow> bind_result (parse_address unhex e r) (\<lambda>a.
          bind_result (parse_chain_calls unhex es) (\<lambda>(rd, wr). Inr (a # rd, wr)))
      | None \<Rightarrow>
          (case strip_prefix ''eth_send:'' e of
             Some r \<Rightarrow> bind_result (parse_address unhex e r) (\<lambda>a.
               bind_result (parse_chain_calls unhex es) (\<lambda>(rd, wr). Inr (rd, a # wr)))
           | None \<Rightarrow> parse_chain_calls unhex es))"

section \<open>Capabilities\<close>

datatype capability_token =
    WasiCli | WasiClocks | WasiRandom | WasiSockets | WasiFilesystem | CitrateChainEthCall | CitrateChainEthSend

definition permitted_tokens :: "manifest \<Rightarrow> capsule_error + capability_token set" where
  "permitted_tokens m =
     (let cap = capability m; fs = CapsuleManifest.filesystem cap
      in bind_result (if fs = [] then Inr [] else parse_all fs) (\<lambda>_.
         Inr ({WasiCli, WasiClocks, WasiRandom} \<union>
              (if network cap \<noteq> NetNone then {WasiSockets} else {}) \<union>
              (if fs \<noteq> [] then {WasiFilesystem} else {}) \<union>
              (if list_ex (starts_with ''eth_call:'') (chain_calls cap) then {CitrateChainEthCall} else {}) \<union>
              (if list_ex (starts_with ''eth_send:'') (chain_calls cap) then {CitrateChainEthSend} else {}))))"

section \<open>The host context\<close>

record host_ctx =
  hc_call_allow :: "bytes list"
  hc_call_canned :: "bytes list"
  hc_call_history :: "(bytes \<times> bytes) list"
  hc_send_allow :: "bytes list"
  hc_send_canned :: "bytes list"
  hc_send_history :: "(bytes \<times> bytes) list"
  hc_capsule :: string
  hc_tier :: risk_tier
  hc_roles :: "role list"

definition with_write_path :: "bytes list \<Rightarrow> bytes list \<Rightarrow> string \<Rightarrow> risk_tier \<Rightarrow> role list \<Rightarrow> host_ctx" where
  "with_write_path rd wr name tier roles =
     \<lparr>hc_call_allow = rd, hc_call_canned = [], hc_call_history = [], hc_send_allow = wr, hc_send_canned = [],
      hc_send_history = [], hc_capsule = name, hc_tier = tier, hc_roles = roles\<rparr>"

text \<open>The context of an instantiated capsule.\<close>

definition context_of :: "(string \<Rightarrow> bytes option) \<Rightarrow> manifest \<Rightarrow> chain_error + host_ctx" where
  "context_of unhex m =
     bind_result (parse_chain_calls unhex (chain_calls (capability m))) (\<lambda>(rd, wr).
       Inr (with_write_path rd wr (cm_name (capsule m)) (risk_tier (risk m)) (required_roles (risk m))))"

subsection \<open>Its memory budget\<close>

definition CAPSULE_MEMORY_BYTES_TOTAL :: u64 where "CAPSULE_MEMORY_BYTES_TOTAL = 134217728"

definition CAPSULE_TABLE_ELEMENT_BYTES :: u64 where "CAPSULE_TABLE_ELEMENT_BYTES = 16"

record limiter =
  lm_total :: u64
  lm_max :: u64

definition capsule_default :: limiter where
  "capsule_default = \<lparr>lm_total = 0, lm_max = CAPSULE_MEMORY_BYTES_TOTAL\<rparr>"

definition charge :: "u64 \<Rightarrow> limiter \<Rightarrow> bool \<times> limiter" where
  "charge n l =
     (case checked_add (lm_total l) n of
        Some t \<Rightarrow> if t \<le> lm_max l then (True, l\<lparr>lm_total := t\<rparr>) else (False, l)
      | None \<Rightarrow> (False, l))"

definition sat_mul :: "u64 \<Rightarrow> u64 \<Rightarrow> u64" where
  "sat_mul a b = (if unat a * unat b < 2 ^ 64 then a * b else - 1)"

text \<open>\<open>inner\<close> is the answer of wasmtime's own limits.\<close>

definition memory_growing :: "bool \<Rightarrow> u64 \<Rightarrow> u64 \<Rightarrow> limiter \<Rightarrow> bool \<times> limiter" where
  "memory_growing inner current desired l = (if \<not> inner then (False, l) else charge (sat_sub desired current) l)"

definition table_growing :: "bool \<Rightarrow> u64 \<Rightarrow> u64 \<Rightarrow> limiter \<Rightarrow> bool \<times> limiter" where
  "table_growing inner current desired l =
     (if \<not> inner then (False, l) else charge (sat_mul (sat_sub desired current) CAPSULE_TABLE_ELEMENT_BYTES) l)"

section \<open>The approval gate\<close>

record approval_request =
  aq_capsule :: string
  aq_method :: string
  aq_to :: bytes
  aq_data :: bytes
  aq_tier :: risk_tier
  aq_roles :: "role list"

datatype gate_decision = GateApproved | GateRefused string | GateOutcomeUnknown string

text \<open>What the debug format prints for a tier and a role.\<close>

primrec tier_name :: "risk_tier \<Rightarrow> string" where
  "tier_name LowTier = ''Low''"
| "tier_name MediumTier = ''Medium''"
| "tier_name HighTier = ''High''"
| "tier_name CriticalTier = ''Critical''"

primrec role_name :: "role \<Rightarrow> string" where
  "role_name Operator = ''Operator''"
| "role_name Reviewer = ''Reviewer''"
| "role_name ComplianceOfficer = ''ComplianceOfficer''"
| "role_name SecurityOfficer = ''SecurityOfficer''"
| "role_name Auditor = ''Auditor''"

definition hex0x :: "bytes \<Rightarrow> string" where
  "hex0x b = ''0x'' @ hex_encode b"

definition gate_call_id :: "(bytes \<Rightarrow> bytes) \<Rightarrow> approval_request \<Rightarrow> string" where
  "gate_call_id keccak q =
     hex_encode (take 16 (keccak (ascii (aq_capsule q @ ''|'' @ aq_method q @ ''|'') @ aq_to q @ ascii ''|'' @ aq_data q)))"

definition gate_call :: "(bytes \<Rightarrow> bytes) \<Rightarrow> approval_request \<Rightarrow> tool_call" where
  "gate_call keccak q =
     \<lparr>call_id = gate_call_id keccak q, call_name = aq_capsule q @ ''::'' @ aq_method q,
      args = JObject
        [(''to'', JString (hex0x (aq_to q))), (''data_hex'', JString (hex0x (aq_data q))),
         (''data_len'', JNumber (dec (length (aq_data q)))), (''risk_tier'', JString (tier_name (aq_tier q))),
         (''required_roles'', JArray (map (JString \<circ> role_name) (aq_roles q)))]\<rparr>"

text \<open>The bytes the signers of an effect attest to.\<close>

definition signing_payload :: "approval_request \<Rightarrow> bytes" where
  "signing_payload q = ascii (aq_capsule q @ ''|'' @ aq_method q @ ''|'' @ hex0x (aq_to q) @ ''|'' @ hex0x (aq_data q))"

definition outcome_to_decision :: "approval_outcome_public \<Rightarrow> gate_decision" where
  "outcome_to_decision o' =
     (case o' of
        PApproved \<Rightarrow> GateApproved
      | PAutoApproved \<Rightarrow> GateApproved
      | PRejected \<Rightarrow> GateRefused ''rejected by operator''
      | PTimedOut \<Rightarrow> GateRefused ''approval timed out (5min)''
      | PSubmittedOutcomeUnknown \<Rightarrow>
          GateOutcomeUnknown ''submitted, outcome unknown, check recent transactions before retrying'')"

text \<open>What the queue answered to a submission on each of its tracks.\<close>

record queue_answers =
  qa_fifo :: "tool_call \<Rightarrow> resolution"
  qa_role :: "tool_call \<Rightarrow> bytes \<Rightarrow> quorum \<Rightarrow> signer \<Rightarrow> approval_outcome_public"

definition bound_proposer :: "crypto \<Rightarrow> bytes \<Rightarrow> signer" where
  "bound_proposer cr pk = \<lparr>signer_id = signer_id_from_pubkey cr pk, role = Operator\<rparr>"

definition queued_decide ::
  "(bytes \<Rightarrow> bytes) \<Rightarrow> signer option \<Rightarrow> queue_answers \<Rightarrow> approval_request \<Rightarrow> gate_decision" where
  "queued_decide keccak proposer qa q =
     (let call = gate_call keccak q; quorum = for_tier (aq_tier q) (aq_roles q)
      in if quorum = AutoApprove then
           (case qa_fifo qa call of
              Decided o' \<Rightarrow> outcome_to_decision o'
            | ResSubmittedOutcomeUnknown u \<Rightarrow> GateOutcomeUnknown (message u))
         else
           (case proposer of
              None \<Rightarrow> GateRefused (aq_method q @ '' effect from capsule '' @ [CHR 0x22] @ aq_capsule q @ [CHR 0x22] @ '' refused: tier '' @
                tier_name (aq_tier q) @ '' needs a role quorum and no invoking human is bound to this approval gate'')
            | Some p \<Rightarrow> outcome_to_decision (qa_role qa call (signing_payload q) quorum p)))"

section \<open>The host functions\<close>

text \<open>The chain and the gate as a call finds them; the number counts the requests before it.\<close>

record chain_env =
  cn_call :: "(nat \<Rightarrow> bytes \<Rightarrow> bytes \<Rightarrow> string + bytes) option"
  cn_send :: "(nat \<Rightarrow> bytes \<Rightarrow> bytes \<Rightarrow> string + bytes) option"
  cn_gate :: "(nat \<Rightarrow> approval_request \<Rightarrow> gate_decision) option"

datatype host_event = ReadChain bytes bytes | AskedGate approval_request gate_decision | SentTx bytes bytes

datatype host_call = EthCall bytes bytes | EthSend bytes bytes

definition eth_call :: "chain_env \<Rightarrow> host_ctx \<Rightarrow> bytes \<Rightarrow> bytes \<Rightarrow> (string + bytes) \<times> host_ctx \<times> host_event list" where
  "eth_call env c to data =
     (if length to \<noteq> 20 then (Inl (''ChainCallNotAuthorized: `to` must be 20 bytes, got '' @ dec (length to)), c, [])
      else if to \<notin> set (hc_call_allow c) then (Inl (''ChainCallNotAuthorized: '' @ hex0x to), c, [])
      else
        let i = length (hc_call_history c); c' = c\<lparr>hc_call_history := hc_call_history c @ [(to, data)]\<rparr>
        in case hc_call_canned c of
             x # xs \<Rightarrow> (Inr x, c'\<lparr>hc_call_canned := xs\<rparr>, [])
           | [] \<Rightarrow>
               (case cn_call env of
                  Some f \<Rightarrow> (f i to data, c', [ReadChain to data])
                | None \<Rightarrow> (Inl ''ChainCallFailed: no eth_call dispatcher configured'', c', [])))"

definition send_request :: "host_ctx \<Rightarrow> bytes \<Rightarrow> bytes \<Rightarrow> approval_request" where
  "send_request c to data =
     \<lparr>aq_capsule = hc_capsule c, aq_method = ''eth-send'', aq_to = to, aq_data = data, aq_tier = hc_tier c,
      aq_roles = hc_roles c\<rparr>"

text \<open>An approved request: the canned hash of a test, or one transaction.\<close>

definition dispatch_send :: "chain_env \<Rightarrow> host_ctx \<Rightarrow> nat \<Rightarrow> bytes \<Rightarrow> bytes \<Rightarrow> (string + bytes) \<times> host_ctx \<times> host_event list" where
  "dispatch_send env c i to data =
     (case hc_send_canned c of
        x # xs \<Rightarrow> (Inr x, c\<lparr>hc_send_canned := xs\<rparr>, [])
      | [] \<Rightarrow>
          (case cn_send env of
             None \<Rightarrow> (Inl ''ChainSendDispatchFailed: no eth_send dispatcher configured'', c, [])
           | Some f \<Rightarrow>
               ((case f i to data of Inr h \<Rightarrow> Inr h | Inl e \<Rightarrow> Inl (''ChainSendDispatchFailed: '' @ e)), c, [SentTx to data])))"

definition eth_send :: "chain_env \<Rightarrow> host_ctx \<Rightarrow> bytes \<Rightarrow> bytes \<Rightarrow> (string + bytes) \<times> host_ctx \<times> host_event list" where
  "eth_send env c to data =
     (if length to \<noteq> 20 then (Inl (''ChainSendNotAuthorized: `to` must be 20 bytes, got '' @ dec (length to)), c, [])
      else if to \<notin> set (hc_send_allow c) then (Inl (''ChainSendNotAuthorized: '' @ hex0x to), c, [])
      else
        let i = length (hc_send_history c); c' = c\<lparr>hc_send_history := hc_send_history c @ [(to, data)]\<rparr>
        in case cn_gate env of
             None \<Rightarrow> (Inl ''ChainSendApprovalRejected: no approval gate configured'', c', [])
           | Some gate \<Rightarrow>
               (let q = send_request c' to data; d = gate i q
                in case d of
                     GateRefused why \<Rightarrow> (Inl (''ChainSendApprovalRejected: '' @ why), c', [AskedGate q d])
                   | GateOutcomeUnknown msg \<Rightarrow> (Inl (''ChainSendOutcomeUnknown: '' @ msg), c', [AskedGate q d])
                   | GateApproved \<Rightarrow>
                       (case dispatch_send env c' i to data of (r, c'', ev) \<Rightarrow> (r, c'', AskedGate q d # ev))))"

section \<open>A run\<close>

text \<open>
  A capsule's code, given the answers so far, makes its next chain call or returns. The functions it
  imports are the only ones it can call; the epoch deadline bounds the run by \<open>fuel\<close> calls.
\<close>

type_synonym guest = "(string + bytes) list \<Rightarrow> host_call option"

fun token_of :: "host_call \<Rightarrow> capability_token" where
  "token_of (EthCall _ _) = CitrateChainEthCall"
| "token_of (EthSend _ _) = CitrateChainEthSend"

fun host_step :: "chain_env \<Rightarrow> host_ctx \<Rightarrow> host_call \<Rightarrow> (string + bytes) \<times> host_ctx \<times> host_event list" where
  "host_step env c (EthCall to data) = eth_call env c to data"
| "host_step env c (EthSend to data) = eth_send env c to data"

fun run_guest ::
  "nat \<Rightarrow> chain_env \<Rightarrow> capability_token set \<Rightarrow> guest \<Rightarrow> (string + bytes) list \<Rightarrow> host_ctx \<Rightarrow> host_ctx \<times> host_event list" where
  "run_guest 0 env linked g answers c = (c, [])"
| "run_guest (Suc n) env linked g answers c =
     (case g answers of
        None \<Rightarrow> (c, [])
      | Some hc \<Rightarrow>
          if token_of hc \<notin> linked then (c, [])
          else (case host_step env c hc of
                  (r, c', ev) \<Rightarrow> (case run_guest n env linked g (answers @ [r]) c' of (c'', evs) \<Rightarrow> (c'', ev @ evs))))"

section \<open>The transaction sender\<close>

definition DEFAULT_GAS_LIMIT :: u64 where "DEFAULT_GAS_LIMIT = 600000"

text \<open>The hash \<open>send_tx\<close> printed, read back.\<close>

definition recorder_send ::
  "(string \<Rightarrow> bytes option) \<Rightarrow> (string \<Rightarrow> bytes \<Rightarrow> u64 \<Rightarrow> string + string) \<Rightarrow> u64 \<Rightarrow> bytes \<Rightarrow> bytes \<Rightarrow> string + bytes" where
  "recorder_send unhex send_tx gas to data =
     bind_result (send_tx (hex0x to) data gas) (\<lambda>tx.
       let stripped = (case strip_prefix ''0x'' tx of Some h \<Rightarrow> h | None \<Rightarrow> tx)
       in if length stripped \<noteq> 64
          then Inl (''send_tx returned malformed tx hash ('' @ dec (length stripped) @ '' chars): '' @ tx)
          else ok_or ''send_tx tx hash hex decode'' (unhex stripped))"

end
