(* ===== verification/CapsuleSandbox.thy ===== *)
theory CapsuleSandbox
  imports CapsuleLoad FolderGrants
begin

text \<open>
  The sandbox of one capsule call (\<open>agent/core/src/capsule/sandbox.rs\<close>): which of the member's folders
  are opened to it, checked against the live folder grants and scanned entry by entry, and which
  addresses it may reach. What a folder holds is given by the listing of the disk.
\<close>

section \<open>Plans\<close>

definition MAX_MOUNT_SCAN_ENTRIES :: nat where "MAX_MOUNT_SCAN_ENTRIES = 10000"

datatype mount_perms = ReadOnly | ReadWrite

record preopen =
  po_host :: path
  po_guest :: string
  po_perms :: mount_perms
  po_grants :: "string list"

datatype network_plan = DenyAll | AllowOnly "socket_addr list"

text \<open>A member's folder for a declared mount point.\<close>

record fs_mount =
  fm_guest :: string
  fm_host :: string

record sandbox_plan =
  sp_preopens :: "preopen list"
  sp_network :: network_plan

datatype mount_refusal =
    NotDeclared | AlreadyMounted | NotGranted op denial_reason | GrantVanished string | NotAFolderGrant
  | NotWholeFolder | ResolvedDifferently | NothingChecked | NotAFolder
  | CannotList path | TooManyEntries nat | CannotStat path | OffLimits path denial_reason | HardLink path

datatype plan_error = PlanCapsule capsule_error | CannotMount string string mount_refusal | GrantsUnavailable

definition deny_all :: sandbox_plan where
  "deny_all = \<lparr>sp_preopens = [], sp_network = DenyAll\<rparr>"

section \<open>The network\<close>

definition network_plan :: "manifest \<Rightarrow> socket_addr list \<Rightarrow> capsule_error + network_plan" where
  "network_plan m consent =
     (if network (capability m) \<noteq> EgressAllowed then Inr DenyAll
      else bind_result (parse_network_allow (network_allow (capability m))) (\<lambda>ceiling.
        let allowed = filter (\<lambda>a. a \<in> set consent) ceiling
        in Inr (if allowed = [] then DenyAll else AllowOnly allowed)))"

datatype socket_use = TcpConnect | UdpSend | UdpReceive | TcpBind | UdpBind | OtherUse

definition socket_permitted :: "socket_addr list \<Rightarrow> socket_addr \<Rightarrow> socket_use \<Rightarrow> bool" where
  "socket_permitted allow a u =
     (if u = TcpConnect \<or> u = UdpSend \<or> u = UdpReceive then a \<in> set allow
      else if u = TcpBind \<or> u = UdpBind then ip_unspecified (sa_ip a) \<and> sa_port a = 0
      else False)"

definition permits_socket :: "sandbox_plan \<Rightarrow> socket_addr \<Rightarrow> socket_use \<Rightarrow> bool" where
  "permits_socket p a u = (case sp_network p of DenyAll \<Rightarrow> False | AllowOnly l \<Rightarrow> socket_permitted l a u)"

section \<open>The scan of a folder\<close>

datatype entry_type = DirEntry | FileEntry | LinkEntry | OtherEntry

text \<open>An entry as the listing gives it; \<open>None\<close> where the entry, its type or its link count cannot be read.\<close>

record scan_entry =
  se_path :: path
  se_type :: "entry_type option"
  se_links :: "nat option"

type_synonym listing = "path \<Rightarrow> scan_entry option list option"

type_synonym checker = "string \<Rightarrow> op \<Rightarrow> decision"

fun check_entry :: "checker \<Rightarrow> path \<Rightarrow> bool \<Rightarrow> op list \<Rightarrow> mount_refusal + unit" where
  "check_entry chk p is_link [] = Inr ()"
| "check_entry chk p is_link (o' # os) =
     (case chk (render_names p) o' of
        Allowed _ _ \<Rightarrow> check_entry chk p is_link os
      | Denied r \<Rightarrow>
          if is_link \<and> (case r of DenyList _ \<Rightarrow> False | _ \<Rightarrow> True) then check_entry chk p is_link os
          else Inl (OffLimits p r))"

definition refuse_hard_link :: "scan_entry \<Rightarrow> mount_refusal + unit" where
  "refuse_hard_link e =
     (case se_links e of
        None \<Rightarrow> Inl (CannotStat (se_path e))
      | Some n \<Rightarrow> if 1 < n then Inl (HardLink (se_path e)) else Inr ())"

fun scan_entries ::
  "checker \<Rightarrow> op list \<Rightarrow> nat \<Rightarrow> path \<Rightarrow> scan_entry option list \<Rightarrow> nat \<Rightarrow> path list \<Rightarrow> mount_refusal + nat \<times> path list" where
  "scan_entries chk os cap dir [] seen stack = Inr (seen, stack)"
| "scan_entries chk os cap dir (None # es) seen stack = Inl (CannotList dir)"
| "scan_entries chk os cap dir (Some e # es) seen stack =
     (if cap < Suc seen then Inl (TooManyEntries cap)
      else case se_type e of
             None \<Rightarrow> Inl (CannotStat (se_path e))
           | Some t \<Rightarrow>
               bind_result (check_entry chk (se_path e) (t = LinkEntry) os) (\<lambda>_.
               if t = DirEntry then scan_entries chk os cap dir es (Suc seen) (se_path e # stack)
               else bind_result (if t = FileEntry then refuse_hard_link e else Inr ()) (\<lambda>_.
                 scan_entries chk os cap dir es (Suc seen) stack)))"

lemma scan_entries_bound:
  "scan_entries chk os cap dir es seen stack = Inr (seen', stack') \<Longrightarrow>
   seen \<le> seen' \<and> length stack' + seen \<le> length stack + seen' \<and> (seen \<le> cap \<longrightarrow> seen' \<le> cap)"
proof (induction es arbitrary: seen stack)
  case (Cons x es)
  show ?case
  proof (cases x)
    case None
    then show ?thesis using Cons.prems by simp
  next
    case (Some e)
    then obtain st where st: "scan_entries chk os cap dir es (Suc seen) st = Inr (seen', stack')" "length st \<le> Suc (length stack)"
      and le: "\<not> cap < Suc seen"
      using Cons.prems by (fastforce simp: result_iff split: if_splits option.splits)
    show ?thesis using Cons.IH [OF st(1)] st(2) le by auto
  qed
qed simp

text \<open>
  The folders still to list; the last one pushed comes first. A listed folder leaves the stack, and
  each entry that enters it has been counted, so the scan ends.
\<close>

function scan_from :: "listing \<Rightarrow> checker \<Rightarrow> op list \<Rightarrow> nat \<Rightarrow> nat \<Rightarrow> path list \<Rightarrow> mount_refusal + unit" where
  "scan_from ls chk os cap seen [] = Inr ()"
| "scan_from ls chk os cap seen (dir # stack) =
     (case ls dir of
        None \<Rightarrow> Inl (CannotList dir)
      | Some es \<Rightarrow>
          (case scan_entries chk os cap dir es seen stack of
             Inl e \<Rightarrow> Inl e
           | Inr (seen', stack') \<Rightarrow> scan_from ls chk os cap seen' stack'))"
  by pat_completeness auto
termination
proof (relation "measure (\<lambda>(ls, chk, os, cap, seen, stack). 2 * (cap - seen) + length stack)", goal_cases)
  case (2 ls chk os cap seen dir stack es p seen' stack')
  note b = scan_entries_bound [OF 2(2) [unfolded 2(3) [symmetric]]]
  show ?case
  proof (cases "seen \<le> cap")
    case True
    have "2 * (cap - seen') + length stack' < Suc (2 * (cap - seen) + length stack)" using b True by arith
    then show ?thesis by simp
  next
    case False
    have "es = [] \<or> scan_entries chk os cap dir es seen stack \<noteq> Inr (seen', stack')"
      using False by (cases es; cases "hd es") auto
    then show ?thesis using 2(2) 2(3) by auto
  qed
qed simp

definition scan_mount :: "listing \<Rightarrow> checker \<Rightarrow> op list \<Rightarrow> nat \<Rightarrow> path \<Rightarrow> mount_refusal + unit" where
  "scan_mount ls chk os cap r = scan_from ls chk os cap 0 [r]"

section \<open>Mounts\<close>

text \<open>The member's grants, the disk and the time of a call.\<close>

record grant_view_now =
  gn_norm :: "string \<Rightarrow> string"
  gn_disk :: disk
  gn_grants :: folder_grants
  gn_now :: u64
  gn_listing :: listing

definition grants_check :: "grant_view_now \<Rightarrow> checker" where
  "grants_check v p o' = check_op (gn_norm v) (gn_disk v) (gn_grants v) (Some p) o' (gn_now v)"

definition ops_for :: "fs_access \<Rightarrow> op list \<times> mount_perms" where
  "ops_for a = (case a of FsRead \<Rightarrow> ([OpRead], ReadOnly) | _ \<Rightarrow> ([OpRead, OpWrite], ReadWrite))"

text \<open>One operation after another: the same folder, each time with a whole-folder grant.\<close>

fun check_ops ::
  "grant_view_now \<Rightarrow> string \<Rightarrow> op list \<Rightarrow> path option \<Rightarrow> string list \<Rightarrow> mount_refusal + path option \<times> string list" where
  "check_ops v p [] host ids = Inr (host, ids)"
| "check_ops v p (o' # os) host ids =
     (case grants_check v p o' of
        Denied r \<Rightarrow> Inl (NotGranted o' r)
      | Allowed c gid \<Rightarrow>
          (case find (\<lambda>g. grant_id g = gid) (grants (state (gn_grants v))) of
             None \<Rightarrow> Inl (GrantVanished gid)
           | Some g \<Rightarrow>
               if kind g \<noteq> Folder then Inl NotAFolderGrant
               else if scope g \<noteq> Subtree then Inl NotWholeFolder
               else case host of
                      None \<Rightarrow> check_ops v p os (Some c) (ids @ [gid])
                    | Some h \<Rightarrow> if h = c then check_ops v p os host (ids @ [gid]) else Inl ResolvedDifferently))"

definition resolve_mount ::
  "grant_view_now \<Rightarrow> nat \<Rightarrow> fs_entry list \<Rightarrow> preopen list \<Rightarrow> fs_mount \<Rightarrow> mount_refusal + preopen" where
  "resolve_mount v cap declared opened m =
     bind_result (ok_or NotDeclared (find (\<lambda>e. fe_path e = components (fm_guest m)) declared)) (\<lambda>e.
     if list_ex (\<lambda>p. po_guest p = fm_guest m) opened then Inl AlreadyMounted
     else
       let (os, perms) = ops_for (fe_access e)
       in bind_result (check_ops v (fm_host m) os None []) (\<lambda>(host, ids).
          bind_result (ok_or NothingChecked host) (\<lambda>h.
          if \<not> is_dir (gn_disk v) h then Inl NotAFolder
          else bind_result (scan_mount (gn_listing v) (grants_check v) os cap h) (\<lambda>_.
            Inr \<lparr>po_host = h, po_guest = fm_guest m, po_perms = perms, po_grants = ids\<rparr>))))"

fun resolve_mounts ::
  "grant_view_now \<Rightarrow> nat \<Rightarrow> fs_entry list \<Rightarrow> preopen list \<Rightarrow> fs_mount list \<Rightarrow> plan_error + preopen list" where
  "resolve_mounts v cap declared opened [] = Inr opened"
| "resolve_mounts v cap declared opened (m # ms) =
     (case resolve_mount v cap declared opened m of
        Inl e \<Rightarrow> Inl (CannotMount (fm_host m) (fm_guest m) e)
      | Inr p \<Rightarrow> resolve_mounts v cap declared (opened @ [p]) ms)"

definition as_plan :: "capsule_error + 'a \<Rightarrow> plan_error + 'a" where
  "as_plan r = (case r of Inl e \<Rightarrow> Inl (PlanCapsule e) | Inr x \<Rightarrow> Inr x)"

definition resolve_with_cap ::
  "manifest \<Rightarrow> fs_mount list \<Rightarrow> grant_view_now \<Rightarrow> nat \<Rightarrow> socket_addr list \<Rightarrow> plan_error + sandbox_plan" where
  "resolve_with_cap m mounts v cap consent =
     bind_result (as_plan (parse_all (CapsuleManifest.filesystem (capability m)))) (\<lambda>declared.
     bind_result (resolve_mounts v cap declared [] mounts) (\<lambda>opened.
     bind_result (as_plan (network_plan m consent)) (\<lambda>net.
       Inr \<lparr>sp_preopens = opened, sp_network = net\<rparr>)))"

definition resolve_with_egress ::
  "manifest \<Rightarrow> fs_mount list \<Rightarrow> grant_view_now \<Rightarrow> socket_addr list \<Rightarrow> plan_error + sandbox_plan" where
  "resolve_with_egress m mounts v consent = resolve_with_cap m mounts v MAX_MOUNT_SCAN_ENTRIES consent"

definition egress_only :: "manifest \<Rightarrow> socket_addr list \<Rightarrow> plan_error + sandbox_plan" where
  "egress_only m consent =
     bind_result (as_plan (network_plan m consent)) (\<lambda>net. Inr \<lparr>sp_preopens = [], sp_network = net\<rparr>)"

definition without_grants :: "manifest \<Rightarrow> plan_error + sandbox_plan" where
  "without_grants m = egress_only m []"

section \<open>The provider of a session\<close>

record grants_sandbox =
  gs_mounts :: "(string \<times> fs_mount list) list"
  gs_egress :: "(string \<times> socket_addr list) list"

definition no_bindings :: grants_sandbox where
  "no_bindings = \<lparr>gs_mounts = [], gs_egress = []\<rparr>"

definition bind_mount :: "string \<Rightarrow> fs_mount \<Rightarrow> grants_sandbox \<Rightarrow> grants_sandbox" where
  "bind_mount n m s =
     s\<lparr>gs_mounts := AList.update n ((case map_of (gs_mounts s) n of Some l \<Rightarrow> l | None \<Rightarrow> []) @ [m]) (gs_mounts s)\<rparr>"

definition consent_egress :: "string \<Rightarrow> socket_addr list \<Rightarrow> grants_sandbox \<Rightarrow> grants_sandbox" where
  "consent_egress n l s =
     s\<lparr>gs_egress := AList.update n ((case map_of (gs_egress s) n of Some l' \<Rightarrow> l' | None \<Rightarrow> []) @ l) (gs_egress s)\<rparr>"

text \<open>\<open>None\<close> stands for a poisoned lock of the grants.\<close>

definition plan_at :: "grants_sandbox \<Rightarrow> grant_view_now option \<Rightarrow> manifest \<Rightarrow> plan_error + sandbox_plan" where
  "plan_at s v m =
     (case v of
        None \<Rightarrow> Inl GrantsUnavailable
      | Some v \<Rightarrow>
          resolve_with_egress m
            (case map_of (gs_mounts s) (cm_name (capsule m)) of Some l \<Rightarrow> l | None \<Rightarrow> []) v
            (case map_of (gs_egress s) (cm_name (capsule m)) of Some l \<Rightarrow> l | None \<Rightarrow> []))"

end
