(* ===== verification/CapsuleFleet.thy ===== *)
theory CapsuleFleet
  imports CapsuleHost CapsuleSandbox
begin

text \<open>
  The fleet of capsules (\<open>agent/core/src/capsule/dispatch.rs\<close>): loading a folder of capsules, which of
  them may run, and one call of a capsule. The compiler of a component is a parameter: it gives the
  functions the component imports and its behaviour as a guest.
\<close>

section \<open>Loading a folder\<close>

datatype disk_file = Unreadable | Contents bytes

text \<open>A subfolder, with the files the loader looks for; \<open>cd_cps\<close> is the archive named after the folder.\<close>

record capsule_dir =
  cd_name :: string
  cd_is_dir :: bool
  cd_cps :: "disk_file option"
  cd_manifest :: "disk_file option"
  cd_wasm :: "disk_file option"

datatype fleet_refusal = LoadVerification "capsule_error option" | AllowlistRefused refusal | ManifestRefused capsule_error

datatype fleet_error =
    CannotListFleet | CannotReadEntry | CannotReadManifest | CannotReadWasm
  | NotLoaded string "fleet_refusal option" | UnverifiedCapsule string
  | NoPlan plan_error | NoLinker capsule_error | NoContext chain_error | NotAComponent | NotLinked "capability_token set"

record fleet =
  fl_capsules :: "string \<rightharpoonup> loaded_capsule"
  fl_unverified :: "string set"
  fl_refused :: "string \<rightharpoonup> fleet_refusal"
  fl_sandbox :: "(manifest \<Rightarrow> plan_error + sandbox_plan) option"

definition empty_fleet :: fleet where
  "empty_fleet = \<lparr>fl_capsules = (\<lambda>_. None), fl_unverified = {}, fl_refused = (\<lambda>_. None), fl_sandbox = None\<rparr>"

text \<open>What loading takes from outside the crate, with the allowlist of the fleet.\<close>

record loader =
  ld_crypto :: crypto
  ld_toml :: "string \<Rightarrow> manifest option"
  ld_untar :: "nat \<Rightarrow> bytes \<Rightarrow> (string \<times> bytes) list option"
  ld_allow :: "allow_entry list"

definition refuse_capsule :: "string \<Rightarrow> fleet_refusal \<Rightarrow> fleet \<Rightarrow> fleet" where
  "refuse_capsule n why fl = fl\<lparr>fl_refused := (fl_refused fl)(n \<mapsto> why)\<rparr>"

definition add_capsule :: "loaded_capsule \<Rightarrow> fleet \<Rightarrow> fleet" where
  "add_capsule c fl = fl\<lparr>fl_capsules := (fl_capsules fl)(cm_name (capsule (lc_manifest c)) \<mapsto> c)\<rparr>"

text \<open>A signed archive runs only verified and allowlisted; otherwise it is refused, never loaded loose.\<close>

definition load_cps :: "loader \<Rightarrow> string \<Rightarrow> disk_file \<Rightarrow> fleet \<Rightarrow> fleet" where
  "load_cps ld dir_name f fl =
     (case (case f of
              Unreadable \<Rightarrow> Inl None
            | Contents bs \<Rightarrow>
                (case from_archive_verified (ld_crypto ld) (ld_toml ld) (ld_untar ld) bundled_registry bs of
                   Inl e \<Rightarrow> Inl (Some e) | Inr c \<Rightarrow> Inr c)) of
        Inl why \<Rightarrow> refuse_capsule dir_name (LoadVerification why) fl
      | Inr c \<Rightarrow>
          (case check_allowed (ld_allow ld) (lc_manifest c) of
             Inl why \<Rightarrow> refuse_capsule (cm_name (capsule (lc_manifest c))) (AllowlistRefused why) fl
           | Inr _ \<Rightarrow> add_capsule c fl))"

text \<open>Loose files are loaded for listing only.\<close>

definition load_loose :: "loader \<Rightarrow> string \<Rightarrow> disk_file \<Rightarrow> disk_file \<Rightarrow> fleet \<Rightarrow> fleet_error + fleet" where
  "load_loose ld dir_name mf bf fl =
     bind_result (ok_or CannotReadManifest (case mf of Contents b \<Rightarrow> from_utf8 b | Unreadable \<Rightarrow> None)) (\<lambda>text.
     case parse_manifest (ld_toml ld) text of
       Inl e \<Rightarrow> Inr (refuse_capsule dir_name (ManifestRefused e) fl)
     | Inr m \<Rightarrow>
         bind_result (ok_or CannotReadWasm (case bf of Contents b \<Rightarrow> Some b | Unreadable \<Rightarrow> None)) (\<lambda>wasm.
           Inr (add_capsule \<lparr>lc_manifest = m, lc_archive = empty_archive\<lparr>ar_wasm := wasm\<rparr>\<rparr>
                  (fl\<lparr>fl_unverified := insert (cm_name (capsule m)) (fl_unverified fl)\<rparr>))))"

definition load_entry :: "loader \<Rightarrow> capsule_dir \<Rightarrow> fleet \<Rightarrow> fleet_error + fleet" where
  "load_entry ld d fl =
     (if \<not> cd_is_dir d then Inr fl
      else case cd_cps d of
             Some f \<Rightarrow> Inr (load_cps ld (cd_name d) f fl)
           | None \<Rightarrow>
               (case (cd_manifest d, cd_wasm d) of
                  (Some mf, Some bf) \<Rightarrow> load_loose ld (cd_name d) mf bf fl
                | _ \<Rightarrow> Inr fl))"

fun load_entries :: "loader \<Rightarrow> capsule_dir option list \<Rightarrow> fleet \<Rightarrow> fleet_error + fleet" where
  "load_entries ld [] fl = Inr fl"
| "load_entries ld (None # ds) fl = Inl CannotReadEntry"
| "load_entries ld (Some d # ds) fl = bind_result (load_entry ld d fl) (\<lambda>fl'. load_entries ld ds fl')"

definition load_from_dir :: "loader \<Rightarrow> capsule_dir option list option \<Rightarrow> fleet_error + fleet" where
  "load_from_dir ld ds =
     (case ds of None \<Rightarrow> Inl CannotListFleet | Some es \<Rightarrow> load_entries ld es empty_fleet)"

definition with_sandbox :: "(manifest \<Rightarrow> plan_error + sandbox_plan) \<Rightarrow> fleet \<Rightarrow> fleet" where
  "with_sandbox p fl = fl\<lparr>fl_sandbox := Some p\<rparr>"

section \<open>What may run\<close>

definition is_runnable :: "fleet \<Rightarrow> string \<Rightarrow> bool" where
  "is_runnable fl n \<longleftrightarrow> fl_capsules fl n \<noteq> None \<and> n \<notin> fl_unverified fl"

definition has_capsule :: "fleet \<Rightarrow> string \<Rightarrow> bool" where
  "has_capsule fl n \<longleftrightarrow> fl_capsules fl n \<noteq> None"

definition verified_capsule :: "fleet \<Rightarrow> string \<Rightarrow> fleet_error + loaded_capsule" where
  "verified_capsule fl n =
     (case fl_capsules fl n of
        None \<Rightarrow> Inl (NotLoaded n (fl_refused fl n))
      | Some c \<Rightarrow> if n \<in> fl_unverified fl then Inl (UnverifiedCapsule n) else Inr c)"

definition sandbox_plan_for ::
  "fleet \<Rightarrow> (manifest \<Rightarrow> plan_error + sandbox_plan) option \<Rightarrow> manifest \<Rightarrow> plan_error + sandbox_plan" where
  "sandbox_plan_for fl provider m =
     (case (case provider of Some p \<Rightarrow> Some p | None \<Rightarrow> fl_sandbox fl) of
        Some p \<Rightarrow> p m
      | None \<Rightarrow> without_grants m)"

section \<open>A call\<close>

definition map_error :: "('e \<Rightarrow> 'f) \<Rightarrow> 'e + 'a \<Rightarrow> 'f + 'a" where
  "map_error f r = (case r of Inl e \<Rightarrow> Inl (f e) | Inr x \<Rightarrow> Inr x)"

lemma map_error_simps [simp]: "map_error f (Inl e) = Inl (f e)" "map_error f (Inr x) = Inr x"
  by (simp_all add: map_error_def)

lemma map_error_Inr_iff [result_iff]: "map_error f r = Inr x \<longleftrightarrow> r = Inr x"
  by (cases r) (simp_all add: map_error_def)

text \<open>Everything before the first instruction of the capsule: its plan, its linker and its context.\<close>

definition start_call ::
  "(string \<Rightarrow> bytes option) \<Rightarrow> (bytes \<Rightarrow> (capability_token set \<times> guest) option) \<Rightarrow> fleet \<Rightarrow>
   (manifest \<Rightarrow> plan_error + sandbox_plan) option \<Rightarrow> string \<Rightarrow>
   fleet_error + sandbox_plan \<times> capability_token set \<times> guest \<times> host_ctx" where
  "start_call unhex compile fl provider n =
     bind_result (verified_capsule fl n) (\<lambda>c.
     bind_result (map_error NoPlan (sandbox_plan_for fl provider (lc_manifest c))) (\<lambda>plan.
     bind_result (map_error NoLinker (permitted_tokens (lc_manifest c))) (\<lambda>linked.
     bind_result (ok_or NotAComponent (compile (ar_wasm (lc_archive c)))) (\<lambda>(imports, g).
     bind_result (map_error NoContext (context_of unhex (lc_manifest c))) (\<lambda>ctx.
     if \<not> imports \<subseteq> linked then Inl (NotLinked (imports - linked))
     else Inr (plan, imports, g, ctx))))))"

definition call_raw ::
  "(string \<Rightarrow> bytes option) \<Rightarrow> (bytes \<Rightarrow> (capability_token set \<times> guest) option) \<Rightarrow> nat \<Rightarrow> chain_env \<Rightarrow> fleet \<Rightarrow>
   (manifest \<Rightarrow> plan_error + sandbox_plan) option \<Rightarrow> string \<Rightarrow>
   fleet_error + sandbox_plan \<times> host_ctx \<times> host_event list" where
  "call_raw unhex compile fuel env fl provider n =
     bind_result (start_call unhex compile fl provider n) (\<lambda>(plan, linked, g, ctx).
       Inr (plan, run_guest fuel env linked g [] ctx))"

end
