(* ===== verification/ContentHash.thy ===== *)
theory ContentHash
  imports CapsuleLoad
begin

text \<open>
  What the content hash leaves out of a manifest, said without the function that leaves it out: the first
  line that sets \<open>content_hash\<close>. Two manifests that are hashed as the same text have the same lines but for
  that one.
\<close>

section \<open>Lines that set the content hash\<close>

text \<open>White space, then the key, then an equals sign somewhere.\<close>

definition white :: "string \<Rightarrow> bool" where
  "white s \<longleftrightarrow> (\<exists>ws. s = concat ws \<and> set ws \<subseteq> set unicode_ws)"

definition sets_hash :: "string \<Rightarrow> string \<Rightarrow> bool" where
  "sets_hash indent l \<longleftrightarrow>
     white indent \<and> (\<exists>t. l = indent @ ''content_hash'' @ t \<and> CHR ''='' \<in> set t)"

text \<open>The same lines, or the same lines around the first line of each that sets the hash, equally indented.\<close>

definition same_but_hash :: "string list \<Rightarrow> string list \<Rightarrow> bool" where
  "same_but_hash ls ls' \<longleftrightarrow>
     ls = ls' \<or>
     (\<exists>pre l l' post indent. ls = pre @ l # post \<and> ls' = pre @ l' # post \<and>
        sets_hash indent l \<and> sets_hash indent l' \<and> (\<forall>x \<in> set pre. \<nexists>i. sets_hash i x))"

section \<open>The scan for them\<close>

lemma unicode_ws_apart: "\<forall>v \<in> set unicode_ws. \<forall>w \<in> set unicode_ws. starts_with v w \<longrightarrow> v = w"
  unfolding unicode_ws_def by code_simp

lemma starts_with_white:
  assumes "w \<in> set unicode_ws" "v \<in> set unicode_ws" "starts_with v (w @ s)"
  shows "v = w"
proof -
  have "prefix v (w @ s)" "prefix w (w @ s)" using assms(3) by (auto simp: starts_with_iff prefix_def)
  then have "prefix v w \<or> prefix w v" by (rule prefix_same_cases)
  then have "starts_with v w \<or> starts_with w v" by (auto simp: starts_with_iff prefix_def)
  then show ?thesis using unicode_ws_apart assms(1,2) by blast
qed

lemma strip_white:
  assumes "set ws \<subseteq> set unicode_ws" "t \<noteq> []" "is_graphic (hd t)"
  shows "strip_any unicode_ws (concat ws @ t) = t"
  using assms(1)
proof (induction ws)
  case Nil
  show ?case
  proof (simp, rule strip_any_id)
    fix w :: string
    assume "w \<in> set unicode_ws"
    then have "w \<noteq> []" "\<not> is_graphic (hd w)" using unicode_ws_heads by blast+
    then show "\<not> starts_with w t" using assms(2,3) by (auto simp: starts_with_iff)
  qed
next
  case (Cons w ws)
  let ?s = "w @ concat ws @ t" and ?P = "\<lambda>v. v \<noteq> [] \<and> starts_with v (w @ concat ws @ t)"
  have w: "w \<in> set unicode_ws" "w \<noteq> []" using Cons.prems unicode_ws_heads by auto
  have "find ?P unicode_ws = Some w"
  proof (cases "find ?P unicode_ws")
    case None
    then have "\<not> ?P w" using w(1) unfolding find_None_iff by blast
    moreover have "?P w" using w(2) by (simp add: starts_with_iff)
    ultimately show ?thesis by blast
  next
    case (Some v)
    then have "v \<in> set unicode_ws" "starts_with v ?s" by (auto simp: find_Some_iff)
    from starts_with_white [OF w(1) this] show ?thesis using Some by simp
  qed
  then have "strip_any unicode_ws ?s = strip_any unicode_ws (concat ws @ t)" by (subst strip_any.simps) simp
  then show ?case using Cons by simp
qed

lemma strip_white_split: "\<exists>ws. set ws \<subseteq> set unicode_ws \<and> s = concat ws @ strip_any unicode_ws s"
proof (induction "length s" arbitrary: s rule: less_induct)
  case less
  show ?case
  proof (cases "find (\<lambda>w. w \<noteq> [] \<and> starts_with w s) unicode_ws")
    case None
    then have "strip_any unicode_ws s = s" by (subst strip_any.simps) simp
    then show ?thesis by (intro exI [of _ "[]"]) simp
  next
    case (Some w)
    then have w: "w \<in> set unicode_ws" "w \<noteq> []" "starts_with w s" by (auto simp: find_Some_iff)
    then obtain r where r: "s = w @ r" by (auto simp: starts_with_iff)
    then have e: "strip_any unicode_ws s = strip_any unicode_ws r" using Some by (subst strip_any.simps) simp
    obtain ws where "set ws \<subseteq> set unicode_ws" "r = concat ws @ strip_any unicode_ws r"
      using less.hyps [of r] r w(2) by auto
    then show ?thesis using w(1) r e by (intro exI [of _ "w # ws"]) simp
  qed
qed

lemma strip_hash:
  assumes "white i" shows "strip_any unicode_ws (i @ ''content_hash'' @ t) = ''content_hash'' @ t"
proof -
  obtain ws where "i = concat ws" "set ws \<subseteq> set unicode_ws" using assms by (auto simp: white_def)
  then show ?thesis using strip_white [of ws "''content_hash'' @ t"] by (simp add: is_graphic_def)
qed

lemma is_hash_line_iff: "is_hash_line l \<longleftrightarrow> (\<exists>i. sets_hash i l)"
proof
  assume h: "is_hash_line l"
  obtain ws where ws: "set ws \<subseteq> set unicode_ws" "l = concat ws @ strip_any unicode_ws l"
    using strip_white_split by blast
  obtain t where t: "strip_any unicode_ws l = ''content_hash'' @ t"
    using h by (auto simp: is_hash_line_def Let_def starts_with_iff)
  then have "CHR ''='' \<in> set t" using h by (simp add: is_hash_line_def Let_def)
  with ws t have "sets_hash (concat ws) l" by (auto simp: sets_hash_def white_def)
  then show "\<exists>i. sets_hash i l" by blast
next
  assume "\<exists>i. sets_hash i l"
  then obtain i t where "white i" "l = i @ ''content_hash'' @ t" "CHR ''='' \<in> set t" by (auto simp: sets_hash_def)
  then show "is_hash_line l" using strip_hash [of i t] by (simp add: is_hash_line_def)
qed

text \<open>Blanking keeps the indentation, and the line still sets the hash.\<close>

lemma blanked_indent: "sets_hash i l \<Longrightarrow> blanked l = i @ ''content_hash = '' @ [CHR 0x22, CHR 0x22]"
  using strip_hash by (auto simp: sets_hash_def blanked_def)

lemma blanked_sets: "sets_hash i l \<Longrightarrow> sets_hash i (blanked l)"
  by (simp add: blanked_indent) (simp add: sets_hash_def)

lemma blank_first_none: "\<forall>x \<in> set ls. \<not> is_hash_line x \<Longrightarrow> blank_first ls = ls"
  by (induction ls) auto

lemma blank_first_at:
  "\<forall>x \<in> set pre. \<not> is_hash_line x \<Longrightarrow> is_hash_line l \<Longrightarrow> blank_first (pre @ l # post) = pre @ blanked l # post"
  by (induction pre) auto

lemma first_split:
  assumes "pre @ l # post = pre' @ l' # post'" "\<forall>x \<in> set pre. \<not> P x" "P l" "\<forall>x \<in> set pre'. \<not> P x" "P l'"
  shows "pre = pre' \<and> l = l' \<and> post = post'"
  using assms
proof (induction pre arbitrary: pre')
  case Nil
  then show ?case by (cases pre') auto
next
  case (Cons x pre)
  then show ?case by (cases pre') auto
qed

lemma same_blanked:
  assumes "blank_first ls = blank_first ls'"
  shows "same_but_hash ls ls'"
proof -
  have first: "(\<forall>x \<in> set ks. \<not> is_hash_line x) \<or>
      (\<exists>pre l post. ks = pre @ l # post \<and> is_hash_line l \<and> (\<forall>x \<in> set pre. \<not> is_hash_line x))" for ks
    using split_list_first_prop [of ks is_hash_line] by blast
  have blank: "is_hash_line (blanked l)" if "is_hash_line l" for l
    using that blanked_sets unfolding is_hash_line_iff by blast
  have no: "blank_first (pre @ l # post) \<noteq> ks"
    if "\<forall>x \<in> set ks. \<not> is_hash_line x" "is_hash_line l" "\<forall>x \<in> set pre. \<not> is_hash_line x" for pre l post ks
    using that blank [of l] by (auto simp: blank_first_at)
  show ?thesis
  proof (cases "\<forall>x \<in> set ls. \<not> is_hash_line x")
    case True
    then have e: "blank_first ls' = ls" using assms by (simp add: blank_first_none)
    then have "\<forall>x \<in> set ls'. \<not> is_hash_line x" using first [of ls'] no [OF True] by blast
    then show ?thesis using e by (simp add: blank_first_none same_but_hash_def)
  next
    case False
    then obtain pre l post where l: "ls = pre @ l # post" "is_hash_line l" "\<forall>x \<in> set pre. \<not> is_hash_line x"
      using first [of ls] by blast
    have "\<not> (\<forall>x \<in> set ls'. \<not> is_hash_line x)"
    proof
      assume n: "\<forall>x \<in> set ls'. \<not> is_hash_line x"
      then have "blank_first ls = ls'" using assms by (simp add: blank_first_none)
      with no [OF n l(2,3)] l(1) show False by blast
    qed
    then obtain pre' l' post' where l': "ls' = pre' @ l' # post'" "is_hash_line l'" "\<forall>x \<in> set pre'. \<not> is_hash_line x"
      using first [of ls'] by blast
    have "pre @ blanked l # post = pre' @ blanked l' # post'"
      using assms l l' by (simp add: blank_first_at)
    then have e: "pre = pre' \<and> blanked l = blanked l' \<and> post = post'"
      by (rule first_split [where P = is_hash_line]) (use l l' blank in auto)
    obtain i i' where i: "sets_hash i l" "sets_hash i' l'" using l(2) l'(2) unfolding is_hash_line_iff by blast
    have "i = i'" using e blanked_indent [OF i(1)] blanked_indent [OF i(2)] by simp
    moreover have "\<forall>x \<in> set pre. \<nexists>i. sets_hash i x" using l(3) unfolding is_hash_line_iff by blast
    ultimately show ?thesis unfolding same_but_hash_def using l(1) l'(1) i e by blast
  qed
qed

section \<open>The text that is hashed\<close>

lemma join_lines_inject:
  "\<forall>x \<in> set xs. CHR 10 \<notin> set x \<Longrightarrow> \<forall>y \<in> set ys. CHR 10 \<notin> set y \<Longrightarrow>
     concat (map (\<lambda>l. l @ [CHR 10]) xs) = concat (map (\<lambda>l. l @ [CHR 10]) ys) \<Longrightarrow> xs = ys"
proof (induction xs arbitrary: ys)
  case Nil
  then show ?case by (cases ys) auto
next
  case (Cons x xs)
  then obtain y zs where ys: "ys = y # zs" by (cases ys) auto
  have "x @ CHR 10 # concat (map (\<lambda>l. l @ [CHR 10]) xs) = y @ CHR 10 # concat (map (\<lambda>l. l @ [CHR 10]) zs)"
    using Cons.prems(3) unfolding ys list.map concat.simps append_assoc append_Cons append_Nil .
  moreover have "\<forall>c \<in> set x. \<not> c = CHR 10" "\<forall>c \<in> set y. \<not> c = CHR 10" using Cons.prems(1,2) ys by auto
  ultimately have "x = y \<and> CHR 10 = CHR 10 \<and> concat (map (\<lambda>l. l @ [CHR 10]) xs) = concat (map (\<lambda>l. l @ [CHR 10]) zs)"
    by (intro first_split [where P = "\<lambda>c. c = CHR 10"]) simp_all
  then have "x = y" "concat (map (\<lambda>l. l @ [CHR 10]) xs) = concat (map (\<lambda>l. l @ [CHR 10]) zs)" by blast+
  moreover have "xs = zs" by (rule Cons.IH [OF _ _ calculation(2)]) (use Cons.prems(1,2) ys in auto)
  ultimately show ?case using ys by simp
qed

text \<open>Two manifests hashed as one text.\<close>

lemma normalize_manifest_same:
  assumes "normalize_manifest m = normalize_manifest m'"
  shows "same_but_hash (lines_of (text_lossy m)) (lines_of (text_lossy m'))"
proof -
  have ok: "\<forall>x \<in> set (blank_first ls). CHR 10 \<notin> set x" if "\<forall>x \<in> set ls. CHR 10 \<notin> set x" for ls
    using that
  proof (induction ls)
    case (Cons l ls)
    have "set (blanked l) \<subseteq> set l \<union> set ''content_hash = '' \<union> {CHR 0x22}"
      by (auto simp: blanked_def dest: in_set_takeD)
    then show ?case using Cons by auto
  qed simp
  have "concat (map (\<lambda>l. l @ [CHR 10]) (blank_first (lines_of (text_lossy m)))) =
      concat (map (\<lambda>l. l @ [CHR 10]) (blank_first (lines_of (text_lossy m'))))"
    using assms unfolding normalize_manifest_def by (rule ascii_inject [THEN iffD1])
  then have "blank_first (lines_of (text_lossy m)) = blank_first (lines_of (text_lossy m'))"
    by (intro join_lines_inject ok) (auto dest: lines_no_feed)
  then show ?thesis by (rule same_blanked)
qed

end
