(* ===== verification/CapsuleProperties.thy ===== *)
theory CapsuleProperties
  imports CapsuleFleet ContentHash
begin

text \<open>
  What a capsule that runs has behind it: a verified, allowlisted archive, a content hash that binds its
  code, and for every transaction an approval of exactly that transaction.
\<close>

section \<open>Only verified capsules run\<close>

text \<open>The archive of a folder holds the capsule, signed and allowlisted.\<close>

definition signed_in :: "loader \<Rightarrow> capsule_dir \<Rightarrow> loaded_capsule \<Rightarrow> bool" where
  "signed_in ld d c \<longleftrightarrow>
     (\<exists>bs. cd_cps d = Some (Contents bs) \<and>
        from_archive_verified (ld_crypto ld) (ld_toml ld) (ld_untar ld) bundled_registry bs = Inr c) \<and>
     check_allowed (ld_allow ld) (lc_manifest c) = Inr ()"

definition fleet_ok :: "loader \<Rightarrow> capsule_dir set \<Rightarrow> fleet \<Rightarrow> bool" where
  "fleet_ok ld ds fl \<longleftrightarrow>
     (\<forall>n c. fl_capsules fl n = Some c \<longrightarrow> n \<notin> fl_unverified fl \<longrightarrow>
        n = cm_name (capsule (lc_manifest c)) \<and> (\<exists>d \<in> ds. signed_in ld d c))"

lemma fleet_ok_mono: "fleet_ok ld ds fl \<Longrightarrow> ds \<subseteq> ds' \<Longrightarrow> fleet_ok ld ds' fl"
  by (fastforce simp: fleet_ok_def)

lemma refuse_fleet_ok [simp]: "fleet_ok ld ds (refuse_capsule n why fl) = fleet_ok ld ds fl"
  by (simp add: fleet_ok_def refuse_capsule_def)

lemma load_cps_ok: "fleet_ok ld ds fl \<Longrightarrow> cd_cps d = Some f \<Longrightarrow> d \<in> ds \<Longrightarrow> fleet_ok ld ds (load_cps ld (cd_name d) f fl)"
  by (auto simp: load_cps_def fleet_ok_def add_capsule_def refuse_capsule_def signed_in_def
      split: disk_file.splits sum.splits if_splits)

lemma load_loose_Inr:
  assumes "load_loose ld n mf bf fl = Inr fl'"
  shows "(\<exists>e. fl' = refuse_capsule n (ManifestRefused e) fl) \<or>
    (\<exists>c. fl' = add_capsule c (fl\<lparr>fl_unverified := insert (cm_name (capsule (lc_manifest c))) (fl_unverified fl)\<rparr>))"
proof -
  obtain t where t: "(case parse_manifest (ld_toml ld) t of
       Inl e \<Rightarrow> Inr (refuse_capsule n (ManifestRefused e) fl)
     | Inr m \<Rightarrow>
         bind_result (ok_or CannotReadWasm (case bf of Contents b \<Rightarrow> Some b | Unreadable \<Rightarrow> None)) (\<lambda>wasm.
           Inr (add_capsule \<lparr>lc_manifest = m, lc_archive = empty_archive\<lparr>ar_wasm := wasm\<rparr>\<rparr>
                  (fl\<lparr>fl_unverified := insert (cm_name (capsule m)) (fl_unverified fl)\<rparr>)))) = Inr fl'"
    using assms by (auto simp: load_loose_def bind_result_Inr_iff)
  show ?thesis
  proof (cases "parse_manifest (ld_toml ld) t")
    case (Inr m)
    then obtain w where "fl' = add_capsule \<lparr>lc_manifest = m, lc_archive = empty_archive\<lparr>ar_wasm := w\<rparr>\<rparr>
        (fl\<lparr>fl_unverified := insert (cm_name (capsule m)) (fl_unverified fl)\<rparr>)"
      using t by (auto simp: bind_result_Inr_iff)
    then show ?thesis by (metis loaded_capsule.select_convs(1))
  qed (use t in auto)
qed

lemma load_loose_ok: "fleet_ok ld ds fl \<Longrightarrow> load_loose ld n mf bf fl = Inr fl' \<Longrightarrow> fleet_ok ld ds fl'"
  by (drule load_loose_Inr) (auto simp: fleet_ok_def add_capsule_def refuse_capsule_def split: if_splits)

lemma load_entry_ok:
  assumes "fleet_ok ld ds fl" "load_entry ld d fl = Inr fl'" "d \<in> ds"
  shows "fleet_ok ld ds fl'"
  using assms load_cps_ok [OF assms(1)] load_loose_ok [OF assms(1)]
  by (auto simp: load_entry_def split: if_splits option.splits)

lemma load_entries_ok:
  "fleet_ok ld ds fl \<Longrightarrow> load_entries ld es fl = Inr fl' \<Longrightarrow> {d. Some d \<in> set es} \<subseteq> ds \<Longrightarrow> fleet_ok ld ds fl'"
proof (induction ld es fl rule: load_entries.induct)
  case (3 ld d es fl)
  then obtain fl1 where "load_entry ld d fl = Inr fl1" "load_entries ld es fl1 = Inr fl'" by (auto simp: result_iff)
  moreover from this(1) have "fleet_ok ld ds fl1" using load_entry_ok [OF "3.prems"(1), of d fl1] "3.prems"(3) by auto
  ultimately show ?case using "3.IH" "3.prems"(3) by auto
qed auto

lemma loaded_ok: "load_from_dir ld (Some es) = Inr fl \<Longrightarrow> fleet_ok ld {d. Some d \<in> set es} fl"
  using load_entries_ok [of ld "{d. Some d \<in> set es}" empty_fleet es fl]
  by (simp add: load_from_dir_def fleet_ok_def empty_fleet_def)

lemma verified_signed:
  assumes "load_from_dir ld (Some es) = Inr fl" "verified_capsule fl n = Inr c"
  shows "n = cm_name (capsule (lc_manifest c)) \<and> (\<exists>d. Some d \<in> set es \<and> signed_in ld d c)"
  using loaded_ok [OF assms(1)] assms(2)
  by (auto simp: fleet_ok_def verified_capsule_def split: option.splits if_splits)

text \<open>What a verified archive is.\<close>

lemma from_archive_verified_Inr:
  assumes "from_archive_verified cr toml untar r bs = Inr c"
  obtains sig k where "map_of (ar_signatures (lc_archive c)) ''publisher.sig'' = Some sig"
    "publisher_key_for r (sd_tier (signing (lc_manifest c))) = Some k" "length sig = SIGNATURE_SIZE"
    "vk_verify cr k (sha256 cr (ascii (content_hash (capsule (lc_manifest c))))) sig"
    "content_hash (capsule (lc_manifest c)) = compute_content_hash cr (lc_archive c)"
    "validate (lc_manifest c) = Inr ()"
  using assms
  by (auto simp: from_archive_verified_def from_archive_def parse_manifest_def verify_signature_def Let_def result_iff
      split: option.splits if_splits)

lemma check_allowed_Inr:
  assumes "check_allowed es m = Inr ()"
  obtains e v f0 where "e \<in> set es" "ae_name e = cm_name (capsule m)" "content_hash (capsule m) \<in> set (ae_hashes e)"
    "parse_version (cm_version (capsule m)) = Some v" "parse_version (ae_min_version e) = Some f0"
    "\<not> version_below v f0"
proof -
  obtain e v f0 where e: "find (\<lambda>e. ae_name e = cm_name (capsule m)) es = Some e"
    and v: "parse_version (cm_version (capsule m)) = Some v" "parse_version (ae_min_version e) = Some f0"
      "\<not> version_below v f0" "content_hash (capsule m) \<in> set (ae_hashes e)"
    using assms by (auto simp add: check_allowed_def Let_def result_iff simp del: version_below.simps find_Some_iff split: if_splits)
  have "e \<in> set es" "ae_name e = cm_name (capsule m)" using e by (auto simp: find_Some_iff)
  then show thesis using that v by blast
qed

text \<open>
  A publisher's capsule: its manifest passes every check, its hash is the one of its archive, signed with
  the bundled key, and the allowlist has that very build of a version at or above its floor.
\<close>

definition published :: "loader \<Rightarrow> loaded_capsule \<Rightarrow> bool" where
  "published ld c \<longleftrightarrow>
     (let m = lc_manifest c; cr = ld_crypto ld; h = content_hash (capsule m)
      in validate m = Inr () \<and> h = compute_content_hash cr (lc_archive c) \<and> sd_tier (signing m) = Bundled \<and>
         (\<exists>sig. map_of (ar_signatures (lc_archive c)) ''publisher.sig'' = Some sig \<and>
            vk_verify cr BUNDLED_PUBLISHER_KEY (sha256 cr (ascii h)) sig) \<and>
         (\<exists>e v floor. e \<in> set (ld_allow ld) \<and> ae_name e = cm_name (capsule m) \<and> h \<in> set (ae_hashes e) \<and>
            parse_version (cm_version (capsule m)) = Some v \<and> parse_version (ae_min_version e) = Some floor \<and>
            \<not> version_below v floor))"

lemma bundled_only: "publisher_key_for bundled_registry t = Some k \<longleftrightarrow> t = Bundled \<and> k = BUNDLED_PUBLISHER_KEY"
  by (cases t) (auto simp: publisher_key_for_def bundled_registry_def)

lemma signed_published:
  assumes "signed_in ld d c"
  shows "published ld c"
proof -
  obtain bs where bs: "from_archive_verified (ld_crypto ld) (ld_toml ld) (ld_untar ld) bundled_registry bs = Inr c"
    and al: "check_allowed (ld_allow ld) (lc_manifest c) = Inr ()"
    using assms by (auto simp: signed_in_def)
  show ?thesis
  proof (rule from_archive_verified_Inr [OF bs], rule check_allowed_Inr [OF al])
    fix sig k e v f0
    assume "map_of (ar_signatures (lc_archive c)) ''publisher.sig'' = Some sig"
      "publisher_key_for bundled_registry (sd_tier (signing (lc_manifest c))) = Some k"
      "vk_verify (ld_crypto ld) k (sha256 (ld_crypto ld) (ascii (content_hash (capsule (lc_manifest c))))) sig"
      "content_hash (capsule (lc_manifest c)) = compute_content_hash (ld_crypto ld) (lc_archive c)"
      "validate (lc_manifest c) = Inr ()"
      "e \<in> set (ld_allow ld)" "ae_name e = cm_name (capsule (lc_manifest c))"
      "content_hash (capsule (lc_manifest c)) \<in> set (ae_hashes e)"
      "parse_version (cm_version (capsule (lc_manifest c))) = Some v" "parse_version (ae_min_version e) = Some f0"
      "\<not> version_below v f0"
    then show ?thesis unfolding published_def Let_def bundled_only by blast
  qed
qed

text \<open>What a call that starts has passed.\<close>

lemma start_call_Inr:
  assumes "start_call unhex compile fl provider n = Inr (plan, linked, g, ctx)"
  obtains c tokens where "verified_capsule fl n = Inr c" "sandbox_plan_for fl provider (lc_manifest c) = Inr plan"
    "permitted_tokens (lc_manifest c) = Inr tokens" "linked \<subseteq> tokens"
    "compile (ar_wasm (lc_archive c)) = Some (linked, g)" "context_of unhex (lc_manifest c) = Inr ctx"
  using assms by (auto simp: start_call_def result_iff split: if_splits)

lemma call_raw_Inr:
  "call_raw unhex compile fuel env fl provider n = Inr (plan, r) \<longleftrightarrow>
     (\<exists>linked g ctx. start_call unhex compile fl provider n = Inr (plan, linked, g, ctx) \<and> r = run_guest fuel env linked g [] ctx)"
  by (auto simp: call_raw_def bind_result_Inr_iff)

text \<open>
  C35: A call of a capsule runs only the code of a signed archive of the fleet folder that the
  publisher's key signed and the allowlist admits, whatever else lies in the folder.
\<close>

theorem only_published_capsules_run:
  assumes "load_from_dir ld (Some es) = Inr fl" "call_raw unhex compile fuel env fl provider n = Inr (plan, r)"
  shows "\<exists>d bs c imports g ctx. Some d \<in> set es \<and> cd_cps d = Some (Contents bs) \<and>
    from_archive_verified (ld_crypto ld) (ld_toml ld) (ld_untar ld) bundled_registry bs = Inr c \<and>
    n = cm_name (capsule (lc_manifest c)) \<and> published ld c \<and>
    compile (ar_wasm (lc_archive c)) = Some (imports, g) \<and> r = run_guest fuel env imports g [] ctx"
proof -
  obtain linked g ctx where st: "start_call unhex compile fl provider n = Inr (plan, linked, g, ctx)"
    and r: "r = run_guest fuel env linked g [] ctx"
    using assms(2) by (auto simp: call_raw_Inr)
  obtain c where v: "verified_capsule fl n = Inr c" and comp: "compile (ar_wasm (lc_archive c)) = Some (linked, g)"
    by (rule start_call_Inr [OF st])
  obtain d where d: "Some d \<in> set es" "signed_in ld d c" "n = cm_name (capsule (lc_manifest c))"
    using verified_signed [OF assms(1) v] by blast
  then show ?thesis using signed_published [OF d(2)] comp r unfolding signed_in_def by blast
qed

section \<open>Every transaction was approved\<close>

text \<open>Each sent transaction comes right after an approval that belongs to it.\<close>

definition approved_sends :: "(approval_request \<Rightarrow> bytes \<Rightarrow> bytes \<Rightarrow> bool) \<Rightarrow> host_event list \<Rightarrow> bool" where
  "approved_sends P evs \<longleftrightarrow>
     (\<forall>i < length evs. \<forall>to data. evs ! i = SentTx to data \<longrightarrow>
        0 < i \<and> (\<exists>q. evs ! (i - 1) = AskedGate q GateApproved \<and> P q to data))"

lemma approved_sends_simps [simp]:
  "approved_sends P []" "approved_sends P [ReadChain a b]" "approved_sends P [AskedGate q d]"
  "P q a b \<Longrightarrow> approved_sends P [AskedGate q GateApproved, SentTx a b]"
  by (auto simp: approved_sends_def nth_Cons split: nat.splits)

lemma approved_sends_append:
  assumes "approved_sends P as" "approved_sends P bs"
  shows "approved_sends P (as @ bs)"
  unfolding approved_sends_def
proof (intro allI impI)
  fix i to data
  assume i: "i < length (as @ bs)" "(as @ bs) ! i = SentTx to data"
  show "0 < i \<and> (\<exists>q. (as @ bs) ! (i - 1) = AskedGate q GateApproved \<and> P q to data)"
  proof (cases "i < length as")
    case True
    then have "0 < i \<and> (\<exists>q. as ! (i - 1) = AskedGate q GateApproved \<and> P q to data)"
      using i assms(1) by (auto simp: approved_sends_def nth_append)
    then show ?thesis using True by (auto simp: nth_append)
  next
    case False
    then have "i - length as < length bs" "bs ! (i - length as) = SentTx to data" using i by (auto simp: nth_append)
    then have j: "0 < i - length as \<and> (\<exists>q. bs ! (i - length as - 1) = AskedGate q GateApproved \<and> P q to data)"
      using assms(2) by (auto simp: approved_sends_def)
    then have "(as @ bs) ! (i - 1) = bs ! (i - length as - 1)" by (auto simp: nth_append)
    then show ?thesis using j by auto
  qed
qed

text \<open>The part of a context a run never changes.\<close>

definition fixed_part :: "host_ctx \<Rightarrow> bytes list \<times> string \<times> risk_tier \<times> role list" where
  "fixed_part c = (hc_send_allow c, hc_capsule c, hc_tier c, hc_roles c)"

definition good_send :: "chain_env \<Rightarrow> bytes list \<times> string \<times> risk_tier \<times> role list \<Rightarrow> approval_request \<Rightarrow> bytes \<Rightarrow> bytes \<Rightarrow> bool" where
  "good_send env f q to data \<longleftrightarrow>
     (case f of (allow, name, tier, roles) \<Rightarrow>
        to \<in> set allow \<and>
        q = \<lparr>aq_capsule = name, aq_method = ''eth-send'', aq_to = to, aq_data = data, aq_tier = tier, aq_roles = roles\<rparr> \<and>
        (\<exists>gate k. cn_gate env = Some gate \<and> gate k q = GateApproved))"

lemma eth_call_step:
  assumes "eth_call env c to data = (r, c', ev)"
  shows "fixed_part c' = fixed_part c \<and> approved_sends P ev"
  using assms by (auto simp: eth_call_def Let_def fixed_part_def split: if_splits list.splits option.splits)

lemma eth_send_step:
  assumes "eth_send env c to data = (r, c', ev)"
  shows "fixed_part c' = fixed_part c \<and> approved_sends (good_send env (fixed_part c)) ev"
proof -
  have "good_send env (fixed_part c) (send_request (c\<lparr>hc_send_history := h\<rparr>) to data) to data"
    if "to \<in> set (hc_send_allow c)" "cn_gate env = Some gate" "gate k (send_request (c\<lparr>hc_send_history := h\<rparr>) to data) = GateApproved"
    for h gate k
    using that by (auto simp: good_send_def fixed_part_def send_request_def)
  then show ?thesis
    using assms
    by (auto simp: eth_send_def dispatch_send_def Let_def fixed_part_def
        split: if_splits list.splits option.splits gate_decision.splits prod.splits)
qed

lemma host_step_ok:
  "host_step env c hc = (r, c', ev) \<Longrightarrow> fixed_part c' = fixed_part c \<and> approved_sends (good_send env (fixed_part c)) ev"
  by (cases hc) (auto dest: eth_call_step eth_send_step)

lemma run_guest_ok:
  "run_guest n env linked g answers c = (c', evs) \<Longrightarrow>
   fixed_part c' = fixed_part c \<and> approved_sends (good_send env (fixed_part c)) evs"
proof (induction n arbitrary: answers c c' evs)
  case (Suc n)
  show ?case
  proof (cases "g answers")
    case (Some hc)
    obtain r c1 ev where st: "host_step env c hc = (r, c1, ev)" by (cases "host_step env c hc") auto
    obtain c2 evs2 where rest: "run_guest n env linked g (answers @ [r]) c1 = (c2, evs2)" by fastforce
    show ?thesis
      using Suc.prems Some st rest host_step_ok [OF st] Suc.IH [OF rest]
      by (auto split: if_splits intro: approved_sends_append)
  qed (use Suc.prems in simp)
qed simp

lemma declared_address:
  "parse_chain_calls unhex es = Inr (rd, wr) \<Longrightarrow> a \<in> set wr \<Longrightarrow>
   \<exists>e \<in> set es. \<exists>r. e = ''eth_send:'' @ r \<and> parse_address unhex e r = Inr a"
proof (induction es arbitrary: rd wr)
  case (Cons e es)
  consider (call) r where "strip_prefix ''eth_call:'' e = Some r"
    | (send) r where "strip_prefix ''eth_call:'' e = None" "strip_prefix ''eth_send:'' e = Some r"
    | (skip) "strip_prefix ''eth_call:'' e = None" "strip_prefix ''eth_send:'' e = None"
    by (cases "strip_prefix ''eth_call:'' e"; cases "strip_prefix ''eth_send:'' e") auto
  then show ?case
  proof cases
    case (send r)
    then obtain x wr' where x: "parse_address unhex e r = Inr x" "parse_chain_calls unhex es = Inr (rd, wr')" "wr = x # wr'"
      using Cons.prems(1) by (auto simp: bind_result_Inr_iff)
    have "e = ''eth_send:'' @ r" using send(2) by (simp only: strip_prefix_Some_iff)
    then show ?thesis using x Cons.IH [OF x(2)] Cons.prems(2) by auto
  qed (use Cons in \<open>auto simp: bind_result_Inr_iff\<close>)
qed simp

lemma context_fixed:
  assumes "context_of unhex m = Inr ctx"
  obtains wr where "fixed_part ctx = (wr, cm_name (capsule m), risk_tier (risk m), required_roles (risk m))"
    "\<forall>a \<in> set wr. \<exists>e \<in> set (chain_calls (capability m)). \<exists>r. e = ''eth_send:'' @ r \<and> parse_address unhex e r = Inr a"
proof -
  obtain rd wr where p: "parse_chain_calls unhex (chain_calls (capability m)) = Inr (rd, wr)"
    and c: "ctx = with_write_path rd wr (cm_name (capsule m)) (risk_tier (risk m)) (required_roles (risk m))"
    using assms by (auto simp: context_of_def bind_result_Inr_iff)
  show thesis by (rule that [of wr]) (use declared_address [OF p] c in \<open>auto simp: fixed_part_def with_write_path_def\<close>)
qed

text \<open>What the queue must have answered for the gate to approve.\<close>

definition queue_approved :: "(bytes \<Rightarrow> bytes) \<Rightarrow> signer option \<Rightarrow> queue_answers \<Rightarrow> approval_request \<Rightarrow> bool" where
  "queue_approved keccak proposer qa q \<longleftrightarrow>
     (if aq_tier q = LowTier
      then \<exists>a \<in> {PApproved, PAutoApproved}. qa_fifo qa (gate_call keccak q) = Decided a
      else \<exists>p. proposer = Some p \<and>
        qa_role qa (gate_call keccak q) (signing_payload q) (for_tier (aq_tier q) (aq_roles q)) p \<in> {PApproved, PAutoApproved})"

lemma for_tier_auto: "for_tier t rs = AutoApprove \<longleftrightarrow> t = LowTier"
  by (cases t) (simp_all add: for_tier_def)

lemma outcome_approved: "outcome_to_decision a = GateApproved \<longleftrightarrow> a \<in> {PApproved, PAutoApproved}"
  by (cases a) (simp_all add: outcome_to_decision_def)

lemma queued_approved: "queued_decide keccak proposer qa q = GateApproved \<Longrightarrow> queue_approved keccak proposer qa q"
  by (auto simp: queued_decide_def queue_approved_def for_tier_auto outcome_approved Let_def
      split: if_splits resolution.splits option.splits)

text \<open>
  C36: A capsule behind the approval queue sends a transaction only right after the queue approved that
  very transaction for it, on the track its signed tier asks for, and only to an address its signed
  manifest declares for sending.
\<close>

theorem transactions_are_approved:
  assumes "call_raw unhex compile fuel env fl provider n = Inr (plan, ctx, evs)" "fl_capsules fl n = Some c"
    and "cn_gate env = Some (\<lambda>k. queued_decide keccak proposer (qa k))"
    and "i < length evs" "evs ! i = SentTx to data"
  shows "0 < i \<and> (\<exists>k q. evs ! (i - 1) = AskedGate q GateApproved \<and> queue_approved keccak proposer (qa k) q \<and>
    q = \<lparr>aq_capsule = cm_name (capsule (lc_manifest c)), aq_method = ''eth-send'', aq_to = to, aq_data = data,
         aq_tier = risk_tier (risk (lc_manifest c)), aq_roles = required_roles (risk (lc_manifest c))\<rparr> \<and>
    (\<exists>e \<in> set (chain_calls (capability (lc_manifest c))). \<exists>r. e = ''eth_send:'' @ r \<and> parse_address unhex e r = Inr to))"
proof -
  obtain linked g ctx0 where st: "start_call unhex compile fl provider n = Inr (plan, linked, g, ctx0)"
    and r: "run_guest fuel env linked g [] ctx0 = (ctx, evs)"
    using assms(1) by (auto simp: call_raw_Inr)
  obtain c' where v: "verified_capsule fl n = Inr c'" and cx: "context_of unhex (lc_manifest c') = Inr ctx0"
    by (rule start_call_Inr [OF st])
  have c': "c' = c" using v assms(2) by (auto simp: verified_capsule_def split: if_splits)
  obtain wr where f: "fixed_part ctx0 =
      (wr, cm_name (capsule (lc_manifest c)), risk_tier (risk (lc_manifest c)), required_roles (risk (lc_manifest c)))"
    and wr: "\<forall>a \<in> set wr. \<exists>e \<in> set (chain_calls (capability (lc_manifest c))). \<exists>r. e = ''eth_send:'' @ r \<and> parse_address unhex e r = Inr a"
    by (rule context_fixed [OF cx [unfolded c']])
  have "approved_sends (good_send env (fixed_part ctx0)) evs" using run_guest_ok [OF r] by simp
  then obtain q where q: "0 < i" "evs ! (i - 1) = AskedGate q GateApproved" "good_send env (fixed_part ctx0) q to data"
    using assms(4,5) unfolding approved_sends_def by blast
  have g: "\<exists>k. queued_decide keccak proposer (qa k) q = GateApproved" using q(3) assms(3) by (auto simp: good_send_def f)
  then obtain k where "queue_approved keccak proposer (qa k) q" using queued_approved by blast
  then show ?thesis using q wr by (auto simp: good_send_def f)
qed

section \<open>What the content hash binds\<close>

lemma insert_by_path_set: "set (insert_by_path x ys) = insert x (set ys)"
  by (induction ys) auto

lemma insert_by_path_front: "\<forall>y \<in> set ys. str_le (fst x) (fst y) \<Longrightarrow> insert_by_path x ys = x # ys"
  by (cases ys) auto

lemma sort_by_path_set: "set (sort_by_path xs) = set xs"
  by (induction xs) (simp_all add: sort_by_path_def insert_by_path_set)

lemma str_le_first: "(of_char c :: nat) < of_char d \<Longrightarrow> str_le (p @ c # s) (p @ d # t)"
  by (induction p) auto

text \<open>The entries that carry optional files have names of their own folders.\<close>

definition named :: "archive \<Rightarrow> bool" where
  "named a \<longleftrightarrow>
     (\<forall>p \<in> fst ` set (ar_gherkin a). starts_with ''gherkin/'' p) \<and> (\<forall>p \<in> fst ` set (ar_specs a). starts_with ''specs/'' p)"

lemma update_fst: "fst ` set (AList.update k v al) \<subseteq> insert k (fst ` set al)"
  by (induction al) auto

lemma add_entries_named: "add_entries a es = Inr b \<Longrightarrow> named a \<Longrightarrow> named b"
proof (induction a es rule: add_entries.induct)
  case (2 a e es)
  obtain a' where a: "add_entry a e = Inr a'" "add_entries a' es = Inr b" using "2.prems"(1) by (auto simp: bind_result_Inr_iff)
  have "named a'"
    using a(1) "2.prems"(2) update_fst
    by (cases e) (fastforce simp: add_entry_def named_def split: if_splits option.splits)
  then show ?case using "2.IH" a by blast
qed simp

lemma hashed_entries_shape:
  assumes "named a"
  obtains rest where "hashed_entries a = (''capsule.wasm'', ar_wasm a) # (''capsule.wit'', ar_wit a) # rest"
proof -
  let ?opt = "sort_by_path (ar_gherkin a @ ar_specs a)"
  let ?r = "insert_by_path (''procedure.md'', ar_procedure a) ?opt"
  have mem: "fst y = ''procedure.md'' \<or> starts_with ''gherkin/'' (fst y) \<or> starts_with ''specs/'' (fst y)" if "y \<in> set ?r" for y
    using that assms by (auto simp: insert_by_path_set sort_by_path_set named_def)
  have le: "str_le ''capsule.wasm'' (fst y) \<and> str_le ''capsule.wit'' (fst y)" if "y \<in> set ?r" for y
    using mem [OF that] by (auto simp: starts_with_iff)
  have w: "insert_by_path (''capsule.wasm'', ar_wasm a) ?r = (''capsule.wasm'', ar_wasm a) # ?r"
    by (rule insert_by_path_front) (use le in simp)
  have i: "insert_by_path (''capsule.wit'', ar_wit a) ?r = (''capsule.wit'', ar_wit a) # ?r"
    by (rule insert_by_path_front) (use le in simp)
  have s: "hashed_entries a = insert_by_path (''manifest.toml'', normalize_manifest (ar_manifest a))
      (insert_by_path (''capsule.wit'', ar_wit a) (insert_by_path (''capsule.wasm'', ar_wasm a) ?r))"
    by (simp add: hashed_entries_def sort_by_path_def)
  show thesis by (rule that) (simp add: s w i)
qed

lemma hex_digit_inject: "\<lbrakk>m < 16; n < 16\<rbrakk> \<Longrightarrow> hex_digit m = hex_digit n \<longleftrightarrow> m = n"
proof
  assume "m < 16" "n < 16" "hex_digit m = hex_digit n"
  then have "(of_char (hex_digit m) :: nat) = of_char (hex_digit n)" by simp
  then show "m = n" using \<open>m < 16\<close> \<open>n < 16\<close> by (simp add: hex_digit_def split: if_splits)
qed simp

lemma hex_encode_inject [simp]: "hex_encode a = hex_encode b \<longleftrightarrow> a = b"
proof
  show "hex_encode a = hex_encode b \<Longrightarrow> a = b"
  proof (induction a arbitrary: b)
    case Nil
    then show ?case by (cases b) (simp_all add: hex_encode_def)
  next
    case (Cons x a)
    then obtain y b' where b: "b = y # b'" by (cases b) (simp_all add: hex_encode_def)
    have lt: "unat w div 16 < 16" "unat w mod 16 < 16" for w :: u8
      using unsigned_less [of w, where ?'a = nat] by simp_all
    have "hex_digit (unat x div 16) = hex_digit (unat y div 16)" "hex_digit (unat x mod 16) = hex_digit (unat y mod 16)"
      and rest: "hex_encode a = hex_encode b'"
      using Cons.prems b by (simp_all add: hex_encode_def)
    then have "unat x div 16 = unat y div 16" "unat x mod 16 = unat y mod 16" using lt by (simp_all add: hex_digit_inject)
    then have "unat x = unat y" by (metis div_mult_mod_eq)
    then show ?case using Cons.IH [OF rest] b by (simp add: word_unat_eq_iff)
  qed
qed simp

text \<open>The byte strings a content hash is computed from.\<close>

definition hashed_strings :: "crypto \<Rightarrow> archive \<Rightarrow> bytes set" where
  "hashed_strings cr a = insert (bundle_bytes cr a) (snd ` set (hashed_entries a))"

lemma same_digests:
  assumes "\<forall>x. length (sha256 cr x) = 32" "map fst es = map fst es'"
    and "concat (map (\<lambda>(p, b). sha256 cr b @ ascii p) es) = concat (map (\<lambda>(p, b). sha256 cr b @ ascii p) es')"
  shows "map (sha256 cr \<circ> snd) es = map (sha256 cr \<circ> snd) es'"
  using assms(2,3)
proof (induction es arbitrary: es')
  case (Cons e es)
  obtain p b where e: "e = (p, b)" by (cases e)
  then obtain b' es2 where es': "es' = (p, b') # es2" "map fst es = map fst es2" using Cons.prems(1) by (cases es') auto
  have "sha256 cr b = sha256 cr b' \<and>
      concat (map (\<lambda>(p, b). sha256 cr b @ ascii p) es) = concat (map (\<lambda>(p, b). sha256 cr b @ ascii p) es2)"
    using Cons.prems(2) e es' assms(1) by simp
  then show ?case using Cons.IH [OF es'(2)] e es' by simp
qed simp

lemma map_inj_eq: "\<lbrakk>map (f \<circ> snd) xs = map (f \<circ> snd) ys; map fst xs = map fst ys; inj_on f (snd ` set xs \<union> snd ` set ys)\<rbrakk> \<Longrightarrow> xs = ys"
proof (induction xs arbitrary: ys)
  case (Cons x xs)
  obtain y ys' where ys: "ys = y # ys'" using Cons.prems(1) by (cases ys) auto
  have "snd x = snd y" by (rule inj_onD [OF Cons.prems(3)]) (use Cons.prems(1) ys in auto)
  then have "x = y" using Cons.prems(2) ys by (simp add: prod_eq_iff)
  moreover have "xs = ys'" using Cons.prems ys by (intro Cons.IH) (auto intro: inj_on_subset)
  ultimately show ?case using ys by simp
qed simp

lemma optional_names:
  assumes "named a" "(p, x) \<in> set (ar_gherkin a) \<or> (p, x) \<in> set (ar_specs a)"
  shows "starts_with ''gherkin/'' p \<or> starts_with ''specs/'' p"
proof -
  have "p \<in> fst ` set (ar_gherkin a) \<or> p \<in> fst ` set (ar_specs a)" using assms(2) by force
  then show ?thesis using assms(1) unfolding named_def by blast
qed

lemma only_fixed_entry:
  assumes "named a" "(p, x) \<in> set (hashed_entries a)" "p = ''manifest.toml'' \<or> p = ''procedure.md''"
  shows "x = (if p = ''manifest.toml'' then normalize_manifest (ar_manifest a) else ar_procedure a)"
proof -
  have "\<not> (starts_with ''gherkin/'' p \<or> starts_with ''specs/'' p)" using assms(3) by (elim disjE) simp_all
  then have "(p, x) \<notin> set (ar_gherkin a)" "(p, x) \<notin> set (ar_specs a)" using optional_names [OF assms(1), of p x] by blast+
  then show ?thesis using assms(2,3) by (auto simp: hashed_entries_def sort_by_path_set)
qed

lemma read_archive_named: "read_archive untar bs = Inr a \<Longrightarrow> named a"
proof -
  assume "read_archive untar bs = Inr a"
  then obtain es where "add_entries empty_archive es = Inr a" by (auto simp: read_archive_def result_iff split: option.splits)
  moreover have "named empty_archive" by (simp add: named_def empty_archive_def)
  ultimately show ?thesis by (rule add_entries_named)
qed

text \<open>
  C37: Without a hash collision among the strings hashed, two archives with one content hash have the same
  code and interface, and, when their optional files have the same names, the same procedure and, read
  as text, the same manifest lines, or the same but for one: the first line of each that sets the
  content hash, in the same place and equally indented. (The text is compared line by line: whether a
  line ends with a carriage return, whether the last one ends with a line feed, and which invalid bytes
  were replaced is not bound.)
\<close>

theorem content_hash_binds_the_capsule:
  assumes "read_archive untar bs = Inr a" "read_archive untar bs' = Inr b" "\<forall>x. length (sha256 cr x) = 32"
    and "inj_on (sha256 cr) (hashed_strings cr a \<union> hashed_strings cr b)"
    and "compute_content_hash cr a = compute_content_hash cr b"
  shows "ar_wasm a = ar_wasm b \<and> ar_wit a = ar_wit b \<and>
    (map fst (hashed_entries a) = map fst (hashed_entries b) \<longrightarrow>
       ar_procedure a = ar_procedure b \<and>
       same_but_hash (lines_of (text_lossy (ar_manifest a))) (lines_of (text_lossy (ar_manifest b))))"
proof -
  note inj = inj_onD [OF assms(4)]
  have na: "named a" "named b" using assms(1,2) read_archive_named by blast+
  have "sha256 cr (bundle_bytes cr a) = sha256 cr (bundle_bytes cr b)" using assms(5) by (simp add: compute_content_hash_def)
  then have "bundle_bytes cr a = bundle_bytes cr b" by (rule inj) (simp_all add: hashed_strings_def)
  then have body: "concat (map (\<lambda>(p, b). sha256 cr b @ ascii p) (hashed_entries a)) =
      concat (map (\<lambda>(p, b). sha256 cr b @ ascii p) (hashed_entries b))"
    by (simp add: bundle_bytes_def)
  obtain ra where ra: "hashed_entries a = (''capsule.wasm'', ar_wasm a) # (''capsule.wit'', ar_wit a) # ra"
    by (rule hashed_entries_shape [OF na(1)])
  obtain rb where rb: "hashed_entries b = (''capsule.wasm'', ar_wasm b) # (''capsule.wit'', ar_wit b) # rb"
    by (rule hashed_entries_shape [OF na(2)])
  have "sha256 cr (ar_wasm a) = sha256 cr (ar_wasm b)" "sha256 cr (ar_wit a) = sha256 cr (ar_wit b)"
    using body assms(3) by (simp_all add: ra rb)
  then have code: "ar_wasm a = ar_wasm b" "ar_wit a = ar_wit b"
    by (auto intro!: inj simp: hashed_strings_def ra rb)
  have "ar_procedure a = ar_procedure b \<and> normalize_manifest (ar_manifest a) = normalize_manifest (ar_manifest b)"
    if names: "map fst (hashed_entries a) = map fst (hashed_entries b)"
  proof -
    have "hashed_entries a = hashed_entries b"
      by (rule map_inj_eq [OF same_digests [OF assms(3) names body] names inj_on_subset [OF assms(4)]])
        (auto simp: hashed_strings_def)
    moreover have "(''procedure.md'', ar_procedure a) \<in> set (hashed_entries a)"
      "(''manifest.toml'', normalize_manifest (ar_manifest a)) \<in> set (hashed_entries a)"
      by (simp_all add: hashed_entries_def sort_by_path_set)
    ultimately show ?thesis
      using only_fixed_entry [OF na(2), of "''procedure.md''" "ar_procedure a"]
        only_fixed_entry [OF na(2), of "''manifest.toml''" "normalize_manifest (ar_manifest a)"] by simp
  qed
  then show ?thesis using code normalize_manifest_same by blast
qed

section \<open>What the signers of an effect sign\<close>

text \<open>The payload of a sending capsule names the capsule, the address and the data.\<close>

lemma split_bar: "\<lbrakk>CHR ''|'' \<notin> set a; CHR ''|'' \<notin> set a'; a @ CHR ''|'' # x = a' @ CHR ''|'' # y\<rbrakk> \<Longrightarrow> a = a' \<and> x = y"
  by (induction a arbitrary: a') (case_tac a'; auto)+

lemma hex_no_bar: "CHR ''|'' \<notin> set (hex0x b)"
proof -
  have "CHR ''|'' \<noteq> hex_digit n" if "n < 16" for n
  proof
    assume "CHR ''|'' = hex_digit n"
    then have "(of_char (CHR ''|'') :: nat) = of_char (hex_digit n)" by simp
    then show False using that by (simp add: hex_digit_def split: if_splits)
  qed
  moreover have "unat w div 16 < 16" "unat w mod 16 < 16" for w :: u8
    using unsigned_less [of w, where ?'a = nat] by simp_all
  ultimately show ?thesis by (auto simp: hex0x_def hex_encode_def)
qed

lemma payload_binds:
  assumes "signing_payload q = signing_payload q'" "aq_method q = aq_method q'"
    and "CHR ''|'' \<notin> set (aq_capsule q)" "CHR ''|'' \<notin> set (aq_capsule q')"
  shows "aq_capsule q = aq_capsule q' \<and> aq_to q = aq_to q' \<and> aq_data q = aq_data q'"
proof -
  have e: "aq_capsule q @ CHR ''|'' # aq_method q @ CHR ''|'' # hex0x (aq_to q) @ CHR ''|'' # hex0x (aq_data q) =
      aq_capsule q' @ CHR ''|'' # aq_method q @ CHR ''|'' # hex0x (aq_to q') @ CHR ''|'' # hex0x (aq_data q')"
    using assms(1,2) by (simp add: signing_payload_def)
  have c: "aq_capsule q = aq_capsule q'"
    and m: "hex0x (aq_to q) @ CHR ''|'' # hex0x (aq_data q) = hex0x (aq_to q') @ CHR ''|'' # hex0x (aq_data q')"
    using split_bar [OF assms(3,4) e] by simp_all
  show ?thesis using c split_bar [OF hex_no_bar hex_no_bar m] by (simp add: hex0x_def)
qed

text \<open>
  It names nothing else: the request of a later, equal effect has the same payload, so a signature that
  was accepted for the first one is accepted for the second as well.
\<close>

lemma old_signatures_count_again:
  assumes "check_signature verify enrolled e sig = Inr ()"
    and "re_payload e' = re_payload e" "re_proposer e' = re_proposer e" "re_signatures e' = []"
  shows "check_signature verify enrolled e' sig = Inr ()"
  using assms by (auto simp: check_signature_def split: sum.splits if_splits option.splits)

section \<open>The memory of a capsule\<close>

text \<open>A request to grow a memory or a table, with the answer of wasmtime's own limits.\<close>

datatype growth = GrowMemory bool u64 u64 | GrowTable bool u64 u64

fun grow :: "growth \<Rightarrow> limiter \<Rightarrow> bool \<times> limiter" where
  "grow (GrowMemory inner c d) l = memory_growing inner c d l"
| "grow (GrowTable inner c d) l = table_growing inner c d l"

lemma grow_bound: "lm_total l \<le> lm_max l \<Longrightarrow> lm_total (snd (grow r l)) \<le> lm_max l \<and> lm_max (snd (grow r l)) = lm_max l"
  by (cases r) (auto simp: memory_growing_def table_growing_def charge_def split: option.splits)

lemma memory_stays_bounded: "lm_total (fold (\<lambda>r. snd \<circ> grow r) rs capsule_default) \<le> CAPSULE_MEMORY_BYTES_TOTAL"
proof -
  have "lm_total l \<le> lm_max l \<Longrightarrow>
      lm_total (fold (\<lambda>r. snd \<circ> grow r) rs l) \<le> lm_max l" for l
  proof (induction rs arbitrary: l)
    case (Cons r rs)
    then show ?case using grow_bound [OF Cons.prems, of r] Cons.IH [of "snd (grow r l)"] by simp
  qed simp
  from this [of capsule_default] show ?thesis by (simp add: capsule_default_def CAPSULE_MEMORY_BYTES_TOTAL_def)
qed

section \<open>A concrete fleet\<close>

definition zeros :: bytes where "zeros = replicate 32 0"

definition toy_crypto :: crypto where
  "toy_crypto = \<lparr>vk_valid = (\<lambda>_. True), vk_verify = (\<lambda>_ _ _. True), sha256 = (\<lambda>_. zeros)\<rparr>"

definition toy_hash :: string where "toy_hash = ''sha256:'' @ hex_encode zeros"

definition pay_manifest :: manifest where
  "pay_manifest =
     \<lparr>capsule = \<lparr>cm_name = ''pay'', cm_version = ''1.2.0'', content_hash = toy_hash\<rparr>,
      capability = \<lparr>network = NetNone, filesystem = [], chain_calls = [''eth_send:'' @ replicate 40 CHR ''1''],
        subagent_spawn = False, network_allow = []\<rparr>,
      data_class = \<lparr>reads = [], writes = [], emits = []\<rparr>,
      risk = \<lparr>risk_tier = MediumTier, required_roles = [Reviewer], break_glass_eligible = False\<rparr>,
      overlay = \<lparr>certified = [], not_certified = []\<rparr>, procedure = \<lparr>gates = []\<rparr>,
      provenance = \<lparr>publisher = [], build_reproducible = True, agentile_sprint = [], tla_spec = []\<rparr>,
      signing = \<lparr>sd_tier = Bundled\<rparr>\<rparr>"

definition pay_archive :: archive where
  "pay_archive =
     \<lparr>ar_manifest = [65], ar_wit = [66], ar_wasm = [0], ar_procedure = [67], ar_gherkin = [], ar_specs = [],
      ar_signatures = [(''publisher.sig'', replicate 64 0)]\<rparr>"

definition toy_loader :: loader where
  "toy_loader =
     \<lparr>ld_crypto = toy_crypto, ld_toml = (\<lambda>_. Some pay_manifest),
      ld_untar = (\<lambda>_ _. Some [(''manifest.toml'', [65]), (''capsule.wit'', [66]), (''capsule.wasm'', [0]),
        (''procedure.md'', [67]), (''SIGNATURES/publisher.sig'', replicate 64 0)]),
      ld_allow = [\<lparr>ae_name = ''pay'', ae_min_version = ''1.0.0'', ae_hashes = [toy_hash]\<rparr>]\<rparr>"

definition pay_capsule :: loaded_capsule where
  "pay_capsule = \<lparr>lc_manifest = pay_manifest, lc_archive = pay_archive\<rparr>"

definition pay_dir :: capsule_dir where
  "pay_dir = \<lparr>cd_name = ''pay'', cd_is_dir = True, cd_cps = Some (Contents []), cd_manifest = None, cd_wasm = None\<rparr>"

definition pay_fleet :: fleet where
  "pay_fleet = add_capsule pay_capsule empty_fleet"

text \<open>A guest that sends one transaction, and a member whose queue approves it.\<close>

definition pay_to :: bytes where "pay_to = replicate 20 17"

definition toy_unhex :: "string \<Rightarrow> bytes option" where
  "toy_unhex s = (if s = replicate 40 CHR ''1'' then Some pay_to else None)"

definition toy_compile :: "bytes \<Rightarrow> (capability_token set \<times> guest) option" where
  "toy_compile w = Some ({CitrateChainEthSend}, \<lambda>answers. if answers = [] then Some (EthSend pay_to [1, 2]) else None)"

definition toy_answers :: queue_answers where
  "toy_answers = \<lparr>qa_fifo = (\<lambda>_. Decided PRejected), qa_role = (\<lambda>_ _ _ _. PApproved)\<rparr>"

definition toy_env :: chain_env where
  "toy_env =
     \<lparr>cn_call = None, cn_send = Some (\<lambda>_ _ _. Inr zeros),
      cn_gate = Some (\<lambda>k. queued_decide (\<lambda>_. zeros) (Some (bound_proposer toy_crypto [7])) toy_answers)\<rparr>"

lemma pay_read: "read_archive (ld_untar toy_loader) [] = Inr pay_archive"
  by (simp add: toy_loader_def read_archive_def add_entry_def empty_archive_def ends_with_def strip_prefix_def
      starts_with_def validate_structure_def pay_archive_def)

lemma pay_hash: "compute_content_hash toy_crypto a = toy_hash"
  by (simp add: compute_content_hash_def toy_crypto_def toy_hash_def HASH_PREFIX_def)

lemma small_numbers: "parse_u64 ''0'' = Some 0" "parse_u64 ''1'' = Some 1" "parse_u64 ''2'' = Some 2"
  by (simp_all add: parse_u64_def parse_dec_def is_digit_def)

lemma pay_valid: "validate pay_manifest = Inr ()"
proof -
  have "validate_sha256_prefix toy_hash = Inr ()" unfolding toy_hash_def zeros_def by code_simp
  moreover have "validate_dns_label ''pay'' = Inr ()" by code_simp
  moreover have "validate_semver ''1.2.0'' = Inr ()"
    by (simp add: validate_semver_def Let_def segment_core_def small_numbers)
  ultimately show ?thesis by (simp add: validate_def pay_manifest_def parse_all_def parse_network_allow_def)
qed

lemma pay_facts [simp]:
  "content_hash (capsule pay_manifest) = toy_hash" "cm_name (capsule pay_manifest) = ''pay''"
  "cm_version (capsule pay_manifest) = ''1.2.0''" "sd_tier (signing pay_manifest) = Bundled"
  "risk_tier (risk pay_manifest) = MediumTier" "required_roles (risk pay_manifest) = [Reviewer]"
  "chain_calls (capability pay_manifest) = [''eth_send:'' @ replicate 40 CHR ''1'']"
  "lc_manifest pay_capsule = pay_manifest" "lc_archive pay_capsule = pay_archive"
  "ld_crypto toy_loader = toy_crypto" "ld_toml toy_loader t = Some pay_manifest"
  by (simp_all add: pay_manifest_def pay_capsule_def toy_loader_def)

lemma pay_parsed [simp]: "parse_manifest (ld_toml toy_loader) t = Inr pay_manifest"
  using pay_valid by (simp add: parse_manifest_def)

lemma pay_verified:
  "from_archive_verified toy_crypto (ld_toml toy_loader) (ld_untar toy_loader) bundled_registry [] = Inr pay_capsule"
proof -
  have u: "from_utf8 [65] = Some ''A''" "from_utf8 [66] = Some ''B''" by code_simp+
  have w: "verify_capability_against_wit pay_manifest ''B'' = Inr ()"
  proof -
    have "lines_of ''B'' = [''B'']" "line_import ''B'' = None"
      by (simp_all add: lines_of_def line_import_def trim_graphic is_graphic_def starts_with_def strip_prefix_def)
    then show ?thesis by (simp add: verify_capability_against_wit_def)
  qed
  have s: "verify_signature toy_crypto toy_hash (replicate 64 0) Bundled bundled_registry = Inr ()"
    by (simp add: verify_signature_def publisher_key_for_def bundled_registry_def toy_crypto_def SIGNATURE_SIZE_def)
  have f: "from_archive toy_crypto (ld_toml toy_loader) (ld_untar toy_loader) [] = Inr pay_capsule"
    using u(1) by (simp add: from_archive_def pay_read pay_hash) (simp add: pay_archive_def pay_capsule_def)
  show ?thesis using f u(2) w s
    by (simp add: from_archive_verified_def) (simp add: pay_archive_def)
qed

lemma pay_loads: "load_from_dir toy_loader (Some [Some pay_dir]) = Inr pay_fleet"
proof -
  have "parse_version ''1.2.0'' = Some (1, 2, 0)" "parse_version ''1.0.0'' = Some (1, 0, 0)"
    by (simp_all add: parse_version_def small_numbers)
  then have "check_allowed (ld_allow toy_loader) pay_manifest = Inr ()"
    by (simp add: check_allowed_def Let_def) (simp add: toy_loader_def)
  then show ?thesis using pay_verified
    by (simp add: load_from_dir_def load_entry_def pay_dir_def load_cps_def pay_fleet_def)
qed

lemma pay_starts:
  "call_raw toy_unhex toy_compile 3 toy_env pay_fleet None ''pay'' =
     Inr (deny_all, run_guest 3 toy_env {CitrateChainEthSend} (snd (the (toy_compile []))) []
       (with_write_path [] [pay_to] ''pay'' MediumTier [Reviewer]))"
proof -
  have v: "verified_capsule pay_fleet ''pay'' = Inr pay_capsule"
    by (simp add: verified_capsule_def pay_fleet_def add_capsule_def empty_fleet_def)
  have pl: "sandbox_plan_for pay_fleet None pay_manifest = Inr deny_all"
    by (simp add: sandbox_plan_for_def pay_fleet_def add_capsule_def empty_fleet_def without_grants_def egress_only_def
        network_plan_def as_plan_def deny_all_def) (simp add: pay_manifest_def)
  have t: "permitted_tokens pay_manifest = Inr {WasiCli, WasiClocks, WasiRandom, CitrateChainEthSend}"
    by (simp add: permitted_tokens_def Let_def starts_with_def) (simp add: pay_manifest_def insert_commute)
  have c: "context_of toy_unhex pay_manifest = Inr (with_write_path [] [pay_to] ''pay'' MediumTier [Reviewer])"
    by (simp add: context_of_def parse_address_def strip_prefix_def starts_with_def toy_unhex_def pay_to_def)
  show ?thesis
    by (simp add: call_raw_def start_call_def v pl t c) (simp add: toy_compile_def)
qed

lemma pay_run:
  "\<exists>q ctx. call_raw toy_unhex toy_compile 3 toy_env pay_fleet None ''pay'' = Inr (deny_all, ctx, [AskedGate q GateApproved, SentTx pay_to [1, 2]])"
proof -
  have q: "queued_decide (\<lambda>_. zeros) (Some (bound_proposer toy_crypto [7])) toy_answers q = GateApproved" if "aq_tier q = MediumTier" for q
    using that by (simp add: queued_decide_def for_tier_auto toy_answers_def outcome_to_decision_def Let_def)
  show ?thesis unfolding pay_starts
    by (simp add: toy_compile_def toy_env_def with_write_path_def eth_send_def dispatch_send_def send_request_def pay_to_def
        eval_nat_numeral q)
qed

theorem only_published_capsules_run_witness:
  "published toy_loader pay_capsule"
proof -
  obtain r where r: "call_raw toy_unhex toy_compile 3 toy_env pay_fleet None ''pay'' = Inr (deny_all, r)" using pay_run by blast
  obtain d bs c where c: "Some d \<in> set [Some pay_dir]"
    "from_archive_verified (ld_crypto toy_loader) (ld_toml toy_loader) (ld_untar toy_loader) bundled_registry bs = Inr c"
    "cd_cps d = Some (Contents bs)" "published toy_loader c"
    using only_published_capsules_run [OF pay_loads r] by blast
  then have "bs = []" by (simp add: pay_dir_def)
  then have "c = pay_capsule" using c(2) pay_verified by simp
  then show ?thesis using c(4) by simp
qed

theorem transactions_are_approved_witness:
  "queue_approved (\<lambda>_. zeros) (Some (bound_proposer toy_crypto [7])) toy_answers
     \<lparr>aq_capsule = ''pay'', aq_method = ''eth-send'', aq_to = pay_to, aq_data = [1, 2], aq_tier = MediumTier, aq_roles = [Reviewer]\<rparr>"
proof -
  obtain q ctx where r: "call_raw toy_unhex toy_compile 3 toy_env pay_fleet None ''pay'' =
      Inr (deny_all, ctx, [AskedGate q GateApproved, SentTx pay_to [1, 2]])"
    using pay_run by blast
  have f: "fl_capsules pay_fleet ''pay'' = Some pay_capsule" by (simp add: pay_fleet_def add_capsule_def)
  have g: "cn_gate toy_env = Some (\<lambda>k. queued_decide (\<lambda>_. zeros) (Some (bound_proposer toy_crypto [7])) ((\<lambda>_. toy_answers) k))"
    by (simp add: toy_env_def)
  have i: "1 < length [AskedGate q GateApproved, SentTx pay_to [1, 2]]"
    "[AskedGate q GateApproved, SentTx pay_to [1, 2]] ! 1 = SentTx pay_to [1, 2]" by simp_all
  show ?thesis using transactions_are_approved [OF r f g i] by auto
qed

text \<open>A hash that tells short strings apart by their length and first byte.\<close>

definition short_key :: "bytes \<Rightarrow> nat" where
  "short_key x = length x * 256 + (case x of [] \<Rightarrow> 0 | b # _ \<Rightarrow> unat b)"

definition short_crypto :: crypto where
  "short_crypto = \<lparr>vk_valid = (\<lambda>_. True), vk_verify = (\<lambda>_ _ _. True), sha256 = (\<lambda>x. be_bytes 32 (short_key x))\<rparr>"

text \<open>Two archives that differ in their signature only.\<close>

definition two_untar :: "nat \<Rightarrow> bytes \<Rightarrow> (string \<times> bytes) list option" where
  "two_untar n bs = Some [(''manifest.toml'', [65]), (''capsule.wit'', [66]), (''capsule.wasm'', [0]), (''procedure.md'', [67]),
     (''SIGNATURES/publisher.sig'', bs)]"

lemma two_read: "read_archive two_untar bs = Inr (pay_archive\<lparr>ar_signatures := [(''publisher.sig'', bs)]\<rparr>)"
  by (simp add: two_untar_def read_archive_def add_entry_def empty_archive_def ends_with_def strip_prefix_def
      starts_with_def validate_structure_def pay_archive_def)

lemma two_hashed: "hashed_entries (pay_archive\<lparr>ar_signatures := s\<rparr>) =
  [(''capsule.wasm'', [0]), (''capsule.wit'', [66]), (''manifest.toml'', [65, 10]), (''procedure.md'', [67])]"
proof -
  have "lines_of ''A'' = [''A'']" by (simp add: lines_of_def)
  moreover have "\<not> is_hash_line ''A''"
  proof -
    have "strip_any unicode_ws ''A'' = ''A''"
    proof (rule strip_any_id)
      fix w :: string
      assume w: "w \<in> set unicode_ws" "w \<noteq> []"
      then have g: "\<not> is_graphic (hd w)" using unicode_ws_heads by blast
      obtain c v where c: "w = c # v" using w(2) by (cases w) auto
      show "\<not> starts_with w ''A''"
      proof
        assume "starts_with w ''A''"
        then have "c = CHR ''A''" using c by (simp add: starts_with_def)
        then show False using g c by (simp add: is_graphic_def)
      qed
    qed
    then show ?thesis by (simp add: is_hash_line_def)
  qed
  moreover have "text_lossy [65] = ''A''" by code_simp
  ultimately have "normalize_manifest [65] = [65, 10]" by (simp add: normalize_manifest_def ascii_def)
  then show ?thesis by (simp add: hashed_entries_def sort_by_path_def pay_archive_def)
qed

theorem content_hash_binds_the_capsule_witness:
  "read_archive two_untar [1] \<noteq> read_archive two_untar [2] \<and> ar_wasm (pay_archive\<lparr>ar_signatures := [(''publisher.sig'', [1])]\<rparr>) = [0]"
proof -
  let ?a = "pay_archive\<lparr>ar_signatures := [(''publisher.sig'', [1])]\<rparr>" and ?b = "pay_archive\<lparr>ar_signatures := [(''publisher.sig'', [2])]\<rparr>"
  have len: "\<forall>x. length (sha256 short_crypto x) = 32" by (simp add: short_crypto_def)
  have same: "bundle_bytes short_crypto (pay_archive\<lparr>ar_signatures := s\<rparr>) = bundle_bytes short_crypto pay_archive" for s
    by (simp add: bundle_bytes_def two_hashed two_hashed [of "ar_signatures pay_archive", simplified])
  have l: "length (bundle_bytes short_crypto pay_archive) = 209"
    using two_hashed [of "ar_signatures pay_archive"]
    by (simp add: bundle_bytes_def CONTENT_HASH_DOMAIN_def ascii_def short_crypto_def)
  have S: "hashed_strings short_crypto ?a \<union> hashed_strings short_crypto ?b =
      {bundle_bytes short_crypto pay_archive, [0], [66], [65, 10], [67]}"
    by (simp add: hashed_strings_def two_hashed same insert_commute)
  have key: "short_key (bundle_bytes short_crypto pay_archive) \<ge> 209 * 256" "short_key (bundle_bytes short_crypto pay_archive) < 210 * 256"
    using l unsigned_less [of "hd (bundle_bytes short_crypto pay_archive)", where ?'a = nat]
    by (auto simp: short_key_def split: list.split)
  have inj: "inj_on (sha256 short_crypto) (hashed_strings short_crypto ?a \<union> hashed_strings short_crypto ?b)"
  proof (rule inj_onI)
    fix x y
    assume m: "x \<in> hashed_strings short_crypto ?a \<union> hashed_strings short_crypto ?b"
      "y \<in> hashed_strings short_crypto ?a \<union> hashed_strings short_crypto ?b" and e: "sha256 short_crypto x = sha256 short_crypto y"
    have lt: "short_key z < 256 ^ 32" if "z \<in> {bundle_bytes short_crypto pay_archive, [0], [66], [65, 10], [67]}" for z
      using that key by (auto simp: short_key_def)
    have "be_value (be_bytes 32 (short_key x)) = be_value (be_bytes 32 (short_key y))" using e by (simp add: short_crypto_def)
    then have "short_key x = short_key y" using lt m S by (simp add: be_value_be_bytes)
    then show "x = y" using m S key by (auto simp: short_key_def)
  qed
  have h: "compute_content_hash short_crypto ?a = compute_content_hash short_crypto ?b"
    by (simp add: compute_content_hash_def same)
  have "ar_wasm ?a = ar_wasm ?b" using content_hash_binds_the_capsule [OF two_read two_read len inj h] by blast
  then show ?thesis by (simp add: two_read pay_archive_def)
qed

end
