(* ===== verification/CapsuleSandboxProperties.thy ===== *)
theory CapsuleSandboxProperties
  imports CapsuleSandbox FolderGrantProperties
begin

text \<open>
  What a capsule gets from its sandbox: a folder only under live whole-folder grants and after a scan
  of everything in it, an address only when the manifest declares it and the member consented.
\<close>

section \<open>The scan sees everything\<close>

text \<open>The entries of a folder and of the folders in it.\<close>

inductive beneath :: "listing \<Rightarrow> path \<Rightarrow> scan_entry \<Rightarrow> bool" for ls :: listing and r :: path where
  listed: "ls r = Some es \<Longrightarrow> Some e \<in> set es \<Longrightarrow> beneath ls r e"
| deeper: "beneath ls r d \<Longrightarrow> se_type d = Some DirEntry \<Longrightarrow> ls (se_path d) = Some es \<Longrightarrow> Some e \<in> set es \<Longrightarrow>
    beneath ls r e"

text \<open>An entry is allowed to every operation, or it is a link the deny list does not name; no file has a second name.\<close>

definition entry_clean :: "checker \<Rightarrow> op list \<Rightarrow> scan_entry \<Rightarrow> bool" where
  "entry_clean chk os e \<longleftrightarrow>
     (\<exists>t. se_type e = Some t \<and>
        (\<forall>o' \<in> set os. case chk (render_names (se_path e)) o' of
            Allowed _ _ \<Rightarrow> True | Denied r \<Rightarrow> t = LinkEntry \<and> (\<forall>c. r \<noteq> DenyList c)) \<and>
        (t = FileEntry \<longrightarrow> (\<exists>n. se_links e = Some n \<and> n \<le> 1)))"

lemma check_entry_Inr_iff:
  "check_entry chk p l os = Inr () \<longleftrightarrow>
     (\<forall>o' \<in> set os. case chk (render_names p) o' of Allowed _ _ \<Rightarrow> True | Denied r \<Rightarrow> l \<and> (\<forall>c. r \<noteq> DenyList c))"
  by (induction os) (auto split: decision.splits denial_reason.splits)

lemma refuse_hard_link_Inr_iff: "refuse_hard_link e = Inr () \<longleftrightarrow> (\<exists>n. se_links e = Some n \<and> n \<le> 1)"
  by (auto simp: refuse_hard_link_def split: option.splits)

lemma scan_entries_sound:
  assumes "scan_entries chk os cap dir es seen stack = Inr (seen', stack')"
  shows "set stack \<subseteq> set stack' \<and> None \<notin> set es \<and>
    (\<forall>e. Some e \<in> set es \<longrightarrow> entry_clean chk os e \<and> (se_type e = Some DirEntry \<longrightarrow> se_path e \<in> set stack'))"
  using assms
proof (induction es arbitrary: seen stack)
  case (Cons x es)
  obtain e t where x: "x = Some e" "se_type e = Some t" using Cons.prems
    by (cases x) (auto split: option.splits if_splits)
  let ?st = "if t = DirEntry then se_path e # stack else stack"
  have c: "check_entry chk (se_path e) (t = LinkEntry) os = Inr ()" "t = FileEntry \<longrightarrow> refuse_hard_link e = Inr ()"
    and rest: "scan_entries chk os cap dir es (Suc seen) ?st = Inr (seen', stack')"
    using Cons.prems x by (auto simp: result_iff split: if_splits)
  have "entry_clean chk os e"
    using c x(2) by (simp add: entry_clean_def check_entry_Inr_iff refuse_hard_link_Inr_iff)
  then show ?case using Cons.IH [OF rest] x by (auto split: if_splits)
qed simp

text \<open>A finished scan has listed a set of folders that is closed under the folders in them.\<close>

lemma scan_from_closed:
  "scan_from ls chk os cap seen stack = Inr () \<Longrightarrow>
   \<exists>D. set stack \<subseteq> D \<and> (\<forall>d \<in> D. \<exists>es. ls d = Some es \<and> None \<notin> set es \<and>
      (\<forall>e. Some e \<in> set es \<longrightarrow> entry_clean chk os e \<and> (se_type e = Some DirEntry \<longrightarrow> se_path e \<in> D)))"
proof (induction ls chk os cap seen stack rule: scan_from.induct)
  case (1 ls chk os cap seen)
  show ?case by (intro exI [of _ "{}"]) simp
next
  case (2 ls chk os cap seen dir stack)
  obtain es seen' stack' where es: "ls dir = Some es" "scan_entries chk os cap dir es seen stack = Inr (seen', stack')"
    "scan_from ls chk os cap seen' stack' = Inr ()"
    using 2(2) by (auto split: option.splits sum.splits)
  obtain D where D: "set stack' \<subseteq> D" "\<forall>d \<in> D. \<exists>es. ls d = Some es \<and> None \<notin> set es \<and>
      (\<forall>e. Some e \<in> set es \<longrightarrow> entry_clean chk os e \<and> (se_type e = Some DirEntry \<longrightarrow> se_path e \<in> D))"
    using 2(1) [OF es(1,2) _ es(3)] by blast
  note s = scan_entries_sound [OF es(2)]
  show ?case
  proof (intro exI [of _ "insert dir D"] conjI ballI)
    show "set (dir # stack) \<subseteq> insert dir D" using s D(1) by auto
  next
    fix d
    assume "d \<in> insert dir D"
    then show "\<exists>es. ls d = Some es \<and> None \<notin> set es \<and>
      (\<forall>e. Some e \<in> set es \<longrightarrow> entry_clean chk os e \<and> (se_type e = Some DirEntry \<longrightarrow> se_path e \<in> insert dir D))"
    proof
      assume "d = dir"
      then show ?thesis using es(1) s D(1) by (intro exI [of _ es]) auto
    next
      assume "d \<in> D"
      then show ?thesis using D(2) by (meson insertI2)
    qed
  qed
qed

lemma scan_mount_clean:
  assumes "scan_mount ls chk os cap r = Inr ()" "beneath ls r e"
  shows "entry_clean chk os e"
proof -
  obtain D where D: "r \<in> D" "\<forall>d \<in> D. \<exists>es. ls d = Some es \<and> None \<notin> set es \<and>
      (\<forall>e. Some e \<in> set es \<longrightarrow> entry_clean chk os e \<and> (se_type e = Some DirEntry \<longrightarrow> se_path e \<in> D))"
    using scan_from_closed [of ls chk os cap 0 "[r]"] assms(1) by (auto simp: scan_mount_def)
  have "entry_clean chk os e \<and> (se_type e = Some DirEntry \<longrightarrow> se_path e \<in> D)"
    using assms(2)
  proof induction
    case (listed es e)
    then show ?case using D by fastforce
  next
    case (deeper d es e)
    then have "se_path d \<in> D" by blast
    then show ?case using D(2) deeper(3,4) by fastforce
  qed
  then show ?thesis ..
qed

section \<open>Grants behind a mount\<close>

text \<open>A whole-folder grant of an operation that is live and covers a place.\<close>

definition folder_open :: "grant_view_now \<Rightarrow> op \<Rightarrow> path \<Rightarrow> string list \<Rightarrow> bool" where
  "folder_open v o' h ids \<longleftrightarrow>
     (\<exists>g \<in> set (grants (state (gn_grants v))). grant_id g \<in> set ids \<and> kind g = Folder \<and> scope g = Subtree \<and>
        access_of g = op_access o' \<and> is_active g (gn_now v) \<and> prefix (root g) h)"

lemma check_ops_sound:
  assumes "validate_state (gn_norm v) (files (gn_disk v)) (gn_grants v) = Inr ()" "check_ops v p os host ids = Inr (Some h, ids')"
  shows "set ids \<subseteq> set ids' \<and> (\<forall>h0. host = Some h0 \<longrightarrow> h = h0) \<and> (\<forall>o' \<in> set os. folder_open v o' h ids')"
  using assms(2)
proof (induction os arbitrary: host ids)
  case (Cons o' os)
  obtain c gid g where a: "grants_check v p o' = Allowed c gid" "find (\<lambda>g. grant_id g = gid) (grants (state (gn_grants v))) = Some g"
    and k: "kind g = Folder" "scope g = Subtree" "host = None \<or> host = Some c"
    and rest: "check_ops v p os (Some c) (ids @ [gid]) = Inr (Some h, ids')"
    using Cons.prems by (auto split: decision.splits option.splits if_splits)
  note ih = Cons.IH [OF rest]
  have g: "g \<in> set (grants (state (gn_grants v)))" "access_of g = op_access o'" "is_active g (gn_now v)" "covers g c"
    using allowed_grant [OF assms(1) a(1) [unfolded grants_check_def] a(2)] by blast+
  have "grant_id g = gid" using a(2) by (auto simp: find_Some_iff)
  then have "folder_open v o' h ids'"
    unfolding folder_open_def using g k ih covers_prefix [OF g(4)] by (intro bexI [of _ g]) auto
  then show ?case using ih k(3) by auto
qed simp

definition mount_ops :: "preopen \<Rightarrow> op list" where
  "mount_ops po = (case po_perms po of ReadOnly \<Rightarrow> [OpRead] | ReadWrite \<Rightarrow> [OpRead, OpWrite])"

text \<open>The manifest declares the mount point, with a right to write where the folder is opened for it.\<close>

definition declares_mount :: "manifest \<Rightarrow> preopen \<Rightarrow> bool" where
  "declares_mount m po \<longleftrightarrow>
     (\<exists>t \<in> set (CapsuleManifest.filesystem (capability m)). \<exists>e. parse_fs_entry t = Inr e \<and>
        fe_path e = components (po_guest po) \<and> (po_perms po = ReadWrite \<longleftrightarrow> fe_access e \<noteq> FsRead))"

definition mounted_rightly :: "manifest \<Rightarrow> fs_mount list \<Rightarrow> grant_view_now \<Rightarrow> preopen \<Rightarrow> bool" where
  "mounted_rightly m mounts v po \<longleftrightarrow>
     declares_mount m po \<and> po_guest po \<in> fm_guest ` set mounts \<and> is_dir (gn_disk v) (po_host po) \<and>
     (\<forall>o' \<in> set (mount_ops po). folder_open v o' (po_host po) (po_grants po)) \<and>
     (\<forall>e. beneath (gn_listing v) (po_host po) e \<longrightarrow> entry_clean (grants_check v) (mount_ops po) e)"

lemma resolve_mount_sound:
  assumes "validate_state (gn_norm v) (files (gn_disk v)) (gn_grants v) = Inr ()" "fm \<in> set mounts"
    "parse_all (CapsuleManifest.filesystem (capability m)) = Inr declared" "resolve_mount v cap declared opened fm = Inr po"
  shows "mounted_rightly m mounts v po"
proof -
  obtain e where e: "find (\<lambda>e. fe_path e = components (fm_guest fm)) declared = Some e"
    using assms(4) by (auto simp: resolve_mount_def ok_or_def split: option.splits)
  obtain os perms where op: "ops_for (fe_access e) = (os, perms)" by fastforce
  have r: "\<not> list_ex (\<lambda>p. po_guest p = fm_guest fm) opened"
    using assms(4) unfolding resolve_mount_def e ok_or_simps bind_result_simps by (auto split: if_splits)
  obtain host ids where hi: "check_ops v (fm_host fm) os None [] = Inr (host, ids)"
    "bind_result (ok_or NothingChecked host) (\<lambda>h.
          if \<not> is_dir (gn_disk v) h then Inl NotAFolder
          else bind_result (scan_mount (gn_listing v) (grants_check v) os cap h) (\<lambda>_.
            Inr \<lparr>po_host = h, po_guest = fm_guest fm, po_perms = perms, po_grants = ids\<rparr>)) = Inr po"
    using assms(4) r unfolding resolve_mount_def e ok_or_simps bind_result_simps op Let_def prod.case
    by (auto simp: bind_result_Inr_iff)
  then obtain h where h: "host = Some h" by (cases host) (auto simp: ok_or_def)
  have c: "check_ops v (fm_host fm) (fst (ops_for (fe_access e))) None [] = Inr (Some h, ids)" using hi(1) h op by simp
  have d: "is_dir (gn_disk v) h" "scan_mount (gn_listing v) (grants_check v) (fst (ops_for (fe_access e))) cap h = Inr ()"
    and po: "po = \<lparr>po_host = h, po_guest = fm_guest fm, po_perms = snd (ops_for (fe_access e)), po_grants = ids\<rparr>"
    using hi(2) h op by (auto simp: ok_or_def bind_result_Inr_iff split: if_splits)
  have os: "fst (ops_for (fe_access e)) = mount_ops po" "po_perms po = ReadWrite \<longleftrightarrow> fe_access e \<noteq> FsRead"
    unfolding po by (simp_all add: ops_for_def mount_ops_def split: fs_access.split)
  have m: "e \<in> set declared" "fe_path e = components (fm_guest fm)" using e by (auto simp: find_Some_iff)
  obtain t where "t \<in> set (CapsuleManifest.filesystem (capability m))" "parse_fs_entry t = Inr e"
    using collect_results_mem [OF assms(3) [unfolded parse_all_def] m(1)] by blast
  then have "declares_mount m po" using m(2) os(2) po by (auto simp: declares_mount_def)
  moreover have "\<forall>o' \<in> set (mount_ops po). folder_open v o' (po_host po) (po_grants po)"
    using check_ops_sound [OF assms(1) c] os(1) po by simp
  moreover have "\<forall>e. beneath (gn_listing v) (po_host po) e \<longrightarrow> entry_clean (grants_check v) (mount_ops po) e"
    using scan_mount_clean [OF d(2)] os(1) po by simp
  ultimately show ?thesis using assms(2) d(1) po by (auto simp: mounted_rightly_def)
qed

lemma resolve_mounts_sound:
  assumes "validate_state (gn_norm v) (files (gn_disk v)) (gn_grants v) = Inr ()"
    "parse_all (CapsuleManifest.filesystem (capability m)) = Inr declared"
    "resolve_mounts v cap declared opened ms = Inr ps" "set ms \<subseteq> set mounts" "\<forall>po \<in> set opened. mounted_rightly m mounts v po"
  shows "\<forall>po \<in> set ps. mounted_rightly m mounts v po"
  using assms(3-5)
proof (induction ms arbitrary: opened)
  case (Cons x ms)
  obtain p where p: "resolve_mount v cap declared opened x = Inr p" "resolve_mounts v cap declared (opened @ [p]) ms = Inr ps"
    using Cons.prems(1) by (auto split: sum.splits)
  have "mounted_rightly m mounts v p" by (rule resolve_mount_sound [OF assms(1) _ assms(2) p(1)]) (use Cons.prems(2) in simp)
  then show ?case using Cons.IH [OF p(2)] Cons.prems(2,3) by simp
qed simp

lemma as_plan_Inr_iff [result_iff]: "as_plan r = Inr x \<longleftrightarrow> r = Inr x"
  by (simp add: as_plan_def split: sum.split)

lemma plan_at_Inr:
  assumes "plan_at s (Some v) m = Inr p"
  obtains declared where "parse_all (CapsuleManifest.filesystem (capability m)) = Inr declared"
    "resolve_mounts v MAX_MOUNT_SCAN_ENTRIES declared []
       (case map_of (gs_mounts s) (cm_name (capsule m)) of Some l \<Rightarrow> l | None \<Rightarrow> []) = Inr (sp_preopens p)"
    "network_plan m (case map_of (gs_egress s) (cm_name (capsule m)) of Some l \<Rightarrow> l | None \<Rightarrow> []) = Inr (sp_network p)"
  using assms unfolding plan_at_def option.case resolve_with_egress_def resolve_with_cap_def
  by (auto simp only: result_iff sandbox_plan.select_convs)

text \<open>What the member has bound and consented to for a capsule.\<close>

definition bound_mounts :: "grants_sandbox \<Rightarrow> manifest \<Rightarrow> fs_mount list" where
  "bound_mounts s m = (case map_of (gs_mounts s) (cm_name (capsule m)) of Some l \<Rightarrow> l | None \<Rightarrow> [])"

definition consented :: "grants_sandbox \<Rightarrow> manifest \<Rightarrow> socket_addr list" where
  "consented s m = (case map_of (gs_egress s) (cm_name (capsule m)) of Some l \<Rightarrow> l | None \<Rightarrow> [])"

text \<open>
  C38. Every folder a capsule call gets is one the manifest declares and the member bound to it; a live
  whole-folder grant covers it for reading, and one for writing where it is opened for writing, which only a
  declared right to write brings about; and everything below it, through folders of folders, was
  looked at: each entry is itself allowed to every operation, or is a link off the deny list, and
  no file in it has a second name elsewhere.
\<close>

theorem mounts_need_live_grants:
  assumes "validate_state (gn_norm v) (files (gn_disk v)) (gn_grants v) = Inr ()" "plan_at s (Some v) m = Inr p"
    "po \<in> set (sp_preopens p)"
  shows "mounted_rightly m (bound_mounts s m) v po"
proof -
  obtain declared where d: "parse_all (CapsuleManifest.filesystem (capability m)) = Inr declared"
    "resolve_mounts v MAX_MOUNT_SCAN_ENTRIES declared [] (bound_mounts s m) = Inr (sp_preopens p)"
    unfolding bound_mounts_def by (rule plan_at_Inr [OF assms(2)])
  show ?thesis using resolve_mounts_sound [OF assms(1) d] assms(3) by simp
qed

section \<open>The addresses a capsule reaches\<close>

text \<open>
  C39. A capsule sends to an address, or connects to it, only when its manifest asks for egress and
  names exactly that address, the member consented to it for this capsule, and it is a public
  address with a port.
\<close>

theorem egress_is_declared_and_consented:
  assumes "plan_at s (Some v) m = Inr p" "permits_socket p a u" "u = TcpConnect \<or> u = UdpSend \<or> u = UdpReceive"
  shows "network (capability m) = EgressAllowed \<and> a \<in> set (consented s m) \<and>
    (\<exists>t \<in> set (network_allow (capability m)). parse_socket t = Some a) \<and> is_public_ip (sa_ip a) \<and> sa_port a \<noteq> 0"
proof -
  obtain n where n: "network_plan m (consented s m) = Inr n" "sp_network p = n"
    unfolding consented_def by (rule plan_at_Inr [OF assms(1)]) simp
  obtain l where l: "n = AllowOnly l" "a \<in> set l"
    using assms(2,3) n(2) by (auto simp: permits_socket_def socket_permitted_def split: network_plan.splits)
  obtain ceil where c: "network (capability m) = EgressAllowed" "a \<in> set ceil" "a \<in> set (consented s m)"
    "parse_network_allow (network_allow (capability m)) = Inr ceil"
    using n(1) l by (auto simp: network_plan_def Let_def result_iff split: if_splits)
  obtain t where t: "t \<in> set (network_allow (capability m))" "parse_network_entry t = Inr a"
    using collect_results_mem [OF c(4) [unfolded parse_network_allow_def] c(2)] by blast
  have "parse_socket t = Some a \<and> is_public_ip (sa_ip a) \<and> sa_port a \<noteq> 0"
    using t(2) by (auto simp: parse_network_entry_def split: option.splits if_splits)
  then show ?thesis using c(1,3) t(1) by blast
qed

section \<open>A concrete sandbox\<close>

text \<open>A disk with one folder and a link to it, a grant to read all of it, and a capsule that asks for it and for one address.\<close>

definition data_disk :: disk where
  "data_disk = \<lparr>files = demo_fs, canonicalize = Some, is_dir = (\<lambda>_. True)\<rparr>"

definition data_grants :: folder_grants where
  "data_grants = \<lparr>state = \<lparr>version = 1, next_id = 2, grants =
     [\<lparr>grant_id = ''g-1'', kind = Folder, root = [RootDir], access_of = access.Read, scope = Subtree, granted_at = 5,
       expires_at = None, granted_by = ''m'', reason = ''r'', revoked_at = None\<rparr>]\<rparr>, fg_home = [RootDir], fg_cwd = [RootDir]\<rparr>"

definition data_listing :: listing where
  "data_listing p =
     (if p = [RootDir] then
        Some [Some \<lparr>se_path = [RootDir, Normal ''l''], se_type = Some LinkEntry, se_links = Some 1\<rparr>,
              Some \<lparr>se_path = [RootDir, Normal ''w''], se_type = Some DirEntry, se_links = Some 2\<rparr>]
      else if p = [RootDir, Normal ''w''] then Some [] else None)"

definition data_view :: grant_view_now where
  "data_view = \<lparr>gn_norm = id, gn_disk = data_disk, gn_grants = data_grants, gn_now = 7, gn_listing = data_listing\<rparr>"

definition data_manifest :: manifest where
  "data_manifest =
     \<lparr>capsule = \<lparr>cm_name = ''c'', cm_version = ''1.0.0'', content_hash = []\<rparr>,
      capability = \<lparr>network = EgressAllowed, filesystem = [''read:/data''], chain_calls = [], subagent_spawn = False,
        network_allow = [''8.8.8.8:443'']\<rparr>,
      data_class = \<lparr>reads = [], writes = [], emits = []\<rparr>,
      risk = \<lparr>risk_tier = LowTier, required_roles = [], break_glass_eligible = False\<rparr>,
      overlay = \<lparr>certified = [], not_certified = []\<rparr>, procedure = \<lparr>gates = []\<rparr>,
      provenance = \<lparr>publisher = [], build_reproducible = True, agentile_sprint = [], tla_spec = []\<rparr>,
      signing = \<lparr>sd_tier = Bundled\<rparr>\<rparr>"

definition data_address :: socket_addr where
  "data_address = \<lparr>sa_ip = IpV4 (V4 8 8 8 8), sa_port = 443, sa_scope = 0\<rparr>"

definition data_session :: grants_sandbox where
  "data_session =
     consent_egress ''c'' [data_address] (bind_mount ''c'' \<lparr>fm_guest = ''/data'', fm_host = ''/''\<rparr> no_bindings)"

definition data_plan :: sandbox_plan where
  "data_plan =
     \<lparr>sp_preopens = [\<lparr>po_host = [RootDir], po_guest = ''/data'', po_perms = ReadOnly, po_grants = [''g-1'']\<rparr>],
      sp_network = AllowOnly [data_address]\<rparr>"

lemma data_path:
  "check_path id demo_fs ctx (Some ''/'') = Inr [RootDir]"
proof -
  have "interpret_path ''/'' ctx = Inr [RootDir]"
    by (simp add: interpret_path_def components_def comp_of_def has_root_def strip_prefix_def starts_with_def)
  moreover have "walk_from demo_fs check [] [RootDir] MAX_SYMLINKS = (Inr [RootDir], 40)" if "check [RootDir] = Inr ()" for check
    using that by (simp add: walk_from.simps arrive_def push_def demo_fs_def MAX_SYMLINKS_def)
  moreover have "lexical [RootDir] = [RootDir]" by (simp add: lexical_def push_def)
  ultimately show ?thesis
    unfolding check_path_Inr_iff using demo_match(1)
    by (intro exI [of _ "''/''"] exI [of _ "[RootDir]"] exI [of _ 40] conjI) (simp_all only: refl)
qed

lemma data_resolve:
  "resolve_checked id data_disk (Some ''/'') ctx = Inr [RootDir]"
  "resolve_checked id data_disk (Some ''/l'') ctx = Inr [RootDir, Normal ''w'']"
  "resolve_checked id data_disk (Some ''/w'') ctx = Inr [RootDir, Normal ''w'']"
proof -
  have s: "on_disk_spelling data_disk [RootDir, Normal ''w''] = Inr [RootDir, Normal ''w'']" "on_disk_spelling data_disk [RootDir] = Inr [RootDir]"
    by (simp_all add: on_disk_spelling_def spelling_from.simps data_disk_def demo_fs_def)
  have f: "files data_disk = demo_fs" by (simp add: data_disk_def)
  show "resolve_checked id data_disk (Some ''/'') ctx = Inr [RootDir]"
    using data_path [of ctx] s by (simp add: resolve_checked_def f)
  show "resolve_checked id data_disk (Some ''/l'') ctx = Inr [RootDir, Normal ''w'']"
    "resolve_checked id data_disk (Some ''/w'') ctx = Inr [RootDir, Normal ''w'']"
    using demo_allowed [of ctx] demo_allowed_plain [of ctx] s by (simp_all add: resolve_checked_def f)
qed

lemma data_checks:
  "grants_check data_view ''/'' OpRead = Allowed [RootDir] ''g-1''"
  "grants_check data_view ''/l'' OpRead = Allowed [RootDir, Normal ''w''] ''g-1''"
  "grants_check data_view ''/w'' OpRead = Allowed [RootDir, Normal ''w''] ''g-1''"
  by (simp_all add: grants_check_def data_view_def check_op_def check_inner_def live_def data_grants_def is_active_def
      op_access_def most_specific_def covers_def data_resolve)

lemma data_valid: "validate_state (gn_norm data_view) (files (gn_disk data_view)) (gn_grants data_view) = Inr ()"
proof -
  have "parse_id ''g-1'' = Some 1"
    by (simp add: parse_id_def strip_prefix_def parse_u64_def parse_dec_def is_digit_def)
  moreover have "is_ok (check_path id demo_fs (guard_ctx data_grants) (Some ''/''))" using data_path by simp
  ultimately show ?thesis
    by (simp add: validate_state_Inr_iff sound_grant_def num_of_def data_view_def data_disk_def data_grants_def
        STATE_VERSION_def has_root_def)
qed

lemma data_scan: "scan_mount data_listing (grants_check data_view) [OpRead] MAX_MOUNT_SCAN_ENTRIES [RootDir] = Inr ()"
  using data_checks by (simp add: scan_mount_def data_listing_def MAX_MOUNT_SCAN_ENTRIES_def)

lemma data_declared: "parse_all [''read:/data''] = Inr [\<lparr>fe_access = FsRead, fe_path = components ''/data''\<rparr>]"
  unfolding parse_all_def by code_simp

lemma data_parsed: "parse_network_allow [''8.8.8.8:443''] = Inr [data_address]"
proof -
  have "read_ipv4 ''8.8.8.8:443'' = Some (V4 8 8 8 8, '':443'')"
    by (simp add: read_ipv4_def eval_nat_numeral read_sep_def read_number_def read_char_def to_digit_def Let_def)
  moreover have "read_port '':443'' = Some (443, [])"
    by (simp add: read_port_def read_number_def read_char_def to_digit_def Let_def)
  moreover have "is_public_ip (IpV4 (V4 8 8 8 8))" by code_simp
  ultimately have "parse_network_entry ''8.8.8.8:443'' = Inr data_address"
    by (simp add: parse_network_entry_def parse_socket_def read_v4_socket_def data_address_def ip_unspecified_def)
  then show ?thesis by (simp add: parse_network_allow_def)
qed

lemma data_planned: "plan_at data_session (Some data_view) data_manifest = Inr data_plan"
proof -
  have n: "network_plan data_manifest [data_address] = Inr (AllowOnly [data_address])"
    using data_parsed by (simp add: network_plan_def data_manifest_def)
  have r: "resolve_mount data_view MAX_MOUNT_SCAN_ENTRIES [\<lparr>fe_access = FsRead, fe_path = components ''/data''\<rparr>] []
      \<lparr>fm_guest = ''/data'', fm_host = ''/''\<rparr> =
    Inr \<lparr>po_host = [RootDir], po_guest = ''/data'', po_perms = ReadOnly, po_grants = [''g-1'']\<rparr>"
    using data_checks(1) data_scan
    by (simp add: resolve_mount_def ops_for_def) (simp add: data_view_def data_grants_def data_disk_def)
  show ?thesis using n r data_declared
    by (simp add: plan_at_def data_session_def consent_egress_def bind_mount_def no_bindings_def resolve_with_egress_def
        resolve_with_cap_def as_plan_def data_plan_def) (simp add: data_manifest_def as_plan_def)
qed

theorem mounts_need_live_grants_witness:
  "mounted_rightly data_manifest [\<lparr>fm_guest = ''/data'', fm_host = ''/''\<rparr>] data_view
     \<lparr>po_host = [RootDir], po_guest = ''/data'', po_perms = ReadOnly, po_grants = [''g-1'']\<rparr>"
proof -
  have "bound_mounts data_session data_manifest = [\<lparr>fm_guest = ''/data'', fm_host = ''/''\<rparr>]"
    by (simp add: bound_mounts_def data_session_def consent_egress_def bind_mount_def no_bindings_def data_manifest_def)
  then show ?thesis using mounts_need_live_grants [OF data_valid data_planned] by (simp add: data_plan_def)
qed

theorem egress_is_declared_and_consented_witness:
  "permits_socket data_plan data_address TcpConnect \<and> is_public_ip (sa_ip data_address)"
proof -
  have p: "permits_socket data_plan data_address TcpConnect"
    by (simp add: permits_socket_def socket_permitted_def data_plan_def)
  then show ?thesis using egress_is_declared_and_consented [OF data_planned p] by simp
qed

end
