(* ===== verification/CapabilityProperties.thy ===== *)
theory CapabilityProperties
  imports Capability
begin

text \<open>
  A signature covers one grant content and no other, and a call a strict server lets through is covered
  by a grant that was added, signed by an enrolled key and not revoked since.
\<close>

section \<open>The signed bytes\<close>

lemma length_le64 [simp]: "length (le64 n) = 8"
  by (simp add: le64_def)

lemma le64_inject: "\<lbrakk>m < 2 ^ 64; n < 2 ^ 64; le64 m = le64 n\<rbrakk> \<Longrightarrow> m = n"
proof -
  assume m: "m < 2 ^ 64" "n < 2 ^ 64" and e: "le64 m = le64 n"
  have "be_value (be_bytes 8 m) = be_value (be_bytes 8 n)" using e by (simp add: le64_def)
  then show "m = n" using m by (simp add: be_value_be_bytes)
qed

lemma preimage_field_inject:
  assumes "preimage_field a @ x = preimage_field b @ y" "length a < 2 ^ 64" "length b < 2 ^ 64"
  shows "a = b \<and> x = y"
proof -
  have "le64 (length a) = le64 (length b) \<and> a @ x = b @ y"
    using assms(1) by (simp add: preimage_field_def)
  then show ?thesis using le64_inject [OF assms(2,3)] by simp
qed

lemma length_ascii_text [simp]: "length (ascii s) = length s"
  by (simp add: ascii_def)

text \<open>Lengths a 64-bit machine can hold.\<close>

definition small_text :: "'a list \<Rightarrow> bool" where
  "small_text s \<longleftrightarrow> length s < 2 ^ 64"

definition small_texts :: "string list \<Rightarrow> bool" where
  "small_texts xs \<longleftrightarrow> small_text xs \<and> list_all small_text xs"

lemma preimage_text_iff:
  "\<lbrakk>small_text s; small_text t\<rbrakk> \<Longrightarrow> preimage_field (ascii s) @ x = preimage_field (ascii t) @ y \<longleftrightarrow> s = t \<and> x = y"
  using preimage_field_inject [of "ascii s" x "ascii t" y] by (auto simp: small_text_def)

lemma preimage_texts_inject:
  "\<lbrakk>concat (map (\<lambda>x. preimage_field (ascii x)) xs) @ u = concat (map (\<lambda>x. preimage_field (ascii x)) ys) @ v;
    length xs = length ys; list_all small_text xs; list_all small_text ys\<rbrakk> \<Longrightarrow> xs = ys \<and> u = v"
proof (induction xs arbitrary: ys)
  case (Cons x xs)
  then obtain y zs where "ys = y # zs" by (cases ys) auto
  then show ?case using Cons by (simp add: preimage_text_iff)
qed simp

lemma preimage_list_iff:
  assumes "small_texts xs" "small_texts ys"
  shows "preimage_list xs @ u = preimage_list ys @ v \<longleftrightarrow> xs = ys \<and> u = v"
proof
  assume "preimage_list xs @ u = preimage_list ys @ v"
  then have e: "le64 (length xs) = le64 (length ys)"
    "concat (map (\<lambda>x. preimage_field (ascii x)) xs) @ u = concat (map (\<lambda>x. preimage_field (ascii x)) ys) @ v"
    by (simp_all add: preimage_list_def)
  have "length xs = length ys" using le64_inject e(1) assms by (simp add: small_texts_def small_text_def)
  then show "xs = ys \<and> u = v" using preimage_texts_inject [OF e(2)] assms by (auto simp: small_texts_def)
qed simp

lemma policy_name_inject [simp]: "policy_name p = policy_name q \<longleftrightarrow> p = q"
  by (cases p; cases q) simp_all

definition value_text :: "128 word option \<Rightarrow> string" where
  "value_text m = (case m of Some v \<Rightarrow> dec (unat v) | None \<Rightarrow> [])"

lemma value_text_inject [simp]: "value_text m = value_text n \<longleftrightarrow> m = n"
proof -
  have "[] \<noteq> dec k" for k using dec_nonempty [of k] by metis
  moreover have "unat v = unat w \<Longrightarrow> v = w" for v w :: "128 word" by (rule unsigned_word_eqI)
  ultimately show ?thesis by (auto simp: value_text_def split: option.splits)
qed

lemma length_dec: "n < 10 ^ k \<Longrightarrow> 0 < k \<Longrightarrow> length (dec n) \<le> k"
proof (induction k arbitrary: n)
  case (Suc k)
  show ?case
  proof (cases "n < 10")
    case True
    then show ?thesis by (subst dec.simps) simp
  next
    case False
    then have "k \<noteq> 0" using Suc.prems by (cases k) auto
    then have "length (dec (n div 10)) \<le> k" using Suc.prems
      by (intro Suc.IH) (auto simp: less_mult_imp_div_less mult.commute)
    then show ?thesis using False by (subst dec.simps) simp
  qed
qed simp

lemma small_value_text: "small_text (value_text m)"
proof (cases m)
  case (Some v)
  have "unat v < 2 ^ 128" using unsigned_less [of v, where ?'a = nat] by simp
  then have "unat v < 10 ^ 39" by simp
  then show ?thesis using Some length_dec [of "unat v" 39] by (simp add: value_text_def small_text_def)
qed (simp add: value_text_def small_text_def)

lemma small_policy_name: "small_text (policy_name p)"
  by (cases p) (simp_all add: small_text_def)

text \<open>Everything of a grant but the key, the signature and the time of connection.\<close>

definition signed_content ::
  "capability_grant \<Rightarrow> string \<times> string \<times> string \<times> string list \<times> string \<times> policy_profile \<times> 128 word option \<times> string list \<times> bool" where
  "signed_content g =
     (cg_id g, cg_issuer g, cg_recipient g, cg_tools g, cg_expires_at g, cg_policy g, cg_max_value g, cg_paths g, cg_revoked g)"

definition small_grant :: "capability_grant \<Rightarrow> bool" where
  "small_grant g \<longleftrightarrow>
     list_all small_text [cg_id g, cg_issuer g, cg_recipient g, cg_expires_at g] \<and> small_texts (cg_tools g) \<and> small_texts (cg_paths g)"

text \<open>
  A signature covers one grant: two grants have the same signed bytes exactly when they agree in
  everything but the key, the signature and the time of connection, lists of tools and paths included
  element by element (so a list is not confused with its joined text).
\<close>

lemma signature_covers_one_grant:
  assumes "small_grant g" "small_grant h"
  shows "signing_preimage g = signing_preimage h \<longleftrightarrow> signed_content g = signed_content h"
proof -
  have s: "small_text (cg_id k)" "small_text (cg_issuer k)" "small_text (cg_recipient k)" "small_text (cg_expires_at k)"
    "small_texts (cg_tools k)" "small_texts (cg_paths k)" if "k = g \<or> k = h" for k
    using assms that by (auto simp: small_grant_def)
  show ?thesis
    unfolding signing_preimage_def value_text_def [symmetric] signed_content_def prod.inject same_append_eq
    by (simp only: preimage_text_iff preimage_list_iff s small_value_text small_policy_name simp_thms policy_name_inject
        value_text_inject list.inject split: if_split) auto
qed

text \<open>The joined list and its parts: two grants that differ in their tools only.\<close>

definition tools_grant :: "string list \<Rightarrow> capability_grant" where
  "tools_grant ts = \<lparr>cg_id = ''g'', cg_issuer = ''w'', cg_recipient = ''r'', cg_tools = ts, cg_max_value = None,
     cg_paths = [''/p''], cg_expires_at = [], cg_policy = PolicyOperator, cg_revoked = False, cg_connected = 0,
     cg_pubkey = replicate 32 1, cg_signature = replicate 64 2\<rparr>"

lemma signature_covers_one_grant_witness:
  "signing_preimage (tools_grant [''file_read,shell_exec'']) \<noteq> signing_preimage (tools_grant [''file_read'', ''shell_exec''])"
proof -
  have "small_grant (tools_grant [''file_read,shell_exec''])" "small_grant (tools_grant [''file_read'', ''shell_exec''])"
    by (simp_all add: small_grant_def tools_grant_def small_texts_def small_text_def)
  then show ?thesis using signature_covers_one_grant by (simp add: signed_content_def tools_grant_def)
qed

section \<open>A server over time\<close>

datatype server_op = AddGrant capability_grant | RevokeGrant string

fun apply_op :: "grant_env \<Rightarrow> mcp_server \<Rightarrow> server_op \<Rightarrow> mcp_server" where
  "apply_op env s (AddGrant g) = add_grant env s g"
| "apply_op env s (RevokeGrant i) = snd (revoke_grant s i)"

definition run_server :: "grant_env \<Rightarrow> mcp_server \<Rightarrow> server_op list \<Rightarrow> mcp_server" where
  "run_server env s ops = foldl (apply_op env) s ops"

lemma grant_problem_of_Inr_iff [result_iff]: "grant_problem_of f r = Inr x \<longleftrightarrow> r = Inr x"
  by (cases r) (simp_all add: grant_problem_of_def)

lemma refuse_unless_Inr_iff [result_iff]: "refuse_unless b e = Inr u \<longleftrightarrow> b"
  by (simp add: refuse_unless_def)

lemma add_grant_cases:
  "add_grant env s g = s \<or> add_grant env s g = s\<lparr>ms_grants := ms_grants s @ [g]\<rparr>"
  by (auto simp: add_grant_def try_add_grant_def result_iff split: sum.split)

lemma add_grant_same:
  "ms_strict (add_grant env s g) = ms_strict s" "ms_trusted (add_grant env s g) = ms_trusted s"
  "ms_registry (add_grant env s g) = ms_registry s"
  using add_grant_cases [of env s g] by auto

lemma apply_op_same [simp]:
  "ms_strict (apply_op env s op') = ms_strict s" "ms_trusted (apply_op env s op') = ms_trusted s"
  "ms_registry (apply_op env s op') = ms_registry s"
  using add_grant_same by (cases op'; simp add: revoke_grant_def split: prod.split)+

lemma run_server_same [simp]:
  "ms_strict (run_server env s ops) = ms_strict s" "ms_trusted (run_server env s ops) = ms_trusted s"
  by (induction ops arbitrary: s) (simp_all add: run_server_def)

lemma revoke_first_find:
  "find (\<lambda>g. cg_id g = gid) (snd (revoke_first i gs)) = Some g \<Longrightarrow>
   if i = gid then cg_revoked g else find (\<lambda>g. cg_id g = gid) gs = Some g"
  by (induction gs) (auto split: if_splits prod.splits)

lemma find_over_append: "find P (xs @ ys) = (case find P xs of Some x \<Rightarrow> Some x | None \<Rightarrow> find P ys)"
  by (induction xs) simp_all

text \<open>The grant an id finds, where it is not revoked, was added and its id not revoked since.\<close>

lemma found_grant_added:
  assumes "ms_grants s = []"
  shows "find (\<lambda>g. cg_id g = gid) (ms_grants (run_server env s ops)) = Some g \<Longrightarrow> \<not> cg_revoked g \<Longrightarrow>
    \<exists>pre post. ops = pre @ AddGrant g # post \<and> RevokeGrant gid \<notin> set post"
proof (induction ops rule: rev_induct)
  case Nil
  then show ?case using assms by (simp add: run_server_def)
next
  case (snoc op' ops)
  let ?s = "run_server env s ops"
  have r: "run_server env s (ops @ [op']) = apply_op env ?s op'" by (simp add: run_server_def)
  have old: ?case if f: "find (\<lambda>g. cg_id g = gid) (ms_grants ?s) = Some g" and n: "op' \<noteq> RevokeGrant gid"
  proof -
    obtain pre post where p: "ops = pre @ AddGrant g # post" "RevokeGrant gid \<notin> set post"
      using snoc.IH [OF f snoc.prems(2)] by blast
    show ?thesis by (rule exI [of _ pre], rule exI [of _ "post @ [op']"]) (use p n in auto)
  qed
  show ?case
  proof (cases op')
    case (AddGrant h)
    from add_grant_cases [of env ?s h] show ?thesis
    proof
      assume "add_grant env ?s h = ?s"
      then show ?thesis using snoc.prems(1) r AddGrant old by simp
    next
      assume "add_grant env ?s h = ?s\<lparr>ms_grants := ms_grants ?s @ [h]\<rparr>"
      then have f: "find (\<lambda>g. cg_id g = gid) (ms_grants ?s @ [h]) = Some g" using snoc.prems(1) r AddGrant by simp
      show ?thesis
      proof (cases "find (\<lambda>g. cg_id g = gid) (ms_grants ?s)")
        case None
        then have "g = h" using f by (auto simp: find_over_append split: option.splits if_splits)
        then show ?thesis using AddGrant by (intro exI [of _ ops] exI [of _ "[]"]) simp
      next
        case (Some g')
        then show ?thesis using f old AddGrant by (simp add: find_over_append)
      qed
    qed
  next
    case (RevokeGrant i)
    then have "find (\<lambda>g. cg_id g = gid) (snd (revoke_first i (ms_grants ?s))) = Some g"
      using snoc.prems(1) r by (simp add: revoke_grant_def split: prod.splits)
    from revoke_first_find [OF this] show ?thesis using snoc.prems(2) RevokeGrant old by (auto split: if_splits)
  qed
qed

text \<open>What a grant has behind it, and what it lets through.\<close>

definition signed_by_enrolled :: "grant_env \<Rightarrow> mcp_server \<Rightarrow> capability_grant \<Rightarrow> bool" where
  "signed_by_enrolled env s g \<longleftrightarrow>
     ms_trusted s (cg_pubkey g) = Some (cg_issuer g) \<and> ge_verify env (cg_pubkey g) (signing_preimage g) (cg_signature g)"

definition live_grant :: "grant_env \<Rightarrow> capability_grant \<Rightarrow> nat \<Rightarrow> bool" where
  "live_grant env g now \<longleftrightarrow>
     \<not> cg_revoked g \<and> (cg_expires_at g = [] \<or> (\<exists>t. ge_rfc3339 env (cg_expires_at g) = Some t \<and> now < t))"

definition in_scope :: "capability_grant \<Rightarrow> string \<Rightarrow> string option \<Rightarrow> 128 word option \<Rightarrow> bool" where
  "in_scope g tool file value \<longleftrightarrow>
     (''*'' \<in> set (cg_tools g) \<or> tool \<in> set (cg_tools g)) \<and> allowed_by (categorize_tool tool) (cg_policy g) \<and>
     (requires_operator_scope tool \<longrightarrow> cg_policy g = PolicyOperator \<or> cg_policy g = PolicyMaintainer) \<and>
     (\<forall>p. file = Some p \<longrightarrow> ParentDir \<notin> set (components p) \<and> (\<exists>a \<in> set (cg_paths g). prefix (components a) (components p))) \<and>
     (value \<noteq> None \<or> categorize_tool tool = WalletWrite \<longrightarrow> (\<exists>v m. value = Some v \<and> cg_max_value g = Some m \<and> v \<le> m))"

lemma check_call_grant_Inr:
  assumes "check_call_grant env s now gid tool file value = Inr ()" "ms_strict s"
  obtains g where "find (\<lambda>g. cg_id g = gid) (ms_grants s) = Some g" "signed_by_enrolled env s g" "live_grant env g now"
    "in_scope g tool file value"
proof -
  obtain g expired u w where g: "find (\<lambda>g. cg_id g = gid) (ms_grants s) = Some g" "\<not> cg_revoked g"
    and e: "is_expired env g now = Inr expired" "\<not> expired" and sg: "check_signed env s g = Inr u"
    and t: "list_ex (\<lambda>t. t = ''*'' \<or> t = tool) (cg_tools g)" "\<not> requires_operator_scope tool \<or> operator_policy (cg_policy g)"
    and p: "case file of Some p \<Rightarrow> path_within_any p (cg_paths g) | None \<Rightarrow> True"
    and v: "check_value g tool value = Inr w" and c: "allowed_by (categorize_tool tool) (cg_policy g)"
    using assms(1) unfolding check_call_grant_def result_iff by blast
  have s: "verify_grant env g = Inr ()" "issuer_key_is_trusted s g = Inr ()"
    using sg assms(2) by (auto simp: check_signed_def result_iff)
  have "signed_by_enrolled env s g"
    using s by (auto simp: signed_by_enrolled_def verify_grant_def issuer_key_is_trusted_def split: if_splits option.splits)
  moreover have "live_grant env g now"
    using g(2) e by (auto simp: live_grant_def is_expired_def parsed_expires_at_def result_iff split: if_splits option.splits)
  moreover have "in_scope g tool file value"
    unfolding in_scope_def
  proof (intro conjI)
    show "''*'' \<in> set (cg_tools g) \<or> tool \<in> set (cg_tools g)" using t(1) by (auto simp: list_ex_iff)
    show "requires_operator_scope tool \<longrightarrow> cg_policy g = PolicyOperator \<or> cg_policy g = PolicyMaintainer"
      using t(2) by (auto simp: operator_policy_def)
    show "\<forall>p. file = Some p \<longrightarrow> ParentDir \<notin> set (components p) \<and> (\<exists>a \<in> set (cg_paths g). prefix (components a) (components p))"
      using p by (auto simp: path_within_any_def list_ex_iff split: if_splits)
    show "value \<noteq> None \<or> categorize_tool tool = WalletWrite \<longrightarrow> (\<exists>v m. value = Some v \<and> cg_max_value g = Some m \<and> v \<le> m)"
      using v by (auto simp: check_value_def result_iff split: if_splits)
  qed (rule c)
  ultimately show thesis using that g(1) by blast
qed

text \<open>
  C40. A call a strict server lets through is covered: some grant of the id was added, its id was not
  revoked since, its content is signed by a key enrolled for its issuer, it is not expired, and it
  names the tool (or every tool), under a policy that allows it. A path the call declares lies inside one
  of the grant's paths and climbs nowhere; a value, which a wallet write must declare, is at or below
  the ceiling.
\<close>

theorem accepted_calls_are_granted:
  assumes "ms_strict s" "ms_grants s = []"
    and "check_call_grant env (run_server env s ops) now gid tool file value = Inr ()"
  shows "\<exists>g pre post. ops = pre @ AddGrant g # post \<and> RevokeGrant gid \<notin> set post \<and> cg_id g = gid \<and>
    signed_by_enrolled env s g \<and> live_grant env g now \<and> in_scope g tool file value"
proof -
  obtain g where g: "find (\<lambda>g. cg_id g = gid) (ms_grants (run_server env s ops)) = Some g"
    "signed_by_enrolled env (run_server env s ops) g" "live_grant env g now" "in_scope g tool file value"
    by (rule check_call_grant_Inr [OF assms(3)]) (use assms(1) in auto)
  have "cg_id g = gid" using g(1) by (auto simp: find_Some_iff)
  moreover obtain pre post where "ops = pre @ AddGrant g # post" "RevokeGrant gid \<notin> set post"
    using found_grant_added [OF assms(2) g(1)] g(3) by (auto simp: live_grant_def)
  ultimately show ?thesis using g by (auto simp: signed_by_enrolled_def)
qed

definition yes_env :: grant_env where
  "yes_env = \<lparr>ge_valid = (\<lambda>_. True), ge_verify = (\<lambda>_ _ _. True), ge_rfc3339 = (\<lambda>_. None)\<rparr>"

definition one_issuer :: mcp_server where
  "one_issuer = with_trusted_issuer (replicate 32 1) ''w'' (new_server [])"

theorem accepted_calls_are_granted_witness:
  "check_call_grant yes_env (run_server yes_env one_issuer [AddGrant (tools_grant [''file_read''])]) 7 ''g'' ''file_read'' (Some ''/p/x'') None =
     Inr () \<and>
   in_scope (tools_grant [''file_read'']) ''file_read'' (Some ''/p/x'') None"
proof -
  let ?g = "tools_grant [''file_read'']"
  have v: "verify_grant yes_env ?g = Inr ()" "issuer_key_is_trusted one_issuer ?g = Inr ()"
    by (simp_all add: verify_grant_def yes_env_def tools_grant_def issuer_key_is_trusted_def one_issuer_def with_trusted_issuer_def)
  have s: "ms_strict one_issuer" "ms_grants one_issuer = []"
    by (simp_all add: one_issuer_def with_trusted_issuer_def new_server_def new_strict_def)
  have p: "parsed_expires_at yes_env ?g = Inr None" "cg_expires_at ?g = []" by (simp_all add: parsed_expires_at_def tools_grant_def)
  have run: "run_server yes_env one_issuer [AddGrant ?g] = one_issuer\<lparr>ms_grants := [?g]\<rparr>"
    using v s p by (simp add: run_server_def add_grant_def try_add_grant_def grant_problem_of_def)
  have t: "issuer_key_is_trusted (one_issuer\<lparr>ms_grants := [?g]\<rparr>) ?g = Inr ()"
    by (simp add: issuer_key_is_trusted_def one_issuer_def with_trusted_issuer_def tools_grant_def)
  have c: "path_within_any ''/p/x'' [''/p'']" "categorize_tool ''file_read'' = Repo" "\<not> requires_operator_scope ''file_read''"
    "allowed_by Repo PolicyOperator" by code_simp+
  have f: "cg_id ?g = ''g''" "\<not> cg_revoked ?g" "cg_tools ?g = [''file_read'']" "cg_paths ?g = [''/p'']" "cg_policy ?g = PolicyOperator"
    "cg_signature ?g \<noteq> []"
    by (simp_all add: tools_grant_def)
  have ok: "check_call_grant yes_env (run_server yes_env one_issuer [AddGrant ?g]) 7 ''g'' ''file_read'' (Some ''/p/x'') None = Inr ()"
    unfolding run using v(1) t s c f p
    by (simp add: check_call_grant_def check_signed_def check_value_def refuse_unless_def grant_problem_of_def is_expired_def)
  from accepted_calls_are_granted [OF s ok] obtain g pre post where
    g: "[AddGrant ?g] = pre @ AddGrant g # post" "in_scope g ''file_read'' (Some ''/p/x'') None" by blast
  then have "g = ?g" by (cases pre) auto
  then show ?thesis using g ok by simp
qed

section \<open>What the path list does not say\<close>

text \<open>An empty path in the list is a prefix of every path, so it opens all of them.\<close>

lemma empty_path_opens_all: "ParentDir \<notin> set (components p) \<Longrightarrow> path_within_any p [[]]"
proof -
  have "components [] = []" by code_simp
  then show "ParentDir \<notin> set (components p) \<Longrightarrow> path_within_any p [[]]" by (simp add: path_within_any_def)
qed

end
