(* ===== verification/Spec2Isabelle.thy ===== *)
theory Spec2Isabelle
  imports Prelude FolderGrantProperties AnchorProperties RecordProperties Hermes ApprovalProperties BreakGlass Net WorkflowProperties
    AutoApproveProperties CaptureProperties CommitProperties GitStateProperties CapsuleProperties CapsuleSandboxProperties
    CapabilityProperties
begin

text \<open>
  A verification library for the Citrate agent runtime: the crates that decide what an AI agent may
  see, do, sign and prove. Paths below are relative to \<open>src/\<close>.

  The program. A message reaches the agent through the Hermes adapter, which decides whose text may
  act as a command. The reasoning loop asks the model, decides on every tool call it proposes, and runs
  workflows whose steps verifiers judge. An effect the agent proposes is parked in the approval queue until a person, or
  a quorum of people in roles, resolves it; a security officer may act out of band under
  break-glass. File access goes through the path guard and the member's folder grants; network
  access through the address classes. Every decision is a record; each day's records become a Merkle
  tree whose commitment is anchored on chain and recorded in a ledger.

  The theories, and the code they translate.

  \<^item> \<open>Prelude\<close>: results and options as the code chains them, checked and saturating 64-bit
    arithmetic, strings (UTF-8 bytes as characters), decimal and big-endian encodings.
  \<^item> \<open>Hermes\<close>: \<open>hermes/core\<close> and \<open>hermes/discord\<close>. The ingress guard, two-plane routing, refusal
    cooldown and audit trail as records with one function per method; \<open>handle\<close> composes them. Only the
    configured owner's text becomes a command, refusals are spaced and their memory bounded, the
    configuration is parsed back as written, and the trail is complete. The sink that records is a locale
    interpreted on the in-memory and the null sink.
  \<^item> \<open>CapsuleManifest\<close>, \<open>Signing\<close>, \<open>Outcome\<close>: the typed manifest, roles, quorums, attested signatures,
    the signer roster (\<open>agent/core/src/capsule/manifest.rs\<close>, \<open>hitl/roles.rs\<close>, \<open>quorum.rs\<close>,
    \<open>signing.rs\<close>, \<open>outcome.rs\<close>). The signature scheme and the hash are parameters; who a signature speaks
    for is a locale interpreted on the code's verification.
  \<^item> \<open>Approval\<close>, \<open>ApprovalMachine\<close>, \<open>ApprovalSafety\<close>, \<open>ApprovalProperties\<close>: \<open>hitl/mod.rs\<close>. Each mutex
    section is one function on the queue; a run interleaves the sections of any number of submitters
    with approvals, signatures, grants and emergency stops. Entering the queue takes three
    steps, one per lock the code takes (frozen, trusted grants, unknown outcomes), with other steps between
    them. No effect proceeds without the person or the quorum it needs, the emergency stop wins over what was
    queued, no waiter is orphaned, unknown outcomes are kept. What the stop misses (a submission that has
    passed the frozen check) is proved as a lemma.
  \<^item> \<open>BreakGlass\<close>: \<open>hitl/break_glass.rs\<close>. The life of an invocation as a phase relation; affirmation
    takes three people in three roles, phases go one way, what is not affirmed in time is surfaced.
  \<^item> \<open>Net\<close>: \<open>agent-guard/src/net.rs\<close>. Public addresses against a table of special-purpose blocks.
  \<^item> \<open>PathGuard\<close>, \<open>PathGuardProperties\<close>: \<open>agent-guard/src/lib.rs\<close>. The deny table, path
    interpretation and the symlink-following walk over a file system record. What is allowed is clean and
    absolute, denied places stay denied, the walk implements a reference resolution relation with
    unique results, and it ends.
  \<^item> \<open>FolderGrants\<close>, \<open>FolderGrantProperties\<close>: \<open>agent-grants/src/lib.rs\<close>, on top of the path guard.
    No access without a live covering grant, the loader's rules are an invariant of granting and
    revoking, revocation is final, full access is read-only for at most a day.
  \<^item> \<open>Merkle\<close>: \<open>agent-records/src/merkle.rs\<close> and \<open>agent-anchor/src/tree.rs\<close>. The tree that keeps its
    levels equals the recursive RFC 6962 tree; accepted paths bind their leaf. A Merkle scheme (handed out
    paths verify) is a locale interpreted on both trees; the batch proofs rest on it.
  \<^item> \<open>Anchor\<close>, \<open>AnchorProperties\<close>: \<open>agent-anchor/src\<close>. What the nightly job anchors can be proven, proofs
    bind their record, the ledger keeps its entries, the check of one's own anchor is right.

  \<^item> \<open>Records\<close>, \<open>RecordLog\<close>, \<open>RecordChain\<close>, \<open>RecordWriter\<close>, \<open>RecordProperties\<close>: \<open>agent-records/src\<close>. The
    hash-chained decision log in segments with a HEAD and a checkpoint: walk, verifier, reads, append
    with rotation and pruning, opening with recovery. The walk accepts exactly the chains of a reference
    view, appends extend the chain, a crash at any point of an append, rotation and pruning included, is
    recovered (with one exception, proved), and equal heads mean equal records.
  \<^item> \<open>Tools\<close>, \<open>Context\<close>, \<open>Turn\<close>, \<open>Workflow\<close>: \<open>agent-loop/src/lib.rs\<close>. Messages, tools, taint and the
    registry; tool retrieval and compaction; the turn loop; workflows. The state carries the trace of
    everything done at the interfaces, and model, hosts, policies, verifiers and the other holders of
    the taint answer with functions of it; the question put to the reviewing model is an event of the trace
    too. \<open>TurnOrder\<close> is a locale of the preorders a turn respects;
    \<open>TurnProperties\<close> interprets it for taint, dispatch and stopping, \<open>WorkflowProperties\<close> for growth;
    \<open>ContextProperties\<close> and \<open>RequestProperties\<close> show what a request contains. After untrusted content
    effects need a member, hosts see announced calls only, stopping and the bounds on work hold, and
    only verifiers say done.
  \<^item> \<open>AutoApprove\<close>, \<open>GitArgs\<close>, \<open>Sandbox\<close>, \<open>ShellGate\<close>, \<open>Cards\<close>, \<open>ShellRun\<close>: commands
    (\<open>agent-shell/src\<close>, \<open>agent-sidecar/src/shell_run.rs\<close>, \<open>auto_approve.rs\<close>, \<open>git_identity.rs\<close>,
    \<open>action_approvals.rs\<close>). The allow-list and plan of a run, the sandbox's arguments, the capture of
    output, the auto-approve language, and the tool that asks the member with a card. A card queue is
    a locale interpreted on both queues. \<open>AutoApproveProperties\<close>: a rule is a language of argument vectors;
    \<open>CaptureProperties\<close>: what is kept; \<open>CardProperties\<close>: one decision, one release; \<open>ShellRunProperties\<close>,
    \<open>CommitProperties\<close>: nothing runs without a release, what runs stays in a granted folder, commits name the
    member. The world of a call is given per phase, since every plan reads it anew. What bubblewrap and
    seatbelt do with their arguments is not modelled.
  \<^item> \<open>GitState\<close>, \<open>GitStateProperties\<close>: \<open>agent-shell/src/git_state.rs\<close>. The reader of git configurations, what
    counts as risky in them, and the revert after a run; when the revert leaves no risky entry, and a
    configuration where it does.
  \<^item> \<open>Text\<close>, \<open>Sockets\<close>, \<open>CapsuleLoad\<close>, \<open>CapsuleHost\<close>, \<open>CapsuleSandbox\<close>, \<open>CapsuleFleet\<close>:
    \<open>agent/core/src/capsule\<close>. Loading a capsule (archive, TOML, content hash,
    manifest checks), its host functions, the plan of its mounts and network, and the fleet that
    dispatches to loaded capsules. \<open>ContentHash\<close>: the content hash as a binding of the files;
    \<open>CapsuleProperties\<close>: only published capsules run, transactions are approved ones;
    \<open>CapsuleSandboxProperties\<close>: mounts need live grants, addresses need a declaration and a consent.
  \<^item> \<open>Capability\<close>, \<open>CapabilityProperties\<close>: \<open>agent-legacy/src/canonical.rs\<close>, \<open>mcp_server.rs\<close>, \<open>tool.rs\<close>.
    Signed capability grants of external runtimes; a signature covers one grant, an accepted call is granted.

  Modelling. Structs are records, enums datatypes, 64-bit integers words, errors values of a sum;
  error texts are left out. Sizes and indices that cannot wrap are natural numbers. Clocks, the file
  system, the signature scheme, SHA-256 and the registry contract are parameters; a property that needs
  a hash without collisions assumes it only for the finitely many strings hashed.

  Bounds. The path walk has the code's budget of 40 symbolic links, and its recursion is proved to
  terminate for any budget; loops that shrink a list, halve a number or climb a path carry a measure;
  no fuel is used except to drive the registry check, whose three calls are proved to be enough.

  Not modelled. JSON and file formats (serde), locks and atomic file replacement, process and
  network input and output, the compilation and execution of WASM, its epoch ticker and the opening of
  mounted directories, the mapping between JSON and component values, the packing of capsules, the HTTP
  service and the DevTools client. The loop's deploy guard, skills and personas, metering, the scheduler
  and the browser scope are listed in the manifest with their reasons.
\<close>

end
